(* ===== verification/Prelude.thy ===== *)
theory Prelude
  imports Complex_Main "HOL-Library.Word" "HOL-Library.AList"
begin

section \<open>Shared types, automation and generic lemmas\<close>

text \<open>
  What every component of the development shares.

  Go values: a Go \<open>string\<close> or \<open>[]byte\<close> is a \<open>string\<close> of HOL (a list of 8-bit characters), a
  \<open>uint64\<close> a \<open>64 word\<close>, an \<open>int\<close> or \<open>int64\<close> an \<open>int\<close> whose wrap-around is written out with
  \<open>wrap64\<close> wherever an operation of the source can leave the range, a \<open>time.Time\<close> or a
  \<open>time.Duration\<close> an \<open>int\<close> of nanoseconds. The zero \<open>time.Time\<close> (1 January of year 1) is \<open>0\<close>, so a
  clock reading is a nonnegative number.

  A fallible Go function returns \<open>'a result\<close>: \<open>Inl\<close> carries the text of the error, \<open>Inr\<close> the value.
  A Go map that the code only looks up is a HOL map; one that the code ranges over is an association
  list with \<open>AList.update\<close>, \<open>AList.delete\<close> and \<open>map_of\<close>.

  The theory also holds the collections of rewrite rules the components extend and the generic
  lemmas on lists, options and association lists that more than one component uses.
\<close>

type_synonym u64 = "64 word"
type_synonym time = int
type_synonym addr = nat
type_synonym 'a result = "string + 'a"

named_theorems go_simps "equations of the modelled standard library"
named_theorems acct_simps "how one operation changes the counters of the routing store"

subsection \<open>Integers of 64 bits\<close>

definition wrap64 :: "int \<Rightarrow> int" where
  "wrap64 x = (x + 2 ^ 63) mod 2 ^ 64 - 2 ^ 63"

lemma wrap64_range: "- (2 ^ 63) \<le> wrap64 x \<and> wrap64 x < 2 ^ 63"
  by (simp add: wrap64_def)

lemma wrap64_id: "- (2 ^ 63) \<le> x \<Longrightarrow> x < 2 ^ 63 \<Longrightarrow> wrap64 x = x"
  by (simp add: wrap64_def)

definition u64_of_int :: "int \<Rightarrow> u64" where
  "u64_of_int x = word_of_int x"

subsection \<open>Durations, in nanoseconds\<close>

definition Millisecond :: time where "Millisecond = 1000000"
definition Second :: time where "Second = 1000000000"
definition Hour :: time where "Hour = 3600000000000"

lemmas duration_defs = Millisecond_def Second_def Hour_def

subsection \<open>Error results\<close>

fun result_bind :: "'a result \<Rightarrow> ('a \<Rightarrow> 'b result) \<Rightarrow> 'b result" where
  "result_bind (Inl e) f = Inl e"
| "result_bind (Inr x) f = f x"

lemma result_bind_Inr_iff: "result_bind r f = Inr y \<longleftrightarrow> (\<exists>x. r = Inr x \<and> f x = Inr y)"
  by (cases r) auto

text \<open>
  A validation is a sequence of checks each of which stops the function with an error: \<open>None\<close> is the
  nil error of Go.
\<close>

type_synonym check = "string option"

definition orelse_check :: "check \<Rightarrow> check \<Rightarrow> check" where
  "orelse_check a b = (case a of None \<Rightarrow> b | Some e \<Rightarrow> Some e)"

definition fail_if :: "bool \<Rightarrow> string \<Rightarrow> check" where
  "fail_if b e = (if b then Some e else None)"

fun first_error :: "check list \<Rightarrow> check" where
  "first_error [] = None"
| "first_error (c # cs) = (case c of Some e \<Rightarrow> Some e | None \<Rightarrow> first_error cs)"

lemma fail_if_None [simp]: "fail_if b e = None \<longleftrightarrow> \<not> b"
  by (simp add: fail_if_def)

lemma orelse_check_None [simp]: "orelse_check a b = None \<longleftrightarrow> a = None \<and> b = None"
  by (simp add: orelse_check_def split: option.split)

lemma first_error_None [simp]: "first_error cs = None \<longleftrightarrow> (\<forall>c \<in> set cs. c = None)"
  by (induction cs) (auto split: option.split)

subsection \<open>Lists\<close>

text \<open>Go's \<open>contains\<close> of a slice is membership.\<close>

fun contains :: "string list \<Rightarrow> string \<Rightarrow> bool" where
  "contains [] v = False"
| "contains (x # xs) v = (if x = v then True else contains xs v)"

lemma contains_iff [simp]: "contains xs v \<longleftrightarrow> v \<in> set xs"
  by (induction xs) auto

text \<open>Counting the elements of a list that satisfy a predicate.\<close>

definition count_if :: "('a \<Rightarrow> bool) \<Rightarrow> 'a list \<Rightarrow> int" where
  "count_if P xs = int (length (filter P xs))"

lemma count_if_simps [simp]:
  "count_if P [] = 0"
  "count_if P (x # xs) = (if P x then 1 else 0) + count_if P xs"
  "count_if P (xs @ ys) = count_if P xs + count_if P ys"
  by (simp_all add: count_if_def)

lemma count_if_nonneg [simp]: "0 \<le> count_if P xs"
  by (simp add: count_if_def)

lemma count_if_update:
  "i < length xs \<Longrightarrow>
   count_if P (xs[i := y]) = count_if P xs - (if P (xs ! i) then 1 else 0) + (if P y then 1 else 0)"
proof (induction xs arbitrary: i)
  case Nil
  then show ?case by simp
next
  case (Cons x xs)
  then show ?case by (cases i) auto
qed

lemma count_if_pos: "i < length xs \<Longrightarrow> P (xs ! i) \<Longrightarrow> 0 < count_if P xs"
  by (auto simp: count_if_def filter_empty_conv)

lemma count_if_cong: "(\<And>x. x \<in> set xs \<Longrightarrow> P x = Q x) \<Longrightarrow> count_if P xs = count_if Q xs"
  unfolding count_if_def by (metis filter_cong)

lemma count_if_zero: "(\<And>x. x \<in> set xs \<Longrightarrow> \<not> P x) \<Longrightarrow> count_if P xs = 0"
  by (simp add: count_if_def)

text \<open>The last \<open>n\<close> elements of a list: what slicing \<open>xs[len(xs)-n:]\<close> keeps.\<close>

definition keep_last :: "nat \<Rightarrow> 'a list \<Rightarrow> 'a list" where
  "keep_last n xs = drop (length xs - n) xs"

lemma keep_last_length [simp]: "length (keep_last n xs) = min n (length xs)"
  by (simp add: keep_last_def min_def)

lemma keep_last_short [simp]: "length xs \<le> n \<Longrightarrow> keep_last n xs = xs"
  by (simp add: keep_last_def)

lemma keep_last_append1: "0 < n \<Longrightarrow> keep_last n (xs @ [x]) = keep_last (n - 1) xs @ [x]"
  by (cases "length xs < n") (auto simp: keep_last_def Suc_diff_le)

lemma keep_last_set: "set (keep_last n xs) \<subseteq> set xs"
  by (simp add: keep_last_def set_drop_subset)

lemma sorted_wrt_keep_last: "sorted_wrt R xs \<Longrightarrow> sorted_wrt R (keep_last n xs)"
  by (simp add: keep_last_def sorted_wrt_drop)

lemma last_keep_last: "xs \<noteq> [] \<Longrightarrow> 0 < n \<Longrightarrow> last (keep_last n xs) = last xs"
  by (simp add: keep_last_def)

lemma keep_last_keep_last: "keep_last n (keep_last n xs @ ys) = keep_last n (xs @ ys)"
  by (cases "length xs \<le> n") (auto simp: keep_last_def add.commute)

text \<open>
  A log that keeps its last \<open>bound\<close> entries, whatever the representation: the ring of execution
  events and the journal of configurations are both instances.
\<close>

locale bounded_log =
  fixes ok :: "'s \<Rightarrow> bool" and push :: "'e \<Rightarrow> 's \<Rightarrow> 's" and contents :: "'s \<Rightarrow> 'e list" and bound :: nat
  assumes push_ok: "ok s \<Longrightarrow> ok (push e s)"
    and push_contents: "ok s \<Longrightarrow> contents (push e s) = keep_last bound (contents s @ [e])"
    and within: "ok s \<Longrightarrow> length (contents s) \<le> bound"
begin

lemma fold_ok: "ok s \<Longrightarrow> ok (fold push es s)"
  by (induction es arbitrary: s) (simp_all add: push_ok)

lemma fold_contents: "ok s \<Longrightarrow> contents (fold push es s) = keep_last bound (contents s @ es)"
  by (induction es arbitrary: s) (simp_all add: within push_ok push_contents keep_last_keep_last)

end

subsection \<open>Association lists\<close>

lemma map_of_AList_update [simp]: "map_of (AList.update k v xs) = (map_of xs)(k \<mapsto> v)"
  by (rule update_conv')

lemma map_of_AList_delete [simp]: "map_of (AList.delete k xs) = (map_of xs)(k := None)"
  by (rule delete_conv')

lemma map_of_filter_key:
  "map_of (filter (\<lambda>p. P (fst p)) xs) k = (if P k then map_of xs k else None)"
  by (induction xs) auto

lemma map_of_filter_distinct:
  "distinct (map fst xs) \<Longrightarrow>
   map_of (filter P xs) k = (case map_of xs k of Some v \<Rightarrow> if P (k, v) then Some v else None | None \<Rightarrow> None)"
proof (induction xs)
  case Nil
  then show ?case by simp
next
  case (Cons x xs)
  then have "map_of xs (fst x) = None"
    by (simp add: map_of_eq_None_iff)
  with Cons show ?case
    by (cases x) auto
qed

lemma distinct_fst_filter: "distinct (map fst xs) \<Longrightarrow> distinct (map fst (filter P xs))"
  by (simp add: distinct_map_filter)

end
