(* ===== verification/Float64.thy ===== *)
theory Float64
  imports Prelude
begin

section \<open>IEEE 754 binary64 values\<close>

text \<open>
  Go's \<open>float64\<close>. A value is a NaN, an infinity or a finite number, kept as the rational it stands
  for; the sign of zero is not kept (no operation of the modelled code can observe it). Each
  operation computes the exact rational result and rounds it to nearest, ties to even, with a
  53-bit significand, gradual underflow at \<open>2 ^ -1074\<close> and overflow to an infinity at \<open>2 ^ 1024\<close>.
  Multiplication and addition round separately: an architecture whose compiler fuses them is not
  modelled.

  All definitions compute. The lemmas are the order facts that the routing policies need: among
  values that are not NaN, \<open>flt\<close> is a strict weak order, and the operations keep scores nonnegative.
\<close>

datatype f64 = NaN | NInf | Fin rat | PInf

subsection \<open>Rounding\<close>

function ilog2 :: "int \<Rightarrow> int" where
  "ilog2 n = (if n < 2 then 0 else 1 + ilog2 (n div 2))"
  by pat_completeness auto
termination
  by (relation "measure nat") auto

declare ilog2.simps [simp del]

definition pow2 :: "int \<Rightarrow> rat" where
  "pow2 k = (if 0 \<le> k then of_int (2 ^ nat k) else 1 / of_int (2 ^ nat (- k)))"

definition round_half_even :: "rat \<Rightarrow> int" where
  "round_half_even q =
     (let f = \<lfloor>q\<rfloor>; r = q - of_int f in
      if r < 1 / 2 then f else if 1 / 2 < r then f + 1 else if even f then f else f + 1)"

text \<open>The exponent of the binade of a positive rational: \<open>2 ^ e \<le> x < 2 ^ (e + 1)\<close>.\<close>

definition binade :: "rat \<Rightarrow> int" where
  "binade x =
     (let (n, d) = quotient_of x; e = ilog2 n - ilog2 d in if x < pow2 e then e - 1 else e)"

definition round_pos :: "rat \<Rightarrow> rat" where
  "round_pos x =
     (let k = max (binade x - 52) (- 1074) in of_int (round_half_even (x / pow2 k)) * pow2 k)"

definition fround :: "rat \<Rightarrow> f64" where
  "fround x =
     (if x = 0 then Fin 0
      else if 0 < x then (let y = round_pos x in if y < pow2 1024 then Fin y else PInf)
      else (let y = round_pos (- x) in if y < pow2 1024 then Fin (- y) else NInf))"

subsection \<open>Operations\<close>

fun fneg :: "f64 \<Rightarrow> f64" where
  "fneg NaN = NaN"
| "fneg NInf = PInf"
| "fneg PInf = NInf"
| "fneg (Fin x) = Fin (- x)"

fun fadd :: "f64 \<Rightarrow> f64 \<Rightarrow> f64" where
  "fadd (Fin x) (Fin y) = fround (x + y)"
| "fadd NaN y = NaN"
| "fadd x NaN = NaN"
| "fadd PInf NInf = NaN"
| "fadd NInf PInf = NaN"
| "fadd PInf y = PInf"
| "fadd NInf y = NInf"
| "fadd x y = y"

fun fmul :: "f64 \<Rightarrow> f64 \<Rightarrow> f64" where
  "fmul (Fin x) (Fin y) = fround (x * y)"
| "fmul NaN y = NaN"
| "fmul x NaN = NaN"
| "fmul PInf (Fin y) = (if y = 0 then NaN else if 0 < y then PInf else NInf)"
| "fmul NInf (Fin y) = (if y = 0 then NaN else if 0 < y then NInf else PInf)"
| "fmul (Fin x) PInf = (if x = 0 then NaN else if 0 < x then PInf else NInf)"
| "fmul (Fin x) NInf = (if x = 0 then NaN else if 0 < x then NInf else PInf)"
| "fmul x y = (if x = y then PInf else NInf)"

text \<open>Division; the zero divisor is taken as \<open>+0\<close>.\<close>

fun fdiv :: "f64 \<Rightarrow> f64 \<Rightarrow> f64" where
  "fdiv (Fin x) (Fin y) =
     (if y = 0 then (if x = 0 then NaN else if 0 < x then PInf else NInf) else fround (x / y))"
| "fdiv NaN y = NaN"
| "fdiv x NaN = NaN"
| "fdiv (Fin x) y = Fin 0"
| "fdiv PInf (Fin y) = (if y < 0 then NInf else PInf)"
| "fdiv NInf (Fin y) = (if y < 0 then PInf else NInf)"
| "fdiv x y = NaN"

fun flt :: "f64 \<Rightarrow> f64 \<Rightarrow> bool" where
  "flt (Fin x) (Fin y) = (x < y)"
| "flt NInf (Fin y) = True"
| "flt NInf PInf = True"
| "flt (Fin x) PInf = True"
| "flt x y = False"

fun feq :: "f64 \<Rightarrow> f64 \<Rightarrow> bool" where
  "feq NaN y = False"
| "feq x y = (x = y)"

definition fle :: "f64 \<Rightarrow> f64 \<Rightarrow> bool" where
  "fle x y = (flt x y \<or> feq x y)"

definition f_of_int :: "int \<Rightarrow> f64" where
  "f_of_int n = fround (of_int n)"

text \<open>\<open>math.Max\<close>: an infinity wins, then a NaN, then the larger value.\<close>

definition fmax :: "f64 \<Rightarrow> f64 \<Rightarrow> f64" where
  "fmax x y =
     (if x = PInf \<or> y = PInf then PInf else if x = NaN \<or> y = NaN then NaN
      else if flt y x then x else y)"

subsection \<open>Order\<close>

lemma flt_irrefl [simp]: "\<not> flt x x"
  by (cases x) auto

lemma flt_trans: "flt x y \<Longrightarrow> flt y z \<Longrightarrow> flt x z"
  by (cases x; cases y; cases z) auto

lemma flt_asym: "flt x y \<Longrightarrow> \<not> flt y x"
  by (cases x; cases y) auto

lemma flt_total: "x \<noteq> NaN \<Longrightarrow> y \<noteq> NaN \<Longrightarrow> flt x y \<or> x = y \<or> flt y x"
  by (cases x; cases y) auto

lemma not_flt_trans: "x \<noteq> NaN \<Longrightarrow> y \<noteq> NaN \<Longrightarrow> z \<noteq> NaN \<Longrightarrow> \<not> flt x y \<Longrightarrow> \<not> flt y z \<Longrightarrow> \<not> flt x z"
  by (cases x; cases y; cases z) auto

lemma feq_iff: "x \<noteq> NaN \<Longrightarrow> feq x y \<longleftrightarrow> x = y"
  by (cases x) auto

subsection \<open>Nonnegative values\<close>

text \<open>A score of a routing policy: finite and not negative, or \<open>+Inf\<close>; never a NaN.\<close>

fun fnonneg :: "f64 \<Rightarrow> bool" where
  "fnonneg (Fin x) = (0 \<le> x)"
| "fnonneg PInf = True"
| "fnonneg x = False"

lemma fnonneg_not_NaN: "fnonneg x \<Longrightarrow> x \<noteq> NaN"
  by (cases x) auto

lemma fnonneg_zero_least: "fnonneg x \<Longrightarrow> \<not> flt x (Fin 0)"
  by (cases x) auto

lemma pow2_pos [simp]: "0 < pow2 k"
  by (simp add: pow2_def)

lemma round_half_even_nonneg: "0 \<le> q \<Longrightarrow> 0 \<le> round_half_even q"
  by (auto simp: round_half_even_def Let_def)

lemma round_pos_nonneg: "0 \<le> x \<Longrightarrow> 0 \<le> round_pos x"
  unfolding round_pos_def Let_def
  by (intro mult_nonneg_nonneg)
    (simp_all add: round_half_even_nonneg less_imp_le)

lemma fround_zero [simp]: "fround 0 = Fin 0"
  by (simp add: fround_def)

lemma fround_nonneg: "0 \<le> x \<Longrightarrow> fnonneg (fround x)"
  by (auto simp: fround_def Let_def round_pos_nonneg)

lemma fnonneg_f_of_int: "0 \<le> n \<Longrightarrow> fnonneg (f_of_int n)"
  by (simp add: f_of_int_def fround_nonneg)

lemma fnonneg_fadd: "fnonneg x \<Longrightarrow> fnonneg y \<Longrightarrow> fnonneg (fadd x y)"
  by (cases x; cases y) (auto simp: fround_nonneg)

lemma fnonneg_fmul_Fin: "fnonneg x \<Longrightarrow> 0 < c \<Longrightarrow> fnonneg (fmul x (Fin c))"
  by (cases x) (auto simp: fround_nonneg)

lemma fnonneg_fdiv_Fin: "fnonneg x \<Longrightarrow> 0 < c \<Longrightarrow> fnonneg (fdiv x (Fin c))"
  by (cases x) (auto simp: fround_nonneg)

lemmas fnonneg_intros = fnonneg_f_of_int fnonneg_fadd fnonneg_fmul_Fin fnonneg_fdiv_Fin

subsection \<open>Exact integers\<close>

text \<open>An integer of at most 53 bits is its own rounding.\<close>

lemma ilog2_le: "n < 2 ^ Suc m \<Longrightarrow> ilog2 n \<le> int m"
proof (induction m arbitrary: n)
  case 0
  then show ?case by (subst ilog2.simps) simp
next
  case (Suc m)
  then have "n div 2 < 2 ^ Suc m" by auto
  then have "ilog2 (n div 2) \<le> int m" by (rule Suc.IH)
  then show ?case by (subst ilog2.simps) simp
qed

lemma round_half_even_int [simp]: "round_half_even (of_int z) = z"
  by (simp add: round_half_even_def)

lemma quotient_of_of_int: "quotient_of (of_int z) = (z, 1)"
  using quotient_of_int [of z] by (simp add: Rat.of_int_def)

lemma binade_le:
  assumes "n < 2 ^ Suc m"
  shows "binade (of_int n) \<le> int m"
proof -
  have "ilog2 1 = 0" by (subst ilog2.simps) simp
  then show ?thesis
    using ilog2_le [OF assms] by (simp add: binade_def quotient_of_of_int Let_def)
qed

lemma round_pos_int:
  assumes "n < 2 ^ 53"
  shows "round_pos (of_int n) = of_int n"
proof -
  have "binade (of_int n) \<le> 52"
    using binade_le [of n 52] assms by simp
  then obtain k where k: "max (binade (of_int n) - 52) (- 1074) = - int k"
    by (metis max.bounded_iff diff_le_0_iff_le neg_0_le_iff_le nonneg_int_cases add.inverse_inverse
        le_numeral_extra(3) neg_numeral_le_zero)
  have "of_int n / pow2 (- int k) = of_int (n * 2 ^ k)"
    by (cases "k = 0") (simp_all add: pow2_def)
  then have "round_half_even (of_int n / pow2 (- int k)) = n * 2 ^ k"
    by (metis round_half_even_int)
  then show ?thesis
    unfolding round_pos_def Let_def k
    by (cases "k = 0") (simp_all add: pow2_def)
qed

lemma f_of_int_exact:
  assumes "0 \<le> n" "n < 2 ^ 53"
  shows "f_of_int n = Fin (of_int n)"
proof (cases "n = 0")
  case False
  have "(of_int n :: rat) < of_int (2 ^ 1024)"
    using assms(2) by (intro of_int_less_iff [THEN iffD2]) simp
  then have "(of_int n :: rat) < pow2 1024"
    by (simp add: pow2_def)
  with False assms show ?thesis
    by (simp add: f_of_int_def fround_def round_pos_int)
qed (simp add: f_of_int_def)

subsection \<open>Lexicographic order\<close>

text \<open>Vectors of scores, compared component by component.\<close>

fun lexlt :: "f64 list \<Rightarrow> f64 list \<Rightarrow> bool" where
  "lexlt (a # as) (b # bs) = (flt a b \<or> (\<not> flt b a \<and> lexlt as bs))"
| "lexlt _ _ = False"

lemma lexlt_irrefl [simp]: "\<not> lexlt xs xs"
  by (induction xs) auto

lemma lexlt_trans:
  assumes "lexlt xs ys" "lexlt ys zs"
    and "NaN \<notin> set xs" "NaN \<notin> set ys" "NaN \<notin> set zs"
  shows "lexlt xs zs"
  using assms
proof (induction xs arbitrary: ys zs)
  case Nil
  then show ?case by simp
next
  case (Cons x xs)
  then obtain y ys' z zs' where [simp]: "ys = y # ys'" "zs = z # zs'"
    by (cases ys; cases zs) auto
  consider "flt x y" "flt y z" | "flt x y" "y = z" | "x = y" "flt y z"
    | "x = y" "y = z" "lexlt xs ys'" "lexlt ys' zs'"
    using Cons.prems flt_total [of x y] flt_total [of y z] by auto
  then show ?case
    using Cons by cases (auto dest: flt_trans)
qed

end
