(* ===== verification/GoStrings.thy ===== *)
theory GoStrings
  imports Prelude "HOL-Library.Sublist"
begin

section \<open>The string functions of the Go standard library\<close>

text \<open>
  The functions of \<open>strings\<close>, \<open>bytes\<close> and \<open>strconv\<close> the modelled code calls, on byte strings.
  White space is what \<open>unicode.IsSpace\<close> accepts, in UTF-8; \<open>TrimSpace\<close> strips such sequences at
  both ends.
\<close>

definition HasPrefix :: "string \<Rightarrow> string \<Rightarrow> bool" where
  "HasPrefix s p = (take (length p) s = p)"

definition HasSuffix :: "string \<Rightarrow> string \<Rightarrow> bool" where
  "HasSuffix s p = (length p \<le> length s \<and> drop (length s - length p) s = p)"

definition TrimPrefix :: "string \<Rightarrow> string \<Rightarrow> string" where
  "TrimPrefix s p = (if HasPrefix s p then drop (length p) s else s)"

definition TrimSuffix :: "string \<Rightarrow> string \<Rightarrow> string" where
  "TrimSuffix s p = (if HasSuffix s p then take (length s - length p) s else s)"

definition ContainsAny :: "string \<Rightarrow> string \<Rightarrow> bool" where
  "ContainsAny s cs = (\<exists>c \<in> set s. c \<in> set cs)"

fun Contains :: "string \<Rightarrow> string \<Rightarrow> bool" where
  "Contains [] p = (p = [])"
| "Contains (c # s) p = (HasPrefix (c # s) p \<or> Contains s p)"

definition TrimRight :: "string \<Rightarrow> char \<Rightarrow> string" where
  "TrimRight s c = rev (dropWhile (\<lambda>x. x = c) (rev s))"

lemma HasPrefix_code [code]:
  "HasPrefix s [] = True"
  "HasPrefix [] (d # p) = False"
  "HasPrefix (c # s) (d # p) = (c = d \<and> HasPrefix s p)"
  by (auto simp: HasPrefix_def)

lemma HasPrefix_append [simp]: "HasPrefix (p @ s) p"
  by (simp add: HasPrefix_def)

lemma HasPrefix_iff: "HasPrefix s p \<longleftrightarrow> (\<exists>t. s = p @ t)"
  by (auto simp: HasPrefix_def) (metis append_take_drop_id)

lemma HasSuffix_iff: "HasSuffix s p \<longleftrightarrow> (\<exists>t. s = t @ p)"
  by (auto simp: HasSuffix_def) (metis append_take_drop_id)

lemma TrimPrefix_append [simp]: "TrimPrefix (p @ s) p = s"
  by (simp add: TrimPrefix_def)

lemma TrimSuffix_append [simp]: "TrimSuffix (s @ p) p = s"
  by (simp add: TrimSuffix_def HasSuffix_def)

subsection \<open>White space\<close>

definition space_runes :: "string list" where
  "space_runes =
     [[CHR 0x09], [CHR 0x0A], [CHR 0x0B], [CHR 0x0C], [CHR 0x0D], [CHR 0x20],
      [CHR 0xC2, CHR 0x85], [CHR 0xC2, CHR 0xA0], [CHR 0xE1, CHR 0x9A, CHR 0x80],
      [CHR 0xE2, CHR 0x80, CHR 0x80], [CHR 0xE2, CHR 0x80, CHR 0x81],
      [CHR 0xE2, CHR 0x80, CHR 0x82], [CHR 0xE2, CHR 0x80, CHR 0x83],
      [CHR 0xE2, CHR 0x80, CHR 0x84], [CHR 0xE2, CHR 0x80, CHR 0x85],
      [CHR 0xE2, CHR 0x80, CHR 0x86], [CHR 0xE2, CHR 0x80, CHR 0x87],
      [CHR 0xE2, CHR 0x80, CHR 0x88], [CHR 0xE2, CHR 0x80, CHR 0x89],
      [CHR 0xE2, CHR 0x80, CHR 0x8A], [CHR 0xE2, CHR 0x80, CHR 0xA8],
      [CHR 0xE2, CHR 0x80, CHR 0xA9], [CHR 0xE2, CHR 0x80, CHR 0xAF],
      [CHR 0xE2, CHR 0x81, CHR 0x9F], [CHR 0xE3, CHR 0x80, CHR 0x80]]"

definition space_prefix :: "string \<Rightarrow> nat" where
  "space_prefix s =
     (case find (\<lambda>p. HasPrefix s p) space_runes of Some p \<Rightarrow> length p | None \<Rightarrow> 0)"

definition space_suffix :: "string \<Rightarrow> nat" where
  "space_suffix s =
     (case find (\<lambda>p. HasSuffix s p) space_runes of Some p \<Rightarrow> length p | None \<Rightarrow> 0)"

lemma space_prefix_code [code]:
  "space_prefix [] = 0"
  "space_prefix (Char b0 b1 b2 b3 b4 b5 b6 b7 # s) =
     (if b6 \<and> \<not> b7 then 0
      else (case find (\<lambda>p. HasPrefix (Char b0 b1 b2 b3 b4 b5 b6 b7 # s) p) space_runes of
              Some p \<Rightarrow> length p | None \<Rightarrow> 0))"
  by (simp_all add: space_prefix_def space_runes_def HasPrefix_def)

text \<open>At most one rune is stripped per byte of the input.\<close>

fun trim_left :: "nat \<Rightarrow> string \<Rightarrow> string" where
  "trim_left 0 s = s"
| "trim_left (Suc n) s =
     (let k = space_prefix s in if k = 0 then s else trim_left n (drop k s))"

fun trim_right :: "nat \<Rightarrow> string \<Rightarrow> string" where
  "trim_right 0 s = s"
| "trim_right (Suc n) s =
     (let k = space_suffix s in if k = 0 then s else trim_right n (take (length s - k) s))"

definition TrimSpace :: "string \<Rightarrow> string" where
  "TrimSpace s = (let t = trim_left (length s) s in trim_right (length t) t)"

text \<open>The fuel is enough: nothing is left to strip.\<close>

lemma space_runes_nonempty: "p \<in> set space_runes \<Longrightarrow> p \<noteq> []"
  by (auto simp: space_runes_def)

lemma space_prefix_Nil: "space_prefix [] = 0"
  by (simp add: space_prefix_def space_runes_def HasPrefix_def)

lemma space_suffix_Nil: "space_suffix [] = 0"
  by (simp add: space_suffix_def space_runes_def HasSuffix_def)

lemma trim_left_done: "length s \<le> n \<Longrightarrow> space_prefix (trim_left n s) = 0"
proof (induction n arbitrary: s)
  case 0
  then show ?case by (simp add: space_prefix_Nil)
next
  case (Suc n)
  show ?case
  proof (cases "space_prefix s = 0")
    case False
    with Suc.prems have "length (drop (space_prefix s) s) \<le> n" by simp
    with False show ?thesis by (simp add: Let_def Suc.IH)
  qed simp
qed

lemma trim_right_done: "length s \<le> n \<Longrightarrow> space_suffix (trim_right n s) = 0"
proof (induction n arbitrary: s)
  case 0
  then show ?case by (simp add: space_suffix_Nil)
next
  case (Suc n)
  show ?case
  proof (cases "space_suffix s = 0")
    case False
    with Suc.prems have "length (take (length s - space_suffix s) s) \<le> n" by simp
    with False show ?thesis by (simp add: Let_def Suc.IH)
  qed simp
qed

lemma TrimSpace_suffix_done: "space_suffix (TrimSpace s) = 0"
  by (simp add: TrimSpace_def Let_def trim_right_done)

subsection \<open>Character classes\<close>

definition is_digit :: "char \<Rightarrow> bool" where
  "is_digit c = (c \<in> set ''0123456789'')"

definition is_letter :: "char \<Rightarrow> bool" where
  "is_letter c =
     (c \<in> set ''abcdefghijklmnopqrstuvwxyz'' \<or> c \<in> set ''ABCDEFGHIJKLMNOPQRSTUVWXYZ'')"

definition is_alnum :: "char \<Rightarrow> bool" where
  "is_alnum c = (is_letter c \<or> is_digit c)"

subsection \<open>Splitting\<close>

text \<open>\<open>strings.Split\<close> with a one-byte separator.\<close>

fun Split :: "char \<Rightarrow> string \<Rightarrow> string list" where
  "Split sep [] = [[]]"
| "Split sep (c # s) =
     (if c = sep then [] # Split sep s
      else (case Split sep s of [] \<Rightarrow> [[c]] | x # xs \<Rightarrow> (c # x) # xs))"

lemma Split_nonempty: "Split sep s \<noteq> []"
  by (induction s) (auto split: list.split)

text \<open>\<open>strings.Cut\<close> with a one-byte separator.\<close>

fun Cut :: "char \<Rightarrow> string \<Rightarrow> string \<times> string \<times> bool" where
  "Cut sep [] = ([], [], False)"
| "Cut sep (c # s) =
     (if c = sep then ([], s, True)
      else (case Cut sep s of (a, b, found) \<Rightarrow> (c # a, b, found)))"

lemma Cut_append: "Cut sep s = (a, b, found) \<Longrightarrow> s = a @ (if found then sep # b else [])"
  by (induction s arbitrary: a b found) (auto split: if_splits prod.splits)

lemma Cut_before: "Cut sep s = (a, b, found) \<Longrightarrow> sep \<notin> set a"
  by (induction s arbitrary: a b found) (auto split: if_splits prod.splits)

lemma Cut_not_found: "Cut sep s = (a, b, False) \<Longrightarrow> b = []"
  by (induction s arbitrary: a b) (auto split: if_splits prod.splits)

subsection \<open>Numbers\<close>

definition digit_char :: "nat \<Rightarrow> char" where
  "digit_char n = ''0123456789'' ! n"

fun show_nat :: "nat \<Rightarrow> string" where
  "show_nat n = (if n < 10 then [digit_char n] else show_nat (n div 10) @ [digit_char (n mod 10)])"

declare show_nat.simps [simp del]

definition Itoa :: "int \<Rightarrow> string" where
  "Itoa n = (if n < 0 then CHR ''-'' # show_nat (nat (- n)) else show_nat (nat n))"

definition digit_value :: "char \<Rightarrow> int" where
  "digit_value c = of_char c - 48"

definition digits_value :: "string \<Rightarrow> int" where
  "digits_value s = fold (\<lambda>c n. 10 * n + digit_value c) s 0"

text \<open>\<open>strconv.Atoi\<close>: an optional sign, digits, and a value in the range of \<open>int64\<close>.\<close>

definition Atoi :: "string \<Rightarrow> int option" where
  "Atoi s =
     (let (neg, ds) =
        (case s of c # t \<Rightarrow> if c = CHR ''-'' then (True, t) else if c = CHR ''+'' then (False, t)
                           else (False, s)
                 | [] \<Rightarrow> (False, []))
      in if ds = [] \<or> \<not> list_all is_digit ds then None
         else (let v = (if neg then - digits_value ds else digits_value ds) in
               if - (2 ^ 63) \<le> v \<and> v < 2 ^ 63 then Some v else None))"

end
