(* ===== verification/Config.thy ===== *)
theory Config
  imports Float64 GoStrings
begin

section \<open>The configuration data model\<close>

text \<open>
  The types of \<open>internal/config\<close> (\<open>config.go\<close>, \<open>accounts.go\<close>, \<open>browser_profiles.go\<close>), field by field, and
  the functions on them that the rest of the gateway calls: tiers, prices, billing policy, local
  inference, and the resolution of account defaults. A pointer field that may be nil is an
  \<open>option\<close>; the two resolver callbacks of \<open>Source\<close>, which are never part of the durable
  configuration, are arguments of the functions that call them. Validation is in
  \<open>ConfigValidate\<close>, the versioned service in \<open>ConfigService\<close>.
\<close>

record BrowserProfile =
  bp_External :: bool
  bp_ID :: string
  bp_Enabled :: bool
  bp_Engine :: string
  bp_CDPURL :: string

record Provider =
  provider_ID :: string
  provider_Enabled :: bool
  provider_AutoApproved :: bool
  provider_PoolStrategy :: string

record Account =
  account_VerificationState :: string
  account_VerificationVersion :: u64
  account_VerificationBinding :: string
  account_VerificationAt :: "time option"
  account_ID :: string
  account_ProviderID :: string
  account_DisplayName :: string
  account_Enabled :: bool
  account_AutoApproved :: bool
  account_CredentialRef :: string
  account_LoginCredentialRef :: string
  account_ExpectedIdentity :: string
  account_CredentialTypeOverride :: bool
  account_BrowserProfileID :: string
  account_BaseURL :: string
  account_Organization :: string
  account_Project :: string
  account_QuotaDomain :: string
  account_MaxInflight :: int
  account_Weight :: int
  account_CreatedAt :: time

record Device =
  device_Enabled :: bool
  device_ADBPath :: string
  device_Serial :: string
  device_StateDir :: string
  device_OCRPath :: string
  device_OCRDataDir :: string
  device_ClipboardSyncMS :: int

record Browser =
  browser_ExpectedIdentity :: string
  browser_Engine :: string
  browser_Enabled :: bool
  browser_CDPURL :: string
  browser_StateFile :: string
  browser_MaxSessions :: int
  browser_SessionTTLSeconds :: int
  browser_PollMS :: int
  browser_MaxPromptBytes :: int
  browser_MaxResponseBytes :: int

record Runtime =
  rt_MaxInflight :: int
  rt_MaxQueued :: int
  rt_MaxBodyBytes :: int
  rt_MaxBufferedBytes :: int
  rt_MaxOutputBytes :: int
  rt_QueueTimeoutMS :: int
  rt_RequestTimeoutMS :: int
  rt_WriteTimeoutMS :: int
  rt_BodyReadTimeoutMS :: int

record Model =
  model_InputUSDPerMillion :: "f64 option"
  model_OutputUSDPerMillion :: "f64 option"
  model_Enabled :: "bool option"
  model_AutoApproved :: "bool option"
  model_DeclaredModel :: string
  model_CanonicalModel :: string
  model_ID :: string
  model_Upstream :: string
  model_Protocols :: "string list"
  model_Tier :: string
  model_RatingBasis :: string
  model_Tools :: string
  model_Vision :: bool
  model_MaxInputBytes :: int

record Source =
  source_Weight :: int
  source_AccountID :: string
  source_CredentialRef :: string
  source_CredentialTypeOverride :: bool
  source_SourceKind :: string
  source_ExecutionLocation :: string
  source_InferenceLocation :: string
  source_BillingMode :: string
  source_CredentialMode :: string
  source_ID :: string
  source_Provider :: string
  source_Adapter :: string
  source_BaseURL :: string
  source_KeyEnv :: string
  source_AccountIDEnv :: string
  source_Organization :: string
  source_Project :: string
  source_Enabled :: bool
  source_AutoApproved :: bool
  source_Local :: bool
  source_Anonymous :: bool
  source_Paid :: bool
  source_MaxInflight :: int
  source_QuotaDomain :: string
  source_QuotaMaxInflight :: int
  source_Models :: "Model list"

record Group =
  group_RequireVision :: bool
  group_MaxUSDPerMillion :: "f64 option"
  group_MaxUSDPerRequest :: "f64 option"
  group_Preferences :: "string list"
  group_MaxAttempts :: int
  group_AllowMetered :: "bool option"
  group_AllowSubscription :: "bool option"
  group_AllowUnknownCost :: "bool option"
  group_AllowedSourceKinds :: "string list"
  group_ID :: string
  group_Type :: string
  group_Sources :: "string list"
  group_MinTier :: string
  group_AllowUnrated :: bool
  group_AllowPaid :: bool
  group_LocalOnly :: bool
  group_RequireTools :: bool

record Config =
  cfg_BrowserProfiles :: "BrowserProfile list"
  cfg_Providers :: "Provider list"
  cfg_Accounts :: "Account list"
  cfg_SchemaVersion :: int
  cfg_Listen :: string
  cfg_APIKeyEnv :: string
  cfg_AdminKeyEnv :: string
  cfg_Runtime :: Runtime
  cfg_Browser :: Browser
  cfg_Device :: Device
  cfg_Sources :: "Source list"
  cfg_Groups :: "Group list"

subsection \<open>Zero values\<close>

text \<open>What reading a missing key of a Go map of structs gives.\<close>

definition zero_Provider :: Provider where
  "zero_Provider = \<lparr>provider_ID = '''', provider_Enabled = False, provider_AutoApproved = False,
     provider_PoolStrategy = ''''\<rparr>"

definition zero_Account :: Account where
  "zero_Account = \<lparr>account_VerificationState = '''', account_VerificationVersion = 0,
     account_VerificationBinding = '''', account_VerificationAt = None, account_ID = '''',
     account_ProviderID = '''', account_DisplayName = '''', account_Enabled = False,
     account_AutoApproved = False, account_CredentialRef = '''', account_LoginCredentialRef = '''',
     account_ExpectedIdentity = '''', account_CredentialTypeOverride = False,
     account_BrowserProfileID = '''', account_BaseURL = '''', account_Organization = '''',
     account_Project = '''', account_QuotaDomain = '''', account_MaxInflight = 0,
     account_Weight = 0, account_CreatedAt = 0\<rparr>"

definition zero_Group :: Group where
  "zero_Group = \<lparr>group_RequireVision = False, group_MaxUSDPerMillion = None,
     group_MaxUSDPerRequest = None, group_Preferences = [], group_MaxAttempts = 0,
     group_AllowMetered = None, group_AllowSubscription = None, group_AllowUnknownCost = None,
     group_AllowedSourceKinds = [], group_ID = '''', group_Type = '''', group_Sources = [],
     group_MinTier = '''', group_AllowUnrated = False, group_AllowPaid = False,
     group_LocalOnly = False, group_RequireTools = False\<rparr>"

text \<open>\<open>Default()\<close>: the configuration a missing file starts from.\<close>

definition Default :: Config where
  "Default = \<lparr>cfg_BrowserProfiles = [], cfg_Providers = [], cfg_Accounts = [],
     cfg_SchemaVersion = 1, cfg_Listen = ''127.0.0.1:8317'', cfg_APIKeyEnv = ''COT_API_KEY'',
     cfg_AdminKeyEnv = ''COT_ADMIN_KEY'',
     cfg_Runtime = \<lparr>rt_MaxInflight = 128, rt_MaxQueued = 128, rt_MaxBodyBytes = 16 * 2 ^ 20,
       rt_MaxBufferedBytes = 128 * 2 ^ 20, rt_MaxOutputBytes = 64 * 2 ^ 20,
       rt_QueueTimeoutMS = 5000, rt_RequestTimeoutMS = 300000, rt_WriteTimeoutMS = 15000,
       rt_BodyReadTimeoutMS = 15000\<rparr>,
     cfg_Browser = \<lparr>browser_ExpectedIdentity = '''', browser_Engine = '''',
       browser_Enabled = False, browser_CDPURL = ''http://127.0.0.1:9222'',
       browser_StateFile = ''.clash-tokens/sessions.json'', browser_MaxSessions = 256,
       browser_SessionTTLSeconds = 86400, browser_PollMS = 1000,
       browser_MaxPromptBytes = 64 * 2 ^ 10, browser_MaxResponseBytes = 2 ^ 20\<rparr>,
     cfg_Device = \<lparr>device_Enabled = False, device_ADBPath = '''', device_Serial = '''',
       device_StateDir = '''', device_OCRPath = '''', device_OCRDataDir = '''',
       device_ClipboardSyncMS = 0\<rparr>,
     cfg_Sources = [],
     cfg_Groups = [zero_Group\<lparr>group_ID := ''auto'', group_Type := ''auto'',
       group_MinTier := ''silver''\<rparr>]\<rparr>"

subsection \<open>Identifiers, references and tiers\<close>

text \<open>The regular expression \<open>^[a-zA-Z0-9][a-zA-Z0-9_.-]{0,95}$\<close>.\<close>

fun identifier_MatchString :: "string \<Rightarrow> bool" where
  "identifier_MatchString [] = False"
| "identifier_MatchString (c # cs) =
     (is_alnum c \<and> length cs \<le> 95 \<and> list_all (\<lambda>d. is_alnum d \<or> d \<in> set ''_.-'') cs)"

definition ValidCredentialRef :: "string \<Rightarrow> bool" where
  "ValidCredentialRef ref =
     (ref = '''' \<or> (HasPrefix ref ''cred://'' \<and> identifier_MatchString (TrimPrefix ref ''cred://'')))"

definition Tier :: "string \<Rightarrow> int" where
  "Tier s =
     (if s = ''bronze'' then 0 else if s = ''silver'' then 1 else if s = ''gold'' then 2
      else if s = ''platinum'' then 3 else if s = ''diamond'' then 4 else - 1)"

lemma Tier_range: "- 1 \<le> Tier s \<and> Tier s \<le> 4"
  by (simp add: Tier_def)

subsection \<open>Prices\<close>

definition ValidPrice :: "f64 option \<Rightarrow> bool" where
  "ValidPrice price =
     (case price of None \<Rightarrow> True
      | Some p \<Rightarrow> p \<noteq> NaN \<and> p \<noteq> PInf \<and> p \<noteq> NInf \<and> fle (Fin 0) p \<and> fle p (Fin 1000000000))"

definition UnitCost :: "Model \<Rightarrow> f64 \<times> bool" where
  "UnitCost m =
     (case (model_InputUSDPerMillion m, model_OutputUSDPerMillion m) of
        (Some i, Some out) \<Rightarrow>
          if \<not> ValidPrice (Some i) \<or> \<not> ValidPrice (Some out) then (Fin 0, False)
          else (fmax i out, True)
      | _ \<Rightarrow> (Fin 0, False))"

lemma ValidPrice_Some: "ValidPrice (Some p) \<longleftrightarrow> (\<exists>x. p = Fin x \<and> 0 \<le> x \<and> x \<le> 1000000000)"
  by (cases p) (auto simp: ValidPrice_def fle_def)

lemma UnitCost_nonneg: "fnonneg (fst (UnitCost m))"
  by (auto simp: UnitCost_def ValidPrice_Some fmax_def split: option.split)

subsection \<open>Source metadata and billing policy\<close>

definition LocalInference :: "Source \<Rightarrow> bool" where
  "LocalInference s =
     (source_InferenceLocation s = ''local'' \<and> source_SourceKind s = ''local_model'' \<and> source_Local s)"

definition EffectiveBilling :: "Source \<Rightarrow> string" where
  "EffectiveBilling s =
     (if source_BillingMode s \<noteq> '''' then source_BillingMode s
      else if source_Paid s then ''metered'' else ''unknown'')"

definition BillingAllowed :: "Group \<Rightarrow> Source \<Rightarrow> bool" where
  "BillingAllowed g s =
     (let b = EffectiveBilling s in
      if b = ''free_allowance'' \<or> b = ''local'' then True
      else
        (let override =
           (if b = ''metered'' then group_AllowMetered g
            else if b = ''subscription'' then group_AllowSubscription g
            else if b = ''unknown'' then group_AllowUnknownCost g else None)
         in case override of
              Some v \<Rightarrow> v
            | None \<Rightarrow> if b = ''unknown'' then False else group_AllowPaid g))"

definition field_too_long :: "string \<Rightarrow> bool" where
  "field_too_long v = (256 < length v \<or> ContainsAny v [CHR 0x0D, CHR 0x0A, CHR 0x00])"

definition source_kinds :: "string list" where
  "source_kinds = [''vendor_api'', ''cloud_api'', ''aggregator_api'', ''product_reverse'',
     ''browser_reverse'', ''app_reverse'', ''cli_reverse'', ''local_model'', ''custom_api'']"

definition allowed_value :: "string \<Rightarrow> string list \<Rightarrow> bool" where
  "allowed_value v allowed = (v = '''' \<or> v \<in> set allowed)"

definition ValidateMetadata :: "Source \<Rightarrow> check" where
  "ValidateMetadata s = first_error
     [fail_if (field_too_long (source_Organization s)) ''invalid organization'',
      fail_if (field_too_long (source_Project s)) ''invalid project'',
      fail_if (\<not> allowed_value (source_SourceKind s) source_kinds) ''invalid source_kind'',
      fail_if (\<not> allowed_value (source_ExecutionLocation s) [''local'', ''remote''])
        ''invalid execution_location'',
      fail_if (\<not> allowed_value (source_InferenceLocation s) [''local'', ''remote'', ''unknown''])
        ''invalid inference_location'',
      fail_if (\<not> allowed_value (source_BillingMode s)
          [''metered'', ''subscription'', ''free_allowance'', ''local'', ''unknown''])
        ''invalid billing_mode'',
      fail_if (\<not> allowed_value (source_CredentialMode s)
          [''api_key'', ''oauth'', ''browser_session'', ''cookie'', ''username_password'',
           ''cli_session'', ''device_session'', ''anonymous''])
        ''invalid credential_mode'',
      fail_if (source_InferenceLocation s = ''local'' \<and>
          (source_SourceKind s \<noteq> ''local_model'' \<or> \<not> source_Local s))
        ''local inference requires an explicit local_model and loopback transport'',
      fail_if (source_SourceKind s = ''local_model'' \<and>
          (source_InferenceLocation s \<noteq> ''local'' \<or> \<not> source_Local s))
        ''local_model requires local inference and loopback transport'',
      fail_if (source_SourceKind s = ''local_model'' \<and> source_BillingMode s \<noteq> ''local'')
        ''local_model requires local billing mode'',
      fail_if (source_BillingMode s = ''local'' \<and>
          (source_SourceKind s \<noteq> ''local_model'' \<or> source_InferenceLocation s \<noteq> ''local''
           \<or> \<not> source_Local s))
        ''local billing mode requires a local_model source'',
      fail_if (source_SourceKind s = ''local_model'' \<and>
          source_Adapter s \<noteq> ''openai'' \<and> source_Adapter s \<noteq> ''anthropic'' \<and>
          source_Adapter s \<noteq> ''gemini'')
        ''local_model requires a generic local inference API'']"

subsection \<open>Account defaults\<close>

definition SourceCredentialRef :: "Config \<Rightarrow> Source \<Rightarrow> string" where
  "SourceCredentialRef c s =
     (if source_CredentialRef s \<noteq> '''' then source_CredentialRef s
      else (case find (\<lambda>a. account_ID a = source_AccountID s) (cfg_Accounts c) of
              Some a \<Rightarrow> account_CredentialRef a | None \<Rightarrow> ''''))"

definition EffectiveSource :: "Config \<Rightarrow> Source \<Rightarrow> Source" where
  "EffectiveSource c s =
     (if source_AccountID s = '''' then s
      else (case find (\<lambda>a. account_ID a = source_AccountID s) (cfg_Accounts c) of
              None \<Rightarrow> s
            | Some a \<Rightarrow> s\<lparr>
                source_BaseURL := (if source_BaseURL s = '''' then account_BaseURL a else source_BaseURL s),
                source_Organization :=
                  (if source_Organization s = '''' then account_Organization a else source_Organization s),
                source_Project :=
                  (if source_Project s = '''' then account_Project a else source_Project s)\<rparr>))"

lemma EffectiveSource_idem: "EffectiveSource c (EffectiveSource c s) = EffectiveSource c s"
  by (auto simp: EffectiveSource_def split: option.split)

lemma EffectiveSource_frame [simp]:
  "source_ID (EffectiveSource c s) = source_ID s"
  "source_Weight (EffectiveSource c s) = source_Weight s"
  "source_AccountID (EffectiveSource c s) = source_AccountID s"
  "source_Provider (EffectiveSource c s) = source_Provider s"
  "source_Adapter (EffectiveSource c s) = source_Adapter s"
  "source_MaxInflight (EffectiveSource c s) = source_MaxInflight s"
  "source_QuotaDomain (EffectiveSource c s) = source_QuotaDomain s"
  "source_QuotaMaxInflight (EffectiveSource c s) = source_QuotaMaxInflight s"
  "source_Models (EffectiveSource c s) = source_Models s"
  "source_Local (EffectiveSource c s) = source_Local s"
  "source_SourceKind (EffectiveSource c s) = source_SourceKind s"
  "source_InferenceLocation (EffectiveSource c s) = source_InferenceLocation s"
  "source_BillingMode (EffectiveSource c s) = source_BillingMode s"
  "source_Enabled (EffectiveSource c s) = source_Enabled s"
  by (auto simp: EffectiveSource_def split: option.split)

text \<open>\<open>filepath.Clean\<close>, \<open>filepath.Dir\<close> and \<open>filepath.Join\<close> on slash-separated paths.\<close>

fun clean_parts :: "bool \<Rightarrow> string list \<Rightarrow> string list \<Rightarrow> string list" where
  "clean_parts rooted acc [] = rev acc"
| "clean_parts rooted acc (p # ps) =
     (if p = '''' \<or> p = ''.'' then clean_parts rooted acc ps
      else if p = ''..'' then
        (case acc of
           [] \<Rightarrow> clean_parts rooted (if rooted then [] else [p]) ps
         | q # qs \<Rightarrow> if q = ''..'' then clean_parts rooted (p # acc) ps
                    else clean_parts rooted qs ps)
      else clean_parts rooted (p # acc) ps)"

fun join_slash :: "string list \<Rightarrow> string" where
  "join_slash [] = []"
| "join_slash [p] = p"
| "join_slash (p # ps) = p @ ''/'' @ join_slash ps"

definition path_clean :: "string \<Rightarrow> string" where
  "path_clean p =
     (let rooted = HasPrefix p ''/''; out = join_slash (clean_parts rooted [] (Split (CHR ''/'') p))
      in if rooted then CHR ''/'' # out else if out = [] then ''.'' else out)"

definition path_dir :: "string \<Rightarrow> string" where
  "path_dir p = path_clean (rev (dropWhile (\<lambda>c. c \<noteq> CHR ''/'') (rev p)))"

definition path_join :: "string list \<Rightarrow> string" where
  "path_join ps = path_clean (join_slash (filter (\<lambda>p. p \<noteq> []) ps))"

fun SourceBrowser_accounts :: "Config \<Rightarrow> Source \<Rightarrow> Account list \<Rightarrow> Browser" where
  "SourceBrowser_accounts c s [] = cfg_Browser c"
| "SourceBrowser_accounts c s (a # as) =
     (if account_ID a \<noteq> source_AccountID s \<or> account_BrowserProfileID a = ''''
      then SourceBrowser_accounts c s as
      else (case find (\<lambda>p. bp_ID p = account_BrowserProfileID a) (cfg_BrowserProfiles c) of
              None \<Rightarrow> SourceBrowser_accounts c s as
            | Some p \<Rightarrow> (cfg_Browser c)\<lparr>
                browser_Enabled := bp_Enabled p, browser_CDPURL := bp_CDPURL p,
                browser_Engine := bp_Engine p,
                browser_ExpectedIdentity := account_ExpectedIdentity a,
                browser_StateFile :=
                  path_join [path_dir (browser_StateFile (cfg_Browser c)), ''profiles'', bp_ID p,
                    ''sessions.json'']\<rparr>))"

definition SourceBrowser :: "Config \<Rightarrow> Source \<Rightarrow> Browser" where
  "SourceBrowser c s = SourceBrowser_accounts c s (cfg_Accounts c)"

end
