(* ===== verification/ExecutionResult.thy ===== *)
theory ExecutionResult
  imports GoStrings
begin

section \<open>Execution results\<close>

text \<open>
  \<open>protocol.ExecutionResult\<close> (\<open>internal/protocol/execution.go\<close>) with its success test, and the
  redaction of \<open>internal/protocol/redaction.go\<close> that every result passes before the router keeps it.
\<close>

record ExecutionResult =
  er_InputTokens :: int
  er_OutputTokens :: int
  er_TotalTokens :: int
  er_UsageKnown :: bool
  er_UpstreamStatus :: int
  er_TransportOK :: bool
  er_ProtocolComplete :: bool
  er_UpstreamError :: string
  er_ClientCanceled :: bool

definition zero_ExecutionResult :: ExecutionResult where
  "zero_ExecutionResult = \<lparr>er_InputTokens = 0, er_OutputTokens = 0, er_TotalTokens = 0,
     er_UsageKnown = False, er_UpstreamStatus = 0, er_TransportOK = False,
     er_ProtocolComplete = False, er_UpstreamError = '''', er_ClientCanceled = False\<rparr>"

definition Successful :: "ExecutionResult \<Rightarrow> bool" where
  "Successful r =
     (er_TransportOK r \<and> er_ProtocolComplete r \<and> er_UpstreamError r = '''' \<and> \<not> er_ClientCanceled r)"

definition gateway_errors :: "string list" where
  "gateway_errors = ['''', ''upstream_error'', ''unexpected_completion_marker'', ''invalid_sse_json'',
     ''upstream_incomplete'', ''upstream_blocked'', ''unknown_stream_protocol'',
     ''invalid_choice_index'', ''missing_completion'', ''truncated_stream'', ''output_limit'',
     ''transport_or_adapter_error'', ''upstream_rejected'', ''expected_stream'']"

definition Redacted :: "ExecutionResult \<Rightarrow> ExecutionResult" where
  "Redacted r =
     (if er_UpstreamError r \<in> set gateway_errors then r
      else r\<lparr>er_UpstreamError := ''upstream_error''\<rparr>)"

lemma Redacted_error: "er_UpstreamError (Redacted r) \<in> set gateway_errors"
  by (auto simp: Redacted_def) (simp add: gateway_errors_def)

lemma Redacted_Successful [simp]: "Successful (Redacted r) = Successful r"
proof -
  have "'''' \<in> set gateway_errors" by (simp add: gateway_errors_def)
  then show ?thesis by (auto simp: Redacted_def Successful_def)
qed

lemma Redacted_idem: "Redacted (Redacted r) = Redacted r"
  using Redacted_error [of r] by (simp add: Redacted_def)

lemma Redacted_frame [simp]:
  "er_InputTokens (Redacted r) = er_InputTokens r"
  "er_OutputTokens (Redacted r) = er_OutputTokens r"
  "er_TotalTokens (Redacted r) = er_TotalTokens r"
  "er_UsageKnown (Redacted r) = er_UsageKnown r"
  "er_UpstreamStatus (Redacted r) = er_UpstreamStatus r"
  "er_ClientCanceled (Redacted r) = er_ClientCanceled r"
  by (simp_all add: Redacted_def)

end
