(* ===== verification/Sha256.thy ===== *)
theory Sha256
  imports Prelude
begin

section \<open>SHA-256\<close>

text \<open>
  The \<open>crypto/sha256\<close> function the gateway uses: sticky account pools order accounts by the first
  eight bytes of a digest, and browser sessions are bound to digests of their history. The words
  are 32-bit, additions wrap, and the definitions follow FIPS 180-4: padding, message schedule and
  64 rounds per block.
\<close>

unbundle bit_operations_syntax

type_synonym w32 = "32 word"

definition sha_K :: "w32 list" where
  "sha_K = [
     1116352408, 1899447441, 3049323471, 3921009573, 961987163, 1508970993, 2453635748,
     2870763221, 3624381080, 310598401, 607225278, 1426881987, 1925078388, 2162078206,
     2614888103, 3248222580, 3835390401, 4022224774, 264347078, 604807628, 770255983,
     1249150122, 1555081692, 1996064986, 2554220882, 2821834349, 2952996808, 3210313671,
     3336571891, 3584528711, 113926993, 338241895, 666307205, 773529912, 1294757372,
     1396182291, 1695183700, 1986661051, 2177026350, 2456956037, 2730485921, 2820302411,
     3259730800, 3345764771, 3516065817, 3600352804, 4094571909, 275423344, 430227734,
     506948616, 659060556, 883997877, 958139571, 1322822218, 1537002063, 1747873779,
     1955562222, 2024104815, 2227730452, 2361852424, 2428436474, 2756734187, 3204031479,
     3329325298]"

definition sha_H0 :: "w32 list" where
  "sha_H0 = [
     1779033703, 3144134277, 1013904242, 2773480762, 1359893119, 2600822924, 528734635,
     1541459225]"

definition byte_of :: "char \<Rightarrow> int" where
  "byte_of c = of_char c"

definition be_word :: "int list \<Rightarrow> w32" where
  "be_word bs = word_of_int (fold (\<lambda>b n. 256 * n + b) bs 0)"

text \<open>The byte \<open>0x80\<close>, zeros up to 56 modulo 64, and the bit length in eight bytes.\<close>

definition sha_pad :: "int list \<Rightarrow> int list" where
  "sha_pad bs =
     (let n = length bs; z = (119 - n mod 64) mod 64; bits = int (8 * n) in
      bs @ [128] @ replicate z 0 @
      map (\<lambda>i. drop_bit (8 * i) bits mod 256) [7, 6, 5, 4, 3, 2, 1, 0])"

fun words_of :: "int list \<Rightarrow> w32 list" where
  "words_of (a # b # c # d # rest) = be_word [a, b, c, d] # words_of rest"
| "words_of _ = []"

definition rotr :: "nat \<Rightarrow> w32 \<Rightarrow> w32" where
  "rotr n x = (drop_bit n x) OR (push_bit (32 - n) x)"

definition sha_expand1 :: "w32 list \<Rightarrow> w32" where
  "sha_expand1 w =
     (let n = length w; a = w ! (n - 15); b = w ! (n - 2);
          s0 = rotr 7 a XOR rotr 18 a XOR drop_bit 3 a;
          s1 = rotr 17 b XOR rotr 19 b XOR drop_bit 10 b
      in w ! (n - 16) + s0 + w ! (n - 7) + s1)"

fun sha_schedule :: "nat \<Rightarrow> w32 list \<Rightarrow> w32 list" where
  "sha_schedule 0 w = w"
| "sha_schedule (Suc n) w = sha_schedule n (w @ [sha_expand1 w])"

fun sha_round :: "w32 \<times> w32 \<Rightarrow> w32 list \<Rightarrow> w32 list" where
  "sha_round (k, w) [a, b, c, d, e, f, g, h] =
     (let s1 = rotr 6 e XOR rotr 11 e XOR rotr 25 e;
          ch = (e AND f) XOR (NOT e AND g);
          t1 = h + s1 + ch + k + w;
          s0 = rotr 2 a XOR rotr 13 a XOR rotr 22 a;
          maj = (a AND b) XOR (a AND c) XOR (b AND c);
          t2 = s0 + maj
      in [t1 + t2, a, b, c, d + t1, e, f, g])"
| "sha_round _ s = s"

definition sha_block :: "w32 list \<Rightarrow> w32 list \<Rightarrow> w32 list" where
  "sha_block block st =
     map2 (+) st (fold sha_round (zip sha_K (sha_schedule 48 block)) st)"

function sha_blocks :: "w32 list \<Rightarrow> w32 list \<Rightarrow> w32 list" where
  "sha_blocks ws st =
     (if length ws < 16 then st else sha_blocks (drop 16 ws) (sha_block (take 16 ws) st))"
  by pat_completeness auto
termination
  by (relation "measure (\<lambda>(ws, st). length ws)") auto

declare sha_blocks.simps [simp del]

text \<open>The digest as eight 32-bit words, most significant first.\<close>

definition sha256_words :: "string \<Rightarrow> w32 list" where
  "sha256_words s = sha_blocks (words_of (sha_pad (map byte_of s))) sha_H0"

text \<open>\<open>binary.BigEndian.Uint64(digest[:8])\<close>\<close>

definition sha256_first8 :: "string \<Rightarrow> int" where
  "sha256_first8 s =
     (case sha256_words s of a # b # _ \<Rightarrow> uint a * 2 ^ 32 + uint b | _ \<Rightarrow> 0)"

definition hex_digit :: "nat \<Rightarrow> char" where
  "hex_digit n = ''0123456789abcdef'' ! n"

definition hex_w32 :: "w32 \<Rightarrow> string" where
  "hex_w32 w = map (\<lambda>i. hex_digit (unat ((drop_bit (4 * i) w) AND 15))) [7, 6, 5, 4, 3, 2, 1, 0]"

text \<open>\<open>hex.EncodeToString(sha256.Sum256(b))\<close>\<close>

definition sha256_hex :: "string \<Rightarrow> string" where
  "sha256_hex s = concat (map hex_w32 (sha256_words s))"

lemma sha256_first8_bound: "0 \<le> sha256_first8 s \<and> sha256_first8 s < 2 ^ 64"
proof -
  have "0 \<le> uint a * 2 ^ 32 + uint b \<and> uint a * 2 ^ 32 + uint b < 2 ^ 64" for a b :: w32
  proof -
    have "uint a < 2 ^ 32" "uint b < 2 ^ 32"
      using uint_lt2p [of a] uint_lt2p [of b] by simp_all
    moreover have "0 \<le> uint a" "0 \<le> uint b" by simp_all
    ultimately show ?thesis by simp
  qed
  then show ?thesis
    by (auto simp: sha256_first8_def split: list.split)
qed

end
