(* ===== verification/Router.thy ===== *)
theory Router
  imports Config ExecutionResult Sha256
begin

section \<open>The router: state, compilation and eligibility\<close>

text \<open>
  The types of \<open>internal/routing\<close> and the first half of \<open>router.go\<close>: \<open>New\<close>, which compiles a
  configuration into a router, and \<open>eligible\<close>, the policy test of one target.

  The runtime counters are shared objects in the source: a source state, a quota domain and an
  account pool are reached from the router that dispatches, from the lease that will return the
  slot, and, after a hot update, from the next router. They live in an explicit store here:
  \<open>heap\<close> holds the objects, and routers, leases and the capacity maps hold addresses
  (\<open>nil\<close> is \<open>None\<close>). The mutex \<open>mu\<close> makes each operation one step, so it is not part of the state.
  The waiter queue, a singly linked list with head and tail, is a list; pointer identity of a
  waiter is its \<open>w_id\<close>.
\<close>

subsection \<open>Types\<close>

record Target =
  target_Source :: nat
  target_Model :: Model

record state =
  st_inputTokens :: u64
  st_outputTokens :: u64
  st_totalTokens :: u64
  st_estimatedCost :: f64
  st_costKnown :: bool
  st_executions :: u64
  st_pricedExecutions :: u64
  st_lastExecution :: "ExecutionResult option"
  st_ttftMS :: f64
  st_lastSuccess :: time
  st_lastFailure :: time
  st_lastHTTPStatus :: int
  st_virtualFinish :: f64
  st_enabled :: bool
  st_active :: int
  st_cooldown :: time
  st_failures :: u64
  st_completed :: u64
  st_latency :: f64
  st_blocked :: bool

record quota =
  qt_lastDispatch :: u64
  qt_virtualFinish :: f64
  qt_active :: int
  qt_limit :: int
  qt_cooldown :: time

record heap =
  h_states :: "state list"
  h_quotas :: "quota list"

record compiledGroup =
  cg_Group :: Group
  cg_members :: "string \<rightharpoonup> nat"

record Query =
  q_Probe :: bool
  q_Detail :: bool
  q_ExcludedSources :: "string list"
  q_Affinity :: string
  q_Model :: string
  q_Protocol :: string
  q_Tools :: bool
  q_Bytes :: int
  q_OutputTokens :: int
  q_SpentUSD :: f64
  q_Stateful :: bool
  q_Vision :: bool

record waiter =
  w_id :: nat
  w_query :: Query
  w_ctxErr :: "string option"
  w_ready :: bool

record Router =
  r_cfg :: Config
  r_targets :: "Target list"
  r_groups :: "string \<rightharpoonup> compiledGroup"
  r_candidates :: "string \<Rightarrow> nat list"
  r_state :: "addr list"
  r_quotas :: "addr list"
  r_accounts :: "addr option list"
  r_parentEnabled :: "bool list"
  r_parentApproved :: "bool list"
  r_poolStrategies :: "string list"
  r_accountWeights :: "f64 list"
  r_hasPools :: bool
  r_waiting :: int
  r_retired :: bool
  r_cursor :: u64
  r_queue :: "waiter list"

record ExecutionEvent =
  ev_Sequence :: u64
  ev_FinishedAt :: time
  ev_Source :: string
  ev_Model :: string
  ev_Protocol :: string
  ev_Validation :: bool
  ev_Status :: int
  ev_Outcome :: string
  ev_DurationMS :: f64
  ev_TTFTMS :: f64
  ev_Execution :: "ExecutionResult option"

record capacity =
  cap_events :: "ExecutionEvent list"
  cap_eventCursor :: nat
  cap_eventSequence :: u64
  cap_active :: int
  cap_dispatchSequence :: u64
  cap_sourceStates :: "(string \<times> addr) list"
  cap_quotaStates :: "(string \<times> addr) list"
  cap_accountStates :: "(string \<times> addr) list"
  cap_current :: nat

subsection \<open>Compiling a configuration\<close>

definition zero_state :: state where
  "zero_state = \<lparr>st_inputTokens = 0, st_outputTokens = 0, st_totalTokens = 0,
     st_estimatedCost = Fin 0, st_costKnown = False, st_executions = 0, st_pricedExecutions = 0,
     st_lastExecution = None, st_ttftMS = Fin 0, st_lastSuccess = 0, st_lastFailure = 0,
     st_lastHTTPStatus = 0, st_virtualFinish = Fin 0, st_enabled = False, st_active = 0,
     st_cooldown = 0, st_failures = 0, st_completed = 0, st_latency = Fin 0, st_blocked = False\<rparr>"

definition new_quota :: "int \<Rightarrow> quota" where
  "new_quota limit = \<lparr>qt_lastDispatch = 0, qt_virtualFinish = Fin 0, qt_active = 0,
     qt_limit = limit, qt_cooldown = 0\<rparr>"

definition zero_compiledGroup :: compiledGroup where
  "zero_compiledGroup = \<lparr>cg_Group = zero_Group, cg_members = Map.empty\<rparr>"

text \<open>A map filled by a loop over a list: a later entry with the same key replaces an earlier one.\<close>

definition map_by :: "('a \<Rightarrow> 'k) \<Rightarrow> 'a list \<Rightarrow> ('k \<rightharpoonup> 'a)" where
  "map_by key xs = map_of (rev (map (\<lambda>x. (key x, x)) xs))"

text \<open>
  \<open>providerConfig\<close> and \<open>accountConfig\<close>, and the flags a source inherits from its provider and
  account. A missing entry leaves the flag as it is.
\<close>

definition parent_enabled :: "Config \<Rightarrow> Source \<Rightarrow> bool" where
  "parent_enabled c s =
     ((case map_by provider_ID (cfg_Providers c) (source_Provider s) of
         Some p \<Rightarrow> provider_Enabled p | None \<Rightarrow> True) \<and>
      (case map_by account_ID (cfg_Accounts c) (source_AccountID s) of
         Some a \<Rightarrow> account_Enabled a | None \<Rightarrow> True))"

definition parent_approved :: "Config \<Rightarrow> Source \<Rightarrow> bool" where
  "parent_approved c s =
     ((case map_by provider_ID (cfg_Providers c) (source_Provider s) of
         Some p \<Rightarrow> provider_AutoApproved p | None \<Rightarrow> True) \<and>
      (case map_by account_ID (cfg_Accounts c) (source_AccountID s) of
         Some a \<Rightarrow> account_AutoApproved a | None \<Rightarrow> True))"

definition pool_strategy :: "Config \<Rightarrow> Source \<Rightarrow> string" where
  "pool_strategy c s =
     (case map_by provider_ID (cfg_Providers c) (source_Provider s) of
        Some p \<Rightarrow> provider_PoolStrategy p | None \<Rightarrow> '''')"

definition account_weight :: "Config \<Rightarrow> Source \<Rightarrow> f64" where
  "account_weight c s =
     f_of_int (max 1
       (case map_by account_ID (cfg_Accounts c) (source_AccountID s) of
          Some a \<Rightarrow> account_Weight a | None \<Rightarrow> 0))"

text \<open>The distinct quota domains, in order of first use, with the limit of the source that names them first.\<close>

fun domain_limits :: "(string \<times> int) list \<Rightarrow> Source list \<Rightarrow> (string \<times> int) list" where
  "domain_limits acc [] = acc"
| "domain_limits acc (s # ss) =
     domain_limits
       (if source_QuotaDomain s \<in> fst ` set acc then acc
        else acc @ [(source_QuotaDomain s, source_QuotaMaxInflight s)]) ss"

definition source_targets :: "nat \<Rightarrow> Source \<Rightarrow> Target list" where
  "source_targets i s = map (\<lambda>m. \<lparr>target_Source = i, target_Model = m\<rparr>) (source_Models s)"

definition compile_targets :: "Config \<Rightarrow> Target list" where
  "compile_targets c =
     concat (map (\<lambda>(i, s). source_targets i s) (zip [0..<length (cfg_Sources c)] (cfg_Sources c)))"

definition compile_group :: "Group \<Rightarrow> compiledGroup" where
  "compile_group g = \<lparr>cg_Group = g,
     cg_members = map_of (rev (zip (group_Sources g) [0..<length (group_Sources g)]))\<rparr>"

definition compile_groups :: "Config \<Rightarrow> (string \<rightharpoonup> compiledGroup)" where
  "compile_groups c k = map_option compile_group (map_by group_ID (cfg_Groups c) k)"

text \<open>\<open>s.ID + "/" + t.Model.ID\<close>\<close>

definition target_name :: "Config \<Rightarrow> Target \<Rightarrow> string" where
  "target_name c t = source_ID (cfg_Sources c ! target_Source t) @ ''/'' @ model_ID (target_Model t)"

text \<open>
  The three loops that fill \<open>candidates\<close>, read at one key: every target appends its index under its
  full name and under its model name, then each group appends the targets of its sources in the
  order the group declares them.
\<close>

definition compile_candidates ::
  "Config \<Rightarrow> Target list \<Rightarrow> (string \<rightharpoonup> compiledGroup) \<Rightarrow> string \<Rightarrow> nat list" where
  "compile_candidates c ts gs key =
     concat (map (\<lambda>i.
         (if target_name c (ts ! i) = key then [i] else []) @
         (if model_ID (target_Model (ts ! i)) = key then [i] else [])) [0..<length ts]) @
     (case gs key of
        None \<Rightarrow> []
      | Some g \<Rightarrow> concat (map (\<lambda>sid.
          filter (\<lambda>i. source_ID (cfg_Sources c ! target_Source (ts ! i)) = sid) [0..<length ts])
          (group_Sources (cg_Group g))))"

text \<open>
  \<open>New\<close>: allocates a state per source, a quota object per account and one per quota domain, and
  returns the router with its own capacity maps. \<open>gen\<close> is the number of the router in the store
  of routers, the value of \<open>capacity.current\<close>.
\<close>

definition New :: "Config \<Rightarrow> nat \<Rightarrow> heap \<Rightarrow> Router \<times> capacity \<times> heap" where
  "New c gen h =
     (let sources = cfg_Sources c; accounts = cfg_Accounts c;
          sb = length (h_states h); ab = length (h_quotas h); qb = ab + length accounts;
          doms = domain_limits [] sources;
          account_addr = map_of (rev (zip (map account_ID accounts) [ab..<qb]));
          quota_addr = map_of (zip (map fst doms) [qb..<qb + length doms]);
          ts = compile_targets c; gs = compile_groups c;
          accs = map (\<lambda>s. account_addr (source_AccountID s)) sources
      in (\<lparr>r_cfg = c, r_targets = ts, r_groups = gs, r_candidates = compile_candidates c ts gs,
           r_state = [sb..<sb + length sources],
           r_quotas = map (\<lambda>s. the (quota_addr (source_QuotaDomain s))) sources,
           r_accounts = accs,
           r_parentEnabled = map (parent_enabled c) sources,
           r_parentApproved = map (parent_approved c) sources,
           r_poolStrategies = map (pool_strategy c) sources,
           r_accountWeights = map (account_weight c) sources,
           r_hasPools = (\<exists>a \<in> set accs. a \<noteq> None),
           r_waiting = 0, r_retired = False, r_cursor = 0, r_queue = []\<rparr>,
          \<lparr>cap_events = [], cap_eventCursor = 0, cap_eventSequence = 0, cap_active = 0,
           cap_dispatchSequence = 0,
           cap_sourceStates =
             fold (\<lambda>(s, a) m. AList.update (source_ID s) a m) (zip sources [sb..<sb + length sources]) [],
           cap_quotaStates = zip (map fst doms) [qb..<qb + length doms],
           cap_accountStates =
             fold (\<lambda>(a, p) m. AList.update (account_ID a) p m) (zip accounts [ab..<qb]) [],
           cap_current = gen\<rparr>,
          h\<lparr>h_states := h_states h @ map (\<lambda>s. zero_state\<lparr>st_enabled := source_Enabled s\<rparr>) sources,
            h_quotas := h_quotas h @ map (\<lambda>a. new_quota (account_MaxInflight a)) accounts
              @ map (\<lambda>(d, l). new_quota l) doms\<rparr>))"

subsection \<open>Reading the store\<close>

definition state_of :: "Router \<Rightarrow> heap \<Rightarrow> nat \<Rightarrow> state" where
  "state_of r h i = h_states h ! (r_state r ! i)"

definition quota_of :: "Router \<Rightarrow> heap \<Rightarrow> nat \<Rightarrow> quota" where
  "quota_of r h i = h_quotas h ! (r_quotas r ! i)"

definition account_of :: "Router \<Rightarrow> heap \<Rightarrow> nat \<Rightarrow> quota option" where
  "account_of r h i = map_option (\<lambda>a. h_quotas h ! a) (r_accounts r ! i)"

definition source_of :: "Router \<Rightarrow> nat \<Rightarrow> Source" where
  "source_of r i = cfg_Sources (r_cfg r) ! i"

subsection \<open>Request cost\<close>

definition estimatedRequestCost :: "Model \<Rightarrow> Query \<Rightarrow> f64 \<times> bool" where
  "estimatedRequestCost m q =
     (case (model_InputUSDPerMillion m, model_OutputUSDPerMillion m) of
        (Some i, Some out) \<Rightarrow>
          if q_Bytes q < 0 \<or> q_OutputTokens q \<le> 0 then (Fin 0, False)
          else if \<not> ValidPrice (Some i) \<or> \<not> ValidPrice (Some out) then (Fin 0, False)
          else (fadd (fmul (fdiv (f_of_int (q_Bytes q)) (Fin 1000000)) i)
                     (fmul (fdiv (f_of_int (q_OutputTokens q)) (Fin 1000000)) out), True)
      | _ \<Rightarrow> (Fin 0, False))"

subsection \<open>Eligibility\<close>

text \<open>The group a model name selects: \<open>auto/<tier>\<close> selects the group \<open>auto\<close>.\<close>

definition group_key :: "string \<Rightarrow> string" where
  "group_key m = (if HasPrefix m ''auto/'' then ''auto'' else m)"

definition requested_tier :: "string \<Rightarrow> int" where
  "requested_tier m = (if HasPrefix m ''auto/'' then Tier (TrimPrefix m ''auto/'') else - 1)"

text \<open>The checks of \<open>eligible\<close> before the group policy, in the order of the code.\<close>

definition eligible_target :: "Router \<Rightarrow> heap \<Rightarrow> Target \<Rightarrow> Query \<Rightarrow> check" where
  "eligible_target r h t q =
     (let s = source_of r (target_Source t); m = target_Model t; st = state_of r h (target_Source t) in
      first_error
       [fail_if (q_Probe q \<and> q_Model q \<noteq> source_ID s @ ''/'' @ model_ID m)
          ''probe_requires_explicit_source'',
        fail_if (contains (q_ExcludedSources q) (source_ID s)) ''already_attempted'',
        fail_if (\<not> q_Probe q \<and> model_Enabled m = Some False) ''model_disabled'',
        fail_if (\<not> q_Probe q \<and> \<not> st_enabled st) ''disabled'',
        fail_if (\<not> q_Probe q \<and> \<not> r_parentEnabled r ! target_Source t) ''provider_or_account_disabled'',
        fail_if (\<not> q_Probe q \<and> st_blocked st) ''authentication_or_policy_block'',
        fail_if (\<not> contains (model_Protocols m) (q_Protocol q)) ''protocol'',
        fail_if (model_MaxInputBytes m < q_Bytes q) ''input_limit'',
        fail_if (q_Tools q \<and> model_Tools m \<noteq> ''native'') ''native_tools_required'',
        fail_if (q_Vision q \<and> \<not> model_Vision m) ''vision_required'',
        fail_if (HasPrefix (q_Model q) ''auto/'' \<and> requested_tier (q_Model q) < 0) ''invalid_tier''])"

text \<open>The policy of a group.\<close>

definition group_cost_check :: "compiledGroup \<Rightarrow> Model \<Rightarrow> Query \<Rightarrow> check" where
  "group_cost_check cg m q = first_error
     [(case group_MaxUSDPerMillion (cg_Group cg) of
         None \<Rightarrow> None
       | Some maxRate \<Rightarrow>
           (case UnitCost m of (cost, known) \<Rightarrow>
              if \<not> known then Some ''cost_unknown'' else fail_if (flt maxRate cost) ''cost_ceiling'')),
      (case group_MaxUSDPerRequest (cg_Group cg) of
         None \<Rightarrow> None
       | Some budget \<Rightarrow>
           (case estimatedRequestCost m q of (cost, known) \<Rightarrow>
              if \<not> known then Some ''request_cost_unknown''
              else fail_if (flt (q_SpentUSD q) (Fin 0) \<or> flt budget (fadd (q_SpentUSD q) cost))
                     ''request_cost_budget''))]"

definition eligible_group :: "Router \<Rightarrow> compiledGroup \<Rightarrow> Target \<Rightarrow> Query \<Rightarrow> check" where
  "eligible_group r cg t q =
     (let s = source_of r (target_Source t); m = target_Model t; g = cg_Group cg;
          minTier = max (requested_tier (q_Model q)) (Tier (group_MinTier g)); tier = Tier (model_Tier m)
      in first_error
       [fail_if (model_AutoApproved m = Some False) ''model_not_approved'',
        fail_if (q_Stateful q) ''stateful_requires_explicit_source'',
        fail_if (\<not> source_AutoApproved s \<or> \<not> r_parentApproved r ! target_Source t
                 \<or> cg_members cg (source_ID s) = None) ''not_approved'',
        fail_if (group_LocalOnly g \<and> \<not> LocalInference s) ''local_only'',
        fail_if (\<not> BillingAllowed g s) ''paid_not_allowed'',
        fail_if (group_AllowedSourceKinds g \<noteq> [] \<and>
                 \<not> contains (group_AllowedSourceKinds g) (source_SourceKind s)) ''source_kind'',
        fail_if (group_RequireTools g \<and> model_Tools m \<noteq> ''native'') ''native_tools_required'',
        fail_if (group_RequireVision g \<and> \<not> model_Vision m) ''vision_required'',
        group_cost_check cg m q,
        fail_if (group_Type g = ''select'' \<and>
                 (group_Sources g = [] \<or> hd (group_Sources g) \<noteq> source_ID s)) ''not_selected'',
        fail_if ((tier < 0 \<and> \<not> group_AllowUnrated g) \<or> (0 \<le> tier \<and> tier < minTier)) ''quality_floor''])"

definition eligible_reason :: "Router \<Rightarrow> heap \<Rightarrow> Target \<Rightarrow> Query \<Rightarrow> check" where
  "eligible_reason r h t q =
     orelse_check (eligible_target r h t q)
       (case r_groups r (group_key (q_Model q)) of
          Some cg \<Rightarrow> eligible_group r cg t q
        | None \<Rightarrow>
            if q_Model q = target_name (r_cfg r) t then None
            else if \<not> q_Stateful q \<and> q_Model q = model_ID (target_Model t) then None
            else Some ''model'')"

definition eligible :: "Router \<Rightarrow> heap \<Rightarrow> Target \<Rightarrow> Query \<Rightarrow> bool \<times> string" where
  "eligible r h t q =
     (case eligible_reason r h t q of None \<Rightarrow> (True, '''') | Some e \<Rightarrow> (False, e))"

lemma fst_eligible [simp]: "fst (eligible r h t q) \<longleftrightarrow> eligible_reason r h t q = None"
  by (simp add: eligible_def split: option.split)

end
