(* ===== verification/Choose.thy ===== *)
theory Choose
  imports Router
begin

section \<open>Choosing a target\<close>

text \<open>
  \<open>choose\<close> of \<open>router.go\<close> with \<open>poolPreferences\<close> (\<open>pools.go\<close>) and \<open>comparePreferences\<close>
  (\<open>preferences.go\<close>): which target a request gets, given the policy of its group, the pool strategy
  of its provider and the free capacity. The index \<open>-1\<close> of the code is \<open>None\<close>.
\<close>

subsection \<open>Preferences\<close>

definition preferenceValue :: "Router \<Rightarrow> heap \<Rightarrow> nat \<Rightarrow> string \<Rightarrow> f64" where
  "preferenceValue r h idx p =
     (let t = r_targets r ! idx; s = source_of r (target_Source t) in
      if p = ''lower_latency'' then
        (let l = st_latency (state_of r h (target_Source t)) in if flt (Fin 0) l then l else PInf)
      else if p = ''lower_cost'' then
        (case UnitCost (target_Model t) of (cost, known) \<Rightarrow> if known then cost else PInf)
      else if p = ''existing_subscription'' \<and> source_BillingMode s = ''subscription'' then Fin 0
      else if p = ''official_api'' \<and>
        (source_SourceKind s = ''vendor_api'' \<or> source_SourceKind s = ''cloud_api'') then Fin 0
      else if p = ''reverse_source'' \<and> HasSuffix (source_SourceKind s) ''_reverse'' then Fin 0
      else Fin 1)"

fun compareListed :: "Router \<Rightarrow> heap \<Rightarrow> nat \<Rightarrow> nat \<Rightarrow> string list \<Rightarrow> int" where
  "compareListed r h candidate current [] = 0"
| "compareListed r h candidate current (p # ps) =
     (let a = preferenceValue r h candidate p; b = preferenceValue r h current p in
      if flt a b then - 1 else if flt b a then 1 else compareListed r h candidate current ps)"

definition comparePreferences :: "Router \<Rightarrow> heap \<Rightarrow> nat \<Rightarrow> nat option \<Rightarrow> string list \<Rightarrow> int" where
  "comparePreferences r h candidate current ps =
     (case current of None \<Rightarrow> - 1 | Some c \<Rightarrow> compareListed r h candidate c ps)"

subsection \<open>Account pools\<close>

text \<open>The capacity and cooldown tests of one source, without the account and the global limit.\<close>

definition source_busy :: "Router \<Rightarrow> heap \<Rightarrow> nat \<Rightarrow> time \<Rightarrow> bool" where
  "source_busy r h i now =
     (source_MaxInflight (source_of r i) \<le> st_active (state_of r h i) \<or>
      qt_limit (quota_of r h i) \<le> qt_active (quota_of r h i) \<or>
      now < st_cooldown (state_of r h i) \<or> now < qt_cooldown (quota_of r h i))"

definition account_busy :: "Router \<Rightarrow> heap \<Rightarrow> nat \<Rightarrow> bool" where
  "account_busy r h i =
     (case account_of r h i of Some a \<Rightarrow> qt_limit a \<le> qt_active a | None \<Rightarrow> False)"

definition pool_score :: "Router \<Rightarrow> Query \<Rightarrow> nat \<Rightarrow> quota \<Rightarrow> f64" where
  "pool_score r q i a =
     (let strategy = r_poolStrategies r ! i in
      if strategy = ''weighted'' then qt_virtualFinish a
      else if strategy = ''least-load'' then fdiv (f_of_int (qt_active a)) (f_of_int (qt_limit a))
      else if strategy = ''sticky'' \<and> q_Affinity q \<noteq> '''' then
        fdiv (f_of_int (sha256_first8 (q_Affinity q @ [CHR 0x00] @ source_AccountID (source_of r i))))
             (f_of_int (2 ^ 64 - 1))
      else Fin 0)"

text \<open>One iteration of the loop: \<open>best\<close> maps a provider to account, score and last dispatch.\<close>

definition pool_step ::
  "Router \<Rightarrow> heap \<Rightarrow> Query \<Rightarrow> time \<Rightarrow> nat \<Rightarrow> (string \<rightharpoonup> string \<times> f64 \<times> u64) \<Rightarrow>
   (string \<rightharpoonup> string \<times> f64 \<times> u64)" where
  "pool_step r h q now idx best =
     (let t = r_targets r ! idx; i = target_Source t; s = source_of r i in
      case account_of r h i of
        None \<Rightarrow> best
      | Some a \<Rightarrow>
          if \<not> fst (eligible r h t q) then best
          else if qt_limit a \<le> qt_active a \<or> source_busy r h i now then best
          else (let score = pool_score r q i a in
                case best (source_Provider s) of
                  None \<Rightarrow> best(source_Provider s \<mapsto> (source_AccountID s, score, qt_lastDispatch a))
                | Some (_, old_score, old_last) \<Rightarrow>
                    if flt score old_score \<or> (feq score old_score \<and> qt_lastDispatch a < old_last)
                    then best(source_Provider s \<mapsto> (source_AccountID s, score, qt_lastDispatch a))
                    else best))"

definition poolPreferences ::
  "Router \<Rightarrow> heap \<Rightarrow> Query \<Rightarrow> nat list \<Rightarrow> time \<Rightarrow> (string \<rightharpoonup> string)" where
  "poolPreferences r h q candidates now =
     (\<lambda>p. map_option fst (fold (pool_step r h q now) candidates Map.empty p))"

subsection \<open>The scan\<close>

text \<open>The strategy score of a candidate.\<close>

definition strategy_value :: "Router \<Rightarrow> heap \<Rightarrow> compiledGroup \<Rightarrow> nat \<Rightarrow> f64" where
  "strategy_value r h g idx =
     (let i = target_Source (r_targets r ! idx); st = state_of r h i; s = source_of r i;
          load = fdiv (f_of_int (st_active st)) (f_of_int (source_MaxInflight s));
          ty = group_Type (cg_Group g)
      in if ty = ''weighted'' then st_virtualFinish st
         else if ty = ''fallback'' \<or> ty = ''select'' then
           (case cg_members g (source_ID s) of Some n \<Rightarrow> f_of_int (int n) | None \<Rightarrow> Fin 0)
         else if ty = ''latency'' then st_latency st
         else if ty = ''auto'' then fadd load (fdiv (st_latency st) (Fin 1000000))
         else load)"

text \<open>A candidate that \<open>choose\<close> passes over although its target is eligible.\<close>

definition passed_over ::
  "Router \<Rightarrow> heap \<Rightarrow> time \<Rightarrow> (string \<rightharpoonup> string) \<Rightarrow> nat \<Rightarrow> bool" where
  "passed_over r h now preferred idx =
     (let i = target_Source (r_targets r ! idx); s = source_of r i in
      (case preferred (source_Provider s) of
         Some account \<Rightarrow> source_AccountID s \<noteq> '''' \<and> account \<noteq> source_AccountID s
       | None \<Rightarrow> False)
      \<or> account_busy r h i \<or> source_busy r h i now)"

datatype scan = Continue "nat option" f64 bool | Break "nat option" bool | Return

definition choose_step ::
  "Router \<Rightarrow> capacity \<Rightarrow> heap \<Rightarrow> Query \<Rightarrow> time \<Rightarrow> compiledGroup \<Rightarrow> (string \<rightharpoonup> string) \<Rightarrow>
   nat \<Rightarrow> nat option \<Rightarrow> f64 \<Rightarrow> bool \<Rightarrow> scan" where
  "choose_step r cap h q now g preferred idx best score elig =
     (if \<not> fst (eligible r h (r_targets r ! idx) q) then Continue best score elig
      else if rt_MaxInflight (cfg_Runtime (r_cfg r)) \<le> cap_active cap then Return
      else if passed_over r h now preferred idx then Continue best score True
      else
        (let value = strategy_value r h g idx;
             preference = comparePreferences r h idx best (group_Preferences (cg_Group g))
         in if best = None \<or> preference < 0 \<or> (preference = 0 \<and> flt value score) then
              (if feq value (Fin 0) \<and> group_Preferences (cg_Group g) = []
               then Break (Some idx) True else Continue (Some idx) value True)
            else Continue best score True))"

text \<open>
  The loop over \<open>off\<close>, with \<open>position\<close> running around the candidate list; \<open>n\<close> counts the
  iterations that are left.
\<close>

fun choose_loop ::
  "Router \<Rightarrow> capacity \<Rightarrow> heap \<Rightarrow> Query \<Rightarrow> time \<Rightarrow> compiledGroup \<Rightarrow> (string \<rightharpoonup> string) \<Rightarrow>
   nat list \<Rightarrow> nat \<Rightarrow> nat \<Rightarrow> nat option \<Rightarrow> f64 \<Rightarrow> bool \<Rightarrow> nat option \<times> bool" where
  "choose_loop r cap h q now g preferred candidates 0 position best score elig = (best, elig)"
| "choose_loop r cap h q now g preferred candidates (Suc n) position best score elig =
     (let idx = candidates ! position;
          position' = (if Suc position = length candidates then 0 else Suc position)
      in case choose_step r cap h q now g preferred idx best score elig of
           Continue best' score' elig' \<Rightarrow>
             choose_loop r cap h q now g preferred candidates n position' best' score' elig'
         | Break best' elig' \<Rightarrow> (best', elig')
         | Return \<Rightarrow> (None, True))"

definition group_of :: "Router \<Rightarrow> Query \<Rightarrow> compiledGroup" where
  "group_of r q =
     (case r_groups r (group_key (q_Model q)) of Some g \<Rightarrow> g | None \<Rightarrow> zero_compiledGroup)"

definition candidates_of :: "Router \<Rightarrow> Query \<Rightarrow> nat list" where
  "candidates_of r q = r_candidates r (group_key (q_Model q))"

definition preferred_of :: "Router \<Rightarrow> heap \<Rightarrow> Query \<Rightarrow> time \<Rightarrow> (string \<rightharpoonup> string)" where
  "preferred_of r h q now =
     (let ty = group_Type (cg_Group (group_of r q)) in
      if r_hasPools r \<and> ty \<noteq> ''fallback'' \<and> ty \<noteq> ''select'' \<and> ty \<noteq> ''weighted''
      then poolPreferences r h q (candidates_of r q) now else Map.empty)"

definition router_choose :: "Router \<Rightarrow> capacity \<Rightarrow> heap \<Rightarrow> Query \<Rightarrow> time \<Rightarrow> nat option \<times> bool" where
  "router_choose r cap h q now =
     (if r_retired r then (None, False)
      else
        (let candidates = candidates_of r q;
             position = (if candidates = [] then 0 else unat (r_cursor r) mod length candidates)
         in choose_loop r cap h q now (group_of r q) (preferred_of r h q now) candidates
              (length candidates) position None PInf False))"

subsection \<open>The scan as a list traversal\<close>

text \<open>The loop visits the candidates once each, rotated to the start position.\<close>

fun choose_list ::
  "Router \<Rightarrow> capacity \<Rightarrow> heap \<Rightarrow> Query \<Rightarrow> time \<Rightarrow> compiledGroup \<Rightarrow> (string \<rightharpoonup> string) \<Rightarrow>
   nat list \<Rightarrow> nat option \<Rightarrow> f64 \<Rightarrow> bool \<Rightarrow> nat option \<times> bool" where
  "choose_list r cap h q now g preferred [] best score elig = (best, elig)"
| "choose_list r cap h q now g preferred (idx # rest) best score elig =
     (case choose_step r cap h q now g preferred idx best score elig of
        Continue best' score' elig' \<Rightarrow> choose_list r cap h q now g preferred rest best' score' elig'
      | Break best' elig' \<Rightarrow> (best', elig')
      | Return \<Rightarrow> (None, True))"

text \<open>The next \<open>n\<close> elements of a ring, from a position on.\<close>

fun ring_from :: "'a list \<Rightarrow> nat \<Rightarrow> nat \<Rightarrow> 'a list" where
  "ring_from xs 0 p = []"
| "ring_from xs (Suc n) p = xs ! p # ring_from xs n (if Suc p = length xs then 0 else Suc p)"

lemma ring_from_drop: "p \<le> length xs \<Longrightarrow> n = length xs - p \<Longrightarrow>
   ring_from xs n (if p = length xs then 0 else p) = drop p xs"
proof (induction n arbitrary: p)
  case 0
  then show ?case by simp
next
  case (Suc n)
  then have "p < length xs" by simp
  then have "drop p xs = xs ! p # drop (Suc p) xs" by (rule Cons_nth_drop_Suc [symmetric])
  moreover have "ring_from xs n (if Suc p = length xs then 0 else Suc p) = drop (Suc p) xs"
    using Suc.prems by (intro Suc.IH) auto
  ultimately show ?case using \<open>p < length xs\<close> by simp
qed

lemma ring_from_add:
  "p < length xs \<Longrightarrow> n \<le> length xs - p \<Longrightarrow>
   ring_from xs (n + m) p =
   ring_from xs n p @ ring_from xs m (if p + n = length xs then 0 else p + n)"
proof (induction n arbitrary: p)
  case 0
  then show ?case by simp
next
  case (Suc n)
  show ?case
  proof (cases "Suc p = length xs")
    case True
    with Suc.prems have "n = 0" by simp
    with True show ?thesis by simp
  next
    case False
    with Suc.prems have "Suc p < length xs" "n \<le> length xs - Suc p" by auto
    from Suc.IH [OF this] False show ?thesis by simp
  qed
qed

lemma ring_from_take: "n \<le> length xs \<Longrightarrow> 0 < length xs \<Longrightarrow> ring_from xs n 0 = take n xs"
proof (induction n)
  case 0
  then show ?case by simp
next
  case (Suc n)
  then have "ring_from xs (n + 1) 0 = ring_from xs n 0 @ ring_from xs 1 (if 0 + n = length xs then 0 else 0 + n)"
    by (intro ring_from_add) auto
  with Suc show ?case by (simp add: take_Suc_conv_app_nth)
qed

lemma ring_from_rotate:
  assumes "p < length xs"
  shows "ring_from xs (length xs) p = drop p xs @ take p xs"
proof -
  have "ring_from xs (length xs - p + p) p =
      ring_from xs (length xs - p) p @ ring_from xs p (if p + (length xs - p) = length xs then 0 else p + (length xs - p))"
    using assms by (intro ring_from_add) auto
  moreover have "ring_from xs (length xs - p) p = drop p xs"
    using ring_from_drop [of p xs "length xs - p"] assms by simp
  moreover have "ring_from xs p 0 = take p xs"
    using assms by (intro ring_from_take) auto
  ultimately show ?thesis
    using assms by simp
qed

lemma choose_loop_list:
  "choose_loop r cap h q now g pr cs n p best score e =
   choose_list r cap h q now g pr (ring_from cs n p) best score e"
  by (induction n arbitrary: p best score e) (auto simp: Let_def split: scan.split)

definition scan_order :: "Router \<Rightarrow> Query \<Rightarrow> nat list" where
  "scan_order r q =
     (let cs = candidates_of r q; p = unat (r_cursor r) mod length cs in drop p cs @ take p cs)"

lemma set_scan_order [simp]: "set (scan_order r q) = set (candidates_of r q)"
  unfolding scan_order_def Let_def
  by (metis Un_commute append_take_drop_id set_append)

lemma router_choose_eq_list:
  "router_choose r cap h q now =
     (if r_retired r then (None, False)
      else choose_list r cap h q now (group_of r q) (preferred_of r h q now) (scan_order r q)
             None PInf False)"
proof (cases "candidates_of r q = []")
  case True
  then show ?thesis by (simp add: router_choose_def scan_order_def Let_def)
next
  case False
  then show ?thesis
    by (simp add: router_choose_def scan_order_def Let_def choose_loop_list ring_from_rotate)
qed

end
