(* ===== verification/Dispatch.thy ===== *)
theory Dispatch
  imports Choose
begin

section \<open>Leases: acquiring, releasing and hot updates\<close>

text \<open>
  The operations of the router that change state: \<open>Acquire\<close>, \<open>Release\<close>, \<open>SetEnabled\<close>, \<open>signal\<close>,
  \<open>turn\<close>, \<open>removeWaiter\<close> (\<open>router.go\<close>), \<open>recordEvent\<close> and \<open>ExecutionEvents\<close> (\<open>events.go\<close>),
  \<open>RecordExecution\<close> and \<open>FirstOutput\<close> (\<open>output.go\<close>), and \<open>Adopt\<close> (\<open>reconfigure.go\<close>).

  \<open>sys\<close> is everything the mutex \<open>capacity.mu\<close> protects: the store, the shared capacity, the routers
  of all generations and the leases they handed out. Each operation runs with the mutex held and
  reads the clock once, as \<open>now\<close>. The blocking loop of \<open>Acquire\<close> becomes two operations, the part
  before it first waits (\<open>Acquire_start\<close>) and a later turn of the loop after it was woken
  (\<open>Acquire_resume\<close>); between them other operations run.
\<close>

record Lease =
  l_protocol :: string
  l_probe :: bool
  l_execution :: "ExecutionResult option"
  l_ttftMS :: f64
  l_firstOutput :: bool
  l_router :: nat
  l_Target :: Target
  l_once :: bool
  l_started :: time
  l_state :: addr
  l_quota :: addr
  l_account :: "addr option"

record sys =
  sys_heap :: heap
  sys_cap :: capacity
  sys_routers :: "Router list"
  sys_leases :: "Lease list"
  sys_nextWaiter :: nat
  sys_now :: time

definition ErrUnavailable :: string where
  "ErrUnavailable = ''no eligible source; check protocol, approval, tier, quota and enabled state''"

definition ErrQueueFull :: string where
  "ErrQueueFull = ''queue is full''"

subsection \<open>Updating the store\<close>

definition upd_state :: "addr \<Rightarrow> (state \<Rightarrow> state) \<Rightarrow> heap \<Rightarrow> heap" where
  "upd_state a f h = h\<lparr>h_states := (h_states h)[a := f (h_states h ! a)]\<rparr>"

definition upd_quota :: "addr \<Rightarrow> (quota \<Rightarrow> quota) \<Rightarrow> heap \<Rightarrow> heap" where
  "upd_quota a f h = h\<lparr>h_quotas := (h_quotas h)[a := f (h_quotas h ! a)]\<rparr>"

definition upd_account :: "addr option \<Rightarrow> (quota \<Rightarrow> quota) \<Rightarrow> heap \<Rightarrow> heap" where
  "upd_account a f h = (case a of None \<Rightarrow> h | Some p \<Rightarrow> upd_quota p f h)"

definition set_router :: "nat \<Rightarrow> Router \<Rightarrow> sys \<Rightarrow> sys" where
  "set_router g r s = s\<lparr>sys_routers := (sys_routers s)[g := r]\<rparr>"

subsection \<open>Waking waiters\<close>

fun signal_queue :: "Router \<Rightarrow> capacity \<Rightarrow> heap \<Rightarrow> time \<Rightarrow> waiter list \<Rightarrow> waiter list" where
  "signal_queue r cap h now [] = []"
| "signal_queue r cap h now (w # ws) =
     (case router_choose r cap h (w_query w) now of (idx, elig) \<Rightarrow>
        if w_ctxErr w \<noteq> None \<or> idx \<noteq> None \<or> \<not> elig then w\<lparr>w_ready := True\<rparr> # ws
        else w # signal_queue r cap h now ws)"

text \<open>\<open>signal\<close> of router \<open>g\<close>.\<close>

definition signal :: "nat \<Rightarrow> time \<Rightarrow> sys \<Rightarrow> sys" where
  "signal g now s =
     (let r = sys_routers s ! g in
      set_router g (r\<lparr>r_queue := signal_queue r (sys_cap s) (sys_heap s) now (r_queue r)\<rparr>) s)"

text \<open>\<open>turn\<close>: no waiter ahead of \<open>current\<close> could run now.\<close>

fun turn_queue :: "Router \<Rightarrow> capacity \<Rightarrow> heap \<Rightarrow> time \<Rightarrow> nat option \<Rightarrow> waiter list \<Rightarrow> bool" where
  "turn_queue r cap h now current [] = True"
| "turn_queue r cap h now current (w # ws) =
     (if current = Some (w_id w) then True
      else if w_ctxErr w \<noteq> None then turn_queue r cap h now current ws
      else if fst (router_choose r cap h (w_query w) now) \<noteq> None then False
      else turn_queue r cap h now current ws)"

fun remove_waiter :: "nat \<Rightarrow> waiter list \<Rightarrow> waiter list" where
  "remove_waiter i [] = []"
| "remove_waiter i (w # ws) = (if w_id w = i then ws else w # remove_waiter i ws)"

definition removeWaiter :: "nat \<Rightarrow> Router \<Rightarrow> Router" where
  "removeWaiter i r =
     (if i \<in> w_id ` set (r_queue r)
      then r\<lparr>r_queue := remove_waiter i (r_queue r), r_waiting := r_waiting r - 1\<rparr> else r)"

subsection \<open>Acquire\<close>

definition lease_weight :: "Source \<Rightarrow> f64" where
  "lease_weight s = fdiv (Fin 1) (f_of_int (max 1 (source_Weight s)))"

text \<open>The branch that takes a slot of target \<open>idx\<close>.\<close>

definition take_slot :: "Router \<Rightarrow> nat \<Rightarrow> capacity \<Rightarrow> heap \<Rightarrow> capacity \<times> heap" where
  "take_slot r i cap h =
     (let h1 = upd_state (r_state r ! i) (\<lambda>st. st\<lparr>st_active := st_active st + 1,
            st_virtualFinish := fadd (st_virtualFinish st) (lease_weight (source_of r i))\<rparr>) h;
          h2 = upd_quota (r_quotas r ! i) (\<lambda>qt. qt\<lparr>qt_active := qt_active qt + 1\<rparr>) h1;
          seq = cap_dispatchSequence cap + 1;
          h3 = upd_account (r_accounts r ! i) (\<lambda>a. a\<lparr>qt_active := qt_active a + 1,
            qt_lastDispatch := seq,
            qt_virtualFinish := fadd (qt_virtualFinish a) (fdiv (Fin 1) (r_accountWeights r ! i))\<rparr>) h2
      in (cap\<lparr>cap_active := cap_active cap + 1,
            cap_dispatchSequence :=
              (if r_accounts r ! i = None then cap_dispatchSequence cap else seq)\<rparr>, h3))"

definition new_lease :: "nat \<Rightarrow> Router \<Rightarrow> nat \<Rightarrow> Query \<Rightarrow> time \<Rightarrow> Lease" where
  "new_lease g r idx q now =
     (let t = r_targets r ! idx; i = target_Source t in
      \<lparr>l_protocol = q_Protocol q, l_probe = q_Probe q, l_execution = None, l_ttftMS = Fin 0,
       l_firstOutput = False, l_router = g, l_Target = t, l_once = False, l_started = now,
       l_state = r_state r ! i, l_quota = r_quotas r ! i, l_account = r_accounts r ! i\<rparr>)"

definition grant :: "nat \<Rightarrow> nat \<Rightarrow> Query \<Rightarrow> time \<Rightarrow> sys \<Rightarrow> sys" where
  "grant g idx q now s =
     (let r = sys_routers s ! g;
          (cap, h) = take_slot r (target_Source (r_targets r ! idx)) (sys_cap s) (sys_heap s)
      in (set_router g (r\<lparr>r_cursor := r_cursor r + 1\<rparr>) s)\<lparr>sys_cap := cap, sys_heap := h,
           sys_leases := sys_leases s @ [new_lease g r idx q now]\<rparr>)"

datatype acquired = Granted nat | Failed string | Blocked nat

text \<open>
  One turn of the loop of \<open>Acquire\<close>: \<open>ctxErr\<close> is \<open>ctx.Err()\<close> and \<open>queued\<close> the waiter of this call,
  if it has one. \<open>Granted\<close> carries the number of the lease, \<open>Blocked\<close> the waiter that stays queued.
\<close>

definition acquire_turn ::
  "nat \<Rightarrow> Query \<Rightarrow> string option \<Rightarrow> nat option \<Rightarrow> time \<Rightarrow> sys \<Rightarrow> sys \<times> acquired" where
  "acquire_turn g q ctxErr queued now s =
     (case ctxErr of
        Some e \<Rightarrow> (s, Failed e)
      | None \<Rightarrow>
          (let r = sys_routers s ! g in
           case router_choose r (sys_cap s) (sys_heap s) q now of (idx, elig) \<Rightarrow>
             if idx \<noteq> None \<and> turn_queue r (sys_cap s) (sys_heap s) now queued (r_queue r)
             then (grant g (the idx) q now s, Granted (length (sys_leases s)))
             else if \<not> elig then (s, Failed ErrUnavailable)
             else
               (case queued of
                  Some w \<Rightarrow> (s, Blocked w)
                | None \<Rightarrow>
                    if rt_MaxQueued (cfg_Runtime (r_cfg r)) \<le> r_waiting r then (s, Failed ErrQueueFull)
                    else
                      (let w = \<lparr>w_id = sys_nextWaiter s, w_query = q, w_ctxErr = None, w_ready = False\<rparr>
                       in ((set_router g (r\<lparr>r_waiting := r_waiting r + 1,
                              r_queue := r_queue r @ [w]\<rparr>) s)\<lparr>sys_nextWaiter := sys_nextWaiter s + 1\<rparr>,
                           Blocked (sys_nextWaiter s))))))"

definition Acquire_start :: "nat \<Rightarrow> Query \<Rightarrow> string option \<Rightarrow> time \<Rightarrow> sys \<Rightarrow> sys \<times> acquired" where
  "Acquire_start g q ctxErr now s = acquire_turn g q ctxErr None now s"

text \<open>
  A woken waiter: \<open>consume\<close> says that the wake-up came over its channel. When the call returns, the
  deferred function removes the waiter and signals the next one.
\<close>

definition Acquire_resume :: "nat \<Rightarrow> waiter \<Rightarrow> bool \<Rightarrow> time \<Rightarrow> sys \<Rightarrow> sys \<times> acquired" where
  "Acquire_resume g w consume now s =
     (let r = sys_routers s ! g;
          s1 = (if consume then set_router g (r\<lparr>r_queue :=
                  map (\<lambda>x. if w_id x = w_id w then x\<lparr>w_ready := False\<rparr> else x) (r_queue r)\<rparr>) s else s);
          (s2, out) = acquire_turn g (w_query w) (w_ctxErr w) (Some (w_id w)) now s1
      in case out of
           Blocked i \<Rightarrow> (s2, Blocked i)
         | _ \<Rightarrow> (signal g now (set_router g (removeWaiter (w_id w) (sys_routers s2 ! g)) s2), out))"

subsection \<open>Execution events\<close>

definition MaxExecutionEvents :: nat where
  "MaxExecutionEvents = 1000"

definition event_outcome :: "Lease \<Rightarrow> int \<Rightarrow> string" where
  "event_outcome l status =
     (let o0 = ''failed'';
          o1 = (if 200 \<le> status \<and> status < 300 then ''succeeded'' else o0);
          o2 = (if status = 499 then ''canceled'' else o1)
      in case l_execution l of
           None \<Rightarrow> o2
         | Some x \<Rightarrow>
             (let c = Redacted x; o3 = (if \<not> Successful c then ''failed'' else o2)
              in if er_ClientCanceled c then ''canceled'' else o3))"

definition new_event :: "Router \<Rightarrow> capacity \<Rightarrow> Lease \<Rightarrow> int \<Rightarrow> time \<Rightarrow> ExecutionEvent" where
  "new_event r cap l status now =
     \<lparr>ev_Sequence = cap_eventSequence cap + 1, ev_FinishedAt = now,
      ev_Source = source_ID (source_of r (target_Source (l_Target l))),
      ev_Model = model_ID (target_Model (l_Target l)), ev_Protocol = l_protocol l,
      ev_Validation = l_probe l, ev_Status = status, ev_Outcome = event_outcome l status,
      ev_DurationMS = fdiv (f_of_int ((now - l_started l) div 1000)) (Fin 1000),
      ev_TTFTMS = l_ttftMS l, ev_Execution = map_option Redacted (l_execution l)\<rparr>"

text \<open>The ring buffer: append until full, then overwrite the oldest.\<close>

definition push_event :: "ExecutionEvent \<Rightarrow> capacity \<Rightarrow> capacity" where
  "push_event e cap =
     (if length (cap_events cap) < MaxExecutionEvents
      then cap\<lparr>cap_events := cap_events cap @ [e]\<rparr>
      else cap\<lparr>cap_events := (cap_events cap)[cap_eventCursor cap := e],
              cap_eventCursor := (cap_eventCursor cap + 1) mod MaxExecutionEvents\<rparr>)"

definition recordEvent :: "Router \<Rightarrow> Lease \<Rightarrow> int \<Rightarrow> time \<Rightarrow> capacity \<Rightarrow> capacity" where
  "recordEvent r l status now cap =
     push_event (new_event r cap l status now) (cap\<lparr>cap_eventSequence := cap_eventSequence cap + 1\<rparr>)"

definition ExecutionEvents :: "capacity \<Rightarrow> ExecutionEvent list" where
  "ExecutionEvents cap =
     map (\<lambda>i. cap_events cap ! ((cap_eventCursor cap + i) mod length (cap_events cap)))
       [0..<length (cap_events cap)]"

subsection \<open>Release\<close>

definition f0_8 :: f64 where
  "f0_8 = Fin (3602879701896397 / 4503599627370496)"

definition f0_2 :: f64 where
  "f0_2 = Fin (3602879701896397 / 18014398509481984)"

lemma f0_8_rounds: "f0_8 = fround (8 / 10)"
  unfolding f0_8_def by code_simp

lemma f0_2_rounds: "f0_2 = fround (2 / 10)"
  unfolding f0_2_def by code_simp

text \<open>\<open>x * .8 + ms * .2\<close>, or the first measurement.\<close>

definition moving_average :: "f64 \<Rightarrow> f64 \<Rightarrow> f64" where
  "moving_average x ms = (if feq x (Fin 0) then ms else fadd (fmul x f0_8) (fmul ms f0_2))"

definition return_slot :: "Lease \<Rightarrow> capacity \<Rightarrow> heap \<Rightarrow> capacity \<times> heap" where
  "return_slot l cap h =
     (let h1 = upd_state (l_state l) (\<lambda>st. st\<lparr>st_active := st_active st - 1\<rparr>) h;
          h2 = upd_quota (l_quota l) (\<lambda>qt. qt\<lparr>qt_active := qt_active qt - 1\<rparr>) h1;
          h3 = upd_account (l_account l) (\<lambda>a. a\<lparr>qt_active := qt_active a - 1\<rparr>) h2
      in (cap\<lparr>cap_active := cap_active cap - 1\<rparr>, h3))"

text \<open>What the status of a finished request does to its source state.\<close>

definition release_state :: "Lease \<Rightarrow> int \<Rightarrow> time \<Rightarrow> state \<Rightarrow> state" where
  "release_state l status now st =
     (let st1 = st\<lparr>st_lastHTTPStatus := status, st_blocked := st_blocked st \<or> status = 401 \<or> status = 403\<rparr>
      in if 200 \<le> status \<and> status < 300 then
           st1\<lparr>st_lastSuccess := now, st_completed := st_completed st1 + 1,
               st_latency := moving_average (st_latency st1) (f_of_int ((now - l_started l) div 1000000))\<rparr>
         else if status \<noteq> 499 then
           st1\<lparr>st_lastFailure := now, st_failures := st_failures st1 + 1,
               st_cooldown := (if status = 0 \<or> 500 \<le> status then now + 5 * Second else st_cooldown st1)\<rparr>
         else st1)"

definition release_cooldown :: "int \<Rightarrow> time \<Rightarrow> time \<Rightarrow> quota \<Rightarrow> quota" where
  "release_cooldown status retryAfter now qt =
     (if status = 429
      then qt\<lparr>qt_cooldown := now + min (if retryAfter \<le> 0 then 30 * Second else retryAfter) (24 * Hour)\<rparr>
      else qt)"

text \<open>\<open>Release\<close> of lease number \<open>n\<close>; the \<open>sync.Once\<close> makes a second call do nothing.\<close>

definition Release :: "nat \<Rightarrow> int \<Rightarrow> time \<Rightarrow> time \<Rightarrow> sys \<Rightarrow> sys" where
  "Release n status retryAfter now s =
     (let l = sys_leases s ! n in
      if l_once l then s
      else
        (let (cap, h) = return_slot l (sys_cap s) (sys_heap s);
             s1 = s\<lparr>sys_cap := cap, sys_heap := h, sys_leases := (sys_leases s)[n := l\<lparr>l_once := True\<rparr>]\<rparr>
         in if status = - 1 then signal (cap_current cap) now s1
            else
              (let cap' = recordEvent (sys_routers s ! l_router l) l status now cap;
                   h' = upd_quota (l_quota l) (release_cooldown status retryAfter now)
                          (upd_state (l_state l) (release_state l status now) h)
               in signal (cap_current cap') now (s1\<lparr>sys_cap := cap', sys_heap := h'\<rparr>))))"

definition ReleaseAdministrative :: "nat \<Rightarrow> time \<Rightarrow> sys \<Rightarrow> sys" where
  "ReleaseAdministrative n now s = Release n (- 1) 0 now s"

subsection \<open>Usage and first output\<close>

definition maxInt64 :: "int \<Rightarrow> int \<Rightarrow> int" where
  "maxInt64 v zero = (if v < zero then zero else v)"

definition record_usage :: "Model \<Rightarrow> ExecutionResult \<Rightarrow> state \<Rightarrow> state" where
  "record_usage m result st =
     (let inp = maxInt64 (er_InputTokens result) 0; out = maxInt64 (er_OutputTokens result) 0;
          tot0 = maxInt64 (er_TotalTokens result) 0;
          tot = (if tot0 = 0 \<and> (0 < inp \<or> 0 < out) then wrap64 (inp + out) else tot0);
          st1 = st\<lparr>st_inputTokens := st_inputTokens st + u64_of_int inp,
                   st_outputTokens := st_outputTokens st + u64_of_int out,
                   st_totalTokens := st_totalTokens st + u64_of_int tot,
                   st_executions := st_executions st + 1\<rparr>;
          st2 = (case (model_InputUSDPerMillion m, model_OutputUSDPerMillion m) of
                   (Some i, Some o') \<Rightarrow>
                     if er_UsageKnown result
                     then st1\<lparr>st_pricedExecutions := st_pricedExecutions st1 + 1,
                            st_estimatedCost := fadd (st_estimatedCost st1)
                              (fadd (fmul (fdiv (f_of_int inp) (Fin 1000000)) i)
                                    (fmul (fdiv (f_of_int out) (Fin 1000000)) o'))\<rparr>
                     else st1
                 | _ \<Rightarrow> st1)
      in st2\<lparr>st_costKnown := (0 < st_executions st2 \<and> st_pricedExecutions st2 = st_executions st2)\<rparr>)"

definition RecordExecution :: "nat \<Rightarrow> ExecutionResult \<Rightarrow> sys \<Rightarrow> sys" where
  "RecordExecution n result0 s =
     (let l = sys_leases s ! n; result = Redacted result0;
          usage = (if l_execution l = None then record_usage (target_Model (l_Target l)) result else id)
      in s\<lparr>sys_heap := upd_state (l_state l) (\<lambda>st. (usage st)\<lparr>st_lastExecution := Some result\<rparr>) (sys_heap s),
           sys_leases := (sys_leases s)[n := l\<lparr>l_execution := Some result\<rparr>]\<rparr>)"

definition FirstOutput :: "nat \<Rightarrow> time \<Rightarrow> sys \<Rightarrow> sys" where
  "FirstOutput n now s =
     (let l = sys_leases s ! n in
      if l_firstOutput l then s
      else
        (let ms = fdiv (f_of_int ((now - l_started l) div 1000)) (Fin 1000) in
         s\<lparr>sys_heap := upd_state (l_state l) (\<lambda>st. st\<lparr>st_ttftMS := moving_average (st_ttftMS st) ms\<rparr>)
                         (sys_heap s),
           sys_leases := (sys_leases s)[n := l\<lparr>l_firstOutput := True, l_ttftMS := ms\<rparr>]\<rparr>))"

subsection \<open>Enabling and disabling a source\<close>

fun index_of :: "string \<Rightarrow> Source list \<Rightarrow> nat option" where
  "index_of i [] = None"
| "index_of i (s # ss) = (if source_ID s = i then Some 0 else map_option Suc (index_of i ss))"

definition SetEnabled :: "nat \<Rightarrow> string \<Rightarrow> bool \<Rightarrow> time \<Rightarrow> sys \<Rightarrow> sys \<times> bool" where
  "SetEnabled g i on now s =
     (let r = sys_routers s ! g in
      case index_of i (cfg_Sources (r_cfg r)) of
        None \<Rightarrow> (s, False)
      | Some k \<Rightarrow>
          (signal g now (s\<lparr>sys_heap := upd_state (r_state r ! k)
             (\<lambda>st. st\<lparr>st_enabled := on, st_blocked := (if on then False else st_blocked st)\<rparr>) (sys_heap s)\<rparr>),
           True))"

subsection \<open>Adopt\<close>

text \<open>
  The body of the loop over the sources of the next router. \<open>None\<close> stands for a source whose account
  the next router does not know: the code then dereferences nil, or stores a nil entry when the running
  router does not know the account either. For well-formed configurations neither happens.
\<close>

definition adopt_entry :: "string \<Rightarrow> addr \<Rightarrow> (string \<times> addr) list \<Rightarrow> addr \<times> (string \<times> addr) list" where
  "adopt_entry k fresh m =
     (case map_of m k of Some a \<Rightarrow> (a, m) | None \<Rightarrow> (fresh, AList.update k fresh m))"

definition adopt_account ::
  "Source \<Rightarrow> nat \<Rightarrow> Router \<times> capacity \<times> heap \<Rightarrow> (Router \<times> capacity \<times> heap) option" where
  "adopt_account src i st =
     (case st of (next, cap, h) \<Rightarrow>
        if source_AccountID src = '''' then Some (next, cap, h)
        else
          (case r_accounts next ! i of
             None \<Rightarrow> None
           | Some fresh \<Rightarrow>
               (case adopt_entry (source_AccountID src) fresh (cap_accountStates cap) of (a, m) \<Rightarrow>
                  Some (next\<lparr>r_accounts := (r_accounts next)[i := Some a]\<rparr>,
                        cap\<lparr>cap_accountStates := m\<rparr>,
                        upd_quota a (\<lambda>q. q\<lparr>qt_limit := qt_limit (h_quotas h ! fresh)\<rparr>) h))))"

definition adopt_source ::
  "nat \<Rightarrow> Router \<times> capacity \<times> heap \<Rightarrow> (Router \<times> capacity \<times> heap) option" where
  "adopt_source i st =
     (case st of (next, cap, h) \<Rightarrow>
        (let src = source_of next i;
             (sa, sm) = adopt_entry (source_ID src) (r_state next ! i) (cap_sourceStates cap);
             h1 = upd_state sa (\<lambda>x. x\<lparr>st_blocked := (if \<not> st_enabled x \<and> source_Enabled src then False
                                                   else st_blocked x),
                                     st_enabled := source_Enabled src\<rparr>) h;
             (qa, qm) = adopt_entry (source_QuotaDomain src) (r_quotas next ! i) (cap_quotaStates cap);
             h2 = upd_quota qa (\<lambda>x. x\<lparr>qt_limit := source_QuotaMaxInflight src\<rparr>) h1
         in adopt_account src i
              (next\<lparr>r_state := (r_state next)[i := sa], r_quotas := (r_quotas next)[i := qa]\<rparr>,
               cap\<lparr>cap_sourceStates := sm, cap_quotaStates := qm\<rparr>, h2)))"

fun adopt_sources ::
  "nat list \<Rightarrow> Router \<times> capacity \<times> heap \<Rightarrow> (Router \<times> capacity \<times> heap) option" where
  "adopt_sources [] st = Some st"
| "adopt_sources (i # is) st =
     (case adopt_source i st of None \<Rightarrow> None | Some st' \<Rightarrow> adopt_sources is st')"

text \<open>The three loops that drop the entries no source names and no lease holds.\<close>

definition prune_maps :: "Config \<Rightarrow> heap \<Rightarrow> capacity \<Rightarrow> capacity" where
  "prune_maps c h cap =
     cap\<lparr>cap_sourceStates := filter (\<lambda>(k, a). k \<in> source_ID ` set (cfg_Sources c)
             \<or> st_active (h_states h ! a) \<noteq> 0) (cap_sourceStates cap),
         cap_quotaStates := filter (\<lambda>(k, a). k \<in> source_QuotaDomain ` set (cfg_Sources c)
             \<or> qt_active (h_quotas h ! a) \<noteq> 0) (cap_quotaStates cap),
         cap_accountStates := filter (\<lambda>(k, a). k \<in> source_AccountID ` set (cfg_Sources c)
             \<or> qt_active (h_quotas h ! a) \<noteq> 0) (cap_accountStates cap)\<rparr>"

text \<open>
  Publishing the configuration \<open>c\<close>: \<open>New\<close> compiles it and the current router adopts the result.
  \<open>New\<close>'s own capacity record is dropped, as in the source.
\<close>

definition Adopt :: "Config \<Rightarrow> time \<Rightarrow> sys \<Rightarrow> sys option" where
  "Adopt c now s =
     (let old = cap_current (sys_cap s); gen = length (sys_routers s);
          r = sys_routers s ! old; (next0, _, h0) = New c gen (sys_heap s)
      in case adopt_sources [0..<length (cfg_Sources c)] (next0, sys_cap s, h0) of
           None \<Rightarrow> None
         | Some (next, cap, h) \<Rightarrow>
             Some (signal gen now
               (s\<lparr>sys_heap := h,
                  sys_cap := (prune_maps c h cap)\<lparr>cap_current := gen\<rparr>,
                  sys_routers := (sys_routers s)[old := r\<lparr>r_retired := True,
                     r_queue := map (\<lambda>w. w\<lparr>w_ready := True\<rparr>) (r_queue r)\<rparr>] @ [next]\<rparr>)))"

text \<open>The router a process starts with.\<close>

definition init_sys :: "Config \<Rightarrow> time \<Rightarrow> sys" where
  "init_sys c now =
     (let (r, cap, h) = New c 0 \<lparr>h_states = [], h_quotas = []\<rparr> in
      \<lparr>sys_heap = h, sys_cap = cap, sys_routers = [r], sys_leases = [], sys_nextWaiter = 0,
       sys_now = now\<rparr>)"

end
