(* ===== verification/ChooseSpec.thy ===== *)
theory ChooseSpec
  imports Choose
begin

section \<open>What a chosen target guarantees\<close>

text \<open>
  Soundness, completeness and optimality of the scan of \<open>Choose\<close>, and its agreement with a full
  scan that never stops early. The scores of every policy must be nonnegative numbers for the
  early stop and the order to make sense: \<open>scores_ok\<close> says so of a router and a store, and every
  operation of the router keeps it.
\<close>

subsection \<open>Soundness and completeness of the scan\<close>

definition free_target :: "Router \<Rightarrow> heap \<Rightarrow> Query \<Rightarrow> time \<Rightarrow> nat \<Rightarrow> bool" where
  "free_target r h q now idx =
     (eligible_reason r h (r_targets r ! idx) q = None \<and>
      \<not> account_busy r h (target_Source (r_targets r ! idx)) \<and>
      \<not> source_busy r h (target_Source (r_targets r ! idx)) now)"

definition takable :: "Router \<Rightarrow> heap \<Rightarrow> Query \<Rightarrow> time \<Rightarrow> (string \<rightharpoonup> string) \<Rightarrow> nat \<Rightarrow> bool" where
  "takable r h q now pr idx =
     (eligible_reason r h (r_targets r ! idx) q = None \<and> \<not> passed_over r h now pr idx)"

lemma takable_free: "takable r h q now pr idx \<Longrightarrow> free_target r h q now idx"
  by (simp add: takable_def free_target_def passed_over_def Let_def)

lemma choose_step_cases:
  "choose_step r cap h q now g pr idx best score e =
     (if eligible_reason r h (r_targets r ! idx) q \<noteq> None then Continue best score e
      else if rt_MaxInflight (cfg_Runtime (r_cfg r)) \<le> cap_active cap then Return
      else if \<not> takable r h q now pr idx then Continue best score True
      else if best = None \<or> comparePreferences r h idx best (group_Preferences (cg_Group g)) < 0 \<or>
           (comparePreferences r h idx best (group_Preferences (cg_Group g)) = 0 \<and>
            flt (strategy_value r h g idx) score)
      then (if feq (strategy_value r h g idx) (Fin 0) \<and> group_Preferences (cg_Group g) = []
            then Break (Some idx) True else Continue (Some idx) (strategy_value r h g idx) True)
      else Continue best score True)"
  by (simp add: choose_step_def takable_def Let_def)

lemma choose_list_sound:
  "choose_list r cap h q now g pr cs best score e = (Some idx, e') \<Longrightarrow>
   best = Some idx \<or>
   (idx \<in> set cs \<and> takable r h q now pr idx \<and> cap_active cap < rt_MaxInflight (cfg_Runtime (r_cfg r)))"
  by (induction cs arbitrary: best score e)
    (auto simp: choose_step_cases split: if_splits)

lemma choose_list_elig:
  "snd (choose_list r cap h q now g pr cs best score e) \<longleftrightarrow>
   e \<or> (\<exists>idx \<in> set cs. eligible_reason r h (r_targets r ! idx) q = None)"
  by (induction cs arbitrary: best score e) (auto simp: choose_step_cases takable_def)

lemma choose_list_keeps_some:
  assumes "cap_active cap < rt_MaxInflight (cfg_Runtime (r_cfg r))"
  shows "\<exists>y. fst (choose_list r cap h q now g pr cs (Some b) score e) = Some y"
  using assms
  by (induction cs arbitrary: b score e) (auto simp: choose_step_cases)

lemma choose_list_complete:
  assumes "cap_active cap < rt_MaxInflight (cfg_Runtime (r_cfg r))"
    and "\<exists>idx \<in> set cs. takable r h q now pr idx"
  shows "fst (choose_list r cap h q now g pr cs best score e) \<noteq> None"
  using assms(2)
proof (induction cs arbitrary: best score e)
  case Nil
  then show ?case by simp
next
  case (Cons idx cs)
  show ?case
  proof (cases "takable r h q now pr idx")
    case True
    then show ?thesis
      using assms(1)
      by (cases best) (auto simp: choose_step_cases takable_def choose_list_keeps_some)
  next
    case False
    with Cons show ?thesis
      using assms(1) by (auto simp: choose_step_cases)
  qed
qed

subsection \<open>Account pools never hide free capacity\<close>

text \<open>The account a pool prefers is one of an eligible target with free capacity.\<close>

definition pool_witness ::
  "Router \<Rightarrow> heap \<Rightarrow> Query \<Rightarrow> time \<Rightarrow> nat set \<Rightarrow> (string \<rightharpoonup> string \<times> f64 \<times> u64) \<Rightarrow> bool" where
  "pool_witness r h q now cs best =
     (\<forall>p acc sc l. best p = Some (acc, sc, l) \<longrightarrow>
        (\<exists>idx \<in> cs. free_target r h q now idx \<and>
           source_Provider (source_of r (target_Source (r_targets r ! idx))) = p \<and>
           source_AccountID (source_of r (target_Source (r_targets r ! idx))) = acc))"

lemma pool_step_witness:
  assumes "pool_witness r h q now cs best" and "idx \<in> cs"
  shows "pool_witness r h q now cs (pool_step r h q now idx best)"
proof -
  have new: "pool_witness r h q now cs
      (best(source_Provider (source_of r (target_Source (r_targets r ! idx))) \<mapsto>
        (source_AccountID (source_of r (target_Source (r_targets r ! idx))), sc, l)))"
    if "free_target r h q now idx" for sc l
    using assms that by (auto simp: pool_witness_def)
  show ?thesis
    using assms
    by (auto simp: pool_step_def Let_def free_target_def account_busy_def
        intro!: new split: option.split prod.split)
qed

lemma pool_fold_witness:
  assumes "set xs \<subseteq> cs" and "pool_witness r h q now cs best"
  shows "pool_witness r h q now cs (fold (pool_step r h q now) xs best)"
  using assms
  by (induction xs arbitrary: best) (auto simp: pool_step_witness)

lemma poolPreferences_witness:
  assumes "poolPreferences r h q cs now p = Some acc"
  obtains idx where "idx \<in> set cs" "free_target r h q now idx"
    "source_Provider (source_of r (target_Source (r_targets r ! idx))) = p"
    "source_AccountID (source_of r (target_Source (r_targets r ! idx))) = acc"
proof -
  have "pool_witness r h q now (set cs) (fold (pool_step r h q now) cs Map.empty)"
    by (rule pool_fold_witness) (simp_all add: pool_witness_def)
  then show thesis
    using assms that by (fastforce simp: poolPreferences_def pool_witness_def)
qed

lemma preferred_takable:
  assumes "idx \<in> set (candidates_of r q)" and "free_target r h q now idx"
  shows "\<exists>j \<in> set (candidates_of r q). takable r h q now (preferred_of r h q now) j"
proof (cases "preferred_of r h q now (source_Provider (source_of r (target_Source (r_targets r ! idx))))")
  case None
  with assms show ?thesis
    by (auto simp: takable_def free_target_def passed_over_def Let_def intro!: bexI [of _ idx])
next
  case (Some acc)
  then have "poolPreferences r h q (candidates_of r q) now
      (source_Provider (source_of r (target_Source (r_targets r ! idx)))) = Some acc"
    by (simp add: preferred_of_def Let_def split: if_splits)
  then obtain j where j: "j \<in> set (candidates_of r q)" "free_target r h q now j"
    "source_Provider (source_of r (target_Source (r_targets r ! j))) =
     source_Provider (source_of r (target_Source (r_targets r ! idx)))"
    "source_AccountID (source_of r (target_Source (r_targets r ! j))) = acc"
    by (rule poolPreferences_witness)
  with Some show ?thesis
    by (auto simp: takable_def free_target_def passed_over_def Let_def intro!: bexI [of _ j])
qed

lemma router_choose_complete:
  assumes "\<not> r_retired r" and "cap_active cap < rt_MaxInflight (cfg_Runtime (r_cfg r))"
    and "idx \<in> set (candidates_of r q)" and "free_target r h q now idx"
  shows "fst (router_choose r cap h q now) \<noteq> None"
  using assms preferred_takable [OF assms(3,4)]
  by (simp add: router_choose_eq_list choose_list_complete del: not_None_eq)

lemma router_choose_sound:
  assumes "router_choose r cap h q now = (Some idx, e)"
  shows "\<not> r_retired r \<and> idx \<in> set (candidates_of r q) \<and> free_target r h q now idx \<and>
         takable r h q now (preferred_of r h q now) idx \<and>
         cap_active cap < rt_MaxInflight (cfg_Runtime (r_cfg r)) \<and> e"
proof -
  from assms have nr: "\<not> r_retired r"
    and cl: "choose_list r cap h q now (group_of r q) (preferred_of r h q now) (scan_order r q)
       None PInf False = (Some idx, e)"
    by (auto simp: router_choose_eq_list split: if_splits)
  from choose_list_sound [OF cl] have *: "idx \<in> set (scan_order r q)"
    "takable r h q now (preferred_of r h q now) idx"
    "cap_active cap < rt_MaxInflight (cfg_Runtime (r_cfg r))"
    by auto
  have "e"
    using choose_list_elig [of r cap h q now "group_of r q" "preferred_of r h q now" "scan_order r q"
        None PInf False] cl * by (auto simp: takable_def)
  with * nr show ?thesis by (simp add: takable_free)
qed

subsection \<open>Scores are nonnegative\<close>

text \<open>
  What the score of every policy rests on: nonnegative moving averages and counters, and source
  limits a validated configuration has.
\<close>

definition router_shape :: "Router \<Rightarrow> heap \<Rightarrow> bool" where
  "router_shape r h =
     (let n = length (cfg_Sources (r_cfg r)) in
      length (r_state r) = n \<and> length (r_quotas r) = n \<and> length (r_accounts r) = n \<and>
      length (r_parentEnabled r) = n \<and> length (r_parentApproved r) = n \<and>
      length (r_poolStrategies r) = n \<and> length (r_accountWeights r) = n \<and>
      (\<forall>a \<in> set (r_state r). a < length (h_states h)) \<and>
      (\<forall>a \<in> set (r_quotas r). a < length (h_quotas h)) \<and>
      (\<forall>a. Some a \<in> set (r_accounts r) \<longrightarrow> a < length (h_quotas h)) \<and>
      (\<forall>t \<in> set (r_targets r). target_Source t < n) \<and>
      (\<forall>k. \<forall>idx \<in> set (r_candidates r k). idx < length (r_targets r)))"

definition state_ok :: "state \<Rightarrow> bool" where
  "state_ok s = (fnonneg (st_latency s) \<and> fnonneg (st_virtualFinish s) \<and> 0 \<le> st_active s)"

definition limits_ok :: "Config \<Rightarrow> bool" where
  "limits_ok c =
     (\<forall>s \<in> set (cfg_Sources c). 1 \<le> source_MaxInflight s \<and> source_MaxInflight s \<le> 10000)"

definition scores_ok :: "Router \<Rightarrow> heap \<Rightarrow> bool" where
  "scores_ok r h =
     (router_shape r h \<and> limits_ok (r_cfg r) \<and> (\<forall>s \<in> set (h_states h). state_ok s))"

lemma candidate_source:
  assumes "router_shape r h" and "idx \<in> set (candidates_of r q)"
  shows "target_Source (r_targets r ! idx) < length (cfg_Sources (r_cfg r))"
  using assms by (auto simp: router_shape_def candidates_of_def Let_def)

lemma state_of_in:
  assumes "router_shape r h" and "i < length (cfg_Sources (r_cfg r))"
  shows "state_of r h i \<in> set (h_states h)"
  using assms by (auto simp: router_shape_def state_of_def Let_def)

lemma strategy_value_nonneg:
  assumes "scores_ok r h" and "idx \<in> set (candidates_of r q)"
  shows "fnonneg (strategy_value r h g idx)"
proof -
  let ?i = "target_Source (r_targets r ! idx)"
  have sh: "router_shape r h" and lim: "limits_ok (r_cfg r)"
    using assms(1) by (simp_all add: scores_ok_def)
  have i: "?i < length (cfg_Sources (r_cfg r))"
    by (rule candidate_source [OF sh assms(2)])
  have st: "state_ok (state_of r h ?i)"
    using assms(1) state_of_in [OF sh i] by (simp add: scores_ok_def)
  have m: "1 \<le> source_MaxInflight (source_of r ?i)" "source_MaxInflight (source_of r ?i) \<le> 10000"
    using lim i by (auto simp: limits_ok_def source_of_def)
  have load: "fnonneg (fdiv (f_of_int (st_active (state_of r h ?i)))
      (f_of_int (source_MaxInflight (source_of r ?i))))"
    using st m by (simp add: f_of_int_exact state_ok_def fnonneg_intros)
  have "fnonneg (fadd x (fdiv y (Fin 1000000)))" if "fnonneg x" "fnonneg y" for x y
    using that by (intro fnonneg_intros) auto
  then show ?thesis
    using st load
    by (auto simp: strategy_value_def Let_def state_ok_def fnonneg_f_of_int split: option.split)
qed

lemma preferenceValue_not_NaN: "preferenceValue r h idx p \<noteq> NaN"
proof -
  have cost: "(case UnitCost m of (c, k) \<Rightarrow> if k then c else PInf) \<noteq> NaN" for m
    using UnitCost_nonneg [of m] by (cases "UnitCost m") auto
  have latency: "(if flt (Fin 0) l then l else PInf) \<noteq> NaN" for l
    by (cases l) auto
  show ?thesis
    unfolding preferenceValue_def Let_def using cost latency by simp
qed

subsection \<open>The early stop\<close>

text \<open>The same scan without the early stop.\<close>

fun full_scan ::
  "Router \<Rightarrow> capacity \<Rightarrow> heap \<Rightarrow> Query \<Rightarrow> time \<Rightarrow> compiledGroup \<Rightarrow> (string \<rightharpoonup> string) \<Rightarrow>
   nat list \<Rightarrow> nat option \<Rightarrow> f64 \<Rightarrow> bool \<Rightarrow> nat option \<times> bool" where
  "full_scan r cap h q now g pr [] best score e = (best, e)"
| "full_scan r cap h q now g pr (idx # rest) best score e =
     (if eligible_reason r h (r_targets r ! idx) q \<noteq> None then full_scan r cap h q now g pr rest best score e
      else if rt_MaxInflight (cfg_Runtime (r_cfg r)) \<le> cap_active cap then (None, True)
      else if \<not> takable r h q now pr idx then full_scan r cap h q now g pr rest best score True
      else if best = None \<or> comparePreferences r h idx best (group_Preferences (cg_Group g)) < 0 \<or>
           (comparePreferences r h idx best (group_Preferences (cg_Group g)) = 0 \<and>
            flt (strategy_value r h g idx) score)
      then full_scan r cap h q now g pr rest (Some idx) (strategy_value r h g idx) True
      else full_scan r cap h q now g pr rest best score True)"

lemma full_scan_zero:
  assumes "cap_active cap < rt_MaxInflight (cfg_Runtime (r_cfg r))"
    and "group_Preferences (cg_Group g) = []"
    and "\<And>idx. idx \<in> set cs \<Longrightarrow> fnonneg (strategy_value r h g idx)"
  shows "full_scan r cap h q now g pr cs (Some b) (Fin 0) True = (Some b, True)"
  using assms
  by (induction cs) (auto simp: comparePreferences_def fnonneg_zero_least)

lemma choose_list_full:
  assumes "\<And>idx. idx \<in> set cs \<Longrightarrow> fnonneg (strategy_value r h g idx)"
  shows "choose_list r cap h q now g pr cs best score e = full_scan r cap h q now g pr cs best score e"
  using assms
proof (induction cs arbitrary: best score e)
  case Nil
  then show ?case by simp
next
  case (Cons idx cs)
  have zero: "full_scan r cap h q now g pr cs (Some idx) (strategy_value r h g idx) True = (Some idx, True)"
    if "feq (strategy_value r h g idx) (Fin 0)" "group_Preferences (cg_Group g) = []"
      "cap_active cap < rt_MaxInflight (cfg_Runtime (r_cfg r))"
  proof -
    have "strategy_value r h g idx = Fin 0"
      using that(1) Cons.prems [of idx] feq_iff fnonneg_not_NaN by auto
    then show ?thesis
      using full_scan_zero [OF that(3,2), of cs h q now pr idx] Cons.prems by simp
  qed
  show ?case
    using Cons zero by (auto simp: choose_step_cases)
qed

subsection \<open>Optimality\<close>

text \<open>
  The rank of a candidate: its value for each preference of the group, in order, then its strategy
  score. \<open>better\<close> is the strict lexicographic order on ranks.
\<close>

definition rank :: "Router \<Rightarrow> heap \<Rightarrow> compiledGroup \<Rightarrow> nat \<Rightarrow> f64 list" where
  "rank r h g idx =
     map (preferenceValue r h idx) (group_Preferences (cg_Group g)) @ [strategy_value r h g idx]"

definition better :: "Router \<Rightarrow> heap \<Rightarrow> compiledGroup \<Rightarrow> nat \<Rightarrow> nat \<Rightarrow> bool" where
  "better r h g a b = lexlt (rank r h g a) (rank r h g b)"

lemma compareListed_lexlt:
  "(compareListed r h a b ps < 0 \<or> (compareListed r h a b ps = 0 \<and> flt va vb)) \<longleftrightarrow>
   lexlt (map (preferenceValue r h a) ps @ [va]) (map (preferenceValue r h b) ps @ [vb])"
  by (induction ps) (auto simp: Let_def dest: flt_asym)

lemma comparePreferences_better:
  "(comparePreferences r h a (Some b) (group_Preferences (cg_Group g)) < 0 \<or>
    (comparePreferences r h a (Some b) (group_Preferences (cg_Group g)) = 0 \<and>
     flt (strategy_value r h g a) (strategy_value r h g b))) \<longleftrightarrow> better r h g a b"
  by (simp add: comparePreferences_def better_def rank_def compareListed_lexlt)

lemma full_scan_optimal:
  assumes "full_scan r cap h q now g pr cs best score e = (Some idx, e')"
    and "\<And>j. j \<in> S \<union> set cs \<Longrightarrow> NaN \<notin> set (rank r h g j)"
    and "\<And>b. best = Some b \<Longrightarrow> b \<in> S \<and> score = strategy_value r h g b \<and> (\<forall>j \<in> S. \<not> better r h g j b)"
    and "best = None \<Longrightarrow> S = {}"
  shows "\<forall>j \<in> S \<union> {j \<in> set cs. takable r h q now pr j}. \<not> better r h g j idx"
  using assms
proof (induction cs arbitrary: best score e S)
  case Nil
  then show ?case by auto
next
  case (Cons i cs)
  let ?take = "takable r h q now pr i"
  let ?better = "best = None \<or> (\<exists>b. best = Some b \<and> better r h g i b)"
  have upd: "(best = None \<or> comparePreferences r h i best (group_Preferences (cg_Group g)) < 0 \<or>
      (comparePreferences r h i best (group_Preferences (cg_Group g)) = 0 \<and>
       flt (strategy_value r h g i) score)) \<longleftrightarrow> ?better"
    using Cons.prems(3) comparePreferences_better [of r h i _ g] by (cases best) auto
  have eq: "full_scan r cap h q now g pr (i # cs) best score e =
      (if rt_MaxInflight (cfg_Runtime (r_cfg r)) \<le> cap_active cap then (None, True)
       else if ?better then full_scan r cap h q now g pr cs (Some i) (strategy_value r h g i) True
       else full_scan r cap h q now g pr cs best score True)" if ?take
    unfolding full_scan.simps upd using that by (simp add: takable_def)
  consider (skip) "\<not> ?take" | (take) "?take" "?better" | (keep) "?take" "\<not> ?better"
    by blast
  then show ?case
  proof cases
    case skip
    then obtain e1 where "full_scan r cap h q now g pr cs best score e1 = (Some idx, e')"
      using Cons.prems(1) by (auto simp: takable_def split: if_splits)
    from Cons.IH [OF this, of S] skip Cons.prems(2-4) show ?thesis by auto
  next
    case take
    have scan: "full_scan r cap h q now g pr cs (Some i) (strategy_value r h g i) True = (Some idx, e')"
      using Cons.prems(1) take(2) unfolding eq [OF take(1)] by (simp split: if_split_asm)
    have "\<not> better r h g j i" if "j \<in> insert i S" for j
    proof (cases best)
      case None
      with Cons.prems(4) that show ?thesis by (auto simp: better_def)
    next
      case (Some b)
      then have b: "b \<in> S" "\<forall>j \<in> S. \<not> better r h g j b" "better r h g i b"
        using Cons.prems(3) take by auto
      show ?thesis
      proof
        assume ji: "better r h g j i"
        then have "j \<in> S" using that by (auto simp: better_def)
        moreover have "better r h g j b"
          unfolding better_def
          by (rule lexlt_trans [OF ji [unfolded better_def] b(3) [unfolded better_def]])
            (use \<open>j \<in> S\<close> b(1) in \<open>simp_all add: Cons.prems(2)\<close>)
        ultimately show False using b(2) by blast
      qed
    qed
    with Cons.IH [OF scan, of "insert i S"] Cons.prems(2) show ?thesis by auto
  next
    case keep
    then obtain b where b: "best = Some b" by auto
    have scan: "full_scan r cap h q now g pr cs best score True = (Some idx, e')"
      using Cons.prems(1) keep(2) unfolding eq [OF keep(1)] by (simp split: if_split_asm)
    have "\<forall>j \<in> insert i S. \<not> better r h g j b"
      using Cons.prems(3) keep b by auto
    with Cons.IH [OF scan, of "insert i S"] Cons.prems(2,3) b show ?thesis by auto
  qed
qed

lemma rank_not_NaN:
  assumes "scores_ok r h" and "idx \<in> set (candidates_of r q)"
  shows "NaN \<notin> set (rank r h g idx)"
  using preferenceValue_not_NaN [of r h idx, symmetric] strategy_value_nonneg [OF assms, of g]
  by (auto simp: rank_def)

lemma router_choose_optimal:
  assumes ok: "scores_ok r h" and ch: "router_choose r cap h q now = (Some idx, e)"
    and j: "j \<in> set (candidates_of r q)" "takable r h q now (preferred_of r h q now) j"
  shows "\<not> better r h (group_of r q) j idx"
proof -
  have "choose_list r cap h q now (group_of r q) (preferred_of r h q now) (scan_order r q)
      None PInf False = (Some idx, e)"
    using ch by (auto simp: router_choose_eq_list split: if_splits)
  then have "full_scan r cap h q now (group_of r q) (preferred_of r h q now) (scan_order r q)
      None PInf False = (Some idx, e)"
    using choose_list_full [of "scan_order r q" r h "group_of r q"] strategy_value_nonneg [OF ok]
    by simp
  from full_scan_optimal [OF this, of "{}"] rank_not_NaN [OF ok] j show ?thesis by auto
qed

end
