(* ===== verification/RouterMachine.thy ===== *)
theory RouterMachine
  imports Dispatch ChooseSpec
begin

section \<open>The router as a transition system\<close>

text \<open>
  Every interleaving of the router's operations: the requests, waiters, administrators and hot
  updates of one process. A step is one operation, executed under the mutex at a clock reading that
  never goes back. \<open>reachable\<close> holds of the states that some sequence of steps reaches from a
  freshly compiled router.

  An invariant is proved once per operation; the locale \<open>router_invariant\<close> turns such a proof into
  a fact about every reachable state, on top of invariants already known.
\<close>

text \<open>What the router relies on in a configuration; validation establishes it.\<close>

definition cfg_wf :: "Config \<Rightarrow> bool" where
  "cfg_wf c =
     (distinct (map source_ID (cfg_Sources c)) \<and>
      distinct (map account_ID (cfg_Accounts c)) \<and>
      '''' \<notin> account_ID ` set (cfg_Accounts c) \<and>
      (\<forall>s \<in> set (cfg_Sources c).
         source_AccountID s = '''' \<or> source_AccountID s \<in> account_ID ` set (cfg_Accounts c)) \<and>
      (\<forall>s \<in> set (cfg_Sources c). \<forall>s' \<in> set (cfg_Sources c).
         source_QuotaDomain s = source_QuotaDomain s' \<longrightarrow>
         source_QuotaMaxInflight s = source_QuotaMaxInflight s') \<and>
      (\<forall>s \<in> set (cfg_Sources c). source_Weight s \<le> 10000 \<and>
         1 \<le> source_MaxInflight s \<and> source_MaxInflight s \<le> 10000) \<and>
      0 \<le> rt_MaxQueued (cfg_Runtime c))"

definition tick :: "time \<Rightarrow> sys \<Rightarrow> sys" where
  "tick now s = s\<lparr>sys_now := now\<rparr>"

text \<open>The context of a queued call ends.\<close>

definition cancel_waiter :: "nat \<Rightarrow> nat \<Rightarrow> string \<Rightarrow> sys \<Rightarrow> sys" where
  "cancel_waiter g i e s =
     (let r = sys_routers s ! g in
      set_router g (r\<lparr>r_queue :=
        map (\<lambda>w. if w_id w = i then w\<lparr>w_ctxErr := Some e\<rparr> else w) (r_queue r)\<rparr>) s)"

inductive step :: "sys \<Rightarrow> sys \<Rightarrow> bool" where
  acquire: "g < length (sys_routers s) \<Longrightarrow> sys_now s \<le> now \<Longrightarrow>
    step s (tick now (fst (Acquire_start g q e now s)))"
| resume: "g < length (sys_routers s) \<Longrightarrow> w \<in> set (r_queue (sys_routers s ! g)) \<Longrightarrow> sys_now s \<le> now \<Longrightarrow>
    step s (tick now (fst (Acquire_resume g w consume now s)))"
| cancel: "g < length (sys_routers s) \<Longrightarrow> step s (cancel_waiter g i e s)"
| release: "n < length (sys_leases s) \<Longrightarrow> sys_now s \<le> now \<Longrightarrow>
    step s (tick now (Release n status retryAfter now s))"
| record_execution: "n < length (sys_leases s) \<Longrightarrow> step s (RecordExecution n result s)"
| first_output: "n < length (sys_leases s) \<Longrightarrow> sys_now s \<le> now \<Longrightarrow>
    step s (tick now (FirstOutput n now s))"
| set_enabled: "g < length (sys_routers s) \<Longrightarrow> sys_now s \<le> now \<Longrightarrow>
    step s (tick now (fst (SetEnabled g i on now s)))"
| adopt: "cfg_wf c \<Longrightarrow> sys_now s \<le> now \<Longrightarrow> Adopt c now s = Some s' \<Longrightarrow> step s (tick now s')"

inductive reachable :: "sys \<Rightarrow> bool" where
  init: "cfg_wf c \<Longrightarrow> 0 \<le> now \<Longrightarrow> reachable (init_sys c now)"
| step: "reachable s \<Longrightarrow> step s s' \<Longrightarrow> reachable s'"

locale router_invariant =
  fixes J I :: "sys \<Rightarrow> bool"
  assumes known: "reachable s \<Longrightarrow> J s"
    and initial: "cfg_wf c \<Longrightarrow> 0 \<le> now \<Longrightarrow> I (init_sys c now)"
    and kept: "J s \<Longrightarrow> I s \<Longrightarrow> step s s' \<Longrightarrow> I s'"
begin

lemma always: "reachable s \<Longrightarrow> I s"
  by (induction rule: reachable.induct) (auto intro: initial kept known)

end

subsection \<open>Effects on the store\<close>

text \<open>Most operations leave most of the state alone; these are the equations the invariants use.\<close>

lemma set_router_simps [simp]:
  "sys_heap (set_router g r s) = sys_heap s"
  "sys_cap (set_router g r s) = sys_cap s"
  "sys_leases (set_router g r s) = sys_leases s"
  "sys_nextWaiter (set_router g r s) = sys_nextWaiter s"
  "sys_now (set_router g r s) = sys_now s"
  "sys_routers (set_router g r s) = (sys_routers s)[g := r]"
  by (simp_all add: set_router_def)

lemma signal_simps [simp]:
  "sys_heap (signal g now s) = sys_heap s"
  "sys_cap (signal g now s) = sys_cap s"
  "sys_leases (signal g now s) = sys_leases s"
  "sys_nextWaiter (signal g now s) = sys_nextWaiter s"
  "sys_now (signal g now s) = sys_now s"
  by (simp_all add: signal_def Let_def)

lemma tick_simps [simp]:
  "sys_heap (tick now s) = sys_heap s"
  "sys_cap (tick now s) = sys_cap s"
  "sys_leases (tick now s) = sys_leases s"
  "sys_routers (tick now s) = sys_routers s"
  "sys_nextWaiter (tick now s) = sys_nextWaiter s"
  "sys_now (tick now s) = now"
  by (simp_all add: tick_def)

lemma cancel_simps [simp]:
  "sys_heap (cancel_waiter g i e s) = sys_heap s"
  "sys_cap (cancel_waiter g i e s) = sys_cap s"
  "sys_leases (cancel_waiter g i e s) = sys_leases s"
  "sys_nextWaiter (cancel_waiter g i e s) = sys_nextWaiter s"
  "sys_now (cancel_waiter g i e s) = sys_now s"
  by (simp_all add: cancel_waiter_def Let_def)

lemma upd_simps [simp]:
  "h_quotas (upd_state a f h) = h_quotas h"
  "h_states (upd_quota a g h) = h_states h"
  "h_states (upd_account p g h) = h_states h"
  "length (h_states (upd_state a f h)) = length (h_states h)"
  "length (h_quotas (upd_quota a g h)) = length (h_quotas h)"
  "length (h_quotas (upd_account p g h)) = length (h_quotas h)"
  by (simp_all add: upd_state_def upd_quota_def upd_account_def split: option.split)

text \<open>
  The static part of a router: what no operation but \<open>New\<close> and \<open>Adopt\<close> writes. Queue, cursor,
  waiting count and the retired flag are left out.
\<close>

definition static_eq :: "Router \<Rightarrow> Router \<Rightarrow> bool" where
  "static_eq r r' =
     (r_cfg r = r_cfg r' \<and> r_targets r = r_targets r' \<and> r_groups r = r_groups r' \<and>
      r_candidates r = r_candidates r' \<and> r_state r = r_state r' \<and> r_quotas r = r_quotas r' \<and>
      r_accounts r = r_accounts r' \<and> r_parentEnabled r = r_parentEnabled r' \<and>
      r_parentApproved r = r_parentApproved r' \<and> r_poolStrategies r = r_poolStrategies r' \<and>
      r_accountWeights r = r_accountWeights r' \<and> r_hasPools r = r_hasPools r')"

definition routers_eq :: "Router list \<Rightarrow> Router list \<Rightarrow> bool" where
  "routers_eq rs rs' =
     (length rs = length rs' \<and>
      (\<forall>i < length rs. static_eq (rs ! i) (rs' ! i) \<and> r_retired (rs ! i) = r_retired (rs' ! i)))"

lemma static_eq_refl [simp]: "static_eq r r"
  by (simp add: static_eq_def)

lemma static_eq_updates [simp]:
  "static_eq r (r'\<lparr>r_queue := x\<rparr>) = static_eq r r'"
  "static_eq r (r'\<lparr>r_cursor := y\<rparr>) = static_eq r r'"
  "static_eq r (r'\<lparr>r_waiting := z\<rparr>) = static_eq r r'"
  "static_eq r (r'\<lparr>r_retired := b\<rparr>) = static_eq r r'"
  by (simp_all add: static_eq_def)

lemma static_eq_removeWaiter [simp]:
  "static_eq r (removeWaiter i r') = static_eq r r'" "r_retired (removeWaiter i r') = r_retired r'"
  by (simp_all add: removeWaiter_def)

lemma routers_eq_refl [simp]: "routers_eq rs rs"
  by (simp add: routers_eq_def)

lemma routers_eq_trans: "routers_eq a b \<Longrightarrow> routers_eq b c \<Longrightarrow> routers_eq a c"
  by (auto simp: routers_eq_def static_eq_def)

lemma routers_eq_update:
  assumes "routers_eq rs rs'" "g < length rs \<Longrightarrow> static_eq (rs ! g) r \<and> r_retired (rs ! g) = r_retired r"
  shows "routers_eq rs (rs'[g := r])"
  unfolding routers_eq_def
proof (intro conjI allI impI)
  fix i assume "i < length rs"
  then show "static_eq (rs ! i) (rs'[g := r] ! i)" "r_retired (rs ! i) = r_retired (rs'[g := r] ! i)"
    using assms by (cases "i = g"; simp add: routers_eq_def)+
qed (use assms in \<open>simp add: routers_eq_def\<close>)

lemma routers_eq_signal: "routers_eq rs (sys_routers s) \<Longrightarrow> routers_eq rs (sys_routers (signal g now s))"
  unfolding signal_def Let_def set_router_simps
  by (rule routers_eq_update) (auto simp: routers_eq_def)

lemma routers_eq_acquire_turn:
  "routers_eq (sys_routers s) (sys_routers (fst (acquire_turn g q e queued now s)))"
  by (auto simp: acquire_turn_def grant_def Let_def split: option.split prod.split
      intro!: routers_eq_update)

lemma routers_eq_resume:
  "routers_eq (sys_routers s) (sys_routers (fst (Acquire_resume g w consume now s)))"
proof -
  define s1 where "s1 = (if consume then set_router g ((sys_routers s ! g)\<lparr>r_queue :=
      map (\<lambda>x. if w_id x = w_id w then x\<lparr>w_ready := False\<rparr> else x) (r_queue (sys_routers s ! g))\<rparr>) s else s)"
  obtain s2 out where s2: "acquire_turn g (w_query w) (w_ctxErr w) (Some (w_id w)) now s1 = (s2, out)"
    by fastforce
  have "routers_eq (sys_routers s) (sys_routers s1)"
    by (auto simp: s1_def intro!: routers_eq_update)
  moreover have "routers_eq (sys_routers s1) (sys_routers s2)"
    using routers_eq_acquire_turn [of s1 g "w_query w" "w_ctxErr w" "Some (w_id w)" now] s2 by simp
  ultimately have eq: "routers_eq (sys_routers s) (sys_routers s2)"
    by (rule routers_eq_trans)
  then have "routers_eq (sys_routers s)
      (sys_routers (set_router g (removeWaiter (w_id w) (sys_routers s2 ! g)) s2))"
    unfolding set_router_simps by (rule routers_eq_update) (use eq in \<open>simp add: routers_eq_def\<close>)
  with eq s2 show ?thesis
    by (auto simp: Acquire_resume_def Let_def s1_def [symmetric] routers_eq_signal split: acquired.split)
qed

lemma routers_eq_cancel: "routers_eq (sys_routers s) (sys_routers (cancel_waiter g i e s))"
  by (auto simp: cancel_waiter_def Let_def intro!: routers_eq_update)

lemma routers_eq_Release: "routers_eq (sys_routers s) (sys_routers (Release n st ra now s))"
  by (auto simp: Release_def Let_def intro!: routers_eq_signal split: prod.split)

lemma routers_eq_SetEnabled: "routers_eq (sys_routers s) (sys_routers (fst (SetEnabled g i on now s)))"
  by (auto simp: SetEnabled_def Let_def intro!: routers_eq_signal split: option.split)

lemma routers_output [simp]:
  "sys_routers (RecordExecution n res s) = sys_routers s"
  "sys_routers (FirstOutput n now s) = sys_routers s"
  by (simp_all add: RecordExecution_def FirstOutput_def Let_def)

lemmas routers_eq_steps =
  routers_eq_acquire_turn routers_eq_resume routers_eq_cancel routers_eq_Release routers_eq_SetEnabled

end
