(* ===== verification/Accounting.thy ===== *)
theory Accounting
  imports RouterMachine
begin

section \<open>Capacity accounting\<close>

text \<open>
  The counters of the router are exact: in every reachable state the number of active requests of a
  source state, of a quota domain, of an account and of the whole process is the number of leases
  that were handed out on it, by any generation, and not yet released. With it go the well-formedness
  facts of the store: every address a router, a lease or a capacity map holds is allocated.
\<close>

definition holdsS :: "addr \<Rightarrow> Lease \<Rightarrow> bool" where
  "holdsS a l = (\<not> l_once l \<and> l_state l = a)"

definition holdsQ :: "addr \<Rightarrow> Lease \<Rightarrow> bool" where
  "holdsQ a l = (\<not> l_once l \<and> l_quota l = a)"

definition holdsA :: "addr \<Rightarrow> Lease \<Rightarrow> bool" where
  "holdsA a l = (\<not> l_once l \<and> l_account l = Some a)"

lemmas holds_defs = holdsS_def holdsQ_def holdsA_def

definition actS :: "heap \<Rightarrow> int list" where
  "actS h = map st_active (h_states h)"

definition actQ :: "heap \<Rightarrow> int list" where
  "actQ h = map qt_active (h_quotas h)"

definition acct_ok :: "int list \<Rightarrow> int list \<Rightarrow> int \<Rightarrow> Lease list \<Rightarrow> bool" where
  "acct_ok aS aQ n ls =
     ((\<forall>a < length aS. aS ! a = count_if (holdsS a) ls) \<and>
      (\<forall>a < length aQ. aQ ! a = count_if (holdsQ a) ls + count_if (holdsA a) ls) \<and>
      n = count_if (\<lambda>l. \<not> l_once l) ls)"

definition accounting :: "sys \<Rightarrow> bool" where
  "accounting s =
     acct_ok (actS (sys_heap s)) (actQ (sys_heap s)) (cap_active (sys_cap s)) (sys_leases s)"

definition lease_shape :: "sys \<Rightarrow> Lease \<Rightarrow> bool" where
  "lease_shape s l =
     (l_state l < length (h_states (sys_heap s)) \<and> l_quota l < length (h_quotas (sys_heap s)) \<and>
      (\<forall>a. l_account l = Some a \<longrightarrow> a < length (h_quotas (sys_heap s))) \<and>
      l_router l < length (sys_routers s) \<and>
      target_Source (l_Target l) < length (cfg_Sources (r_cfg (sys_routers s ! l_router l))) \<and>
      l_started l \<le> sys_now s)"

definition maps_shape :: "capacity \<Rightarrow> heap \<Rightarrow> bool" where
  "maps_shape cap h =
     ((\<forall>(k, a) \<in> set (cap_sourceStates cap). a < length (h_states h)) \<and>
      (\<forall>(k, a) \<in> set (cap_quotaStates cap). a < length (h_quotas h)) \<and>
      (\<forall>(k, a) \<in> set (cap_accountStates cap). a < length (h_quotas h)))"

definition shape :: "sys \<Rightarrow> bool" where
  "shape s =
     ((\<forall>r \<in> set (sys_routers s). router_shape r (sys_heap s)) \<and>
      (\<forall>l \<in> set (sys_leases s). lease_shape s l) \<and>
      cap_current (sys_cap s) < length (sys_routers s) \<and>
      maps_shape (sys_cap s) (sys_heap s))"

subsection \<open>One slot taken, one slot returned\<close>

definition bump :: "int \<Rightarrow> addr \<Rightarrow> int list \<Rightarrow> int list" where
  "bump d a xs = xs[a := xs ! a + d]"

definition bump_opt :: "int \<Rightarrow> addr option \<Rightarrow> int list \<Rightarrow> int list" where
  "bump_opt d p xs = (case p of None \<Rightarrow> xs | Some a \<Rightarrow> bump d a xs)"

lemma bump_nth: "a < length xs \<Longrightarrow> bump d b xs ! a = xs ! a + (if a = b then d else 0)"
  by (auto simp: bump_def nth_list_update)

lemma bump_opt_nth: "a < length xs \<Longrightarrow> bump_opt d p xs ! a = xs ! a + (if p = Some a then d else 0)"
  by (auto simp: bump_opt_def bump_nth split: option.split)

lemma length_bump [simp]: "length (bump d a xs) = length xs" "length (bump_opt d p xs) = length xs"
  by (auto simp: bump_def bump_opt_def split: option.split)

lemma acct_take:
  assumes "acct_ok aS aQ n ls" and "\<not> l_once l"
  shows "acct_ok (bump 1 (l_state l) aS) (bump_opt 1 (l_account l) (bump 1 (l_quota l) aQ)) (n + 1) (ls @ [l])"
  using assms by (auto simp: acct_ok_def bump_nth bump_opt_nth holds_defs)

lemma acct_return:
  assumes "acct_ok aS aQ n ls" and "k < length ls" and "\<not> l_once (ls ! k)"
  shows "acct_ok (bump (- 1) (l_state (ls ! k)) aS)
    (bump_opt (- 1) (l_account (ls ! k)) (bump (- 1) (l_quota (ls ! k)) aQ)) (n - 1)
    (ls[k := (ls ! k)\<lparr>l_once := True\<rparr>])"
  using assms by (auto simp: acct_ok_def bump_nth bump_opt_nth count_if_update holds_defs)

lemma acct_update_lease:
  assumes "acct_ok aS aQ n ls" and "k < length ls"
    and "l_once l = l_once (ls ! k)" "l_state l = l_state (ls ! k)" "l_quota l = l_quota (ls ! k)"
      "l_account l = l_account (ls ! k)"
  shows "acct_ok aS aQ n (ls[k := l])"
  using assms by (auto simp: acct_ok_def count_if_update holds_defs)

lemma actS_upd_state: "actS (upd_state a f h) = (actS h)[a := st_active (f (h_states h ! a))]"
  by (simp add: actS_def upd_state_def map_update)

lemma actQ_upd_quota: "actQ (upd_quota a f h) = (actQ h)[a := qt_active (f (h_quotas h ! a))]"
  by (simp add: actQ_def upd_quota_def map_update)

lemma act_frame [simp]:
  "actS (upd_quota a g h) = actS h" "actS (upd_account p g h) = actS h" "actQ (upd_state a f h) = actQ h"
  by (simp_all add: actS_def actQ_def)

lemma length_act [simp]: "length (actS h) = length (h_states h)" "length (actQ h) = length (h_quotas h)"
  by (simp_all add: actS_def actQ_def)

lemma act_nth: "a < length (h_states h) \<Longrightarrow> st_active (h_states h ! a) = actS h ! a"
  "b < length (h_quotas h) \<Longrightarrow> qt_active (h_quotas h ! b) = actQ h ! b"
  by (simp_all add: actS_def actQ_def)

lemma actS_keep: "(\<And>x. st_active (f x) = st_active x) \<Longrightarrow> actS (upd_state a f h) = actS h"
  by (cases "a < length (h_states h)") (simp_all add: actS_upd_state act_nth list_update_beyond)

lemma actQ_keep: "(\<And>x. qt_active (f x) = qt_active x) \<Longrightarrow> actQ (upd_quota a f h) = actQ h"
  by (cases "a < length (h_quotas h)") (simp_all add: actQ_upd_quota act_nth list_update_beyond)

lemmas act_keep = actS_keep actQ_keep

lemma actQ_upd_account:
  assumes "\<And>x. qt_active (f x) = qt_active x + d" "\<And>a. p = Some a \<Longrightarrow> a < length (h_quotas h)"
  shows "actQ (upd_account p f h) = bump_opt d p (actQ h)"
  using assms by (auto simp: upd_account_def bump_opt_def bump_def actQ_upd_quota act_nth split: option.split)

lemma router_addrs:
  assumes "router_shape r h" "i < length (cfg_Sources (r_cfg r))"
  shows "r_state r ! i < length (h_states h)" "r_quotas r ! i < length (h_quotas h)"
    "r_accounts r ! i = Some a \<Longrightarrow> a < length (h_quotas h)"
  using assms by (auto simp: router_shape_def Let_def) (metis nth_mem)

lemma take_slot_effect:
  assumes "take_slot r i cap h = (cap', h')" and "router_shape r h" and "i < length (cfg_Sources (r_cfg r))"
  shows "actS h' = bump 1 (r_state r ! i) (actS h)"
    "actQ h' = bump_opt 1 (r_accounts r ! i) (bump 1 (r_quotas r ! i) (actQ h))"
    "cap_active cap' = cap_active cap + 1"
    "length (h_states h') = length (h_states h)" "length (h_quotas h') = length (h_quotas h)"
  using assms(1) router_addrs [OF assms(2,3)]
  by (auto simp: take_slot_def Let_def actS_upd_state actQ_upd_account [where d = 1]
      actQ_upd_quota bump_def act_nth)

lemma take_slot_maps [simp]:
  assumes "take_slot r i cap h = (cap', h')"
  shows "cap_sourceStates cap' = cap_sourceStates cap" "cap_quotaStates cap' = cap_quotaStates cap"
    "cap_accountStates cap' = cap_accountStates cap" "cap_current cap' = cap_current cap"
  using assms by (auto simp: take_slot_def Let_def)

lemma return_slot_effect:
  assumes "return_slot l cap h = (cap', h')" and "lease_shape s l" "sys_heap s = h"
  shows "actS h' = bump (- 1) (l_state l) (actS h)"
    "actQ h' = bump_opt (- 1) (l_account l) (bump (- 1) (l_quota l) (actQ h))"
    "cap_active cap' = cap_active cap - 1"
    "length (h_states h') = length (h_states h)" "length (h_quotas h') = length (h_quotas h)"
    "cap_sourceStates cap' = cap_sourceStates cap" "cap_quotaStates cap' = cap_quotaStates cap"
    "cap_accountStates cap' = cap_accountStates cap" "cap_current cap' = cap_current cap"
  using assms
  by (auto simp: return_slot_def Let_def lease_shape_def actS_upd_state actQ_upd_account [where d = "- 1"]
      actQ_upd_quota bump_def act_nth)

subsection \<open>Operations that leave the counters alone\<close>

definition frame :: "sys \<Rightarrow> sys \<Rightarrow> bool" where
  "frame s s' =
     (routers_eq (sys_routers s) (sys_routers s') \<and>
      length (h_states (sys_heap s')) = length (h_states (sys_heap s)) \<and>
      length (h_quotas (sys_heap s')) = length (h_quotas (sys_heap s)) \<and>
      cap_sourceStates (sys_cap s') = cap_sourceStates (sys_cap s) \<and>
      cap_quotaStates (sys_cap s') = cap_quotaStates (sys_cap s) \<and>
      cap_accountStates (sys_cap s') = cap_accountStates (sys_cap s) \<and>
      cap_current (sys_cap s') = cap_current (sys_cap s) \<and> sys_now s \<le> sys_now s')"

definition same_core :: "sys \<Rightarrow> sys \<Rightarrow> bool" where
  "same_core s s' =
     (sys_heap s' = sys_heap s \<and> sys_cap s' = sys_cap s \<and> sys_leases s' = sys_leases s)"

definition counted :: "sys \<Rightarrow> bool" where
  "counted s = (shape s \<and> accounting s)"

lemma router_shape_frame:
  assumes "router_shape r h" "static_eq r r'"
    "length (h_states h') = length (h_states h)" "length (h_quotas h') = length (h_quotas h)"
  shows "router_shape r' h'"
  using assms by (auto simp: router_shape_def static_eq_def Let_def)

lemma lease_shape_frame: "frame s s' \<Longrightarrow> lease_shape s l \<Longrightarrow> lease_shape s' l"
  by (auto simp: frame_def lease_shape_def routers_eq_def static_eq_def)

lemma shape_frame:
  assumes "frame s s'" and "shape s" and "\<And>l. l \<in> set (sys_leases s') \<Longrightarrow> lease_shape s' l"
  shows "shape s'"
proof -
  have "router_shape r' (sys_heap s')" if r': "r' \<in> set (sys_routers s')" for r'
  proof -
    from r' obtain i where i: "i < length (sys_routers s')" "r' = sys_routers s' ! i"
      by (auto simp: in_set_conv_nth)
    then have "router_shape (sys_routers s ! i) (sys_heap s)"
      using assms(1,2) by (auto simp: frame_def routers_eq_def shape_def)
    then show ?thesis
      using assms(1) i by (auto simp: frame_def routers_eq_def intro: router_shape_frame)
  qed
  then show ?thesis
    using assms by (auto simp: shape_def frame_def maps_shape_def routers_eq_def)
qed

lemma counted_frame:
  assumes "counted s" and f: "frame s s'" and sc: "same_core s s'"
  shows "counted s'"
proof -
  have sh: "shape s" using assms(1) by (simp add: counted_def)
  have "shape s'"
    by (rule shape_frame [OF f sh])
      (use sc sh in \<open>auto simp: same_core_def shape_def intro: lease_shape_frame [OF f]\<close>)
  then show ?thesis
    using assms by (simp add: counted_def accounting_def same_core_def)
qed

lemma frame_tick: "frame s s' \<Longrightarrow> sys_now s' \<le> now \<Longrightarrow> frame s (tick now s')"
  by (auto simp: frame_def)

lemma counted_tick: "counted s \<Longrightarrow> sys_now s \<le> now \<Longrightarrow> counted (tick now s)"
  by (rule counted_frame) (auto simp: frame_def same_core_def)

lemma same_core_signal [simp]: "same_core s (signal g now s') = same_core s s'"
  by (simp add: same_core_def)

lemma frame_signal: "frame s s' \<Longrightarrow> frame s (signal g now s')"
  by (auto simp: frame_def routers_eq_signal)

lemma counted_signal: "counted s \<Longrightarrow> counted (signal g now s)"
  by (rule counted_frame) (simp_all add: frame_def same_core_def routers_eq_signal)

lemma counted_set_router:
  assumes "counted s" "static_eq (sys_routers s ! g) r" "r_retired (sys_routers s ! g) = r_retired r"
  shows "counted (set_router g r s)"
  by (rule counted_frame [OF assms(1)])
    (use assms in \<open>simp_all add: frame_def same_core_def routers_eq_update\<close>)

subsection \<open>Acquire\<close>

lemma acquire_turn_cases:
  obtains (same) "same_core s (fst (acquire_turn g q e queued now s))"
    "sys_now (fst (acquire_turn g q e queued now s)) = sys_now s"
  | (granted) idx el where "router_choose (sys_routers s ! g) (sys_cap s) (sys_heap s) q now = (Some idx, el)"
      "turn_queue (sys_routers s ! g) (sys_cap s) (sys_heap s) now queued (r_queue (sys_routers s ! g))"
      "acquire_turn g q e queued now s = (grant g idx q now s, Granted (length (sys_leases s)))"
proof -
  obtain idx el where ch: "router_choose (sys_routers s ! g) (sys_cap s) (sys_heap s) q now = (idx, el)"
    by fastforce
  show thesis
  proof (cases "e = None \<and> idx \<noteq> None \<and>
      turn_queue (sys_routers s ! g) (sys_cap s) (sys_heap s) now queued (r_queue (sys_routers s ! g))")
    case True
    then show thesis using ch by (intro granted) (auto simp: acquire_turn_def Let_def)
  next
    case False
    then show thesis using ch
      by (intro same) (auto simp: acquire_turn_def Let_def same_core_def split: option.split)
  qed
qed

lemma counted_grant:
  assumes inv: "counted s" and g: "g < length (sys_routers s)" and now: "sys_now s \<le> now"
    and ch: "router_choose (sys_routers s ! g) (sys_cap s) (sys_heap s) q now = (Some idx, el)"
  shows "counted (tick now (grant g idx q now s))"
proof -
  let ?r = "sys_routers s ! g"
  let ?i = "target_Source (r_targets ?r ! idx)"
  let ?l = "new_lease g ?r idx q now"
  obtain cap h where ts: "take_slot ?r ?i (sys_cap s) (sys_heap s) = (cap, h)" by fastforce
  let ?s = "tick now (grant g idx q now s)"
  have sh: "router_shape ?r (sys_heap s)"
    using inv g by (simp add: counted_def shape_def)
  have i: "?i < length (cfg_Sources (r_cfg ?r))"
    using router_choose_sound [OF ch] candidate_source [OF sh] by blast
  note eff = take_slot_effect [OF ts sh i] and maps = take_slot_maps [OF ts]
  have s': "sys_heap (grant g idx q now s) = h" "sys_cap (grant g idx q now s) = cap"
    "sys_leases (grant g idx q now s) = sys_leases s @ [?l]"
    "sys_routers (grant g idx q now s) = (sys_routers s)[g := ?r\<lparr>r_cursor := r_cursor ?r + 1\<rparr>]"
    using ts by (simp_all add: grant_def Let_def)
  have fr: "frame s ?s"
    using eff maps now by (auto simp: frame_def s' intro!: routers_eq_update)
  have "lease_shape ?s ?l"
    using router_addrs [OF sh i] i g eff by (auto simp: lease_shape_def s' new_lease_def Let_def)
  then have "shape ?s"
    using inv
    by (intro shape_frame [OF fr]) (auto simp: s'(3) counted_def shape_def intro: lease_shape_frame [OF fr])
  moreover have "accounting ?s"
    using acct_take [of "actS (sys_heap s)" "actQ (sys_heap s)" "cap_active (sys_cap s)" "sys_leases s" ?l]
      inv eff
    by (simp add: accounting_def counted_def s' new_lease_def Let_def)
  ultimately show ?thesis by (simp add: counted_def)
qed

lemma counted_acquire_turn:
  assumes "counted s" "g < length (sys_routers s)" "sys_now s \<le> now"
  shows "counted (tick now (fst (acquire_turn g q e queued now s)))"
proof (cases rule: acquire_turn_cases [of s g q e queued now])
  case same
  show ?thesis
    using assms same routers_eq_acquire_turn [of s g q e queued now]
    by (intro counted_frame [OF assms(1)] frame_tick) (auto simp: frame_def same_core_def)
next
  case (granted idx el)
  then show ?thesis using counted_grant [OF assms granted(1)] by simp
qed

lemma tick_set_router: "tick now (set_router g r s) = set_router g r (tick now s)"
  by (cases s) (simp add: tick_def set_router_def)

lemma tick_signal: "tick now (signal g t s) = signal g t (tick now s)"
  by (simp add: signal_def Let_def tick_set_router)

lemma counted_resume:
  assumes "counted s" "g < length (sys_routers s)" "sys_now s \<le> now"
  shows "counted (tick now (fst (Acquire_resume g w consume now s)))"
proof -
  define s1 where "s1 = (if consume then set_router g ((sys_routers s ! g)\<lparr>r_queue :=
      map (\<lambda>x. if w_id x = w_id w then x\<lparr>w_ready := False\<rparr> else x) (r_queue (sys_routers s ! g))\<rparr>) s else s)"
  obtain s2 out where s2: "acquire_turn g (w_query w) (w_ctxErr w) (Some (w_id w)) now s1 = (s2, out)"
    by fastforce
  have "counted s1"
    using assms(1) by (auto simp: s1_def intro: counted_set_router)
  moreover have "g < length (sys_routers s1)" "sys_now s1 \<le> now"
    using assms by (auto simp: s1_def)
  ultimately have c2: "counted (tick now s2)"
    using counted_acquire_turn [of s1 g now "w_query w" "w_ctxErr w" "Some (w_id w)"] s2 by simp
  have "counted (signal g now (set_router g (removeWaiter (w_id w) (sys_routers s2 ! g)) (tick now s2)))"
    by (intro counted_signal counted_set_router c2) simp_all
  then have "counted (tick now (signal g now (set_router g (removeWaiter (w_id w) (sys_routers s2 ! g)) s2)))"
    by (simp add: tick_signal tick_set_router)
  with c2 s2 show ?thesis
    by (auto simp: Acquire_resume_def Let_def s1_def [symmetric] split: acquired.split)
qed

lemma counted_cancel: "counted s \<Longrightarrow> counted (cancel_waiter g i e s)"
  unfolding cancel_waiter_def Let_def by (rule counted_set_router) simp_all

subsection \<open>Release and the other operations on a lease\<close>

lemma recordEvent_simps [simp]:
  "cap_active (recordEvent r l st now cap) = cap_active cap"
  "cap_sourceStates (recordEvent r l st now cap) = cap_sourceStates cap"
  "cap_quotaStates (recordEvent r l st now cap) = cap_quotaStates cap"
  "cap_accountStates (recordEvent r l st now cap) = cap_accountStates cap"
  "cap_current (recordEvent r l st now cap) = cap_current cap"
  "cap_dispatchSequence (recordEvent r l st now cap) = cap_dispatchSequence cap"
  by (simp_all add: recordEvent_def push_event_def)

lemma release_state_simps [simp]:
  "st_active (release_state l st now x) = st_active x"
  "st_virtualFinish (release_state l st now x) = st_virtualFinish x"
  "st_enabled (release_state l st now x) = st_enabled x"
  by (simp_all add: release_state_def Let_def)

lemma release_cooldown_simps [simp]:
  "qt_active (release_cooldown st ra now x) = qt_active x"
  "qt_limit (release_cooldown st ra now x) = qt_limit x"
  by (simp_all add: release_cooldown_def)

lemma record_usage_simps [simp]:
  "st_active (record_usage m res x) = st_active x"
  "st_virtualFinish (record_usage m res x) = st_virtualFinish x"
  "st_latency (record_usage m res x) = st_latency x"
  by (simp_all add: record_usage_def Let_def split: option.split)

lemma frame_lease_update:
  assumes "counted s" "frame s s'" and "n < length (sys_leases s)"
    and "sys_leases s' = (sys_leases s)[n := l]"
    and "l_state l = l_state (sys_leases s ! n)" "l_quota l = l_quota (sys_leases s ! n)"
      "l_account l = l_account (sys_leases s ! n)" "l_router l = l_router (sys_leases s ! n)"
      "l_Target l = l_Target (sys_leases s ! n)" "l_started l = l_started (sys_leases s ! n)"
  shows "shape s'"
proof (rule shape_frame [OF assms(2)])
  show "shape s" using assms(1) by (simp add: counted_def)
  fix x assume "x \<in> set (sys_leases s')"
  then have "x = l \<or> x \<in> set (sys_leases s)"
    using assms(4) by (auto dest: set_update_subset_insert [THEN subsetD])
  moreover have ls: "lease_shape s y" if "y \<in> set (sys_leases s)" for y
    using assms(1) that by (simp add: counted_def shape_def)
  moreover have "lease_shape s l"
    using ls [of "sys_leases s ! n"] assms(3,5-) by (simp add: lease_shape_def)
  ultimately show "lease_shape s' x"
    using lease_shape_frame [OF assms(2)] by blast
qed

lemma counted_Release:
  assumes inv: "counted s" and n: "n < length (sys_leases s)" and now: "sys_now s \<le> now"
  shows "counted (tick now (Release n status retryAfter now s))"
proof (cases "l_once (sys_leases s ! n)")
  case True
  then show ?thesis using counted_tick [OF inv now] by (simp add: Release_def)
next
  case False
  let ?l = "sys_leases s ! n"
  let ?s = "tick now (Release n status retryAfter now s)"
  obtain cap h where rs: "return_slot ?l (sys_cap s) (sys_heap s) = (cap, h)" by fastforce
  have ls: "lease_shape s ?l" using inv n by (simp add: counted_def shape_def)
  note eff = return_slot_effect [OF rs ls refl]
  have leases: "sys_leases ?s = (sys_leases s)[n := ?l\<lparr>l_once := True\<rparr>]"
    and act: "actS (sys_heap ?s) = actS h" "actQ (sys_heap ?s) = actQ h"
      "cap_active (sys_cap ?s) = cap_active cap"
    and len: "length (h_states (sys_heap ?s)) = length (h_states h)"
      "length (h_quotas (sys_heap ?s)) = length (h_quotas h)"
    and maps: "cap_sourceStates (sys_cap ?s) = cap_sourceStates (sys_cap s)"
      "cap_quotaStates (sys_cap ?s) = cap_quotaStates (sys_cap s)"
      "cap_accountStates (sys_cap ?s) = cap_accountStates (sys_cap s)"
      "cap_current (sys_cap ?s) = cap_current (sys_cap s)"
    using False rs eff by (auto simp: Release_def Let_def act_keep)
  have "frame s ?s"
    using len maps eff now routers_eq_Release [of s n status retryAfter now] by (simp add: frame_def)
  then have "shape ?s"
    by (rule frame_lease_update [OF inv _ n leases]) simp_all
  moreover have "accounting ?s"
    using acct_return [of "actS (sys_heap s)" "actQ (sys_heap s)" "cap_active (sys_cap s)" "sys_leases s" n]
      inv n False eff act
    unfolding accounting_def leases by (simp add: counted_def accounting_def)
  ultimately show ?thesis by (simp add: counted_def)
qed

lemma counted_RecordExecution:
  assumes inv: "counted s" and n: "n < length (sys_leases s)"
  shows "counted (RecordExecution n result s)"
proof -
  let ?s = "RecordExecution n result s"
  have leases: "sys_leases ?s = (sys_leases s)[n := (sys_leases s ! n)\<lparr>l_execution := Some (Redacted result)\<rparr>]"
    by (simp add: RecordExecution_def Let_def)
  have "frame s ?s" by (simp add: frame_def) (simp add: RecordExecution_def Let_def)
  then have "shape ?s"
    by (rule frame_lease_update [OF inv _ n leases]) simp_all
  moreover have "accounting ?s"
    using inv n
    by (auto simp: accounting_def counted_def RecordExecution_def Let_def actS_keep
        intro!: acct_update_lease)
  ultimately show ?thesis by (simp add: counted_def)
qed

lemma counted_FirstOutput:
  assumes inv: "counted s" and n: "n < length (sys_leases s)" and now: "sys_now s \<le> now"
  shows "counted (tick now (FirstOutput n now s))"
proof (cases "l_firstOutput (sys_leases s ! n)")
  case True
  then show ?thesis using counted_tick [OF inv now] by (simp add: FirstOutput_def)
next
  case False
  let ?s = "tick now (FirstOutput n now s)"
  have leases: "sys_leases ?s = (sys_leases s)[n := (sys_leases s ! n)\<lparr>l_firstOutput := True,
      l_ttftMS := fdiv (f_of_int ((now - l_started (sys_leases s ! n)) div 1000)) (Fin 1000)\<rparr>]"
    using False by (simp add: FirstOutput_def Let_def)
  have "frame s ?s" using now False by (simp add: frame_def) (simp add: FirstOutput_def Let_def)
  then have "shape ?s"
    by (rule frame_lease_update [OF inv _ n leases]) simp_all
  moreover have "accounting ?s"
    using inv n False
    by (auto simp: accounting_def counted_def FirstOutput_def Let_def actS_keep
        intro!: acct_update_lease)
  ultimately show ?thesis by (simp add: counted_def)
qed

lemma counted_heap_update:
  assumes inv: "counted s"
    and "\<And>x. st_active (f x) = st_active x"
  shows "counted (s\<lparr>sys_heap := upd_state a f (sys_heap s)\<rparr>)" (is "counted ?s")
proof -
  have fr: "frame s ?s" by (simp add: frame_def)
  have "shape ?s"
    using inv by (intro shape_frame [OF fr]) (auto simp: counted_def shape_def intro: lease_shape_frame [OF fr])
  moreover have "accounting ?s"
    using inv assms(2) by (simp add: accounting_def counted_def actS_keep)
  ultimately show ?thesis by (simp add: counted_def)
qed

lemma counted_SetEnabled:
  assumes inv: "counted s" and now: "sys_now s \<le> now"
  shows "counted (tick now (fst (SetEnabled g i on now s)))"
  using assms
  by (auto simp: SetEnabled_def Let_def split: option.split
      intro!: counted_tick counted_signal counted_heap_update)

end
