(* ===== verification/Reconfigure.thy ===== *)
theory Reconfigure
  imports Accounting
begin

section \<open>Compiling and adopting a configuration\<close>

text \<open>
  What \<open>New\<close> allocates and what \<open>Adopt\<close> (\<open>reconfigure.go\<close>) does with it. The loop of \<open>Adopt\<close>
  never meets a nil account when the configuration is well formed, keeps every entry of the three
  capacity maps, and leaves the next router holding, for each source, the object its identifier has
  in the map, with the limit of the new configuration.
\<close>

subsection \<open>The objects New allocates\<close>

lemma domain_limits_keys: "fst ` set (domain_limits acc ss) = fst ` set acc \<union> source_QuotaDomain ` set ss"
  by (induction acc ss rule: domain_limits.induct) (auto simp: image_iff)

lemma domain_limits_distinct: "distinct (map fst acc) \<Longrightarrow> distinct (map fst (domain_limits acc ss))"
  by (induction acc ss rule: domain_limits.induct) auto

lemma domain_limits_value:
  "(d, l) \<in> set (domain_limits acc ss) \<Longrightarrow>
   (d, l) \<in> set acc \<or> (\<exists>s \<in> set ss. source_QuotaDomain s = d \<and> source_QuotaMaxInflight s = l)"
proof (induction acc ss rule: domain_limits.induct)
  case (2 acc s ss)
  then show ?case by (auto split: if_splits)
qed simp

definition fresh_quota :: "Config \<Rightarrow> heap \<Rightarrow> string \<Rightarrow> addr option" where
  "fresh_quota c h =
     (let qb = length (h_quotas h) + length (cfg_Accounts c); doms = domain_limits [] (cfg_Sources c)
      in map_of (zip (map fst doms) [qb..<qb + length doms]))"

definition fresh_account :: "Config \<Rightarrow> heap \<Rightarrow> string \<Rightarrow> addr option" where
  "fresh_account c h =
     (let ab = length (h_quotas h); qb = ab + length (cfg_Accounts c)
      in map_of (rev (zip (map account_ID (cfg_Accounts c)) [ab..<qb])))"

lemma zip_upt_mem: "(x, a) \<in> set (zip xs [b..<b + length xs]) \<longleftrightarrow> (\<exists>i < length xs. x = xs ! i \<and> a = b + i)"
  by (auto simp: in_set_zip)

lemma fresh_quota_SomeD:
  assumes "fresh_quota c h d = Some a"
  obtains i where "i < length (domain_limits [] (cfg_Sources c))" "d = fst (domain_limits [] (cfg_Sources c) ! i)"
    "a = length (h_quotas h) + length (cfg_Accounts c) + i"
proof -
  let ?doms = "domain_limits [] (cfg_Sources c)" and ?qb = "length (h_quotas h) + length (cfg_Accounts c)"
  have "(d, a) \<in> set (zip (map fst ?doms) [?qb..<?qb + length (map fst ?doms)])"
    using assms map_of_SomeD by (fastforce simp: fresh_quota_def Let_def)
  then show thesis
    using that unfolding zip_upt_mem by auto
qed

lemma fresh_account_SomeD:
  assumes "fresh_account c h x = Some a"
  obtains i where "i < length (cfg_Accounts c)" "x = account_ID (cfg_Accounts c ! i)" "a = length (h_quotas h) + i"
proof -
  let ?ids = "map account_ID (cfg_Accounts c)" and ?ab = "length (h_quotas h)"
  have "(x, a) \<in> set (zip ?ids [?ab..<?ab + length ?ids])"
    using map_of_SomeD [OF assms [unfolded fresh_account_def Let_def]] by simp
  then show thesis
    using that unfolding zip_upt_mem by auto
qed

lemma fresh_quota_inj: "fresh_quota c h d = Some a \<Longrightarrow> fresh_quota c h d' = Some a \<Longrightarrow> d = d'"
  by (elim fresh_quota_SomeD) simp

lemma fresh_account_inj: "fresh_account c h d = Some a \<Longrightarrow> fresh_account c h d' = Some a \<Longrightarrow> d = d'"
  by (elim fresh_account_SomeD) simp

lemma fresh_quota_account: "fresh_quota c h d = Some a \<Longrightarrow> fresh_account c h x = Some b \<Longrightarrow> a \<noteq> b"
  by (elim fresh_account_SomeD fresh_quota_SomeD) simp

lemma fresh_ge: "fresh_quota c h d = Some a \<Longrightarrow> length (h_quotas h) \<le> a"
  "fresh_account c h x = Some b \<Longrightarrow> length (h_quotas h) \<le> b"
  by (elim fresh_quota_SomeD, simp) (elim fresh_account_SomeD, simp)

lemma fresh_quota_source:
  assumes "s \<in> set (cfg_Sources c)"
  obtains a where "fresh_quota c h (source_QuotaDomain s) = Some a"
proof -
  have "source_QuotaDomain s \<in> fst ` set (domain_limits [] (cfg_Sources c))"
    using assms by (simp add: domain_limits_keys)
  then have "fresh_quota c h (source_QuotaDomain s) \<noteq> None"
    unfolding fresh_quota_def Let_def
    by (subst map_of_zip_is_None) auto
  then show thesis using that by blast
qed

lemma fresh_account_known:
  assumes "x \<in> account_ID ` set (cfg_Accounts c)"
  obtains a where "fresh_account c h x = Some a"
proof -
  let ?ids = "map account_ID (cfg_Accounts c)"
  have "x \<in> fst ` set (zip ?ids [length (h_quotas h)..<length (h_quotas h) + length ?ids])"
    using assms by (simp flip: set_map)
  then have "fresh_account c h x \<noteq> None"
    unfolding fresh_account_def Let_def map_of_eq_None_iff by simp
  then show thesis using that by blast
qed

lemma New_simps:
  assumes "New c gen h = (r, cap, h')"
  shows "r_cfg r = c" "r_retired r = False" "r_queue r = []" "r_waiting r = 0"
    "r_state r = [length (h_states h)..<length (h_states h) + length (cfg_Sources c)]"
    "r_quotas r = map (\<lambda>s. the (fresh_quota c h (source_QuotaDomain s))) (cfg_Sources c)"
    "r_accounts r = map (\<lambda>s. fresh_account c h (source_AccountID s)) (cfg_Sources c)"
    "r_poolStrategies r = map (pool_strategy c) (cfg_Sources c)"
    "r_accountWeights r = map (account_weight c) (cfg_Sources c)"
    "r_targets r = compile_targets c"
    "h_states h' = h_states h @ map (\<lambda>s. zero_state\<lparr>st_enabled := source_Enabled s\<rparr>) (cfg_Sources c)"
    "h_quotas h' = h_quotas h @ map (\<lambda>a. new_quota (account_MaxInflight a)) (cfg_Accounts c)
       @ map (\<lambda>(d, l). new_quota l) (domain_limits [] (cfg_Sources c))"
    "cap_active cap = 0" "cap_current cap = gen"
  using assms by (auto simp: New_def Let_def fresh_quota_def fresh_account_def)

lemma New_act:
  assumes "New c gen h = (r, cap, h')"
  shows "actS h' = actS h @ replicate (length (cfg_Sources c)) 0"
    "actQ h' = actQ h @ replicate (length (cfg_Accounts c) + length (domain_limits [] (cfg_Sources c))) 0"
proof -
  have "map (\<lambda>x. st_active (zero_state\<lparr>st_enabled := source_Enabled x\<rparr>)) xs = replicate (length xs) 0" for xs
    by (induction xs) (simp_all add: zero_state_def)
  then show "actS h' = actS h @ replicate (length (cfg_Sources c)) 0"
    by (simp add: actS_def New_simps [OF assms] o_def)
  have "map (\<lambda>x. qt_active (new_quota (account_MaxInflight x))) xs = replicate (length xs) 0" for xs
    by (induction xs) (simp_all add: new_quota_def)
  moreover have "map (\<lambda>x. qt_active (case x of (d, l) \<Rightarrow> new_quota l)) xs = replicate (length xs) 0" for xs :: "(string \<times> int) list"
    by (induction xs) (auto simp: new_quota_def)
  ultimately show "actQ h' = actQ h @ replicate (length (cfg_Accounts c) + length (domain_limits [] (cfg_Sources c))) 0"
    by (simp add: actQ_def New_simps [OF assms] o_def replicate_add)
qed

lemma fresh_less:
  assumes "New c gen h = (r, cap, h')"
  shows "fresh_quota c h d = Some a \<Longrightarrow> a < length (h_quotas h')"
    "fresh_account c h x = Some b \<Longrightarrow> b < length (h_quotas h')"
  by (elim fresh_quota_SomeD, simp add: New_simps [OF assms])
     (elim fresh_account_SomeD, simp add: New_simps [OF assms])

lemma fresh_quota_limit:
  assumes "New c gen h = (r, cap, h')" and "cfg_wf c" and "s \<in> set (cfg_Sources c)"
    and "fresh_quota c h (source_QuotaDomain s) = Some a"
  shows "qt_limit (h_quotas h' ! a) = source_QuotaMaxInflight s"
proof -
  let ?doms = "domain_limits [] (cfg_Sources c)"
  obtain i where i: "i < length ?doms" "source_QuotaDomain s = fst (?doms ! i)"
    "a = length (h_quotas h) + length (cfg_Accounts c) + i"
    using fresh_quota_SomeD [OF assms(4)] by blast
  obtain d l where dl: "?doms ! i = (d, l)" by fastforce
  then have "(d, l) \<in> set ?doms" using i(1) nth_mem by fastforce
  then obtain s' where s': "s' \<in> set (cfg_Sources c)" "source_QuotaDomain s' = d" "source_QuotaMaxInflight s' = l"
    using domain_limits_value by fastforce
  have "\<forall>x \<in> set (cfg_Sources c). \<forall>y \<in> set (cfg_Sources c).
      source_QuotaDomain x = source_QuotaDomain y \<longrightarrow> source_QuotaMaxInflight x = source_QuotaMaxInflight y"
    using assms(2) unfolding cfg_wf_def by blast
  then have "l = source_QuotaMaxInflight s"
    using s' assms(3) dl i(2) by (metis fst_conv)
  then show ?thesis
    using i dl by (simp add: New_simps [OF assms(1)] nth_append new_quota_def)
qed

lemma fresh_account_limit:
  assumes "New c gen h = (r, cap, h')" and "cfg_wf c" and "acc \<in> set (cfg_Accounts c)"
    and "fresh_account c h (account_ID acc) = Some a"
  shows "qt_limit (h_quotas h' ! a) = account_MaxInflight acc"
proof -
  obtain i where i: "i < length (cfg_Accounts c)" "account_ID acc = account_ID (cfg_Accounts c ! i)"
    "a = length (h_quotas h) + i"
    using fresh_account_SomeD [OF assms(4)] by blast
  have "acc = cfg_Accounts c ! i"
    using assms(2,3) i by (auto simp: cfg_wf_def distinct_map inj_on_def)
  then show ?thesis
    using i by (simp add: New_simps [OF assms(1)] nth_append new_quota_def)
qed

lemma compile_targets_source: "t \<in> set (compile_targets c) \<Longrightarrow> target_Source t < length (cfg_Sources c)"
  by (auto simp: compile_targets_def source_targets_def in_set_zip)

lemma compile_candidates_index: "idx \<in> set (compile_candidates c ts gs k) \<Longrightarrow> idx < length ts"
  by (auto simp: compile_candidates_def split: if_splits option.splits)

lemma New_shape:
  assumes "New c gen h = (r, cap, h')"
  shows "router_shape r h'"
proof -
  have "the (fresh_quota c h (source_QuotaDomain s)) < length (h_quotas h')" if "s \<in> set (cfg_Sources c)" for s
    using fresh_quota_source [OF that, of h] fresh_less(1) [OF assms] by (metis option.sel)
  moreover have "r_candidates r k = compile_candidates c (r_targets r) (r_groups r) k" for k
    using assms by (auto simp: New_def Let_def)
  moreover have "length (r_parentEnabled r) = length (cfg_Sources c)" "length (r_parentApproved r) = length (cfg_Sources c)"
    using assms by (auto simp: New_def Let_def)
  ultimately show ?thesis
    using fresh_less(2) [OF assms]
    by (auto simp: router_shape_def Let_def New_simps [OF assms] image_iff
        dest: compile_targets_source compile_candidates_index)
qed

subsection \<open>One entry of a capacity map\<close>

lemma AList_update_fresh: "k \<notin> fst ` set m \<Longrightarrow> AList.update k v m = m @ [(k, v)]"
  by (induction m) auto

lemma adopt_entry_cases:
  assumes "adopt_entry k fresh m = (a, m')"
  obtains (old) "map_of m k = Some a" "m' = m" "(k, a) \<in> set m"
    | (new) "k \<notin> fst ` set m" "a = fresh" "m' = m @ [(k, fresh)]"
proof (cases "map_of m k")
  case None
  then have "k \<notin> fst ` set m" by (simp add: map_of_eq_None_iff)
  then show thesis
    using assms None by (intro new) (auto simp: adopt_entry_def AList_update_fresh)
next
  case (Some b)
  then show thesis
    using assms map_of_SomeD [OF Some] by (intro old) (auto simp: adopt_entry_def)
qed

lemma adopt_entry_maps:
  assumes "adopt_entry k fresh m = (a, m')"
  shows "map_of m' k = Some a" "map_of m x = Some b \<Longrightarrow> map_of m' x = Some b"
    "distinct (map fst m) \<Longrightarrow> distinct (map fst m')"
proof -
  have "map_of m' k = Some a \<and> (map_of m x = Some b \<longrightarrow> map_of m' x = Some b) \<and>
      (distinct (map fst m) \<longrightarrow> distinct (map fst m'))"
    using assms
  proof (cases rule: adopt_entry_cases)
    case old
    then show ?thesis by simp
  next
    case new
    then have "map_of m k = None" by (simp add: map_of_eq_None_iff)
    then show ?thesis using new by (simp add: map_add_def)
  qed
  then show "map_of m' k = Some a" "map_of m x = Some b \<Longrightarrow> map_of m' x = Some b"
    "distinct (map fst m) \<Longrightarrow> distinct (map fst m')"
    by blast+
qed

text \<open>The part of the loop that handles the source states, after \<open>k\<close> sources.\<close>

definition adopt_S :: "Config \<Rightarrow> (string \<times> addr) list \<Rightarrow> nat \<Rightarrow> nat \<Rightarrow> addr list \<Rightarrow> (string \<times> addr) list \<Rightarrow> bool" where
  "adopt_S c sm0 len k rs sm =
     (length rs = length (cfg_Sources c) \<and> distinct (map fst sm) \<and>
      (\<forall>(x, a) \<in> set sm. a < len) \<and> (\<forall>a \<in> set rs. a < len) \<and>
      (\<forall>x b. map_of sm0 x = Some b \<longrightarrow> map_of sm x = Some b) \<and>
      (\<forall>j < k. map_of sm (source_ID (cfg_Sources c ! j)) = Some (rs ! j)))"

lemma adopt_S_step:
  assumes inv: "adopt_S c sm0 len k rs sm" and k: "k < length (cfg_Sources c)"
    and e: "adopt_entry (source_ID (cfg_Sources c ! k)) (rs ! k) sm = (a, sm')"
  shows "adopt_S c sm0 len (Suc k) (rs[k := a]) sm'" "a < len"
proof -
  have rs: "rs ! k < len" using inv k by (auto simp: adopt_S_def)
  have less: "\<forall>(x, a) \<in> set sm'. a < len"
    using e inv rs by (cases rule: adopt_entry_cases [OF e]) (auto simp: adopt_S_def)
  show a: "a < len"
    using less map_of_SomeD [OF adopt_entry_maps(1) [OF e]] by auto
  have "map_of sm' (source_ID (cfg_Sources c ! j)) = Some (rs[k := a] ! j)" if "j < Suc k" for j
    using that inv k adopt_entry_maps(1,2) [OF e] by (cases "j = k") (auto simp: adopt_S_def less_Suc_eq)
  moreover have "\<forall>b \<in> set (rs[k := a]). b < len"
    using inv a set_update_subset_insert [of rs k a] by (auto simp: adopt_S_def)
  ultimately show "adopt_S c sm0 len (Suc k) (rs[k := a]) sm'"
    using inv less adopt_entry_maps [OF e] unfolding adopt_S_def by (metis length_list_update)
qed

text \<open>
  The part that handles quota domains and accounts, after \<open>kq\<close> domains and \<open>ka\<close> accounts. The two
  maps share no object, so setting a limit never changes the limit of another domain or account.
\<close>

definition adopt_maps ::
  "Config \<Rightarrow> heap \<Rightarrow> nat \<Rightarrow> (string \<times> addr) list \<Rightarrow> (string \<times> addr) list \<Rightarrow> bool" where
  "adopt_maps c h len qm am =
     (distinct (map fst qm) \<and> distinct (map fst am) \<and> distinct (map snd qm @ map snd am) \<and>
      (\<forall>(d, a) \<in> set qm. a < len \<and> (a < length (h_quotas h) \<or> fresh_quota c h d = Some a)) \<and>
      (\<forall>(x, a) \<in> set am. a < len \<and> (a < length (h_quotas h) \<or> fresh_account c h x = Some a)))"

definition quota_link :: "Config \<Rightarrow> quota list \<Rightarrow> (string \<times> addr) list \<Rightarrow> addr list \<Rightarrow> nat \<Rightarrow> bool" where
  "quota_link c hq qm rq j =
     (let s = cfg_Sources c ! j in
      map_of qm (source_QuotaDomain s) = Some (rq ! j) \<and>
      qt_limit (hq ! (rq ! j)) = source_QuotaMaxInflight s)"

definition account_link :: "Config \<Rightarrow> quota list \<Rightarrow> (string \<times> addr) list \<Rightarrow> addr option list \<Rightarrow> nat \<Rightarrow> bool" where
  "account_link c hq am ra j =
     (let x = source_AccountID (cfg_Sources c ! j) in
      if x = '''' then ra ! j = None
      else (\<exists>a. ra ! j = Some a \<and> map_of am x = Some a \<and>
              (\<forall>acc \<in> set (cfg_Accounts c). account_ID acc = x \<longrightarrow> qt_limit (hq ! a) = account_MaxInflight acc)))"

lemma adopt_maps_quota:
  assumes "adopt_maps c h len qm am" and "adopt_entry d fresh qm = (a, qm')"
    and "fresh_quota c h d = Some fresh" "fresh < len"
  shows "adopt_maps c h len qm' am"
  using assms(2)
proof (cases rule: adopt_entry_cases)
  case old
  then show ?thesis using assms(1) by simp
next
  case new
  have "fresh \<notin> snd ` set qm"
  proof
    assume "fresh \<in> snd ` set qm"
    then obtain d' where d': "(d', fresh) \<in> set qm" by force
    then have "fresh_quota c h d' = Some fresh"
      using assms(1) fresh_ge(1) [OF assms(3)] by (force simp: adopt_maps_def)
    then show False using d' new(1) fresh_quota_inj [OF assms(3)] by force
  qed
  moreover have "fresh \<notin> snd ` set am"
    using assms(1) fresh_ge(1) [OF assms(3)] fresh_quota_account [OF assms(3)]
    by (force simp: adopt_maps_def)
  ultimately show ?thesis
    using assms new by (auto simp: adopt_maps_def)
qed

lemma adopt_maps_account:
  assumes "adopt_maps c h len qm am" and "adopt_entry x fresh am = (a, am')"
    and "fresh_account c h x = Some fresh" "fresh < len"
  shows "adopt_maps c h len qm am'"
  using assms(2)
proof (cases rule: adopt_entry_cases)
  case old
  then show ?thesis using assms(1) by simp
next
  case new
  have "fresh \<notin> snd ` set am"
  proof
    assume "fresh \<in> snd ` set am"
    then obtain x' where x': "(x', fresh) \<in> set am" by force
    then have "fresh_account c h x' = Some fresh"
      using assms(1) fresh_ge(2) [OF assms(3)] by (force simp: adopt_maps_def)
    then show False using x' new(1) fresh_account_inj [OF assms(3)] by force
  qed
  moreover have "fresh \<notin> snd ` set qm"
    using assms(1) fresh_ge(2) [OF assms(3)] fresh_quota_account [OF _ assms(3)]
    by (force simp: adopt_maps_def)
  ultimately show ?thesis
    using assms new by (auto simp: adopt_maps_def)
qed

lemma distinct_snd_inj: "distinct (map snd m) \<Longrightarrow> (x, a) \<in> set m \<Longrightarrow> (y, a) \<in> set m \<Longrightarrow> x = y"
  by (auto simp: distinct_map dest: inj_onD [where x = "(x, a)" and y = "(y, a)"])

lemma adopt_maps_inj:
  assumes "adopt_maps c h len qm am"
  shows "map_of qm d = Some a \<Longrightarrow> map_of qm d' = Some a \<Longrightarrow> d = d'"
    "map_of am x = Some b \<Longrightarrow> map_of am x' = Some b \<Longrightarrow> x = x'"
    "map_of qm d = Some a \<Longrightarrow> map_of am x = Some b \<Longrightarrow> a \<noteq> b"
    "map_of qm d = Some a \<Longrightarrow> a < len" "map_of am x = Some b \<Longrightarrow> b < len"
proof -
  have ds: "distinct (map snd qm)" "distinct (map snd am)" "snd ` set qm \<inter> snd ` set am = {}"
    and less: "\<And>d a. (d, a) \<in> set qm \<Longrightarrow> a < len" "\<And>x a. (x, a) \<in> set am \<Longrightarrow> a < len"
    using assms by (auto simp: adopt_maps_def)
  show "map_of qm d = Some a \<Longrightarrow> map_of qm d' = Some a \<Longrightarrow> d = d'"
    "map_of am x = Some b \<Longrightarrow> map_of am x' = Some b \<Longrightarrow> x = x'"
    using ds(1,2) by (blast dest: map_of_SomeD intro: distinct_snd_inj)+
  show "map_of qm d = Some a \<Longrightarrow> map_of am x = Some b \<Longrightarrow> a \<noteq> b"
    using ds(3) by (force dest!: map_of_SomeD)
  show "map_of qm d = Some a \<Longrightarrow> a < len" "map_of am x = Some b \<Longrightarrow> b < len"
    using less by (blast dest: map_of_SomeD)+
qed

lemma adopt_maps_fresh:
  assumes "adopt_maps c h len qm am"
  shows "map_of qm d = Some a \<Longrightarrow> length (h_quotas h) \<le> a \<Longrightarrow> fresh_quota c h d = Some a"
    "map_of am x = Some b \<Longrightarrow> length (h_quotas h) \<le> b \<Longrightarrow> fresh_account c h x = Some b"
  using assms by (force simp: adopt_maps_def dest: map_of_SomeD)+

definition adopt_Q ::
  "Config \<Rightarrow> heap \<Rightarrow> nat \<Rightarrow> (string \<times> addr) list \<Rightarrow> (string \<times> addr) list \<Rightarrow> nat \<Rightarrow> nat \<Rightarrow>
   quota list \<Rightarrow> addr list \<Rightarrow> addr option list \<Rightarrow> (string \<times> addr) list \<Rightarrow> (string \<times> addr) list \<Rightarrow> bool" where
  "adopt_Q c h len qm0 am0 kq ka hq rq ra qm am =
     (adopt_maps c h len qm am \<and> length hq = len \<and>
      length rq = length (cfg_Sources c) \<and> length ra = length (cfg_Sources c) \<and>
      (\<forall>x b. map_of qm0 x = Some b \<longrightarrow> map_of qm x = Some b) \<and>
      (\<forall>x b. map_of am0 x = Some b \<longrightarrow> map_of am x = Some b) \<and>
      (\<forall>j < kq. quota_link c hq qm rq j) \<and> (\<forall>j < ka. account_link c hq am ra j) \<and>
      (\<forall>j < length (cfg_Sources c). kq \<le> j \<longrightarrow>
         fresh_quota c h (source_QuotaDomain (cfg_Sources c ! j)) = Some (rq ! j) \<and> rq ! j < len) \<and>
      (\<forall>j < length (cfg_Sources c). ka \<le> j \<longrightarrow>
         ra ! j = fresh_account c h (source_AccountID (cfg_Sources c ! j)) \<and>
         (\<forall>a. ra ! j = Some a \<longrightarrow> a < len)) \<and>
      (\<forall>acc \<in> set (cfg_Accounts c). \<forall>a. fresh_account c h (account_ID acc) = Some a \<longrightarrow>
         qt_limit (hq ! a) = account_MaxInflight acc))"

lemma adopt_Q_quota:
  assumes inv: "adopt_Q c h len qm0 am0 k ka hq rq ra qm am" and wf: "cfg_wf c"
    and k: "k < length (cfg_Sources c)" and s: "s = cfg_Sources c ! k"
    and e: "adopt_entry (source_QuotaDomain s) (rq ! k) qm = (a, qm')"
  shows "adopt_Q c h len qm0 am0 (Suc k) ka
    (hq[a := (hq ! a)\<lparr>qt_limit := source_QuotaMaxInflight s\<rparr>]) (rq[k := a]) ra qm' am"
proof -
  let ?hq = "hq[a := (hq ! a)\<lparr>qt_limit := source_QuotaMaxInflight s\<rparr>]"
  have f: "fresh_quota c h (source_QuotaDomain s) = Some (rq ! k)" "rq ! k < len"
    and maps: "adopt_maps c h len qm am" and len: "length hq = len"
    using inv k s unfolding adopt_Q_def by blast+
  have maps': "adopt_maps c h len qm' am"
    by (rule adopt_maps_quota [OF maps e f])
  note inj = adopt_maps_inj [OF maps'] and am = adopt_entry_maps [OF e]
  have a: "a < len" using inj(4) [OF am(1)] .
  have ql: "quota_link c ?hq qm' (rq[k := a]) j" if "j < Suc k" for j
  proof (cases "j = k")
    case True
    then show ?thesis using am(1) a len k s inv by (auto simp: quota_link_def Let_def adopt_Q_def)
  next
    case False
    then have j: "quota_link c hq qm rq j" "j < length (cfg_Sources c)"
      using inv that k by (auto simp: adopt_Q_def)
    let ?s = "cfg_Sources c ! j"
    have m: "map_of qm' (source_QuotaDomain ?s) = Some (rq ! j)"
      using j am(2) by (simp add: quota_link_def Let_def)
    have "qt_limit (?hq ! (rq ! j)) = source_QuotaMaxInflight ?s"
    proof (cases "rq ! j = a")
      case True
      then have "source_QuotaDomain ?s = source_QuotaDomain s" using m am(1) inj(1) by blast
      then have "source_QuotaMaxInflight ?s = source_QuotaMaxInflight s"
        using wf j(2) k s nth_mem unfolding cfg_wf_def by metis
      then show ?thesis using True a len by simp
    next
      case False
      then show ?thesis using j by (simp add: quota_link_def Let_def)
    qed
    then show ?thesis using m False by (simp add: quota_link_def Let_def)
  qed
  have al: "account_link c ?hq am ra j" if "j < ka" for j
  proof -
    have "account_link c hq am ra j" using inv that by (simp add: adopt_Q_def)
    moreover have "?hq ! b = hq ! b" if "map_of am x = Some b" for x b
      using inj(3) [OF am(1) that] by simp
    ultimately show ?thesis by (auto simp: account_link_def Let_def)
  qed
  have fa: "?hq ! b = hq ! b" if "fresh_account c h x = Some b" for x b
  proof -
    have "b \<noteq> a"
      using adopt_maps_fresh(1) [OF maps' am(1)] fresh_ge(2) [OF that] fresh_quota_account [OF _ that]
      by blast
    then show ?thesis by simp
  qed
  show ?thesis
    using inv maps' ql al fa am(2) len unfolding adopt_Q_def by (auto simp: nth_list_update)
qed

lemma adopt_Q_account:
  assumes inv: "adopt_Q c h len qm0 am0 kq k hq rq ra qm am"
    and k: "k < length (cfg_Sources c)" and s: "s = cfg_Sources c ! k" and ne: "source_AccountID s \<noteq> ''''"
    and fresh: "ra ! k = Some fresh"
    and e: "adopt_entry (source_AccountID s) fresh am = (a, am')"
  shows "adopt_Q c h len qm0 am0 kq (Suc k)
    (hq[a := (hq ! a)\<lparr>qt_limit := qt_limit (hq ! fresh)\<rparr>]) rq (ra[k := Some a]) qm am'"
proof -
  let ?hq = "hq[a := (hq ! a)\<lparr>qt_limit := qt_limit (hq ! fresh)\<rparr>]"
  have f: "fresh_account c h (source_AccountID s) = Some fresh" "fresh < len"
    and maps: "adopt_maps c h len qm am" and len: "length hq = len"
    and lim: "\<forall>acc \<in> set (cfg_Accounts c). \<forall>b. fresh_account c h (account_ID acc) = Some b \<longrightarrow>
         qt_limit (hq ! b) = account_MaxInflight acc"
    using inv k s fresh unfolding adopt_Q_def by (auto simp del: fun_upd_apply)
  have maps': "adopt_maps c h len qm am'"
    by (rule adopt_maps_account [OF maps e f])
  note inj = adopt_maps_inj [OF maps'] and am = adopt_entry_maps [OF e]
  have a: "a < len" using inj(5) [OF am(1)] .
  have lim': "qt_limit (?hq ! a) = account_MaxInflight acc"
    if "acc \<in> set (cfg_Accounts c)" "account_ID acc = source_AccountID s" for acc
    using lim f(1) that a len by auto
  have al: "account_link c ?hq am' (ra[k := Some a]) j" if "j < Suc k" for j
  proof (cases "j = k")
    case True
    then show ?thesis using am(1) lim' ne k s inv by (auto simp: account_link_def Let_def adopt_Q_def)
  next
    case False
    then have j: "account_link c hq am ra j" using inv that by (auto simp: adopt_Q_def)
    let ?x = "source_AccountID (cfg_Sources c ! j)"
    have "qt_limit (?hq ! b) = account_MaxInflight acc"
      if "map_of am ?x = Some b" "acc \<in> set (cfg_Accounts c)" "account_ID acc = ?x"
        "qt_limit (hq ! b) = account_MaxInflight acc" for b acc
    proof (cases "b = a")
      case True
      then have "?x = source_AccountID s" using inj(2) am(1) am(2) [OF that(1)] by blast
      then show ?thesis using True lim' that by simp
    next
      case False
      then show ?thesis using that by simp
    qed
    note keep = this
    show ?thesis
    proof (cases "?x = ''''")
      case True
      then show ?thesis using j False by (simp add: account_link_def Let_def)
    next
      case ne: False
      then obtain b where b: "ra ! j = Some b" "map_of am ?x = Some b" and
        lb: "\<forall>acc \<in> set (cfg_Accounts c). account_ID acc = ?x \<longrightarrow> qt_limit (hq ! b) = account_MaxInflight acc"
        using j by (auto simp: account_link_def Let_def)
      have "\<forall>acc \<in> set (cfg_Accounts c). account_ID acc = ?x \<longrightarrow> qt_limit (?hq ! b) = account_MaxInflight acc"
        using keep [OF b(2)] lb by blast
      then show ?thesis using ne b am(2) [OF b(2)] False by (simp add: account_link_def Let_def)
    qed
  qed
  have ql: "quota_link c ?hq qm rq j" if "j < kq" for j
  proof -
    have "quota_link c hq qm rq j" using inv that by (simp add: adopt_Q_def)
    moreover from this have "rq ! j \<noteq> a"
      using inj(3) [OF _ am(1)] by (simp add: quota_link_def Let_def) blast
    ultimately show ?thesis by (simp add: quota_link_def Let_def)
  qed
  have fa: "qt_limit (?hq ! b) = account_MaxInflight acc"
    if "acc \<in> set (cfg_Accounts c)" "fresh_account c h (account_ID acc) = Some b" for acc b
  proof (cases "b = a")
    case True
    then have "fresh_account c h (source_AccountID s) = Some a"
      using adopt_maps_fresh(2) [OF maps' am(1)] fresh_ge(2) [OF that(2)] by blast
    then show ?thesis using True that fresh_account_inj lim' by metis
  next
    case False
    then show ?thesis using lim that by auto
  qed
  show ?thesis
    using inv maps' ql al fa am(2) len unfolding adopt_Q_def by (auto simp: nth_list_update)
qed

subsection \<open>The loop over the sources\<close>

definition adopt_inv ::
  "Config \<Rightarrow> heap \<Rightarrow> Router \<Rightarrow> capacity \<Rightarrow> heap \<Rightarrow> nat \<Rightarrow> Router \<times> capacity \<times> heap \<Rightarrow> bool" where
  "adopt_inv c hh next0 cap0 h0 k st =
     (case st of (next, cap, h) \<Rightarrow>
        next = next0\<lparr>r_state := r_state next, r_quotas := r_quotas next, r_accounts := r_accounts next\<rparr> \<and>
        cap = cap0\<lparr>cap_sourceStates := cap_sourceStates cap, cap_quotaStates := cap_quotaStates cap,
                  cap_accountStates := cap_accountStates cap\<rparr> \<and>
        actS h = actS h0 \<and> actQ h = actQ h0 \<and>
        map st_latency (h_states h) = map st_latency (h_states h0) \<and>
        map st_virtualFinish (h_states h) = map st_virtualFinish (h_states h0) \<and>
        map qt_virtualFinish (h_quotas h) = map qt_virtualFinish (h_quotas h0) \<and>
        adopt_S c (cap_sourceStates cap0) (length (h_states h0)) k (r_state next) (cap_sourceStates cap) \<and>
        adopt_Q c hh (length (h_quotas h0)) (cap_quotaStates cap0) (cap_accountStates cap0) k k
          (h_quotas h) (r_quotas next) (r_accounts next) (cap_quotaStates cap) (cap_accountStates cap))"

lemma map_upd_same: "f y = f (xs ! a) \<Longrightarrow> map f (xs[a := y]) = map f xs"
  by (cases "a < length xs") (simp_all add: map_update list_update_beyond list_update_same_conv)

lemma adopt_Q_no_account:
  assumes "adopt_Q c h len qm0 am0 kq k hq rq ra qm am" and "cfg_wf c"
    and "k < length (cfg_Sources c)" and "source_AccountID (cfg_Sources c ! k) = ''''"
  shows "adopt_Q c h len qm0 am0 kq (Suc k) hq rq ra qm am"
proof -
  have "fresh_account c h '''' = None"
    using assms(2) by (cases "fresh_account c h ''''") (auto simp: cfg_wf_def elim!: fresh_account_SomeD)
  then have "account_link c hq am ra k"
    using assms by (simp add: account_link_def Let_def adopt_Q_def)
  then show ?thesis
    using assms(1) by (simp add: adopt_Q_def less_Suc_eq all_conj_distrib)
qed

lemma adopt_source_step:
  assumes inv: "adopt_inv c hh next0 cap0 h0 k st" and wf: "cfg_wf c" and c: "r_cfg next0 = c"
    and k: "k < length (cfg_Sources c)"
  shows "\<exists>st'. adopt_source k st = Some st' \<and> adopt_inv c hh next0 cap0 h0 (Suc k) st'"
proof -
  obtain nx cap h where st: "st = (nx, cap, h)" by (cases st)
  define s where "s = cfg_Sources c ! k"
  have nx: "nx = next0\<lparr>r_state := r_state nx, r_quotas := r_quotas nx, r_accounts := r_accounts nx\<rparr>"
    and cp: "cap = cap0\<lparr>cap_sourceStates := cap_sourceStates cap, cap_quotaStates := cap_quotaStates cap,
                  cap_accountStates := cap_accountStates cap\<rparr>"
    and act: "actS h = actS h0" "actQ h = actQ h0"
    and S: "adopt_S c (cap_sourceStates cap0) (length (h_states h0)) k (r_state nx) (cap_sourceStates cap)"
    and Q: "adopt_Q c hh (length (h_quotas h0)) (cap_quotaStates cap0) (cap_accountStates cap0) k k
          (h_quotas h) (r_quotas nx) (r_accounts nx) (cap_quotaStates cap) (cap_accountStates cap)"
    and fl: "map st_latency (h_states h) = map st_latency (h_states h0)"
        "map st_virtualFinish (h_states h) = map st_virtualFinish (h_states h0)"
        "map qt_virtualFinish (h_quotas h) = map qt_virtualFinish (h_quotas h0)"
    using inv unfolding st adopt_inv_def by blast+
  have src: "source_of nx k = s"
    using c by (subst nx) (simp add: source_of_def s_def)
  obtain sa sm where sa: "adopt_entry (source_ID s) (r_state nx ! k) (cap_sourceStates cap) = (sa, sm)" by fastforce
  obtain qa qm where qa: "adopt_entry (source_QuotaDomain s) (r_quotas nx ! k) (cap_quotaStates cap) = (qa, qm)"
    by fastforce
  note S' = adopt_S_step [OF S k sa [unfolded s_def]]
  note Q' = adopt_Q_quota [OF Q wf k s_def qa]
  define h2 where "h2 = upd_quota qa (\<lambda>x. x\<lparr>qt_limit := source_QuotaMaxInflight s\<rparr>)
    (upd_state sa (\<lambda>x. x\<lparr>st_blocked := (if \<not> st_enabled x \<and> source_Enabled s then False
          else st_blocked x), st_enabled := source_Enabled s\<rparr>) h)"
  have h2: "h_quotas h2 = (h_quotas h)[qa := (h_quotas h ! qa)\<lparr>qt_limit := source_QuotaMaxInflight s\<rparr>]"
    by (simp add: h2_def upd_quota_def upd_state_def)
  have h2act: "actS h2 = actS h0" "actQ h2 = actQ h0"
    using act by (simp_all add: h2_def act_keep)
  have h2f: "map st_latency (h_states h2) = map st_latency (h_states h0)"
        "map st_virtualFinish (h_states h2) = map st_virtualFinish (h_states h0)"
        "map qt_virtualFinish (h_quotas h2) = map qt_virtualFinish (h_quotas h0)"
    using fl by (simp_all add: h2_def upd_quota_def upd_state_def map_upd_same)
  define nx2 cap2 where "nx2 = nx\<lparr>r_state := (r_state nx)[k := sa], r_quotas := (r_quotas nx)[k := qa]\<rparr>"
    and "cap2 = cap\<lparr>cap_sourceStates := sm, cap_quotaStates := qm\<rparr>"
  have step: "adopt_source k st = adopt_account s k (nx2, cap2, h2)"
    by (simp add: st adopt_source_def Let_def src sa qa h2_def nx2_def cap2_def)
  have nx2: "nx2 = next0\<lparr>r_state := r_state nx2, r_quotas := r_quotas nx2, r_accounts := r_accounts nx2\<rparr>"
    unfolding nx2_def by (subst (1) nx) simp
  have cap2: "cap2 = cap0\<lparr>cap_sourceStates := cap_sourceStates cap2, cap_quotaStates := cap_quotaStates cap2,
                  cap_accountStates := cap_accountStates cap2\<rparr>"
    unfolding cap2_def by (subst (1) cp) simp
  have Q2: "adopt_Q c hh (length (h_quotas h0)) (cap_quotaStates cap0) (cap_accountStates cap0) (Suc k) k
          (h_quotas h2) (r_quotas nx2) (r_accounts nx2) (cap_quotaStates cap2) (cap_accountStates cap2)"
    and S2: "adopt_S c (cap_sourceStates cap0) (length (h_states h0)) (Suc k) (r_state nx2) (cap_sourceStates cap2)"
    using Q' S' by (simp_all add: h2 nx2_def cap2_def)
  show ?thesis
  proof (cases "source_AccountID s = ''''")
    case True
    note Q3 = adopt_Q_no_account [OF Q2 wf k True [unfolded s_def]]
    have "adopt_source k st = Some (nx2, cap2, h2)"
      using True step by (simp add: adopt_account_def)
    moreover have "adopt_inv c hh next0 cap0 h0 (Suc k) (nx2, cap2, h2)"
      unfolding adopt_inv_def prod.case using nx2 cap2 h2act h2f S2 Q3 by blast
    ultimately show ?thesis by blast
  next
    case False
    have "source_AccountID s \<in> account_ID ` set (cfg_Accounts c)"
      using wf k False by (auto simp: cfg_wf_def s_def)
    then obtain fresh where "fresh_account c hh (source_AccountID s) = Some fresh"
      using fresh_account_known by blast
    then have fresh: "r_accounts nx2 ! k = Some fresh"
      using Q2 k by (simp add: adopt_Q_def s_def)
    obtain a am where aa: "adopt_entry (source_AccountID s) fresh (cap_accountStates cap2) = (a, am)" by fastforce
    note Q3 = adopt_Q_account [OF Q2 k s_def False fresh aa]
    define nx3 cap3 h3 where "nx3 = nx2\<lparr>r_accounts := (r_accounts nx2)[k := Some a]\<rparr>"
      and "cap3 = cap2\<lparr>cap_accountStates := am\<rparr>"
      and "h3 = upd_quota a (\<lambda>q. q\<lparr>qt_limit := qt_limit (h_quotas h2 ! fresh)\<rparr>) h2"
    have "adopt_source k st = Some (nx3, cap3, h3)"
      using False step fresh aa by (simp add: adopt_account_def nx3_def cap3_def h3_def)
    moreover have "adopt_inv c hh next0 cap0 h0 (Suc k) (nx3, cap3, h3)"
    proof -
      have "nx3 = next0\<lparr>r_state := r_state nx3, r_quotas := r_quotas nx3, r_accounts := r_accounts nx3\<rparr>"
        unfolding nx3_def by (subst (1) nx2) simp
      moreover have "cap3 = cap0\<lparr>cap_sourceStates := cap_sourceStates cap3, cap_quotaStates := cap_quotaStates cap3,
                  cap_accountStates := cap_accountStates cap3\<rparr>"
        unfolding cap3_def by (subst (1) cap2) simp
      moreover have "actS h3 = actS h0" "actQ h3 = actQ h0"
        using h2act by (simp_all add: h3_def act_keep)
      moreover have "map st_latency (h_states h3) = map st_latency (h_states h0)"
          "map st_virtualFinish (h_states h3) = map st_virtualFinish (h_states h0)"
          "map qt_virtualFinish (h_quotas h3) = map qt_virtualFinish (h_quotas h0)"
        using h2f by (simp_all add: h3_def upd_quota_def map_upd_same)
      moreover have "adopt_S c (cap_sourceStates cap0) (length (h_states h0)) (Suc k) (r_state nx3) (cap_sourceStates cap3)"
        using S2 by (simp add: nx3_def cap3_def)
      moreover have "adopt_Q c hh (length (h_quotas h0)) (cap_quotaStates cap0) (cap_accountStates cap0) (Suc k) (Suc k)
          (h_quotas h3) (r_quotas nx3) (r_accounts nx3) (cap_quotaStates cap3) (cap_accountStates cap3)"
        using Q3 by (simp add: nx3_def cap3_def h3_def upd_quota_def)
      ultimately show ?thesis unfolding adopt_inv_def prod.case by blast
    qed
    ultimately show ?thesis by blast
  qed
qed

lemma adopt_sources_inv:
  assumes "cfg_wf c" "r_cfg next0 = c" "k \<le> length (cfg_Sources c)" "adopt_inv c hh next0 cap0 h0 k st"
  shows "\<exists>st'. adopt_sources [k..<length (cfg_Sources c)] st = Some st' \<and>
    adopt_inv c hh next0 cap0 h0 (length (cfg_Sources c)) st'"
  using assms(3,4)
proof (induction arbitrary: st rule: inc_induct)
  case base
  then show ?case by simp
next
  case (step k)
  then obtain st' where "adopt_source k st = Some st'" "adopt_inv c hh next0 cap0 h0 (Suc k) st'"
    using adopt_source_step [OF step.prems assms(1,2)] by auto
  then show ?case using step.IH step.hyps by (simp add: upt_conv_Cons)
qed

end
