(* ===== verification/Linking.thy ===== *)
theory Linking
  imports Reconfigure
begin

section \<open>Capacity across generations\<close>

text \<open>
  A hot update replaces the router but not the work in flight. The invariant \<open>linked\<close> ties the three
  views of one source, quota domain or account together: the identifier in the capacity map, the
  object the current router counts on, and the object an outstanding lease of any generation will
  give its slot back to are the same one, with the limit of the current configuration. The bounds on
  concurrent requests at the end of the theory follow from it and the exactness of the counters.
\<close>

subsection \<open>Steps that only move counters\<close>

definition lease_keep :: "Lease \<Rightarrow> Lease \<Rightarrow> bool" where
  "lease_keep l l' =
     (l_state l' = l_state l \<and> l_quota l' = l_quota l \<and> l_account l' = l_account l \<and>
      l_router l' = l_router l \<and> l_Target l' = l_Target l \<and> l_started l' = l_started l \<and>
      (l_once l \<longrightarrow> l_once l'))"

definition evolves :: "sys \<Rightarrow> sys \<Rightarrow> bool" where
  "evolves s s' =
     (frame s s' \<and>
      map qt_limit (h_quotas (sys_heap s')) = map qt_limit (h_quotas (sys_heap s)) \<and>
      length (sys_leases s) \<le> length (sys_leases s') \<and>
      (\<forall>i < length (sys_leases s). lease_keep (sys_leases s ! i) (sys_leases s' ! i)))"

lemma frame_refl [simp]: "frame s s"
  by (simp add: frame_def)

lemma frame_trans: "frame a b \<Longrightarrow> frame b c \<Longrightarrow> frame a c"
  by (auto simp: frame_def intro: routers_eq_trans)

lemma lease_keep_refl [simp]: "lease_keep l l"
  by (simp add: lease_keep_def)

lemma lease_keep_trans: "lease_keep a b \<Longrightarrow> lease_keep b c \<Longrightarrow> lease_keep a c"
  by (simp add: lease_keep_def)

lemma lease_keep_update: "lease_keep (ls ! n) l \<Longrightarrow> lease_keep (ls ! i) (ls[n := l] ! i)"
  by (cases "n < length ls"; cases "i = n") (simp_all add: list_update_beyond)

lemma evolves_trans: "evolves a b \<Longrightarrow> evolves b c \<Longrightarrow> evolves a c"
  by (auto simp: evolves_def intro: frame_trans lease_keep_trans)

lemma evolves_same_core:
  "frame s s' \<Longrightarrow> same_core s s' \<Longrightarrow> evolves s s'"
  by (simp add: evolves_def same_core_def)

lemma evolves_tick: "sys_now s \<le> now \<Longrightarrow> evolves s (tick now s)"
  by (rule evolves_same_core) (simp_all add: frame_def same_core_def)

lemma evolves_signal: "evolves s (signal g now s)"
  by (rule evolves_same_core) (simp_all add: frame_def same_core_def routers_eq_signal)

lemma evolves_set_router:
  assumes "static_eq (sys_routers s ! g) r" "r_retired (sys_routers s ! g) = r_retired r"
  shows "evolves s (set_router g r s)"
  by (rule evolves_same_core) (use assms in \<open>simp_all add: frame_def same_core_def routers_eq_update\<close>)

lemma limits_upd [simp]:
  "map qt_limit (h_quotas (upd_state a f h)) = map qt_limit (h_quotas h)"
  "(\<And>x. qt_limit (g x) = qt_limit x) \<Longrightarrow> map qt_limit (h_quotas (upd_quota b g h)) = map qt_limit (h_quotas h)"
  "(\<And>x. qt_limit (g x) = qt_limit x) \<Longrightarrow> map qt_limit (h_quotas (upd_account p g h)) = map qt_limit (h_quotas h)"
  by (auto simp: upd_quota_def upd_state_def upd_account_def map_upd_same split: option.split)

lemma take_slot_limits:
  "take_slot r i cap h = (cap', h') \<Longrightarrow> map qt_limit (h_quotas h') = map qt_limit (h_quotas h)"
  "take_slot r i cap h = (cap', h') \<Longrightarrow>
     length (h_states h') = length (h_states h) \<and> length (h_quotas h') = length (h_quotas h)"
  by (auto simp: take_slot_def Let_def)

lemma return_slot_limits:
  "return_slot l cap h = (cap', h') \<Longrightarrow> map qt_limit (h_quotas h') = map qt_limit (h_quotas h)"
  "return_slot l cap h = (cap', h') \<Longrightarrow>
     length (h_states h') = length (h_states h) \<and> length (h_quotas h') = length (h_quotas h)"
  "return_slot l cap h = (cap', h') \<Longrightarrow> cap' = cap\<lparr>cap_active := cap_active cap - 1\<rparr>"
  by (auto simp: return_slot_def Let_def)

lemma grant_fields:
  assumes "take_slot (sys_routers s ! g) (target_Source (r_targets (sys_routers s ! g) ! idx)) (sys_cap s) (sys_heap s) = (cap, h)"
  shows "sys_heap (grant g idx q now s) = h" "sys_cap (grant g idx q now s) = cap"
    "sys_leases (grant g idx q now s) = sys_leases s @ [new_lease g (sys_routers s ! g) idx q now]"
    "sys_routers (grant g idx q now s) =
       (sys_routers s)[g := (sys_routers s ! g)\<lparr>r_cursor := r_cursor (sys_routers s ! g) + 1\<rparr>]"
    "sys_now (grant g idx q now s) = sys_now s" "sys_nextWaiter (grant g idx q now s) = sys_nextWaiter s"
  using assms by (simp_all add: grant_def Let_def)

lemma evolves_grant: "evolves s (grant g idx q now s)"
proof -
  let ?r = "sys_routers s ! g"
  obtain cap h where ts: "take_slot ?r (target_Source (r_targets ?r ! idx)) (sys_cap s) (sys_heap s) = (cap, h)"
    by fastforce
  note f = grant_fields [OF ts] and lim = take_slot_limits [OF ts] and maps = take_slot_maps [OF ts]
  have "frame s (grant g idx q now s)"
    using lim maps by (auto simp: frame_def f intro!: routers_eq_update)
  then show ?thesis
    using lim by (simp add: evolves_def f nth_append)
qed

lemma evolves_acquire_turn: "evolves s (fst (acquire_turn g q e queued now s))"
proof (cases rule: acquire_turn_cases [of s g q e queued now])
  case same
  then show ?thesis
    using routers_eq_acquire_turn [of s g q e queued now]
    by (intro evolves_same_core) (auto simp: frame_def same_core_def)
next
  case (granted idx el)
  then show ?thesis by (simp add: evolves_grant)
qed

lemma evolves_Release: "evolves s (Release n status retryAfter now s)"
proof -
  let ?l = "sys_leases s ! n" and ?s = "Release n status retryAfter now s"
  obtain cap h where rs: "return_slot ?l (sys_cap s) (sys_heap s) = (cap, h)" by fastforce
  note lim = return_slot_limits [OF rs]
  show ?thesis
  proof (cases "l_once ?l")
    case True
    then show ?thesis by (simp add: Release_def evolves_def)
  next
    case False
    have "frame s ?s"
      using False rs lim routers_eq_Release [of s n status retryAfter now]
      by (simp add: frame_def) (simp add: Release_def Let_def)
    moreover have "map qt_limit (h_quotas (sys_heap ?s)) = map qt_limit (h_quotas (sys_heap s))"
      "sys_leases ?s = (sys_leases s)[n := ?l\<lparr>l_once := True\<rparr>]"
      using False rs lim by (simp_all add: Release_def Let_def)
    ultimately show ?thesis by (simp add: evolves_def lease_keep_update lease_keep_def [of ?l])
  qed
qed

lemma evolves_RecordExecution: "evolves s (RecordExecution n result s)"
proof -
  have "frame s (RecordExecution n result s)" by (simp add: frame_def) (simp add: RecordExecution_def Let_def)
  then show ?thesis
    by (simp add: evolves_def) (simp add: RecordExecution_def Let_def lease_keep_update lease_keep_def [of "sys_leases s ! n"])
qed

lemma evolves_FirstOutput: "evolves s (FirstOutput n now s)"
proof -
  have "frame s (FirstOutput n now s)" by (simp add: frame_def) (simp add: FirstOutput_def Let_def)
  then show ?thesis
    by (simp add: evolves_def) (simp add: FirstOutput_def Let_def lease_keep_update lease_keep_def [of "sys_leases s ! n"])
qed

lemma evolves_SetEnabled: "evolves s (fst (SetEnabled g i on now s))"
proof -
  have "evolves s (s\<lparr>sys_heap := upd_state a f (sys_heap s)\<rparr>)" for a f
    by (simp add: evolves_def frame_def)
  then show ?thesis
    by (auto simp: SetEnabled_def Let_def evolves_same_core same_core_def split: option.split
        intro: evolves_trans [OF _ evolves_signal])
qed

lemma evolves_cancel: "evolves s (cancel_waiter g i e s)"
  unfolding cancel_waiter_def Let_def by (rule evolves_set_router) simp_all

lemma evolves_resume:
  "evolves s (fst (Acquire_resume g w consume now s))"
proof -
  define s1 where "s1 = (if consume then set_router g ((sys_routers s ! g)\<lparr>r_queue :=
      map (\<lambda>x. if w_id x = w_id w then x\<lparr>w_ready := False\<rparr> else x) (r_queue (sys_routers s ! g))\<rparr>) s else s)"
  obtain s2 out where s2: "acquire_turn g (w_query w) (w_ctxErr w) (Some (w_id w)) now s1 = (s2, out)"
    by fastforce
  have "evolves s s1"
    by (auto simp: s1_def evolves_set_router evolves_same_core same_core_def)
  moreover have "evolves s1 s2"
    using evolves_acquire_turn [of s1 g "w_query w" "w_ctxErr w" "Some (w_id w)" now] s2 by simp
  ultimately have e: "evolves s s2" by (rule evolves_trans)
  have "evolves s2 (set_router g (removeWaiter (w_id w) (sys_routers s2 ! g)) s2)"
    by (rule evolves_set_router) simp_all
  then have "evolves s2 (signal g now (set_router g (removeWaiter (w_id w) (sys_routers s2 ! g)) s2))"
    by (rule evolves_trans [OF _ evolves_signal])
  then show ?thesis
    using e s2 by (auto simp: Acquire_resume_def Let_def s1_def [symmetric] split: acquired.split
        intro: evolves_trans)
qed

subsection \<open>The invariant\<close>

definition maps_distinct :: "capacity \<Rightarrow> bool" where
  "maps_distinct cap =
     (distinct (map fst (cap_sourceStates cap)) \<and> distinct (map fst (cap_quotaStates cap)) \<and>
      distinct (map fst (cap_accountStates cap)) \<and>
      distinct (map snd (cap_quotaStates cap) @ map snd (cap_accountStates cap)))"

definition router_link :: "Router \<Rightarrow> capacity \<Rightarrow> heap \<Rightarrow> bool" where
  "router_link r cap h =
     (\<forall>j < length (cfg_Sources (r_cfg r)).
        map_of (cap_sourceStates cap) (source_ID (cfg_Sources (r_cfg r) ! j)) = Some (r_state r ! j) \<and>
        quota_link (r_cfg r) (h_quotas h) (cap_quotaStates cap) (r_quotas r) j \<and>
        account_link (r_cfg r) (h_quotas h) (cap_accountStates cap) (r_accounts r) j)"

definition lease_source :: "sys \<Rightarrow> Lease \<Rightarrow> Source" where
  "lease_source s l = source_of (sys_routers s ! l_router l) (target_Source (l_Target l))"

definition lease_link :: "sys \<Rightarrow> Lease \<Rightarrow> bool" where
  "lease_link s l =
     (let src = lease_source s l; cap = sys_cap s in
      map_of (cap_sourceStates cap) (source_ID src) = Some (l_state l) \<and>
      map_of (cap_quotaStates cap) (source_QuotaDomain src) = Some (l_quota l) \<and>
      (if source_AccountID src = '''' then l_account l = None
       else \<exists>a. l_account l = Some a \<and> map_of (cap_accountStates cap) (source_AccountID src) = Some a))"

definition current_router :: "sys \<Rightarrow> Router" where
  "current_router s = sys_routers s ! cap_current (sys_cap s)"

definition linked :: "sys \<Rightarrow> bool" where
  "linked s =
     (maps_distinct (sys_cap s) \<and> cfg_wf (r_cfg (current_router s)) \<and>
      router_link (current_router s) (sys_cap s) (sys_heap s) \<and>
      (\<forall>l \<in> set (sys_leases s). \<not> l_once l \<longrightarrow> lease_link s l) \<and>
      (\<forall>g < length (sys_routers s). r_retired (sys_routers s ! g) \<longleftrightarrow> g \<noteq> cap_current (sys_cap s)))"

lemma limits_nth:
  assumes "map qt_limit xs = map qt_limit ys" "a < length xs"
  shows "qt_limit (xs ! a) = qt_limit (ys ! a)"
  using assms by (metis length_map nth_map)

lemma router_link_evolves:
  assumes "router_link r cap h" and "static_eq r r'" and "router_shape r h"
    and "cap_sourceStates cap' = cap_sourceStates cap" "cap_quotaStates cap' = cap_quotaStates cap"
      "cap_accountStates cap' = cap_accountStates cap"
    and lim: "map qt_limit (h_quotas h') = map qt_limit (h_quotas h)"
  shows "router_link r' cap' h'"
  unfolding router_link_def
proof (intro allI impI)
  fix j assume "j < length (cfg_Sources (r_cfg r'))"
  then have j: "j < length (cfg_Sources (r_cfg r))" using assms(2) by (simp add: static_eq_def)
  note ra = router_addrs [OF assms(3) j]
  have "qt_limit (h_quotas h' ! (r_quotas r ! j)) = qt_limit (h_quotas h ! (r_quotas r ! j))"
    using limits_nth [OF lim [symmetric]] ra(2) by metis
  moreover have "qt_limit (h_quotas h' ! a) = qt_limit (h_quotas h ! a)" if "r_accounts r ! j = Some a" for a
    using limits_nth [OF lim [symmetric]] ra(3) [OF that] by metis
  ultimately show "map_of (cap_sourceStates cap') (source_ID (cfg_Sources (r_cfg r') ! j)) = Some (r_state r' ! j) \<and>
        quota_link (r_cfg r') (h_quotas h') (cap_quotaStates cap') (r_quotas r') j \<and>
        account_link (r_cfg r') (h_quotas h') (cap_accountStates cap') (r_accounts r') j"
    using assms(1,2,4-6) j
    by (auto simp: router_link_def static_eq_def quota_link_def account_link_def Let_def split: if_splits)
qed

lemma lease_source_evolves:
  assumes "frame s s'" "lease_keep l l'" "l_router l < length (sys_routers s)"
  shows "lease_source s' l' = lease_source s l"
  using assms by (auto simp: lease_source_def source_of_def frame_def routers_eq_def static_eq_def lease_keep_def)

lemma lease_link_evolves:
  assumes "frame s s'" "lease_keep l l'" "lease_shape s l" "lease_link s l"
  shows "lease_link s' l'"
proof -
  have "lease_source s' l' = lease_source s l"
    using assms by (intro lease_source_evolves) (simp_all add: lease_shape_def)
  then show ?thesis
    using assms by (simp add: lease_link_def Let_def frame_def lease_keep_def)
qed

lemma linked_evolves:
  assumes "linked s" "counted s" and ev: "evolves s s'"
    and new: "\<And>i. length (sys_leases s) \<le> i \<Longrightarrow> i < length (sys_leases s') \<Longrightarrow>
      \<not> l_once (sys_leases s' ! i) \<Longrightarrow> lease_link s' (sys_leases s' ! i)"
  shows "linked s'"
proof -
  let ?g = "cap_current (sys_cap s)"
  have fr: "frame s s'" and req: "routers_eq (sys_routers s) (sys_routers s')"
    using ev by (simp_all add: evolves_def frame_def)
  have sh: "shape s" and g: "?g < length (sys_routers s)" using assms(2) by (simp_all add: counted_def shape_def)
  then have rs: "router_shape (current_router s) (sys_heap s)"
    by (simp add: shape_def current_router_def)
  have se: "static_eq (current_router s) (current_router s')"
    using fr req g by (simp add: frame_def routers_eq_def current_router_def)
  have "lease_link s' l'" if l': "l' \<in> set (sys_leases s')" "\<not> l_once l'" for l'
  proof -
    obtain i where i: "i < length (sys_leases s')" "l' = sys_leases s' ! i"
      using l' by (auto simp: in_set_conv_nth)
    show ?thesis
    proof (cases "i < length (sys_leases s)")
      case True
      then have k: "lease_keep (sys_leases s ! i) l'" using ev i by (simp add: evolves_def)
      moreover have "\<not> l_once (sys_leases s ! i)" using k l' by (auto simp: lease_keep_def)
      moreover have "lease_shape s (sys_leases s ! i)" using sh True by (simp add: shape_def)
      ultimately show ?thesis
        using assms(1) nth_mem [OF True] by (intro lease_link_evolves [OF fr]) (auto simp: linked_def)
    next
      case False
      then show ?thesis using new i l' by simp
    qed
  qed
  moreover have "router_link (current_router s') (sys_cap s') (sys_heap s')"
    using assms(1) ev fr
    by (intro router_link_evolves [OF _ se rs]) (simp_all add: linked_def evolves_def frame_def)
  moreover have "maps_distinct (sys_cap s')" "cfg_wf (r_cfg (current_router s'))"
    using assms(1) fr se by (simp_all add: linked_def maps_distinct_def frame_def static_eq_def)
  moreover have "\<forall>i < length (sys_routers s'). r_retired (sys_routers s' ! i) \<longleftrightarrow> i \<noteq> cap_current (sys_cap s')"
    using assms(1) fr req by (auto simp: linked_def frame_def routers_eq_def)
  ultimately show ?thesis by (simp add: linked_def)
qed

lemma choose_current:
  assumes "linked s" "g < length (sys_routers s)"
    and "router_choose (sys_routers s ! g) (sys_cap s) (sys_heap s) q now = (Some idx, e)"
  shows "sys_routers s ! g = current_router s" "g = cap_current (sys_cap s)"
  using assms router_choose_sound [OF assms(3)] by (auto simp: linked_def current_router_def)

lemma lease_link_new:
  assumes "linked s" and c: "counted s" and g: "g < length (sys_routers s)"
    and ch: "router_choose (sys_routers s ! g) (sys_cap s) (sys_heap s) q now = (Some idx, e)"
  shows "lease_link s (new_lease g (sys_routers s ! g) idx q now)"
proof -
  let ?r = "sys_routers s ! g" let ?i = "target_Source (r_targets ?r ! idx)"
  have sh: "router_shape ?r (sys_heap s)" using c g by (simp add: counted_def shape_def)
  have "?i < length (cfg_Sources (r_cfg ?r))"
    using router_choose_sound [OF ch] candidate_source [OF sh] by blast
  moreover have "router_link ?r (sys_cap s) (sys_heap s)"
    using assms(1) choose_current [OF assms(1) g ch] by (simp add: linked_def)
  ultimately have "map_of (cap_sourceStates (sys_cap s)) (source_ID (cfg_Sources (r_cfg ?r) ! ?i)) = Some (r_state ?r ! ?i)"
    and "quota_link (r_cfg ?r) (h_quotas (sys_heap s)) (cap_quotaStates (sys_cap s)) (r_quotas ?r) ?i"
    and "account_link (r_cfg ?r) (h_quotas (sys_heap s)) (cap_accountStates (sys_cap s)) (r_accounts ?r) ?i"
    unfolding router_link_def by blast+
  then show ?thesis
    by (auto simp: quota_link_def account_link_def lease_link_def lease_source_def
        source_of_def new_lease_def Let_def)
qed

lemma counted_positive:
  assumes "counted s" "i < length (sys_leases s)" "\<not> l_once (sys_leases s ! i)"
  shows "0 < st_active (h_states (sys_heap s) ! l_state (sys_leases s ! i))"
    "0 < qt_active (h_quotas (sys_heap s) ! l_quota (sys_leases s ! i))"
    "l_account (sys_leases s ! i) = Some a \<Longrightarrow> 0 < qt_active (h_quotas (sys_heap s) ! a)"
proof -
  let ?l = "sys_leases s ! i"
  have ls: "lease_shape s ?l" and ac: "accounting s"
    using assms by (simp_all add: counted_def shape_def)
  have "0 < count_if (holdsS (l_state ?l)) (sys_leases s)" "0 < count_if (holdsQ (l_quota ?l)) (sys_leases s)"
    using assms(2,3) by (auto intro: count_if_pos simp: holds_defs)
  then show "0 < st_active (h_states (sys_heap s) ! l_state ?l)"
    "0 < qt_active (h_quotas (sys_heap s) ! l_quota ?l)"
    using ls ac by (simp_all add: act_nth lease_shape_def accounting_def acct_ok_def add_pos_nonneg)
  assume a: "l_account ?l = Some a"
  then have "0 < count_if (holdsA a) (sys_leases s)"
    using assms(2,3) by (auto intro: count_if_pos simp: holds_defs)
  then show "0 < qt_active (h_quotas (sys_heap s) ! a)"
    using ls ac a by (simp add: act_nth lease_shape_def accounting_def acct_ok_def add_nonneg_pos)
qed

subsection \<open>Adopt\<close>

lemma adopt_start:
  assumes new: "New c gen h = (next0, cap', h0)" and shape: "maps_shape cap h" and d: "maps_distinct cap"
    and wf: "cfg_wf c"
  shows "adopt_inv c h next0 cap h0 0 (next0, cap, h0)"
proof -
  have len: "length (h_states h) \<le> length (h_states h0)" "length (h_quotas h) \<le> length (h_quotas h0)"
    by (simp_all add: New_simps [OF new])
  have sh: "router_shape next0 h0" by (rule New_shape [OF new])
  have "adopt_S c (cap_sourceStates cap) (length (h_states h0)) 0 (r_state next0) (cap_sourceStates cap)"
    using shape d len sh
    by (fastforce simp: adopt_S_def maps_shape_def maps_distinct_def router_shape_def Let_def New_simps(1) [OF new])
  moreover have "adopt_maps c h (length (h_quotas h0)) (cap_quotaStates cap) (cap_accountStates cap)"
    using shape d len unfolding adopt_maps_def maps_shape_def maps_distinct_def by fastforce
  moreover have "fresh_quota c h (source_QuotaDomain (cfg_Sources c ! j)) = Some (r_quotas next0 ! j) \<and>
      r_quotas next0 ! j < length (h_quotas h0)" if "j < length (cfg_Sources c)" for j
    using that fresh_quota_source [OF nth_mem [OF that], of h] fresh_less(1) [OF new]
    by (simp add: New_simps [OF new]) (metis option.sel)
  moreover have "r_accounts next0 ! j = fresh_account c h (source_AccountID (cfg_Sources c ! j)) \<and>
      (\<forall>a. r_accounts next0 ! j = Some a \<longrightarrow> a < length (h_quotas h0))" if "j < length (cfg_Sources c)" for j
    using that fresh_less(2) [OF new] by (simp add: New_simps [OF new])
  ultimately show ?thesis
    using fresh_account_limit [OF new wf]
    unfolding adopt_inv_def prod.case adopt_Q_def by (simp add: New_simps(6,7) [OF new])
qed

text \<open>What the loop and the three deletions leave behind.\<close>

lemma Adopt_effect:
  assumes c: "counted s" and l: "linked s" and wf: "cfg_wf c"
  obtains next0 cap0 h0 nx cap h where
    "New c (length (sys_routers s)) (sys_heap s) = (next0, cap0, h0)"
    "adopt_inv c (sys_heap s) next0 (sys_cap s) h0 (length (cfg_Sources c)) (nx, cap, h)"
    "Adopt c now s = Some (signal (length (sys_routers s)) now
       (s\<lparr>sys_heap := h, sys_cap := (prune_maps c h cap)\<lparr>cap_current := length (sys_routers s)\<rparr>,
          sys_routers := (sys_routers s)[cap_current (sys_cap s) := (current_router s)\<lparr>r_retired := True,
             r_queue := map (\<lambda>w. w\<lparr>w_ready := True\<rparr>) (r_queue (current_router s))\<rparr>] @ [nx]\<rparr>))"
proof -
  obtain next0 cap0 h0 where new: "New c (length (sys_routers s)) (sys_heap s) = (next0, cap0, h0)"
    by (cases "New c (length (sys_routers s)) (sys_heap s)")
  have "adopt_inv c (sys_heap s) next0 (sys_cap s) h0 0 (next0, sys_cap s, h0)"
    using adopt_start [OF new _ _ wf] c l by (simp add: counted_def shape_def linked_def)
  then obtain nx cap h where
    st: "adopt_sources [0..<length (cfg_Sources c)] (next0, sys_cap s, h0) = Some (nx, cap, h)"
      "adopt_inv c (sys_heap s) next0 (sys_cap s) h0 (length (cfg_Sources c)) (nx, cap, h)"
    using adopt_sources_inv [OF wf New_simps(1) [OF new], of 0] by fastforce
  show thesis
    by (rule that [OF new st(2)]) (simp add: Adopt_def Let_def new st(1) current_router_def)
qed

lemma acct_extend:
  assumes "acct_ok aS aQ n ls"
    and "\<And>l. l \<in> set ls \<Longrightarrow> l_state l < length aS \<and> l_quota l < length aQ \<and>
      (\<forall>a. l_account l = Some a \<longrightarrow> a < length aQ)"
  shows "acct_ok (aS @ replicate m 0) (aQ @ replicate k 0) n ls"
proof -
  have "count_if (holdsS a) ls = 0" if "length aS \<le> a" for a
    using assms(2) that by (intro count_if_zero) (force simp: holdsS_def)
  moreover have "count_if (holdsQ a) ls = 0" "count_if (holdsA a) ls = 0" if "length aQ \<le> a" for a
    using assms(2) that by (intro count_if_zero; force simp: holds_defs)+
  ultimately show ?thesis
    using assms(1) by (auto simp: acct_ok_def nth_append)
qed

lemma router_shape_mono:
  assumes "router_shape r h" "length (h_states h) \<le> length (h_states h')" "length (h_quotas h) \<le> length (h_quotas h')"
  shows "router_shape r h'"
  using assms unfolding router_shape_def Let_def by (meson less_le_trans)

lemma adopted_shape:
  assumes inv: "adopt_inv c hh next0 cap0 h0 (length (cfg_Sources c)) (nx, cap, h)"
    and new: "New c gen hh = (next0, cap', h0)"
  shows "router_shape nx h" "r_cfg nx = c" "r_retired nx = False" "r_queue nx = []" "r_waiting nx = 0"
proof -
  have len: "length (h_states h) = length (h_states h0)" "length (h_quotas h) = length (h_quotas h0)"
    using inv unfolding adopt_inv_def prod.case by (metis length_act)+
  have nx: "nx = next0\<lparr>r_state := r_state nx, r_quotas := r_quotas nx, r_accounts := r_accounts nx\<rparr>"
    and S: "adopt_S c (cap_sourceStates cap0) (length (h_states h0)) (length (cfg_Sources c)) (r_state nx) (cap_sourceStates cap)"
    and Q: "adopt_Q c hh (length (h_quotas h0)) (cap_quotaStates cap0) (cap_accountStates cap0)
          (length (cfg_Sources c)) (length (cfg_Sources c))
          (h_quotas h) (r_quotas nx) (r_accounts nx) (cap_quotaStates cap) (cap_accountStates cap)"
    using inv unfolding adopt_inv_def prod.case by blast+
  have maps: "adopt_maps c hh (length (h_quotas h0)) (cap_quotaStates cap) (cap_accountStates cap)"
    using Q by (simp add: adopt_Q_def)
  show cfg: "r_cfg nx = c" "r_retired nx = False" "r_queue nx = []" "r_waiting nx = 0"
    by (subst nx, simp add: New_simps [OF new])+
  have sh: "router_shape next0 h0" by (rule New_shape [OF new])
  have "a < length (h_quotas h)" if "a \<in> set (r_quotas nx)" for a
    using that Q adopt_maps_inj(4) [OF maps] len
    by (auto simp: adopt_Q_def quota_link_def Let_def in_set_conv_nth)
  moreover have "a < length (h_quotas h)" if mem: "Some a \<in> set (r_accounts nx)" for a
  proof -
    have "length (r_accounts nx) = length (cfg_Sources c)" using Q by (simp add: adopt_Q_def)
    then obtain j where j: "j < length (cfg_Sources c)" "r_accounts nx ! j = Some a"
      using mem by (auto simp: in_set_conv_nth)
    then have "account_link c (h_quotas h) (cap_accountStates cap) (r_accounts nx) j"
      using Q by (simp add: adopt_Q_def)
    then show ?thesis
      using j adopt_maps_inj(5) [OF maps] len by (auto simp: account_link_def Let_def split: if_splits)
  qed
  moreover have "\<forall>a \<in> set (r_state nx). a < length (h_states h)" "length (r_state nx) = length (cfg_Sources c)"
    "length (r_quotas nx) = length (cfg_Sources c)" "length (r_accounts nx) = length (cfg_Sources c)"
    using S Q len by (simp_all add: adopt_S_def adopt_Q_def)
  moreover have "r_parentEnabled nx = r_parentEnabled next0" "r_parentApproved nx = r_parentApproved next0"
    "r_poolStrategies nx = r_poolStrategies next0" "r_accountWeights nx = r_accountWeights next0"
    "r_targets nx = r_targets next0" "r_candidates nx = r_candidates next0"
    by (subst nx, simp)+
  ultimately show "router_shape nx h"
    using sh cfg(1) New_simps(1) [OF new] by (simp add: router_shape_def Let_def)
qed

lemma prune_maps_subset:
  "set (cap_sourceStates (prune_maps c h cap)) \<subseteq> set (cap_sourceStates cap)"
  "set (cap_quotaStates (prune_maps c h cap)) \<subseteq> set (cap_quotaStates cap)"
  "set (cap_accountStates (prune_maps c h cap)) \<subseteq> set (cap_accountStates cap)"
  "cap_active (prune_maps c h cap) = cap_active cap"
  by (auto simp: prune_maps_def)

definition adopted :: "Config \<Rightarrow> Router \<Rightarrow> capacity \<Rightarrow> heap \<Rightarrow> sys \<Rightarrow> sys" where
  "adopted c nx cap h s =
     s\<lparr>sys_heap := h, sys_cap := (prune_maps c h cap)\<lparr>cap_current := length (sys_routers s)\<rparr>,
       sys_routers := (sys_routers s)[cap_current (sys_cap s) := (current_router s)\<lparr>r_retired := True,
          r_queue := map (\<lambda>w. w\<lparr>w_ready := True\<rparr>) (r_queue (current_router s))\<rparr>] @ [nx]\<rparr>"

lemma adopted_router:
  assumes "g < length (sys_routers s)"
  shows "static_eq (sys_routers s ! g) (sys_routers (adopted c nx cap h s) ! g)"
    "r_retired (sys_routers (adopted c nx cap h s) ! g) =
      (g = cap_current (sys_cap s) \<or> r_retired (sys_routers s ! g))"
  using assms
  by (cases "g = cap_current (sys_cap s)"; simp add: adopted_def nth_append current_router_def)+

lemma adopted_lease_source:
  assumes "lease_shape s l"
  shows "lease_source (adopted c nx cap h s) l = lease_source s l"
  using assms adopted_router(1) [of "l_router l" s c nx cap h]
  by (simp add: lease_source_def source_of_def lease_shape_def static_eq_def)

lemma counted_adopted:
  assumes c: "counted s" and inv: "adopt_inv c (sys_heap s) next0 (sys_cap s) h0 (length (cfg_Sources c)) (nx, cap, h)"
    and new: "New c gen (sys_heap s) = (next0, cap', h0)"
  shows "counted (adopted c nx cap h s)" (is "counted ?s")
proof -
  have act: "actS h = actS h0" "actQ h = actQ h0"
    and cap: "cap = (sys_cap s)\<lparr>cap_sourceStates := cap_sourceStates cap, cap_quotaStates := cap_quotaStates cap,
                  cap_accountStates := cap_accountStates cap\<rparr>"
    and S: "adopt_S c (cap_sourceStates (sys_cap s)) (length (h_states h0)) (length (cfg_Sources c)) (r_state nx) (cap_sourceStates cap)"
    and Q: "adopt_maps c (sys_heap s) (length (h_quotas h0)) (cap_quotaStates cap) (cap_accountStates cap)"
    using inv unfolding adopt_inv_def adopt_Q_def prod.case by blast+
  have len: "length (h_states h) = length (h_states h0)" "length (h_quotas h) = length (h_quotas h0)"
    using act by (metis length_act)+
  have le: "length (h_states (sys_heap s)) \<le> length (h_states h)" "length (h_quotas (sys_heap s)) \<le> length (h_quotas h)"
    by (simp_all add: len New_simps [OF new])
  have rs: "router_shape r h" if "r \<in> set (sys_routers s)" for r
    using that c le by (auto simp: counted_def shape_def intro: router_shape_mono)
  have routers: "router_shape r h" if r: "r \<in> set (sys_routers ?s)" for r
  proof -
    obtain g where g: "g < length (sys_routers ?s)" "r = sys_routers ?s ! g"
      using r by (auto simp: in_set_conv_nth)
    show ?thesis
    proof (cases "g < length (sys_routers s)")
      case True
      then have "router_shape (sys_routers s ! g) h" by (intro rs) simp
      then show ?thesis
        using router_shape_frame [OF _ adopted_router(1) [OF True]] g by simp
    next
      case False
      then have "r = nx" using g by (simp add: adopted_def nth_append)
      then show ?thesis using adopted_shape(1) [OF inv new] by simp
    qed
  qed
  have ls: "lease_shape ?s l" if "l \<in> set (sys_leases s)" for l
  proof -
    have l: "lease_shape s l" using c that by (simp add: counted_def shape_def)
    then have "static_eq (sys_routers s ! l_router l) (sys_routers ?s ! l_router l)"
      by (intro adopted_router) (simp add: lease_shape_def)
    then show ?thesis
      using l le by (auto simp: lease_shape_def static_eq_def adopted_def less_le_trans)
  qed
  have "maps_shape (prune_maps c h cap) h"
    using S Q len prune_maps_subset [of c h cap]
    by (auto simp: maps_shape_def adopt_S_def adopt_maps_def)
  then have "shape ?s"
    using routers ls by (auto simp: shape_def maps_shape_def adopted_def)
  moreover have "accounting ?s"
  proof -
    have "acct_ok (actS h) (actQ h) (cap_active (sys_cap s)) (sys_leases s)"
      unfolding act New_act [OF new]
      using c by (intro acct_extend) (auto simp: counted_def accounting_def shape_def lease_shape_def)
    moreover have "cap_active cap = cap_active (sys_cap s)" by (subst cap) simp
    ultimately show ?thesis by (simp add: accounting_def adopted_def prune_maps_subset)
  qed
  ultimately show ?thesis by (simp add: counted_def)
qed

lemma prune_keeps:
  assumes "distinct (map fst (cap_sourceStates cap))" "distinct (map fst (cap_quotaStates cap))"
    "distinct (map fst (cap_accountStates cap))"
  shows "map_of (cap_sourceStates cap) k = Some a \<Longrightarrow>
      k \<in> source_ID ` set (cfg_Sources c) \<or> st_active (h_states h ! a) \<noteq> 0 \<Longrightarrow>
      map_of (cap_sourceStates (prune_maps c h cap)) k = Some a"
    "map_of (cap_quotaStates cap) k = Some a \<Longrightarrow>
      k \<in> source_QuotaDomain ` set (cfg_Sources c) \<or> qt_active (h_quotas h ! a) \<noteq> 0 \<Longrightarrow>
      map_of (cap_quotaStates (prune_maps c h cap)) k = Some a"
    "map_of (cap_accountStates cap) k = Some a \<Longrightarrow>
      k \<in> source_AccountID ` set (cfg_Sources c) \<or> qt_active (h_quotas h ! a) \<noteq> 0 \<Longrightarrow>
      map_of (cap_accountStates (prune_maps c h cap)) k = Some a"
  using assms by (simp_all add: prune_maps_def map_of_filter_distinct)

lemma maps_distinct_prune: "maps_distinct cap \<Longrightarrow> maps_distinct (prune_maps c h cap)"
  by (auto simp: maps_distinct_def prune_maps_def distinct_map_filter)

lemma adopted_maps_distinct:
  assumes "adopt_inv c hh next0 cap0 h0 k (nx, cap, h)"
  shows "maps_distinct cap"
proof -
  have "adopt_S c (cap_sourceStates cap0) (length (h_states h0)) k (r_state nx) (cap_sourceStates cap)"
    "adopt_maps c hh (length (h_quotas h0)) (cap_quotaStates cap) (cap_accountStates cap)"
    using assms unfolding adopt_inv_def adopt_Q_def prod.case by blast+
  then show ?thesis unfolding adopt_S_def adopt_maps_def maps_distinct_def by blast
qed

lemma linked_adopted:
  assumes c: "counted s" and l: "linked s" and wf: "cfg_wf c"
    and inv: "adopt_inv c (sys_heap s) next0 (sys_cap s) h0 (length (cfg_Sources c)) (nx, cap, h)"
    and new: "New c gen (sys_heap s) = (next0, cap', h0)"
  shows "linked (adopted c nx cap h s)" (is "linked ?s")
proof -
  let ?n = "length (cfg_Sources c)" and ?cap = "prune_maps c h cap"
  have act: "actS h = actS h0" "actQ h = actQ h0"
    and S: "adopt_S c (cap_sourceStates (sys_cap s)) (length (h_states h0)) ?n (r_state nx) (cap_sourceStates cap)"
    and Q: "adopt_Q c (sys_heap s) (length (h_quotas h0)) (cap_quotaStates (sys_cap s)) (cap_accountStates (sys_cap s))
          ?n ?n (h_quotas h) (r_quotas nx) (r_accounts nx) (cap_quotaStates cap) (cap_accountStates cap)"
    using inv unfolding adopt_inv_def prod.case by blast+
  have d: "maps_distinct cap" by (rule adopted_maps_distinct [OF inv])
  then have dd: "distinct (map fst (cap_sourceStates cap))" "distinct (map fst (cap_quotaStates cap))"
    "distinct (map fst (cap_accountStates cap))" by (simp_all add: maps_distinct_def)
  note keep = prune_keeps [OF dd, where h = h and c = c]
  have cur: "current_router ?s = nx" by (simp add: current_router_def adopted_def nth_append)
  have cfg: "r_cfg nx = c" by (rule adopted_shape [OF inv new])
  have rl: "router_link nx ?cap h"
    unfolding router_link_def cfg
  proof (intro allI impI conjI)
    fix j assume j: "j < ?n"
    then have mem: "cfg_Sources c ! j \<in> set (cfg_Sources c)" by simp
    show "map_of (cap_sourceStates ?cap) (source_ID (cfg_Sources c ! j)) = Some (r_state nx ! j)"
      using S j mem by (intro keep) (auto simp: adopt_S_def)
    have "quota_link c (h_quotas h) (cap_quotaStates cap) (r_quotas nx) j" using Q j by (simp add: adopt_Q_def)
    then show "quota_link c (h_quotas h) (cap_quotaStates ?cap) (r_quotas nx) j"
      using keep(2) mem by (auto simp: quota_link_def Let_def)
    have "account_link c (h_quotas h) (cap_accountStates cap) (r_accounts nx) j" using Q j by (simp add: adopt_Q_def)
    then show "account_link c (h_quotas h) (cap_accountStates ?cap) (r_accounts nx) j"
      using keep(3) mem by (auto simp: account_link_def Let_def split: if_splits)
  qed
  have ll: "lease_link ?s x" if x: "x \<in> set (sys_leases s)" "\<not> l_once x" for x
  proof -
    obtain i where i: "i < length (sys_leases s)" "x = sys_leases s ! i" using x by (auto simp: in_set_conv_nth)
    have ls: "lease_shape s x" and lk: "lease_link s x"
      using c l x by (auto simp: counted_def shape_def linked_def)
    have old: "actS h ! a = actS (sys_heap s) ! a" if "a < length (h_states (sys_heap s))" for a
      using that act New_act [OF new] by (simp add: nth_append)
    have oldQ: "actQ h ! a = actQ (sys_heap s) ! a" if "a < length (h_quotas (sys_heap s))" for a
      using that act New_act [OF new] by (simp add: nth_append)
    have len: "length (h_states (sys_heap s)) \<le> length (h_states h)" "length (h_quotas (sys_heap s)) \<le> length (h_quotas h)"
      using act New_act [OF new] by (metis length_act length_append le_add1)+
    note pos = counted_positive [OF c i(1) x(2) [unfolded i(2)], folded i(2)]
    have "st_active (h_states h ! l_state x) \<noteq> 0" "qt_active (h_quotas h ! l_quota x) \<noteq> 0"
      using pos(1,2) ls len old oldQ by (simp_all add: act_nth lease_shape_def)
    moreover have "qt_active (h_quotas h ! a) \<noteq> 0" if "l_account x = Some a" for a
      using pos(3) [OF that] ls len oldQ that by (simp add: act_nth lease_shape_def)
    moreover have ext: "\<And>k b. map_of (cap_sourceStates (sys_cap s)) k = Some b \<Longrightarrow> map_of (cap_sourceStates cap) k = Some b"
      "\<And>k b. map_of (cap_quotaStates (sys_cap s)) k = Some b \<Longrightarrow> map_of (cap_quotaStates cap) k = Some b"
      "\<And>k b. map_of (cap_accountStates (sys_cap s)) k = Some b \<Longrightarrow> map_of (cap_accountStates cap) k = Some b"
      using S Q unfolding adopt_S_def adopt_Q_def by blast+
    moreover have "cap_sourceStates (sys_cap ?s) = cap_sourceStates ?cap"
      "cap_quotaStates (sys_cap ?s) = cap_quotaStates ?cap"
      "cap_accountStates (sys_cap ?s) = cap_accountStates ?cap"
      by (simp_all add: adopted_def)
    ultimately show ?thesis
      using lk keep by (auto simp: lease_link_def Let_def adopted_lease_source [OF ls] split: if_splits)
  qed
  have "r_retired (sys_routers ?s ! g) \<longleftrightarrow> g \<noteq> cap_current (sys_cap ?s)" if "g < length (sys_routers ?s)" for g
  proof (cases "g < length (sys_routers s)")
    case True
    then show ?thesis
      using adopted_router(2) [OF True, of c nx cap h] l by (auto simp: linked_def adopted_def)
  next
    case False
    then show ?thesis
      using that adopted_shape(3) [OF inv new] by (simp add: adopted_def nth_append)
  qed
  then show ?thesis
    using rl ll wf cfg maps_distinct_prune [OF d]
    by (simp add: linked_def cur router_link_def maps_distinct_def) (simp add: adopted_def)
qed

subsection \<open>The router a process starts with\<close>

lemma fold_update_zip:
  assumes "distinct (map f xs)" "length as = length xs" "f ` set xs \<inter> fst ` set m = {}"
  shows "fold (\<lambda>(x, a) m. AList.update (f x) a m) (zip xs as) m = m @ zip (map f xs) as"
  using assms
proof (induction xs arbitrary: as m)
  case (Cons x xs)
  then obtain a as' where as: "as = a # as'" by (cases as) auto
  have "AList.update (f x) a m = m @ [(f x, a)]"
    using Cons.prems(3) by (intro AList_update_fresh) auto
  moreover have "f ` set xs \<inter> fst ` set (m @ [(f x, a)]) = {}"
    using Cons.prems(1,3) by auto
  ultimately show ?case
    using Cons.IH [of as' "m @ [(f x, a)]"] Cons.prems as by simp
qed simp

lemma map_of_rev_distinct: "distinct (map fst xs) \<Longrightarrow> map_of (rev xs) = map_of xs"
  by (rule map_of_inject_set [THEN iffD2]) (simp_all add: rev_map [symmetric])

lemma New_maps:
  assumes "New c gen h = (r, cap, h')" and "cfg_wf c"
  shows "cap_sourceStates cap = zip (map source_ID (cfg_Sources c)) (r_state r)"
    "map_of (cap_quotaStates cap) = fresh_quota c h" "map_of (cap_accountStates cap) = fresh_account c h"
    "maps_distinct cap"
proof -
  let ?doms = "domain_limits [] (cfg_Sources c)" and ?ab = "length (h_quotas h)"
  let ?qb = "?ab + length (cfg_Accounts c)"
  have d: "distinct (map source_ID (cfg_Sources c))" "distinct (map account_ID (cfg_Accounts c))"
    using assms(2) by (simp_all add: cfg_wf_def)
  show S: "cap_sourceStates cap = zip (map source_ID (cfg_Sources c)) (r_state r)"
    using assms(1) d by (auto simp: New_def Let_def fold_update_zip)
  have Q: "cap_quotaStates cap = zip (map fst ?doms) [?qb..<?qb + length ?doms]"
    using assms(1) by (auto simp: New_def Let_def)
  have A: "cap_accountStates cap = zip (map account_ID (cfg_Accounts c)) [?ab..<?qb]"
    using assms(1) d by (auto simp: New_def Let_def fold_update_zip)
  show "map_of (cap_quotaStates cap) = fresh_quota c h"
    by (simp add: Q fresh_quota_def Let_def)
  show "map_of (cap_accountStates cap) = fresh_account c h"
    unfolding A fresh_account_def Let_def by (rule map_of_rev_distinct [symmetric]) (simp add: d)
  show "maps_distinct cap"
    using d domain_limits_distinct [of "[]" "cfg_Sources c"]
    by (simp add: maps_distinct_def S Q A New_simps(5) [OF assms(1)])
qed

lemma init_linked:
  assumes wf: "cfg_wf c"
  shows "counted (init_sys c now) \<and> linked (init_sys c now)"
proof -
  let ?h = "\<lparr>h_states = [], h_quotas = []\<rparr>" and ?n = "length (cfg_Sources c)"
  obtain r cap h where new: "New c 0 ?h = (r, cap, h)" by (cases "New c 0 ?h")
  note m = New_maps [OF new wf] and ns = New_simps [OF new]
  have s: "init_sys c now = \<lparr>sys_heap = h, sys_cap = cap, sys_routers = [r], sys_leases = [],
      sys_nextWaiter = 0, sys_now = now\<rparr>"
    by (simp add: init_sys_def new)
  have rs: "router_shape r h" by (rule New_shape [OF new])
  have "a < length (h_quotas h)" if "(k, a) \<in> set (cap_quotaStates cap)" for k a
    using that m(2,4) fresh_less(1) [OF new, of k a] by (simp add: maps_distinct_def flip: map_of_eq_Some_iff)
  moreover have "a < length (h_quotas h)" if "(k, a) \<in> set (cap_accountStates cap)" for k a
    using that m(3,4) fresh_less(2) [OF new, of k a] by (simp add: maps_distinct_def flip: map_of_eq_Some_iff)
  moreover have "a < length (h_states h)" if "(k, a) \<in> set (cap_sourceStates cap)" for k a
    using that m(1) rs set_zip_rightD by (fastforce simp: router_shape_def Let_def)
  ultimately have "shape (init_sys c now)"
    using rs ns(14) by (auto simp: s shape_def maps_shape_def)
  moreover have "accounting (init_sys c now)"
    using New_act [OF new] ns(13) by (simp add: s accounting_def acct_ok_def actS_def actQ_def)
  moreover have "router_link r cap h"
    unfolding router_link_def ns(1)
  proof (intro allI impI conjI)
    fix j assume j: "j < ?n"
    then have mem: "cfg_Sources c ! j \<in> set (cfg_Sources c)" by simp
    have len: "length (r_state r) = ?n" by (simp add: ns)
    show "map_of (cap_sourceStates cap) (source_ID (cfg_Sources c ! j)) = Some (r_state r ! j)"
      unfolding m(1) using j len wf
      by (intro map_of_is_SomeI) (auto simp: cfg_wf_def in_set_zip intro!: exI [of _ j])
    obtain a where a: "fresh_quota c ?h (source_QuotaDomain (cfg_Sources c ! j)) = Some a"
      using fresh_quota_source [OF mem] by blast
    show "quota_link c (h_quotas h) (cap_quotaStates cap) (r_quotas r) j"
      using j a fresh_quota_limit [OF new wf mem a] by (simp add: quota_link_def Let_def m(2) ns(6))
    show "account_link c (h_quotas h) (cap_accountStates cap) (r_accounts r) j"
    proof (cases "source_AccountID (cfg_Sources c ! j) = ''''")
      case True
      then show ?thesis
        using j wf by (cases "fresh_account c ?h ''''")
          (auto simp: account_link_def ns(7) cfg_wf_def elim!: fresh_account_SomeD)
    next
      case False
      then have "source_AccountID (cfg_Sources c ! j) \<in> account_ID ` set (cfg_Accounts c)"
        using wf mem by (auto simp: cfg_wf_def)
      then obtain b where b: "fresh_account c ?h (source_AccountID (cfg_Sources c ! j)) = Some b"
        using fresh_account_known by blast
      moreover have "qt_limit (h_quotas h ! b) = account_MaxInflight acc"
        if "acc \<in> set (cfg_Accounts c)" "account_ID acc = source_AccountID (cfg_Sources c ! j)" for acc
        using fresh_account_limit [OF new wf that(1)] b that(2) by simp
      ultimately show ?thesis
        using j False by (simp add: account_link_def Let_def m(3) ns(7))
    qed
  qed
  ultimately show ?thesis
    using m(4) wf ns(1,2,14) by (simp add: counted_def linked_def current_router_def s)
qed

subsection \<open>Every reachable state\<close>

definition sound :: "sys \<Rightarrow> bool" where
  "sound s = (counted s \<and> linked s)"

lemma sound_evolves:
  assumes "sound s" "evolves s s'" "counted s'" "length (sys_leases s') = length (sys_leases s)"
  shows "sound s'"
  using assms linked_evolves [of s s'] by (simp add: sound_def)

lemma sound_acquire_turn:
  assumes "sound s" "g < length (sys_routers s)" "sys_now s \<le> now"
  shows "sound (tick now (fst (acquire_turn g q e queued now s)))" (is "sound (tick now ?s)")
proof -
  have ev: "evolves s (tick now ?s)"
  proof (rule evolves_trans [OF evolves_acquire_turn evolves_tick])
    show "sys_now ?s \<le> now"
      using assms(3) by (cases rule: acquire_turn_cases [of s g q e queued now]) (simp_all add: grant_def Let_def split: prod.split)
  qed
  have c: "counted (tick now ?s)"
    using assms counted_acquire_turn by (simp add: sound_def)
  have "linked (tick now ?s)"
  proof (rule linked_evolves [OF _ _ ev])
    show "linked s" "counted s" using assms by (simp_all add: sound_def)
    fix i assume i: "length (sys_leases s) \<le> i" "i < length (sys_leases (tick now ?s))"
    show "lease_link (tick now ?s) (sys_leases (tick now ?s) ! i)"
    proof (cases rule: acquire_turn_cases [of s g q e queued now])
      case same
      then show ?thesis using i by (simp add: same_core_def)
    next
      case (granted idx el)
      let ?l = "new_lease g (sys_routers s ! g) idx q now"
      have ll: "sys_leases ?s = sys_leases s @ [?l]"
        using granted(3) by (simp add: grant_def Let_def split: prod.split)
      have "lease_link s ?l"
        using lease_link_new [OF _ _ assms(2) granted(1)] assms(1) by (simp add: sound_def)
      moreover have "lease_source (tick now ?s) ?l = lease_source s ?l"
        using ev assms(2) by (intro lease_source_evolves) (simp_all add: evolves_def new_lease_def Let_def)
      ultimately have "lease_link (tick now ?s) ?l"
        using ev by (simp add: lease_link_def Let_def evolves_def frame_def)
      then show ?thesis using i ll by (simp add: nth_append)
    qed
  qed
  then show ?thesis using c by (simp add: sound_def)
qed

lemma sound_set_router:
  assumes "sound s" "static_eq (sys_routers s ! g) r" "r_retired (sys_routers s ! g) = r_retired r"
  shows "sound (set_router g r s)"
  using assms by (intro sound_evolves [OF assms(1) evolves_set_router]) (simp_all add: sound_def counted_set_router)

lemma sound_signal: "sound s \<Longrightarrow> sound (signal g now s)"
  by (rule sound_evolves [OF _ evolves_signal]) (simp_all add: sound_def counted_signal)

lemma sound_tick: "sound s \<Longrightarrow> sys_now s \<le> now \<Longrightarrow> sound (tick now s)"
  by (rule sound_evolves [OF _ evolves_tick]) (simp_all add: sound_def counted_tick)

lemma sound_resume:
  assumes "sound s" "g < length (sys_routers s)" "sys_now s \<le> now"
  shows "sound (tick now (fst (Acquire_resume g w consume now s)))"
proof -
  define s1 where "s1 = (if consume then set_router g ((sys_routers s ! g)\<lparr>r_queue :=
      map (\<lambda>x. if w_id x = w_id w then x\<lparr>w_ready := False\<rparr> else x) (r_queue (sys_routers s ! g))\<rparr>) s else s)"
  obtain s2 out where s2: "acquire_turn g (w_query w) (w_ctxErr w) (Some (w_id w)) now s1 = (s2, out)"
    by fastforce
  have "sound s1" "g < length (sys_routers s1)" "sys_now s1 \<le> now"
    using assms by (auto simp: s1_def intro: sound_set_router)
  then have c2: "sound (tick now s2)"
    using sound_acquire_turn [of s1 g now "w_query w" "w_ctxErr w" "Some (w_id w)"] s2 by simp
  have "sound (signal g now (set_router g (removeWaiter (w_id w) (sys_routers s2 ! g)) (tick now s2)))"
    by (intro sound_signal sound_set_router c2) simp_all
  then have "sound (tick now (signal g now (set_router g (removeWaiter (w_id w) (sys_routers s2 ! g)) s2)))"
    by (simp add: tick_signal tick_set_router)
  with c2 s2 show ?thesis
    by (auto simp: Acquire_resume_def Let_def s1_def [symmetric] split: acquired.split)
qed

lemma length_leases [simp]:
  "length (sys_leases (Release n st ra now s)) = length (sys_leases s)"
  "length (sys_leases (RecordExecution n res s)) = length (sys_leases s)"
  "length (sys_leases (FirstOutput n now s)) = length (sys_leases s)"
  "length (sys_leases (fst (SetEnabled g i on now s))) = length (sys_leases s)"
  by (simp_all add: Release_def RecordExecution_def FirstOutput_def SetEnabled_def Let_def
      split: prod.split option.split)

lemma evolves_now [simp]:
  "sys_now (Release n st ra now s) = sys_now s" "sys_now (FirstOutput n now s) = sys_now s"
  "sys_now (fst (SetEnabled g i on now s)) = sys_now s"
  by (simp_all add: Release_def FirstOutput_def SetEnabled_def Let_def split: prod.split option.split)

lemma Adopt_adopted:
  assumes "sound s" "cfg_wf c"
  obtains next0 cap0 h0 nx cap h where
    "New c (length (sys_routers s)) (sys_heap s) = (next0, cap0, h0)"
    "adopt_inv c (sys_heap s) next0 (sys_cap s) h0 (length (cfg_Sources c)) (nx, cap, h)"
    "Adopt c now s = Some (signal (length (sys_routers s)) now (adopted c nx cap h s))"
  using Adopt_effect [OF _ _ assms(2), of s now] assms(1) unfolding adopted_def sound_def by blast

lemma sound_Adopt:
  assumes "sound s" "cfg_wf c" "sys_now s \<le> now"
  shows "\<exists>s'. Adopt c now s = Some s' \<and> sound (tick now s')"
proof -
  have c: "counted s" and l: "linked s" using assms(1) by (simp_all add: sound_def)
  obtain next0 cap0 h0 nx cap h where new: "New c (length (sys_routers s)) (sys_heap s) = (next0, cap0, h0)"
    and inv: "adopt_inv c (sys_heap s) next0 (sys_cap s) h0 (length (cfg_Sources c)) (nx, cap, h)"
    and ad: "Adopt c now s = Some (signal (length (sys_routers s)) now (adopted c nx cap h s))"
    using Adopt_adopted [OF assms(1,2)] by blast
  have "sound (adopted c nx cap h s)"
    using counted_adopted [OF c inv new] linked_adopted [OF c l assms(2) inv new] by (simp add: sound_def)
  then have "sound (tick now (signal (length (sys_routers s)) now (adopted c nx cap h s)))"
    using assms(3) by (intro sound_tick sound_signal) (simp_all add: adopted_def)
  then show ?thesis using ad by blast
qed

lemma sound_step:
  assumes "sound s" "step s s'"
  shows "sound s'"
  using assms(2,1)
proof (cases rule: step.cases)
  case (acquire g now q e)
  then show ?thesis using sound_acquire_turn [OF assms(1)] by (simp add: Acquire_start_def)
next
  case (resume g w now consume)
  then show ?thesis using sound_resume [OF assms(1)] by simp
next
  case (cancel g i e)
  then show ?thesis
    using assms(1) sound_evolves [OF assms(1) evolves_cancel, of g i e] by (simp add: sound_def counted_cancel)
next
  case (release n now status retryAfter)
  then show ?thesis
    using assms(1) counted_Release [of s n now status retryAfter]
    by (intro sound_evolves [OF assms(1)]) (auto simp: sound_def intro: evolves_trans [OF evolves_Release evolves_tick])
next
  case (record_execution n result)
  then show ?thesis
    using assms(1) counted_RecordExecution [of s n result]
    by (intro sound_evolves [OF assms(1)]) (auto simp: sound_def intro: evolves_RecordExecution)
next
  case (first_output n now)
  then show ?thesis
    using assms(1) counted_FirstOutput [of s n now]
    by (intro sound_evolves [OF assms(1)]) (auto simp: sound_def intro: evolves_trans [OF evolves_FirstOutput evolves_tick])
next
  case (set_enabled g now i on)
  then show ?thesis
    using assms(1) counted_SetEnabled [of s now g i on]
    by (intro sound_evolves [OF assms(1)]) (auto simp: sound_def intro: evolves_trans [OF evolves_SetEnabled evolves_tick])
next
  case (adopt c now s'')
  then show ?thesis using sound_Adopt [OF assms(1), of c now] by auto
qed

interpretation acct: router_invariant "\<lambda>_. True" sound
  by unfold_locales (auto simp: sound_def [of "init_sys _ _"] init_linked intro: sound_step)

end
