(* ===== verification/RouterRuns.thy ===== *)
theory RouterRuns
  imports Linking
begin

section \<open>Turns and runs\<close>

text \<open>
  What the properties about time share. The first part shows that the choice of a target does not read
  the waiting queue, and from that what a queued request sees when it runs again: the queue it sees
  differs from the one before only in its own ready flag. The second part labels the steps of the
  router with the operation that makes them, so that a statement can speak of the runs in which some
  operation does not occur.
\<close>

subsection \<open>The choice does not read the queue\<close>

definition unqueued :: "Router \<Rightarrow> Router" where
  "unqueued r = r\<lparr>r_queue := [], r_waiting := 0\<rparr>"

lemma unqueued_reads:
  "source_of (unqueued r) i = source_of r i" "state_of (unqueued r) h i = state_of r h i"
  "quota_of (unqueued r) h i = quota_of r h i" "account_of (unqueued r) h i = account_of r h i"
  "r_targets (unqueued r) = r_targets r" "r_cfg (unqueued r) = r_cfg r" "r_groups (unqueued r) = r_groups r"
  "r_candidates (unqueued r) = r_candidates r" "r_retired (unqueued r) = r_retired r"
  "r_cursor (unqueued r) = r_cursor r" "r_poolStrategies (unqueued r) = r_poolStrategies r"
  "r_parentEnabled (unqueued r) = r_parentEnabled r" "r_parentApproved (unqueued r) = r_parentApproved r"
  "r_hasPools (unqueued r) = r_hasPools r"
  by (simp_all add: unqueued_def source_of_def state_of_def quota_of_def account_of_def)

lemma unqueued_eligible: "eligible_reason (unqueued r) h t q = eligible_reason r h t q"
  by (simp add: eligible_reason_def eligible_target_def eligible_group_def unqueued_reads cong: option.case_cong)

lemma unqueued_busy:
  "source_busy (unqueued r) h i now = source_busy r h i now" "account_busy (unqueued r) h i = account_busy r h i"
  "pool_score (unqueued r) q i a = pool_score r q i a"
  unfolding source_busy_def account_busy_def pool_score_def unqueued_reads by (rule refl)+

lemma unqueued_values:
  "preferenceValue (unqueued r) h idx p = preferenceValue r h idx p"
  "strategy_value (unqueued r) h g idx = strategy_value r h g idx"
  "passed_over (unqueued r) h now pr idx = passed_over r h now pr idx"
  "pool_step (unqueued r) h q now idx best = pool_step r h q now idx best"
  unfolding preferenceValue_def strategy_value_def passed_over_def pool_step_def fst_eligible
    unqueued_reads unqueued_busy unqueued_eligible by (rule refl)+

lemma unqueued_pool: "pool_step (unqueued r) h q now = pool_step r h q now"
  by (intro ext) (simp only: unqueued_values)

lemma unqueued_compare: "comparePreferences (unqueued r) h a b ps = comparePreferences r h a b ps"
proof -
  have "compareListed (unqueued r) h a c ps = compareListed r h a c ps" for c
    by (induction ps) (simp_all add: unqueued_values Let_def)
  then show ?thesis by (simp add: comparePreferences_def split: option.split)
qed

lemma unqueued_step:
  "choose_step (unqueued r) cap h q now g pr idx best sc e = choose_step r cap h q now g pr idx best sc e"
  by (simp add: choose_step_def unqueued_eligible unqueued_values unqueued_compare unqueued_reads)

lemma unqueued_loop:
  "choose_loop (unqueued r) cap h q now g pr cs n pos best sc e = choose_loop r cap h q now g pr cs n pos best sc e"
proof (induction n arbitrary: pos best sc e)
  case (Suc n)
  then show ?case
    unfolding choose_loop.simps unqueued_step Let_def by (simp split: scan.split)
qed simp

lemma unqueued_choose: "router_choose (unqueued r) cap h q now = router_choose r cap h q now"
  by (simp add: router_choose_def unqueued_loop unqueued_reads candidates_of_def group_of_def preferred_of_def
      poolPreferences_def unqueued_pool Let_def)

lemma choose_queue_irrelevant:
  assumes "unqueued r' = unqueued r"
  shows "router_choose r' cap h q now = router_choose r cap h q now"
  using assms by (metis unqueued_choose)

lemma unqueued_update [simp]:
  "unqueued (r\<lparr>r_queue := x\<rparr>) = unqueued r" "unqueued (r\<lparr>r_waiting := n\<rparr>) = unqueued r"
  by (simp_all add: unqueued_def)

lemma choose_update [simp]:
  "router_choose (r\<lparr>r_queue := x\<rparr>) cap h q now = router_choose r cap h q now"
  by (rule choose_queue_irrelevant) simp

subsection \<open>The turn of a queued request\<close>

lemma turn_queue_iff:
  "turn_queue r cap h now current ws \<longleftrightarrow>
     (\<forall>w \<in> set (takeWhile (\<lambda>w. current \<noteq> Some (w_id w)) ws).
        w_ctxErr w = None \<longrightarrow> fst (router_choose r cap h (w_query w) now) = None)"
  by (induction ws) auto

lemma turn_queue_unqueued:
  assumes "unqueued r' = unqueued r"
  shows "turn_queue r' cap h now current ws = turn_queue r cap h now current ws"
proof -
  have "router_choose r' cap h q now = router_choose r cap h q now" for q
    by (rule choose_queue_irrelevant [OF assms])
  then show ?thesis unfolding turn_queue_iff by simp
qed

lemma takeWhile_consumed:
  "takeWhile (\<lambda>x. i \<noteq> w_id x) (map (\<lambda>x. if w_id x = i then x\<lparr>w_ready := False\<rparr> else x) ws) =
   takeWhile (\<lambda>x. i \<noteq> w_id x) ws"
  by (induction ws) auto

text \<open>The state in which a woken request decides: only its ready flag may have changed.\<close>

definition consumed :: "nat \<Rightarrow> nat \<Rightarrow> bool \<Rightarrow> sys \<Rightarrow> sys" where
  "consumed g i consume s = (if consume then set_router g ((sys_routers s ! g)\<lparr>r_queue :=
      map (\<lambda>x. if w_id x = i then x\<lparr>w_ready := False\<rparr> else x) (r_queue (sys_routers s ! g))\<rparr>) s else s)"

lemma consumed_simps [simp]:
  "sys_heap (consumed g i c s) = sys_heap s" "sys_cap (consumed g i c s) = sys_cap s"
  "sys_leases (consumed g i c s) = sys_leases s"
  by (simp_all add: consumed_def)

lemma queue_update: "r_queue (r\<lparr>r_queue := x\<rparr>) = x"
  by simp

lemma consumed_router_cases:
  "sys_routers (consumed g i c s) ! g = sys_routers s ! g \<or>
   sys_routers (consumed g i c s) ! g = (sys_routers s ! g)\<lparr>r_queue :=
     map (\<lambda>x. if w_id x = i then x\<lparr>w_ready := False\<rparr> else x) (r_queue (sys_routers s ! g))\<rparr>"
  by (cases "g < length (sys_routers s)") (simp_all add: consumed_def list_update_beyond)

lemma consumed_router:
  "unqueued (sys_routers (consumed g i c s) ! g) = unqueued (sys_routers s ! g)"
  "r_targets (sys_routers (consumed g i c s) ! g) = r_targets (sys_routers s ! g)"
  "takeWhile (\<lambda>x. i \<noteq> w_id x) (r_queue (sys_routers (consumed g i c s) ! g)) =
   takeWhile (\<lambda>x. i \<noteq> w_id x) (r_queue (sys_routers s ! g))"
proof -
  note either = consumed_router_cases [of g i c s]
  show "unqueued (sys_routers (consumed g i c s) ! g) = unqueued (sys_routers s ! g)"
    using either by (rule disjE) (simp_all only: unqueued_update)
  show "r_targets (sys_routers (consumed g i c s) ! g) = r_targets (sys_routers s ! g)"
    using either by (rule disjE) simp_all
  show "takeWhile (\<lambda>x. i \<noteq> w_id x) (r_queue (sys_routers (consumed g i c s) ! g)) =
    takeWhile (\<lambda>x. i \<noteq> w_id x) (r_queue (sys_routers s ! g))"
    using either by (rule disjE) (simp_all only: queue_update takeWhile_consumed)
qed

lemma consumed_choose:
  "router_choose (sys_routers (consumed g i c s) ! g) cap h q now = router_choose (sys_routers s ! g) cap h q now"
  by (rule choose_queue_irrelevant [OF consumed_router(1)])

lemma consumed_turn:
  "turn_queue (sys_routers (consumed g i c s) ! g) cap h now (Some i) (r_queue (sys_routers (consumed g i c s) ! g)) =
   turn_queue (sys_routers s ! g) cap h now (Some i) (r_queue (sys_routers s ! g))"
  by (simp add: turn_queue_iff consumed_choose consumed_router(3))

lemma Acquire_resume_consumed:
  "Acquire_resume g w consume now s =
     (case acquire_turn g (w_query w) (w_ctxErr w) (Some (w_id w)) now (consumed g (w_id w) consume s) of
        (s2, Blocked i) \<Rightarrow> (s2, Blocked i)
      | (s2, out) \<Rightarrow> (signal g now (set_router g (removeWaiter (w_id w) (sys_routers s2 ! g)) s2), out))"
  by (simp add: Acquire_resume_def consumed_def Let_def split: prod.split acquired.split)

lemma resume_Granted:
  assumes "Acquire_resume g w consume now s = (s', Granted n)"
  obtains idx el where
    "router_choose (sys_routers s ! g) (sys_cap s) (sys_heap s) (w_query w) now = (Some idx, el)"
    "turn_queue (sys_routers s ! g) (sys_cap s) (sys_heap s) now (Some (w_id w)) (r_queue (sys_routers s ! g))"
    "n = length (sys_leases s)" "l_Target (sys_leases s' ! n) = r_targets (sys_routers s ! g) ! idx"
proof -
  let ?s1 = "consumed g (w_id w) consume s"
  obtain s2 where t: "acquire_turn g (w_query w) (w_ctxErr w) (Some (w_id w)) now ?s1 = (s2, Granted n)"
    and s': "sys_leases s' = sys_leases s2"
    using assms by (auto simp: Acquire_resume_consumed split: prod.splits acquired.splits)
  then obtain idx el where ch: "router_choose (sys_routers ?s1 ! g) (sys_cap s) (sys_heap s) (w_query w) now = (Some idx, el)"
    "turn_queue (sys_routers ?s1 ! g) (sys_cap s) (sys_heap s) now (Some (w_id w)) (r_queue (sys_routers ?s1 ! g))"
    "s2 = grant g idx (w_query w) now ?s1" "n = length (sys_leases s)"
    by (auto simp: acquire_turn_def Let_def split: option.splits prod.splits if_splits)
  then have "l_Target (sys_leases s' ! n) = r_targets (sys_routers s ! g) ! idx"
    by (simp add: s' grant_def new_lease_def Let_def nth_append consumed_router(2) split: prod.split)
  with ch show thesis by (intro that) (simp_all add: consumed_choose consumed_turn)
qed

lemma resume_Blocked:
  assumes "snd (Acquire_resume g w consume now s) = Blocked i"
  shows "w_ctxErr w = None \<and> snd (router_choose (sys_routers s ! g) (sys_cap s) (sys_heap s) (w_query w) now) \<and>
    (fst (router_choose (sys_routers s ! g) (sys_cap s) (sys_heap s) (w_query w) now) = None \<or>
     \<not> turn_queue (sys_routers s ! g) (sys_cap s) (sys_heap s) now (Some (w_id w)) (r_queue (sys_routers s ! g)))"
  using assms unfolding Acquire_resume_consumed
  by (auto simp: acquire_turn_def Let_def consumed_choose consumed_turn
      split: prod.splits acquired.splits option.splits if_splits)

subsection \<open>Steps and the operations that make them\<close>

datatype operation =
    OpAcquire nat Query "string option" time
  | OpResume nat nat bool time
  | OpCancel nat nat string
  | OpRelease nat int time time
  | OpRecordExecution nat ExecutionResult
  | OpFirstOutput nat time
  | OpSetEnabled nat string bool time
  | OpAdopt Config time

inductive performs :: "operation \<Rightarrow> sys \<Rightarrow> sys \<Rightarrow> bool" where
  acquire: "g < length (sys_routers s) \<Longrightarrow> sys_now s \<le> now \<Longrightarrow>
    performs (OpAcquire g q e now) s (tick now (fst (Acquire_start g q e now s)))"
| resume: "g < length (sys_routers s) \<Longrightarrow> w \<in> set (r_queue (sys_routers s ! g)) \<Longrightarrow> sys_now s \<le> now \<Longrightarrow>
    performs (OpResume g (w_id w) consume now) s (tick now (fst (Acquire_resume g w consume now s)))"
| cancel: "g < length (sys_routers s) \<Longrightarrow> performs (OpCancel g i e) s (cancel_waiter g i e s)"
| release: "n < length (sys_leases s) \<Longrightarrow> sys_now s \<le> now \<Longrightarrow>
    performs (OpRelease n status retryAfter now) s (tick now (Release n status retryAfter now s))"
| record_execution: "n < length (sys_leases s) \<Longrightarrow>
    performs (OpRecordExecution n result) s (RecordExecution n result s)"
| first_output: "n < length (sys_leases s) \<Longrightarrow> sys_now s \<le> now \<Longrightarrow>
    performs (OpFirstOutput n now) s (tick now (FirstOutput n now s))"
| set_enabled: "g < length (sys_routers s) \<Longrightarrow> sys_now s \<le> now \<Longrightarrow>
    performs (OpSetEnabled g i on now) s (tick now (fst (SetEnabled g i on now s)))"
| adopt: "cfg_wf c \<Longrightarrow> sys_now s \<le> now \<Longrightarrow> Adopt c now s = Some s' \<Longrightarrow> performs (OpAdopt c now) s (tick now s')"

text \<open>The labels leave no step out and add none.\<close>

lemma step_performs: "step s s' \<longleftrightarrow> (\<exists>a. performs a s s')"
  by (auto elim!: step.cases performs.cases intro: performs.intros step.intros)

text \<open>The runs in which every operation satisfies \<open>P\<close> in the state it is performed in.\<close>

definition runs :: "(sys \<Rightarrow> operation \<Rightarrow> bool) \<Rightarrow> sys \<Rightarrow> sys \<Rightarrow> bool" where
  "runs P = (\<lambda>s s'. \<exists>a. P s a \<and> performs a s s')\<^sup>*\<^sup>*"

lemma runs_refl: "runs P s s"
  by (simp add: runs_def)

lemma runs_keep:
  assumes "runs P s s'" and "reachable s" and "I s"
    and "\<And>x a y. reachable x \<Longrightarrow> I x \<Longrightarrow> P x a \<Longrightarrow> performs a x y \<Longrightarrow> I y"
  shows "reachable s' \<and> I s'"
  using assms(1) unfolding runs_def
proof (induction rule: rtranclp_induct)
  case base
  then show ?case using assms(2,3) by simp
next
  case (step y z)
  then obtain a where "P y a" "performs a y z" by blast
  then show ?case using step.IH assms(4) reachable.step step_performs by blast
qed

end
