(* ===== verification/Samples.thy ===== *)
theory Samples
  imports RouterMachine
begin

section \<open>A sample configuration\<close>

text \<open>
  The concrete inputs of the witnesses: two sources of one provider, each with one model, the first
  on an account of its own, and the group \<open>auto\<close> that prefers the first.
\<close>

definition sample_model :: Model where
  "sample_model = \<lparr>model_InputUSDPerMillion = Some (Fin 1), model_OutputUSDPerMillion = Some (Fin 2),
     model_Enabled = None, model_AutoApproved = None, model_DeclaredModel = '''',
     model_CanonicalModel = '''', model_ID = ''m'', model_Upstream = ''m'',
     model_Protocols = [''chat''], model_Tier = ''bronze'', model_RatingBasis = ''bench'',
     model_Tools = ''native'', model_Vision = False, model_MaxInputBytes = 1000\<rparr>"

definition sample_source :: "string \<Rightarrow> string \<Rightarrow> Source" where
  "sample_source i acc = \<lparr>source_Weight = 1, source_AccountID = acc, source_CredentialRef = '''',
     source_CredentialTypeOverride = False, source_SourceKind = '''', source_ExecutionLocation = '''',
     source_InferenceLocation = '''', source_BillingMode = ''metered'', source_CredentialMode = '''',
     source_ID = i, source_Provider = ''p'', source_Adapter = ''openai'',
     source_BaseURL = ''https://api.example.com'', source_KeyEnv = ''KEY'', source_AccountIDEnv = '''',
     source_Organization = '''', source_Project = '''', source_Enabled = True,
     source_AutoApproved = True, source_Local = False, source_Anonymous = False, source_Paid = False,
     source_MaxInflight = 1, source_QuotaDomain = ''d'', source_QuotaMaxInflight = 2,
     source_Models = [sample_model]\<rparr>"

definition sample_account :: Account where
  "sample_account = \<lparr>account_VerificationState = '''', account_VerificationVersion = 0,
     account_VerificationBinding = '''', account_VerificationAt = None, account_ID = ''acct'',
     account_ProviderID = ''p'', account_DisplayName = '''', account_Enabled = True,
     account_AutoApproved = True, account_CredentialRef = '''', account_LoginCredentialRef = '''',
     account_ExpectedIdentity = '''', account_CredentialTypeOverride = False,
     account_BrowserProfileID = '''', account_BaseURL = '''', account_Organization = '''',
     account_Project = '''', account_QuotaDomain = ''d'', account_MaxInflight = 1, account_Weight = 1,
     account_CreatedAt = 0\<rparr>"

definition sample_group :: Group where
  "sample_group = zero_Group\<lparr>group_ID := ''auto'', group_Type := ''fallback'',
     group_Sources := [''a'', ''b''], group_MinTier := ''bronze'', group_AllowPaid := True\<rparr>"

definition sample_config :: Config where
  "sample_config = Default\<lparr>cfg_Sources := [sample_source ''a'' ''acct'', sample_source ''b'' ''''],
     cfg_Accounts := [sample_account],
     cfg_Providers := [\<lparr>provider_ID = ''p'', provider_Enabled = True, provider_AutoApproved = True,
       provider_PoolStrategy = ''round-robin''\<rparr>],
     cfg_Groups := [sample_group]\<rparr>"

definition sample_query :: Query where
  "sample_query = \<lparr>q_Probe = False, q_Detail = False, q_ExcludedSources = [], q_Affinity = '''',
     q_Model = ''auto'', q_Protocol = ''chat'', q_Tools = False, q_Bytes = 10,
     q_OutputTokens = 100, q_SpentUSD = Fin 0, q_Stateful = False, q_Vision = False\<rparr>"

lemma sample_config_wf: "cfg_wf sample_config"
  by code_simp

text \<open>A fresh process, the same process after two requests were admitted, and a third one waiting.\<close>

definition sample_sys :: sys where
  "sample_sys = init_sys sample_config 0"

definition sample_busy :: sys where
  "sample_busy = tick 6 (fst (Acquire_start 0 sample_query None 6
     (tick 5 (fst (Acquire_start 0 sample_query None 5 sample_sys)))))"

definition sample_queued :: sys where
  "sample_queued = tick 7 (fst (Acquire_start 0 sample_query None 7 sample_busy))"

lemma sample_reachable: "reachable sample_sys" "reachable sample_busy" "reachable sample_queued"
proof -
  show r0: "reachable sample_sys"
    unfolding sample_sys_def by (rule reachable.init [OF sample_config_wf]) simp
  have "reachable (tick 5 (fst (Acquire_start 0 sample_query None 5 sample_sys)))"
    by (rule reachable.step [OF r0 step.acquire]) code_simp+
  from reachable.step [OF this step.acquire] show r1: "reachable sample_busy"
    unfolding sample_busy_def by this code_simp+
  from reachable.step [OF this step.acquire] show "reachable sample_queued"
    unfolding sample_queued_def by this code_simp+
qed

lemma sample_first_grant:
  "Acquire_start 0 sample_query None 5 sample_sys =
   (fst (Acquire_start 0 sample_query None 5 sample_sys), Granted 0)"
proof -
  have "snd (Acquire_start 0 sample_query None 5 sample_sys) = Granted 0" by code_simp
  then show ?thesis by (metis prod.collapse)
qed

end
