(* ===== verification/RouterQueue.thy ===== *)
theory RouterQueue
  imports RouterRuns Samples
begin

section \<open>The waiting queue\<close>

text \<open>
  A request that finds its sources busy joins the queue of its router and is woken by \<open>signal\<close>. The
  invariant: the waiting count is the length of the queue and within \<open>MaxQueued\<close>, and no waiter is
  queued twice. The waiter that \<open>signal\<close> wakes is the first one that can make progress, and when it
  runs next it does make progress: no wake-up is wasted or lost.
\<close>

subsection \<open>Queue invariant\<close>

definition queue_ok :: "nat \<Rightarrow> Router \<Rightarrow> bool" where
  "queue_ok fresh r =
     (r_waiting r = int (length (r_queue r)) \<and> distinct (map w_id (r_queue r)) \<and>
      (\<forall>w \<in> set (r_queue r). w_id w < fresh) \<and>
      int (length (r_queue r)) \<le> rt_MaxQueued (cfg_Runtime (r_cfg r)))"

definition queues_ok :: "sys \<Rightarrow> bool" where
  "queues_ok s = (\<forall>r \<in> set (sys_routers s). queue_ok (sys_nextWaiter s) r)"

lemma queue_ok_map:
  assumes "\<And>w. w_id (f w) = w_id w"
  shows "queue_ok n (r\<lparr>r_queue := map f (r_queue r)\<rparr>) = queue_ok n r"
  using assms by (auto simp: queue_ok_def o_def)

lemma queue_ok_fields:
  assumes "r_queue r' = r_queue r" "r_waiting r' = r_waiting r" "r_cfg r' = r_cfg r"
  shows "queue_ok n r' = queue_ok n r"
  using assms by (simp add: queue_ok_def)

lemma signal_queue_ids: "map w_id (signal_queue r cap h now ws) = map w_id ws"
  by (induction ws) (auto split: prod.split)

lemma queue_ok_signal:
  "queue_ok n (r\<lparr>r_queue := signal_queue r' cap h now (r_queue r)\<rparr>) = queue_ok n r"
proof -
  let ?q = "signal_queue r' cap h now (r_queue r)"
  have ids: "map w_id ?q = map w_id (r_queue r)" by (rule signal_queue_ids)
  then have len: "length ?q = length (r_queue r)" and "w_id ` set ?q = w_id ` set (r_queue r)"
    by (metis length_map, metis set_map)
  then have "(\<forall>i \<in> w_id ` set ?q. i < n) = (\<forall>i \<in> w_id ` set (r_queue r). i < n)" by (simp only:)
  then show ?thesis
    using ids len by (simp add: queue_ok_def)
qed

lemma remove_waiter_ids: "distinct (map w_id ws) \<Longrightarrow> remove_waiter i ws = filter (\<lambda>w. w_id w \<noteq> i) ws"
  by (induction ws) (auto simp: image_iff intro!: filter_True [symmetric])

lemma remove_waiter_length: "i \<in> w_id ` set ws \<Longrightarrow> length ws = Suc (length (remove_waiter i ws))"
  by (induction ws) auto

lemma queue_ok_remove: "queue_ok n r \<Longrightarrow> queue_ok n (removeWaiter i r)"
  using remove_waiter_length [of i "r_queue r"]
  by (auto simp: queue_ok_def removeWaiter_def remove_waiter_ids distinct_map_filter)

lemma queues_ok_update:
  assumes "queues_ok s" "g < length (sys_routers s) \<Longrightarrow> queue_ok (sys_nextWaiter s) r"
  shows "queues_ok (set_router g r s)"
  using assms set_update_subset_insert [of "sys_routers s" g r]
  by (cases "g < length (sys_routers s)") (auto simp: queues_ok_def list_update_beyond)

lemma queues_ok_same: "sys_routers s' = sys_routers s \<Longrightarrow> sys_nextWaiter s' = sys_nextWaiter s \<Longrightarrow> queues_ok s' = queues_ok s"
  by (simp add: queues_ok_def)

lemma queues_ok_signal: "queues_ok s \<Longrightarrow> queues_ok (signal g now s)"
  unfolding signal_def Let_def by (rule queues_ok_update) (auto simp: queue_ok_signal queues_ok_def)

lemma queue_ok_mono: "queue_ok n r \<Longrightarrow> n \<le> m \<Longrightarrow> queue_ok m r"
  by (auto simp: queue_ok_def)

lemma queue_ok_enqueue:
  assumes "queue_ok n r" "\<not> rt_MaxQueued (cfg_Runtime (r_cfg r)) \<le> r_waiting r" "w_id w = n"
  shows "queue_ok (n + 1) (r\<lparr>r_waiting := r_waiting r + 1, r_queue := r_queue r @ [w]\<rparr>)"
  using assms by (auto simp: queue_ok_def image_iff)

lemma queues_ok_acquire_turn:
  assumes "queues_ok s"
  shows "queues_ok (fst (acquire_turn g q e queued now s))"
proof -
  let ?r = "sys_routers s ! g"
  obtain idx el where ch: "router_choose ?r (sys_cap s) (sys_heap s) q now = (idx, el)" by fastforce
  have gr: "queues_ok (grant g i q now s)" for i
  proof -
    have "queues_ok (set_router g (?r\<lparr>r_cursor := r_cursor ?r + 1\<rparr>) s)"
      by (rule queues_ok_update [OF assms])
        (use assms in \<open>auto simp: queues_ok_def queue_ok_fields [of "?r\<lparr>r_cursor := r_cursor ?r + 1\<rparr>" ?r]\<close>)
    then show ?thesis by (simp add: queues_ok_def grant_def Let_def split: prod.split)
  qed
  define w where "w = \<lparr>w_id = sys_nextWaiter s, w_query = q, w_ctxErr = None, w_ready = False\<rparr>"
  let ?n = "sys_nextWaiter s + 1"
  have enq: "queues_ok ((set_router g (?r\<lparr>r_waiting := r_waiting ?r + 1, r_queue := r_queue ?r @ [w]\<rparr>) s)\<lparr>sys_nextWaiter := ?n\<rparr>)"
    if "\<not> rt_MaxQueued (cfg_Runtime (r_cfg ?r)) \<le> r_waiting ?r"
  proof -
    have "queues_ok (s\<lparr>sys_nextWaiter := ?n\<rparr>)"
      using assms by (auto simp: queues_ok_def intro: queue_ok_mono)
    moreover have "queue_ok ?n (?r\<lparr>r_waiting := r_waiting ?r + 1, r_queue := r_queue ?r @ [w]\<rparr>)"
      if "g < length (sys_routers s)"
      by (rule queue_ok_enqueue) (use assms that \<open>\<not> _ \<le> _\<close> in \<open>auto simp: queues_ok_def w_def\<close>)
    ultimately show ?thesis
      using queues_ok_update [of "s\<lparr>sys_nextWaiter := ?n\<rparr>" g
          "?r\<lparr>r_waiting := r_waiting ?r + 1, r_queue := r_queue ?r @ [w]\<rparr>"]
      by (simp add: queues_ok_def)
  qed
  show ?thesis
    using ch assms gr enq
    by (auto simp: acquire_turn_def Let_def w_def [symmetric] split: option.split)
qed

lemma queues_ok_resume:
  assumes "queues_ok s"
  shows "queues_ok (fst (Acquire_resume g w consume now s))"
proof -
  define s1 where "s1 = (if consume then set_router g ((sys_routers s ! g)\<lparr>r_queue :=
      map (\<lambda>x. if w_id x = w_id w then x\<lparr>w_ready := False\<rparr> else x) (r_queue (sys_routers s ! g))\<rparr>) s else s)"
  obtain s2 out where s2: "acquire_turn g (w_query w) (w_ctxErr w) (Some (w_id w)) now s1 = (s2, out)"
    by fastforce
  have "queues_ok s1"
    unfolding s1_def using assms
    by (auto intro!: queues_ok_update simp: queue_ok_map queues_ok_def [of s])
  then have q2: "queues_ok s2"
    using queues_ok_acquire_turn [of s1 g "w_query w" "w_ctxErr w" "Some (w_id w)" now] s2 by simp
  then have "queues_ok (signal g now (set_router g (removeWaiter (w_id w) (sys_routers s2 ! g)) s2))"
    by (intro queues_ok_signal queues_ok_update queue_ok_remove) (auto simp: queues_ok_def)
  then show ?thesis
    using q2 s2 by (auto simp: Acquire_resume_def Let_def s1_def [symmetric] split: acquired.split)
qed

lemma queues_ok_Adopt:
  assumes q: "queues_ok s" and so: "sound s" and wf: "cfg_wf c" and ad: "Adopt c now s = Some s'"
  shows "queues_ok s'"
proof -
  obtain next0 cap0 h0 nx cap h where new: "New c (length (sys_routers s)) (sys_heap s) = (next0, cap0, h0)"
    and inv: "adopt_inv c (sys_heap s) next0 (sys_cap s) h0 (length (cfg_Sources c)) (nx, cap, h)"
    and s': "Adopt c now s = Some (signal (length (sys_routers s)) now (adopted c nx cap h s))"
    using Adopt_adopted [OF so wf] by blast
  have cur: "cap_current (sys_cap s) < length (sys_routers s)"
    using so by (simp add: sound_def counted_def shape_def)
  have nx: "queue_ok (sys_nextWaiter s) nx"
    using adopted_shape(2,4,5) [OF inv new] wf by (simp add: queue_ok_def cfg_wf_def)
  have old: "queue_ok (sys_nextWaiter s) ((current_router s)\<lparr>r_retired := True,
        r_queue := map (\<lambda>w. w\<lparr>w_ready := True\<rparr>) (r_queue (current_router s))\<rparr>)"
    using q cur by (auto simp: queues_ok_def queue_ok_def current_router_def o_def)
  have "queues_ok (adopted c nx cap h s)"
    using q nx old set_update_subset_insert [of "sys_routers s" "cap_current (sys_cap s)"]
    by (fastforce simp: queues_ok_def adopted_def)
  then show ?thesis using ad s' queues_ok_signal by (metis option.inject)
qed

lemma queues_ok_step:
  assumes "sound s" "queues_ok s" "step s s'"
  shows "queues_ok s'"
  using assms(3,2)
proof (cases rule: step.cases)
  case (acquire g now q e)
  then show ?thesis
    using queues_ok_acquire_turn [OF assms(2)] by (simp add: Acquire_start_def queues_ok_same [OF tick_simps(4,5)])
next
  case (resume g w now consume)
  then show ?thesis using queues_ok_resume [OF assms(2)] by (simp add: queues_ok_same [OF tick_simps(4,5)])
next
  case (cancel g i e)
  then show ?thesis
    using assms(2) by (auto simp: cancel_waiter_def Let_def queue_ok_map queues_ok_def [of s] intro!: queues_ok_update)
next
  case (release n now status retryAfter)
  have "queues_ok (Release n status retryAfter now s)"
    using assms(2) by (auto simp: Release_def Let_def queues_ok_def [of s] split: prod.split
        intro!: queues_ok_signal) (simp_all add: queues_ok_def)
  then show ?thesis using release by (simp add: queues_ok_same [OF tick_simps(4,5)])
next
  case (record_execution n result)
  then show ?thesis using assms(2) by (simp add: queues_ok_def) (simp add: RecordExecution_def Let_def)
next
  case (first_output n now)
  then show ?thesis using assms(2) by (simp add: queues_ok_def) (simp add: FirstOutput_def Let_def)
next
  case (set_enabled g now i on)
  have "queues_ok (fst (SetEnabled g i on now s))"
    using assms(2) by (auto simp: SetEnabled_def Let_def split: option.split intro!: queues_ok_signal)
      (simp add: queues_ok_def)
  then show ?thesis using set_enabled by (simp add: queues_ok_same [OF tick_simps(4,5)])
next
  case (adopt c now s'')
  then show ?thesis
    using queues_ok_Adopt [OF assms(2,1)] by (simp add: queues_ok_same [OF tick_simps(4,5)])
qed

lemma queues_ok_init: "cfg_wf c \<Longrightarrow> queues_ok (init_sys c now)"
  by (auto simp: queues_ok_def init_sys_def queue_ok_def New_def Let_def cfg_wf_def)

interpretation waiting: router_invariant sound queues_ok
  by unfold_locales (auto intro: acct.always queues_ok_init queues_ok_step)

subsection \<open>Order and wake-ups\<close>

definition actionable :: "Router \<Rightarrow> capacity \<Rightarrow> heap \<Rightarrow> time \<Rightarrow> waiter \<Rightarrow> bool" where
  "actionable r cap h now w =
     (w_ctxErr w \<noteq> None \<or> fst (router_choose r cap h (w_query w) now) \<noteq> None \<or>
      \<not> snd (router_choose r cap h (w_query w) now))"

lemma signal_queue_first:
  "signal_queue r cap h now ws =
     takeWhile (\<lambda>w. \<not> actionable r cap h now w) ws @
     (case dropWhile (\<lambda>w. \<not> actionable r cap h now w) ws of [] \<Rightarrow> [] | w # rest \<Rightarrow> w\<lparr>w_ready := True\<rparr> # rest)"
  by (induction ws) (auto simp: actionable_def split: prod.split)

lemma actionable_unqueued:
  assumes "unqueued r' = unqueued r"
  shows "actionable r' cap h now w = actionable r cap h now w"
  using choose_queue_irrelevant [OF assms] by (simp add: actionable_def)

lemma actionable_ready [simp]: "actionable r cap h now (w\<lparr>w_ready := b\<rparr>) = actionable r cap h now w"
  by (simp add: actionable_def)

text \<open>A waiter that can make progress, with no such waiter ahead of it, does not block again.\<close>

lemma resume_blocks_only:
  assumes "snd (Acquire_resume g w consume now s) = Blocked i"
  shows "\<not> actionable (sys_routers s ! g) (sys_cap s) (sys_heap s) now w \<or>
    (\<exists>x \<in> set (takeWhile (\<lambda>x. w_id w \<noteq> w_id x) (r_queue (sys_routers s ! g))). w_ctxErr x = None \<and>
       fst (router_choose (sys_routers s ! g) (sys_cap s) (sys_heap s) (w_query x) now) \<noteq> None)"
  using resume_Blocked [OF assms] by (auto simp: actionable_def turn_queue_iff)

lemma first_actionable_runs:
  assumes q: "r_queue (sys_routers s ! g) = xs @ w # ys"
    and d: "distinct (map w_id (xs @ w # ys))"
    and xs: "\<And>x. x \<in> set xs \<Longrightarrow> \<not> actionable (sys_routers s ! g) (sys_cap s) (sys_heap s) now x"
    and w: "actionable (sys_routers s ! g) (sys_cap s) (sys_heap s) now w"
  shows "\<forall>i. snd (Acquire_resume g w consume now s) \<noteq> Blocked i"
proof -
  have "takeWhile (\<lambda>x. w_id w \<noteq> w_id x) (r_queue (sys_routers s ! g)) = xs"
    unfolding q using d by (subst takeWhile_append2) (auto simp: image_iff)
  then show ?thesis using resume_blocks_only [of g w consume now s] w xs by (auto simp: actionable_def)
qed

lemma signal_wakes:
  assumes g: "g < length (sys_routers s)" and ok: "queues_ok s"
    and s': "s' = signal g now s" "r = sys_routers s' ! g"
    and w: "w \<in> set (r_queue r)" "actionable r (sys_cap s') (sys_heap s') now w"
  shows "\<exists>w \<in> set (r_queue r). w_ready w \<and> actionable r (sys_cap s') (sys_heap s') now w \<and>
    (\<forall>consume i. snd (Acquire_resume g w consume now s') \<noteq> Blocked i)"
proof -
  let ?r = "sys_routers s ! g"
  let ?a = "actionable ?r (sys_cap s) (sys_heap s) now"
  have r: "r = ?r\<lparr>r_queue := signal_queue ?r (sys_cap s) (sys_heap s) now (r_queue ?r)\<rparr>"
    and cap: "sys_cap s' = sys_cap s" "sys_heap s' = sys_heap s"
    using g s' by (simp_all add: signal_def Let_def)
  have un: "unqueued r = unqueued ?r" using r by simp
  have act: "actionable r (sys_cap s') (sys_heap s') now x = ?a x" for x
    using actionable_unqueued [OF un] cap by simp
  let ?xs = "takeWhile (\<lambda>w. \<not> ?a w) (r_queue ?r)"
  have "dropWhile (\<lambda>w. \<not> ?a w) (r_queue ?r) \<noteq> []"
  proof
    assume n: "dropWhile (\<lambda>w. \<not> ?a w) (r_queue ?r) = []"
    then have t: "?xs = r_queue ?r"
      using takeWhile_dropWhile_id [of "\<lambda>w. \<not> ?a w" "r_queue ?r"] by (metis append_Nil2)
    have "signal_queue ?r (sys_cap s) (sys_heap s) now (r_queue ?r) = r_queue ?r"
      unfolding signal_queue_first n t by simp
    then have "r_queue r = r_queue ?r" using r by simp
    then show False using n w act by (auto simp: dropWhile_eq_Nil_conv)
  qed
  then obtain v ys where v: "dropWhile (\<lambda>w. \<not> ?a w) (r_queue ?r) = v # ys"
    by (cases "dropWhile (\<lambda>w. \<not> ?a w) (r_queue ?r)") auto
  have va: "?a v" using v by (metis dropWhile_eq_Cons_conv)
  have q: "r_queue r = ?xs @ v\<lparr>w_ready := True\<rparr> # ys"
    using r v signal_queue_first [of ?r "sys_cap s" "sys_heap s" now "r_queue ?r"] by simp
  have "distinct (map w_id (r_queue r))"
    using ok g r signal_queue_ids [of ?r "sys_cap s" "sys_heap s" now "r_queue ?r"]
    by (auto simp: queues_ok_def queue_ok_def)
  then have "\<forall>i. snd (Acquire_resume g (v\<lparr>w_ready := True\<rparr>) consume now s') \<noteq> Blocked i" for consume
    using q act va s' g
    by (intro first_actionable_runs [of s' g ?xs _ ys]) (auto simp: signal_def Let_def dest: set_takeWhileD)
  then show ?thesis
    using q act va by (intro bexI [of _ "v\<lparr>w_ready := True\<rparr>"]) auto
qed

subsection \<open>A wake-up stays\<close>

text \<open>The waiter \<open>i\<close> of router \<open>g\<close> is in the queue and marked ready.\<close>

definition woken :: "nat \<Rightarrow> nat \<Rightarrow> Query \<Rightarrow> sys \<Rightarrow> bool" where
  "woken g i q s \<longleftrightarrow> g < length (sys_routers s) \<and>
     (\<exists>w \<in> set (r_queue (sys_routers s ! g)). w_id w = i \<and> w_query w = q \<and> w_ready w)"

lemma woken_same: "sys_routers s' = sys_routers s \<Longrightarrow> woken g i q s' = woken g i q s"
  by (simp add: woken_def)

lemma woken_set_router:
  assumes "woken g i q s"
    "\<And>w. w \<in> set (r_queue (sys_routers s ! k)) \<Longrightarrow> w_id w = i \<Longrightarrow> w_ready w \<Longrightarrow> k = g \<Longrightarrow>
      \<exists>w' \<in> set (r_queue r). w_id w' = i \<and> w_query w' = w_query w \<and> w_ready w'"
  shows "woken g i q (set_router k r s)"
  using assms by (cases "k = g") (auto simp: woken_def)

lemma signal_queue_keeps:
  "w \<in> set ws \<Longrightarrow> w_ready w \<Longrightarrow>
   \<exists>w' \<in> set (signal_queue r cap h now ws). w_id w' = w_id w \<and> w_query w' = w_query w \<and> w_ready w'"
proof (induction ws)
  case (Cons a ws)
  have "signal_queue r cap h now (a # ws) = a\<lparr>w_ready := True\<rparr> # ws \<or>
      signal_queue r cap h now (a # ws) = a # signal_queue r cap h now ws"
    by (simp split: prod.split)
  then show ?case
  proof
    assume "signal_queue r cap h now (a # ws) = a\<lparr>w_ready := True\<rparr> # ws"
    with Cons.prems show ?thesis by auto
  next
    assume "signal_queue r cap h now (a # ws) = a # signal_queue r cap h now ws"
    with Cons show ?thesis by auto
  qed
qed simp

lemma woken_signal: "woken g i q s \<Longrightarrow> woken g i q (signal k now s)"
  unfolding signal_def Let_def
  by (erule woken_set_router) (auto dest: signal_queue_keeps)

lemma remove_waiter_keeps: "w \<in> set ws \<Longrightarrow> w_id w \<noteq> i \<Longrightarrow> w \<in> set (remove_waiter i ws)"
  by (induction ws) auto

lemma removeWaiter_keeps:
  "w \<in> set (r_queue r) \<Longrightarrow> w_id w \<noteq> j \<Longrightarrow> w_id w = i \<Longrightarrow> w_ready w \<Longrightarrow>
   \<exists>w' \<in> set (r_queue (removeWaiter j r)). w_id w' = i \<and> w_query w' = w_query w \<and> w_ready w'"
  by (rule bexI [of _ w]) (simp_all add: removeWaiter_def remove_waiter_keeps)

lemma woken_acquire_turn:
  assumes "woken g i q s"
  shows "woken g i q (fst (acquire_turn k q' e queued now s))"
proof -
  have "woken g i q (grant k idx q' now s)" for idx
  proof -
    have "woken g i q (set_router k ((sys_routers s ! k)\<lparr>r_cursor := r_cursor (sys_routers s ! k) + 1\<rparr>) s)"
      by (rule woken_set_router [OF assms]) auto
    then show ?thesis by (simp add: woken_def grant_def Let_def split: prod.split)
  qed
  moreover have "woken g i q ((set_router k (r\<lparr>r_queue := r_queue (sys_routers s ! k) @ [w]\<rparr>) s)\<lparr>sys_nextWaiter := n\<rparr>)" for r w n
  proof -
    have "woken g i q (set_router k (r\<lparr>r_queue := r_queue (sys_routers s ! k) @ [w]\<rparr>) s)"
      by (rule woken_set_router [OF assms]) auto
    then show ?thesis by (simp add: woken_def)
  qed
  ultimately show ?thesis
    using assms by (auto simp: acquire_turn_def Let_def split: option.split prod.split)
qed

lemma woken_resume:
  assumes "woken g i q s" "k = g \<longrightarrow> w_id w \<noteq> i"
  shows "woken g i q (fst (Acquire_resume k w consume now s))"
proof -
  have "woken g i q (consumed k (w_id w) consume s)"
    unfolding consumed_def using assms by (auto intro!: woken_set_router intro: bexI [rotated])
  then have t: "woken g i q (fst (acquire_turn k (w_query w) (w_ctxErr w) (Some (w_id w)) now (consumed k (w_id w) consume s)))"
    by (rule woken_acquire_turn)
  have "woken g i q (signal k now (set_router k (removeWaiter (w_id w) (sys_routers s2 ! k)) s2))" if "woken g i q s2" for s2
    by (intro woken_signal woken_set_router [OF that] removeWaiter_keeps) (use assms(2) in auto)
  with t show ?thesis
    by (auto simp: Acquire_resume_consumed split: prod.split acquired.split)
qed

lemma woken_Adopt:
  assumes "woken g i q s" "Adopt c now s = Some s'"
  shows "woken g i q s'"
proof -
  obtain h cp nx where s': "s' = signal (length (sys_routers s)) now (s\<lparr>sys_heap := h, sys_cap := cp,
      sys_routers := (sys_routers s)[cap_current (sys_cap s) := (sys_routers s ! cap_current (sys_cap s))\<lparr>r_retired := True,
         r_queue := map (\<lambda>w. w\<lparr>w_ready := True\<rparr>) (r_queue (sys_routers s ! cap_current (sys_cap s)))\<rparr>] @ [nx]\<rparr>)"
    using assms(2) by (auto simp: Adopt_def Let_def split: prod.splits option.splits)
  have g: "g < length (sys_routers s)" and w: "\<exists>x \<in> set (r_queue (sys_routers s ! g)). w_id x = i \<and> w_query x = q \<and> w_ready x"
    using assms(1) by (simp_all add: woken_def)
  let ?q = "map (\<lambda>w. w\<lparr>w_ready := True\<rparr>) (r_queue (sys_routers s ! g))"
  have m: "\<exists>x \<in> set ?q. w_id x = i \<and> w_query x = q \<and> w_ready x"
    using w unfolding set_map bex_simps by (auto intro: bexI)
  show ?thesis
  proof (cases "g = cap_current (sys_cap s)")
    case True
    with g m show ?thesis unfolding s' by (intro woken_signal) (simp add: woken_def nth_append)
  next
    case False
    with g w show ?thesis unfolding s' by (intro woken_signal) (simp add: woken_def nth_append)
  qed
qed

lemma woken_cancel:
  assumes "woken g i q s"
  shows "woken g i q (cancel_waiter k j e s)"
  unfolding cancel_waiter_def Let_def
proof (rule woken_set_router [OF assms])
  fix w
  let ?f = "\<lambda>w. if w_id w = j then w\<lparr>w_ctxErr := Some e\<rparr> else w"
  assume w: "w \<in> set (r_queue (sys_routers s ! k))" "w_id w = i" "w_ready w"
  from w(1) have "?f w \<in> set (map ?f (r_queue (sys_routers s ! k)))" unfolding set_map by (rule imageI)
  then show "\<exists>w' \<in> set (r_queue ((sys_routers s ! k)\<lparr>r_queue := map ?f (r_queue (sys_routers s ! k))\<rparr>)).
      w_id w' = i \<and> w_query w' = w_query w \<and> w_ready w'"
    unfolding queue_update by (rule bexI [rotated]) (use w(2,3) in simp)
qed

lemma woken_performs:
  assumes "performs a s s'" "woken g i q s" "\<forall>consume t. a \<noteq> OpResume g i consume t"
  shows "woken g i q s'"
proof -
  have tick: "woken g i q (tick now x) = woken g i q x" for now x by (rule woken_same) simp
  show ?thesis
    using assms(1)
  proof cases
    case (acquire k now q' e)
    then show ?thesis using woken_acquire_turn [OF assms(2)] by (simp add: tick Acquire_start_def)
  next
    case (resume k w now consume)
    then have "k = g \<longrightarrow> w_id w \<noteq> i" using assms(3) by blast
    with resume woken_resume [OF assms(2)] show ?thesis by (simp add: tick)
  next
    case (cancel k j e)
    then show ?thesis using woken_cancel [OF assms(2)] by simp
  next
    case (release n now status retryAfter)
    have "woken g i q (Release n status retryAfter now s)"
      using assms(2) by (auto simp: Release_def Let_def split: prod.split intro!: woken_signal) (simp_all add: woken_def)
    then show ?thesis using release by (simp add: tick)
  next
    case (record_execution n result)
    then show ?thesis using assms(2) woken_same [of s' s] by simp
  next
    case (first_output n now)
    then show ?thesis using assms(2) woken_same [of s' s] by simp
  next
    case (set_enabled k now j on)
    have "woken g i q (fst (SetEnabled k j on now s))"
      using assms(2) by (auto simp: SetEnabled_def Let_def split: option.split intro!: woken_signal) (simp add: woken_def)
    then show ?thesis using set_enabled by (simp add: tick)
  next
    case (adopt c now s'')
    then show ?thesis using woken_Adopt [OF assms(2)] by (simp add: tick)
  qed
qed

lemma woken_runs:
  assumes "runs (\<lambda>x a. \<forall>consume t. a \<noteq> OpResume g i consume t) s s'" "woken g i q s"
  shows "woken g i q s'"
  using assms(1) unfolding runs_def
  by (induction rule: rtranclp_induct) (use assms(2) woken_performs in blast)+

subsection \<open>Properties\<close>

text \<open>C4. In every reachable state the waiting count of each router is the length of its queue, no
  waiter is queued twice, and no queue is longer than the configured maximum.\<close>

theorem queue_bounded:
  assumes "reachable s" and "r \<in> set (sys_routers s)"
  shows "r_waiting r = int (length (r_queue r)) \<and> distinct (map w_id (r_queue r)) \<and>
    r_waiting r \<le> rt_MaxQueued (cfg_Runtime (r_cfg r))"
  using waiting.always [OF assms(1)] assms(2) by (auto simp: queues_ok_def queue_ok_def)

theorem queue_bounded_witness:
  "\<exists>r \<in> set (sys_routers sample_queued). r_waiting r = 1 \<and> r_waiting r = int (length (r_queue r)) \<and>
    r_waiting r \<le> rt_MaxQueued (cfg_Runtime (r_cfg r))"
proof -
  have "\<exists>r \<in> set (sys_routers sample_queued). r_waiting r = 1" by code_simp
  then show ?thesis using queue_bounded [OF sample_reachable(3)] by blast
qed

text \<open>C5. First come, first served among the requests that can run: when a request is granted, at once
  or when it runs again after waiting, whether its wake-up came over its channel or its timer fired, no
  waiter ahead of it in the queue, other than one whose caller has gone, could have been given a
  source at the clock reading of that turn. A new request overtakes nobody who could run; a queued one
  only those behind it.\<close>

theorem grant_is_fifo:
  assumes "Acquire_start g q e now s = (s', Granted n) \<and> ahead = r_queue (sys_routers s ! g) \<or>
    Acquire_resume g w consume now s = (s', Granted n) \<and>
      ahead = takeWhile (\<lambda>x. w_id w \<noteq> w_id x) (r_queue (sys_routers s ! g))"
    and "x \<in> set ahead" and "w_ctxErr x = None"
  shows "fst (router_choose (sys_routers s ! g) (sys_cap s) (sys_heap s) (w_query x) now) = None"
  using assms(1)
proof
  assume a: "Acquire_start g q e now s = (s', Granted n) \<and> ahead = r_queue (sys_routers s ! g)"
  then have "turn_queue (sys_routers s ! g) (sys_cap s) (sys_heap s) now None (r_queue (sys_routers s ! g))"
    by (auto simp: Acquire_start_def acquire_turn_def Let_def split: option.splits prod.splits if_splits)
  moreover have "takeWhile (\<lambda>w. True) xs = xs" for xs :: "waiter list" by (induction xs) simp_all
  ultimately show ?thesis using a assms(2,3) unfolding turn_queue_iff by auto
next
  assume a: "Acquire_resume g w consume now s = (s', Granted n) \<and>
      ahead = takeWhile (\<lambda>x. w_id w \<noteq> w_id x) (r_queue (sys_routers s ! g))"
  then have "turn_queue (sys_routers s ! g) (sys_cap s) (sys_heap s) now (Some (w_id w)) (r_queue (sys_routers s ! g))"
    by (auto elim: resume_Granted)
  then show ?thesis using a assms(2,3) unfolding turn_queue_iff by simp
qed

text \<open>The first source is busy and a request for it waits; a request for the second source is next.\<close>

definition sample_waiting :: sys where
  "sample_waiting = (let q = sample_query\<lparr>q_Model := ''a/m''\<rparr> in
     tick 6 (fst (Acquire_start 0 q None 6 (tick 5 (fst (Acquire_start 0 q None 5 sample_sys))))))"

theorem grant_is_fifo_witness:
  "\<exists>x \<in> set (r_queue (sys_routers sample_waiting ! 0)). w_ctxErr x = None \<and>
    snd (Acquire_start 0 (sample_query\<lparr>q_Model := ''b/m''\<rparr>) None 7 sample_waiting) = Granted 1 \<and>
    fst (router_choose (sys_routers sample_waiting ! 0) (sys_cap sample_waiting) (sys_heap sample_waiting)
      (w_query x) 7) = None"
proof -
  let ?q = "sample_query\<lparr>q_Model := ''b/m''\<rparr>"
  have sn: "snd (Acquire_start 0 ?q None 7 sample_waiting) = Granted 1" by code_simp
  then have gr: "Acquire_start 0 ?q None 7 sample_waiting = (fst (Acquire_start 0 ?q None 7 sample_waiting), Granted 1)"
    by (metis prod.collapse)
  have "r_queue (sys_routers sample_waiting ! 0) \<noteq> [] \<and>
      (\<forall>x \<in> set (r_queue (sys_routers sample_waiting ! 0)). w_ctxErr x = None)" by code_simp
  then obtain x where x: "x \<in> set (r_queue (sys_routers sample_waiting ! 0))" "w_ctxErr x = None"
    by (metis list.set_intros(1) neq_Nil_conv)
  show ?thesis
    using grant_is_fifo [OF disjI1 [OF conjI [OF gr refl]] x] sn x by blast
qed

lemma Release_signal:
  assumes "\<not> l_once (sys_leases s ! n)"
  shows "\<exists>s1. Release n status retryAfter now s = signal (cap_current (sys_cap s)) now s1 \<and>
    sys_routers s1 = sys_routers s \<and> sys_nextWaiter s1 = sys_nextWaiter s \<and>
    cap_current (sys_cap s1) = cap_current (sys_cap s)"
proof -
  obtain cap h where rs: "return_slot (sys_leases s ! n) (sys_cap s) (sys_heap s) = (cap, h)" by fastforce
  then have cap: "cap_current cap = cap_current (sys_cap s)" by (auto simp: return_slot_def Let_def)
  let ?s = "s\<lparr>sys_cap := cap, sys_heap := h, sys_leases := (sys_leases s)[n := (sys_leases s ! n)\<lparr>l_once := True\<rparr>]\<rparr>"
  show ?thesis
  proof (cases "status = - 1")
    case True
    then show ?thesis using assms rs cap by (intro exI [of _ ?s]) (simp add: Release_def)
  next
    case False
    then show ?thesis
      using assms rs cap unfolding Release_def Let_def by simp (rule exI, rule conjI, rule refl, simp)
  qed
qed

text \<open>C6. No lost wake-up. After a lease is released, if any waiter of the current router could now make
  progress (it could be given a source, or its caller has gone, or no source can serve it any more),
  then a waiter that can is marked ready: if it ran at that moment it would be granted a source or get
  its error. It need not run at that moment: whatever other operations run before it does, hot updates
  included, its mark stays, and when it finally runs, at whatever time, it waits again only if by then
  it cannot make progress itself or a waiter ahead of it can be given a source.\<close>

theorem release_wakes_a_waiter:
  assumes "reachable s" and "n < length (sys_leases s)" and "\<not> l_once (sys_leases s ! n)"
    and "s' = Release n status retryAfter now s" and "g = cap_current (sys_cap s')"
    and "w \<in> set (r_queue (sys_routers s' ! g))"
    and "actionable (sys_routers s' ! g) (sys_cap s') (sys_heap s') now w"
  shows "\<exists>w \<in> set (r_queue (sys_routers s' ! g)). w_ready w \<and>
    (\<forall>consume i. snd (Acquire_resume g w consume now s') \<noteq> Blocked i) \<and>
    (\<forall>s2. runs (\<lambda>x a. \<forall>consume t. a \<noteq> OpResume g (w_id w) consume t) s' s2 \<longrightarrow>
       (\<exists>w2 \<in> set (r_queue (sys_routers s2 ! g)). w_id w2 = w_id w \<and> w_query w2 = w_query w \<and> w_ready w2) \<and>
       (\<forall>w2 consume t i. w_id w2 = w_id w \<and> snd (Acquire_resume g w2 consume t s2) = Blocked i \<longrightarrow>
          \<not> actionable (sys_routers s2 ! g) (sys_cap s2) (sys_heap s2) t w2 \<or>
          (\<exists>x \<in> set (takeWhile (\<lambda>x. w_id w \<noteq> w_id x) (r_queue (sys_routers s2 ! g))). w_ctxErr x = None \<and>
             fst (router_choose (sys_routers s2 ! g) (sys_cap s2) (sys_heap s2) (w_query x) t) \<noteq> None)))"
proof -
  have so: "sound s" and ok: "queues_ok s"
    using acct.always [OF assms(1)] waiting.always [OF assms(1)] by simp_all
  obtain s1 where s1: "s' = signal (cap_current (sys_cap s)) now s1" "sys_routers s1 = sys_routers s"
    "sys_nextWaiter s1 = sys_nextWaiter s" "cap_current (sys_cap s1) = cap_current (sys_cap s)"
    using Release_signal [OF assms(3)] assms(4) by metis
  have "cap_current (sys_cap s) < length (sys_routers s1)"
    using so s1 by (simp add: sound_def counted_def shape_def)
  moreover have "queues_ok s1" using ok s1 by (simp add: queues_ok_def)
  moreover have "g = cap_current (sys_cap s)" using s1(1,4) assms(5) by simp
  ultimately obtain w where w: "w \<in> set (r_queue (sys_routers s' ! g))" "w_ready w" "g < length (sys_routers s1)"
    "\<forall>consume i. snd (Acquire_resume g w consume now s') \<noteq> Blocked i"
    using signal_wakes [OF _ _ s1(1) refl] assms(6,7) by blast
  then have "woken g (w_id w) (w_query w) s'" using s1(1) by (auto simp: woken_def signal_def Let_def)
  then have kept: "\<exists>w2 \<in> set (r_queue (sys_routers s2 ! g)). w_id w2 = w_id w \<and> w_query w2 = w_query w \<and> w_ready w2"
    if "runs (\<lambda>x a. \<forall>consume t. a \<noteq> OpResume g (w_id w) consume t) s' s2" for s2
    using woken_runs [OF that] by (auto simp: woken_def)
  show ?thesis
  proof (rule bexI [OF _ w(1)], intro conjI allI impI)
    fix s2 w2 consume t i
    assume "w_id w2 = w_id w \<and> snd (Acquire_resume g w2 consume t s2) = Blocked i"
    then show "\<not> actionable (sys_routers s2 ! g) (sys_cap s2) (sys_heap s2) t w2 \<or>
        (\<exists>x \<in> set (takeWhile (\<lambda>x. w_id w \<noteq> w_id x) (r_queue (sys_routers s2 ! g))). w_ctxErr x = None \<and>
           fst (router_choose (sys_routers s2 ! g) (sys_cap s2) (sys_heap s2) (w_query x) t) \<noteq> None)"
      using resume_blocks_only [of g w2 consume t s2 i] by simp
  qed (use w kept in \<open>blast+\<close>)
qed

text \<open>The waiter that a release wakes keeps its mark while another request fails.\<close>

theorem release_wakes_a_waiter_witness:
  "\<exists>w \<in> set (r_queue (sys_routers (Release 0 200 0 8 sample_queued) ! 0)). w_ready w \<and>
    (\<forall>consume i. snd (Acquire_resume 0 w consume 8 (Release 0 200 0 8 sample_queued)) \<noteq> Blocked i) \<and>
    (\<exists>w2 \<in> set (r_queue (sys_routers (Release 1 500 0 9 (Release 0 200 0 8 sample_queued)) ! 0)).
       w_id w2 = w_id w \<and> w_ready w2)"
proof -
  let ?s = "Release 0 200 0 8 sample_queued"
  have n: "0 < length (sys_leases sample_queued)" "\<not> l_once (sys_leases sample_queued ! 0)" by code_simp+
  have c: "0 = cap_current (sys_cap ?s)" by code_simp
  have "\<exists>w \<in> set (r_queue (sys_routers ?s ! 0)). actionable (sys_routers ?s ! 0) (sys_cap ?s) (sys_heap ?s) 8 w"
    by code_simp
  then obtain w where w: "w \<in> set (r_queue (sys_routers ?s ! 0))" "actionable (sys_routers ?s ! 0) (sys_cap ?s) (sys_heap ?s) 8 w"
    by blast
  have "1 < length (sys_leases ?s)" "sys_now ?s \<le> 9" by code_simp+
  from performs.release [OF this, of 500 0]
  have run: "runs (\<lambda>x a. \<forall>consume t. a \<noteq> OpResume 0 i consume t) ?s (tick 9 (Release 1 500 0 9 ?s))" for i
    unfolding runs_def by (intro r_into_rtranclp) auto
  obtain v where v: "v \<in> set (r_queue (sys_routers ?s ! 0))" "w_ready v"
      "\<forall>consume i. snd (Acquire_resume 0 v consume 8 ?s) \<noteq> Blocked i"
    and k: "\<forall>s2. runs (\<lambda>x a. \<forall>consume t. a \<noteq> OpResume 0 (w_id v) consume t) ?s s2 \<longrightarrow>
      (\<exists>w2 \<in> set (r_queue (sys_routers s2 ! 0)). w_id w2 = w_id v \<and> w_query w2 = w_query v \<and> w_ready w2)"
    using release_wakes_a_waiter [OF sample_reachable(3) n refl c w] by blast
  from k run [of "w_id v"] have "\<exists>w2 \<in> set (r_queue (sys_routers (tick 9 (Release 1 500 0 9 ?s)) ! 0)). w_id w2 = w_id v \<and> w_ready w2"
    by blast
  with v show ?thesis unfolding tick_simps by (intro bexI [OF _ v(1)]) blast
qed

end
