(* ===== verification/Scoring.thy ===== *)
theory Scoring
  imports Linking Samples
begin

section \<open>Which target a request gets\<close>

text \<open>
  The scores the scan compares are IEEE doubles. In every reachable state they are non-negative
  numbers or \<open>+Inf\<close>, never NaN, so the comparisons of \<open>choose\<close> are a total order and the scan finds
  a best candidate although it stops early at a score of zero.
\<close>

definition floats_ok :: "sys \<Rightarrow> bool" where
  "floats_ok s =
     (\<forall>st \<in> set (h_states (sys_heap s)). fnonneg (st_latency st) \<and> fnonneg (st_virtualFinish st))"

lemma floats_ok_upd:
  assumes "\<forall>st \<in> set (h_states h). fnonneg (st_latency st) \<and> fnonneg (st_virtualFinish st)"
    and "a < length (h_states h) \<Longrightarrow> fnonneg (st_latency (f (h_states h ! a))) \<and> fnonneg (st_virtualFinish (f (h_states h ! a)))"
  shows "\<forall>st \<in> set (h_states (upd_state a f h)). fnonneg (st_latency st) \<and> fnonneg (st_virtualFinish st)"
  using assms set_update_subset_insert [of "h_states h" a "f (h_states h ! a)"]
  by (cases "a < length (h_states h)") (auto simp: upd_state_def list_update_beyond)

lemma floats_ok_keep:
  assumes "floats_ok s" "\<And>x. st_latency (f x) = st_latency x" "\<And>x. st_virtualFinish (f x) = st_virtualFinish x"
  shows "\<forall>st \<in> set (h_states (upd_state a f (sys_heap s))). fnonneg (st_latency st) \<and> fnonneg (st_virtualFinish st)"
  using assms by (intro floats_ok_upd) (simp_all add: floats_ok_def)

lemma floats_ok_heap: "sys_heap s' = sys_heap s \<Longrightarrow> floats_ok s' = floats_ok s"
  by (simp add: floats_ok_def)

lemma lease_weight_nonneg:
  assumes "cfg_wf (r_cfg r)" "i < length (cfg_Sources (r_cfg r))"
  shows "fnonneg (lease_weight (source_of r i))"
proof -
  have "source_Weight (source_of r i) \<le> 10000"
    using assms by (auto simp: cfg_wf_def source_of_def)
  then have "f_of_int (max 1 (source_Weight (source_of r i))) = Fin (of_int (max 1 (source_Weight (source_of r i))))"
    by (intro f_of_int_exact) auto
  moreover have "fnonneg (fdiv (Fin 1) (Fin c))" if "0 < c" for c
    by (rule fnonneg_fdiv_Fin) (use that in simp_all)
  ultimately show ?thesis by (simp only: lease_weight_def)
qed

lemma moving_average_nonneg: "fnonneg x \<Longrightarrow> fnonneg y \<Longrightarrow> fnonneg (moving_average x y)"
  by (auto simp: moving_average_def f0_8_def f0_2_def intro!: fnonneg_intros)

lemma floats_grant:
  assumes so: "sound s" and fl: "floats_ok s" and g: "g < length (sys_routers s)"
    and ch: "router_choose (sys_routers s ! g) (sys_cap s) (sys_heap s) q now = (Some idx, e)"
  shows "floats_ok (grant g idx q now s)"
proof -
  let ?r = "sys_routers s ! g" let ?i = "target_Source (r_targets ?r ! idx)"
  have sh: "router_shape ?r (sys_heap s)" using so g by (simp add: sound_def counted_def shape_def)
  have i: "?i < length (cfg_Sources (r_cfg ?r))"
    using router_choose_sound [OF ch] candidate_source [OF sh] by blast
  have wf: "cfg_wf (r_cfg ?r)"
    using so choose_current [OF _ g ch] by (simp add: sound_def linked_def)
  have a: "r_state ?r ! ?i < length (h_states (sys_heap s))" by (rule router_addrs [OF sh i])
  have "\<forall>st \<in> set (h_states (upd_state (r_state ?r ! ?i) (\<lambda>st. st\<lparr>st_active := st_active st + 1,
            st_virtualFinish := fadd (st_virtualFinish st) (lease_weight (source_of ?r ?i))\<rparr>) (sys_heap s))).
       fnonneg (st_latency st) \<and> fnonneg (st_virtualFinish st)"
    using fl a by (intro floats_ok_upd) (auto simp: floats_ok_def intro!: fnonneg_fadd lease_weight_nonneg [OF wf i])
  then show ?thesis
    by (simp add: floats_ok_def grant_def Let_def take_slot_def split: prod.split)
qed

lemma floats_acquire_turn:
  assumes "sound s" "floats_ok s" "g < length (sys_routers s)"
  shows "floats_ok (fst (acquire_turn g q e queued now s))"
proof (cases rule: acquire_turn_cases [of s g q e queued now])
  case same
  then show ?thesis using assms(2) by (simp add: same_core_def floats_ok_def)
next
  case (granted idx el)
  then show ?thesis using floats_grant [OF assms granted(1)] by simp
qed

lemma floats_resume:
  assumes "sound s" "floats_ok s" "g < length (sys_routers s)"
  shows "floats_ok (fst (Acquire_resume g w consume now s))"
proof -
  define s1 where "s1 = (if consume then set_router g ((sys_routers s ! g)\<lparr>r_queue :=
      map (\<lambda>x. if w_id x = w_id w then x\<lparr>w_ready := False\<rparr> else x) (r_queue (sys_routers s ! g))\<rparr>) s else s)"
  obtain s2 out where s2: "acquire_turn g (w_query w) (w_ctxErr w) (Some (w_id w)) now s1 = (s2, out)"
    by fastforce
  have "sound s1" "g < length (sys_routers s1)" "floats_ok s1"
    using assms by (auto simp: s1_def floats_ok_def intro: sound_set_router)
  then have "floats_ok s2"
    using floats_acquire_turn [of s1 g "w_query w" "w_ctxErr w" "Some (w_id w)" now] s2 by simp
  then show ?thesis
    using s2 by (auto simp: Acquire_resume_def Let_def s1_def [symmetric] floats_ok_def split: acquired.split)
qed

lemma release_state_floats:
  assumes "fnonneg (st_latency st)" "fnonneg (st_virtualFinish st)" "l_started l \<le> now"
  shows "fnonneg (st_latency (release_state l status now st)) \<and> fnonneg (st_virtualFinish (release_state l status now st))"
proof -
  have "0 \<le> (now - l_started l) div 1000000" using assms(3) by (simp add: pos_imp_zdiv_nonneg_iff)
  then show ?thesis
    using assms by (simp add: release_state_def Let_def moving_average_nonneg fnonneg_f_of_int)
qed

lemma floats_Release:
  assumes so: "sound s" and fl: "floats_ok s" and n: "n < length (sys_leases s)" and now: "sys_now s \<le> now"
  shows "floats_ok (Release n status retryAfter now s)"
proof -
  let ?l = "sys_leases s ! n"
  obtain cap h where rs: "return_slot ?l (sys_cap s) (sys_heap s) = (cap, h)" by fastforce
  have l: "l_started ?l \<le> now"
    using so n now by (auto simp: sound_def counted_def shape_def lease_shape_def dest!: bspec [OF _ nth_mem])
  have h: "\<forall>st \<in> set (h_states h). fnonneg (st_latency st) \<and> fnonneg (st_virtualFinish st)"
    using rs floats_ok_upd [of "sys_heap s" "l_state ?l" "\<lambda>st. st\<lparr>st_active := st_active st - 1\<rparr>"] fl
    by (auto simp: return_slot_def Let_def floats_ok_def)
  then have "\<forall>st \<in> set (h_states (upd_state (l_state ?l) (release_state ?l status now) h)).
       fnonneg (st_latency st) \<and> fnonneg (st_virtualFinish st)"
    by (rule floats_ok_upd) (use h l in \<open>intro release_state_floats; simp\<close>)
  then show ?thesis
    using fl rs h by (auto simp: Release_def Let_def floats_ok_def)
qed

lemma floats_Adopt:
  assumes so: "sound s" and fl: "floats_ok s" and wf: "cfg_wf c" and ad: "Adopt c now s = Some s'"
  shows "floats_ok s'"
proof -
  obtain next0 cap0 h0 nx cap h where new: "New c (length (sys_routers s)) (sys_heap s) = (next0, cap0, h0)"
    and inv: "adopt_inv c (sys_heap s) next0 (sys_cap s) h0 (length (cfg_Sources c)) (nx, cap, h)"
    and s': "Adopt c now s = Some (signal (length (sys_routers s)) now (adopted c nx cap h s))"
    using Adopt_adopted [OF so wf] by blast
  have "\<forall>st \<in> set (h_states h0). fnonneg (st_latency st) \<and> fnonneg (st_virtualFinish st)"
    using fl by (auto simp: floats_ok_def New_simps [OF new] zero_state_def)
  then have "\<forall>x \<in> set (map st_latency (h_states h)). fnonneg x" "\<forall>x \<in> set (map st_virtualFinish (h_states h)). fnonneg x"
    using inv unfolding adopt_inv_def prod.case by auto
  then have "floats_ok (adopted c nx cap h s)" by (simp add: floats_ok_def adopted_def)
  then show ?thesis using ad s' floats_ok_heap [OF signal_simps(1)] by (metis option.inject)
qed

lemma floats_step:
  assumes "sound s" "floats_ok s" "step s s'"
  shows "floats_ok s'"
  using assms(3,2)
proof (cases rule: step.cases)
  case (acquire g now q e)
  then show ?thesis
    using floats_acquire_turn [OF assms(1,2)] by (simp add: Acquire_start_def floats_ok_heap [OF tick_simps(1)])
next
  case (resume g w now consume)
  then show ?thesis using floats_resume [OF assms(1,2)] by (simp add: floats_ok_heap [OF tick_simps(1)])
next
  case (cancel g i e)
  then show ?thesis using assms(2) by (simp add: floats_ok_def)
next
  case (release n now status retryAfter)
  then show ?thesis using floats_Release [OF assms(1,2)] by (simp add: floats_ok_heap [OF tick_simps(1)])
next
  case (record_execution n result)
  then show ?thesis
    using floats_ok_keep [OF assms(2), of "\<lambda>st. (record_usage m x st)\<lparr>st_lastExecution := Some x\<rparr>" for m x]
      floats_ok_keep [OF assms(2), of "\<lambda>st. st\<lparr>st_lastExecution := Some x\<rparr>" for x]
    by (simp add: floats_ok_def RecordExecution_def Let_def)
next
  case (first_output n now)
  have "floats_ok (FirstOutput n now s)"
    using assms(2)
    by (simp add: floats_ok_def FirstOutput_def Let_def) (intro impI floats_ok_keep [OF assms(2)]; simp)
  then show ?thesis using first_output by (simp add: floats_ok_heap [OF tick_simps(1)])
next
  case (set_enabled g now i on)
  have "floats_ok (fst (SetEnabled g i on now s))"
    using assms(2)
    by (simp add: floats_ok_def SetEnabled_def Let_def split: option.split)
      (intro allI impI floats_ok_keep [OF assms(2)]; simp)
  then show ?thesis using set_enabled by (simp add: floats_ok_heap [OF tick_simps(1)])
next
  case (adopt c now s'')
  then show ?thesis using floats_Adopt [OF assms(1,2)] by (simp add: floats_ok_heap [OF tick_simps(1)])
qed

lemma floats_init: "floats_ok (init_sys c now)"
  by (auto simp: floats_ok_def init_sys_def New_def Let_def zero_state_def)

interpretation scoring: router_invariant sound floats_ok
  by unfold_locales (auto intro: acct.always floats_init floats_step)

lemma current_scores_ok:
  assumes "reachable s"
  shows "scores_ok (current_router s) (sys_heap s)"
proof -
  have so: "sound s" and fl: "floats_ok s" using acct.always [OF assms] scoring.always [OF assms] by simp_all
  have "0 \<le> st_active st" if "st \<in> set (h_states (sys_heap s))" for st
    using so that
    by (auto simp: in_set_conv_nth sound_def counted_def accounting_def acct_ok_def act_nth)
  then show ?thesis
    using so fl by (auto simp: scores_ok_def state_ok_def floats_ok_def limits_ok_def sound_def counted_def shape_def
        linked_def cfg_wf_def current_router_def)
qed

subsection \<open>Properties\<close>

text \<open>C7. In every reachable state the scan returns a best candidate: no candidate it could have taken
  has a lexicographically smaller vector of preference values and strategy score, although the scan
  starts at a rotating position and stops early at a score of zero.\<close>

theorem choose_is_optimal:
  assumes "reachable s"
    and "router_choose (current_router s) (sys_cap s) (sys_heap s) q now = (Some idx, e)"
    and "j \<in> set (candidates_of (current_router s) q)"
    and "takable (current_router s) (sys_heap s) q now (preferred_of (current_router s) (sys_heap s) q now) j"
  shows "\<not> better (current_router s) (sys_heap s) (group_of (current_router s) q) j idx"
  using router_choose_optimal [OF current_scores_ok [OF assms(1)] assms(2-4)] .

lemma sample_choice: "router_choose (current_router sample_sys) (sys_cap sample_sys) (sys_heap sample_sys) sample_query 5
    = (Some 0, True)"
  by code_simp

lemma sample_takable:
  "1 \<in> set (candidates_of (current_router sample_sys) sample_query)"
  "takable (current_router sample_sys) (sys_heap sample_sys) sample_query 5
     (preferred_of (current_router sample_sys) (sys_heap sample_sys) sample_query 5) 1"
  by code_simp+

theorem choose_is_optimal_witness:
  "\<not> better (current_router sample_sys) (sys_heap sample_sys)
     (group_of (current_router sample_sys) sample_query) 1 0"
  by (rule choose_is_optimal [OF sample_reachable(1) sample_choice sample_takable])

text \<open>C8. The router is work conserving: a request is granted at once when the process has a free
  slot, some candidate is eligible and free, and no waiter in the queue could use a source now.\<close>

theorem acquire_work_conserving:
  assumes "reachable s"
    and "cap_active (sys_cap s) < rt_MaxInflight (cfg_Runtime (r_cfg (current_router s)))"
    and "idx \<in> set (candidates_of (current_router s) q)" and "free_target (current_router s) (sys_heap s) q now idx"
    and "\<forall>w \<in> set (r_queue (current_router s)).
      fst (router_choose (current_router s) (sys_cap s) (sys_heap s) (w_query w) now) = None"
  shows "snd (Acquire_start (cap_current (sys_cap s)) q None now s) = Granted (length (sys_leases s))"
proof -
  have so: "sound s" by (rule acct.always [OF assms(1)])
  have cur: "\<not> r_retired (current_router s)"
    using so by (auto simp: sound_def linked_def counted_def shape_def current_router_def)
  have "fst (router_choose (current_router s) (sys_cap s) (sys_heap s) q now) \<noteq> None"
    by (rule router_choose_complete [OF cur assms(2-4)])
  moreover have "turn_queue (current_router s) (sys_cap s) (sys_heap s) now None ws"
    if "set ws \<subseteq> set (r_queue (current_router s))" for ws
    using that assms(5) by (induction ws) auto
  ultimately show ?thesis
    by (cases "router_choose (current_router s) (sys_cap s) (sys_heap s) q now")
      (auto simp: Acquire_start_def acquire_turn_def Let_def current_router_def)
qed

theorem acquire_work_conserving_witness:
  "snd (Acquire_start (cap_current (sys_cap sample_sys)) sample_query None 5 sample_sys) = Granted 0"
proof -
  have "cap_active (sys_cap sample_sys) < rt_MaxInflight (cfg_Runtime (r_cfg (current_router sample_sys)))"
    "\<forall>w \<in> set (r_queue (current_router sample_sys)).
      fst (router_choose (current_router sample_sys) (sys_cap sample_sys) (sys_heap sample_sys) (w_query w) 5) = None"
    "length (sys_leases sample_sys) = 0"
    by code_simp+
  then show ?thesis
    using acquire_work_conserving [OF sample_reachable(1) _ sample_takable(1) takable_free [OF sample_takable(2)]]
    by simp
qed

text \<open>A \<open>fallback\<close> group without preferences serves the first available source in the order the
  group declares: no takable candidate stands earlier in the group than the one chosen.\<close>

lemma fallback_takes_first:
  assumes "reachable s"
    and "router_choose (current_router s) (sys_cap s) (sys_heap s) q now = (Some idx, e)"
    and "cg = group_of (current_router s) q"
    and "group_Type (cg_Group cg) = ''fallback''" and "group_Preferences (cg_Group cg) = []"
    and "j \<in> set (candidates_of (current_router s) q)"
    and "takable (current_router s) (sys_heap s) q now (preferred_of (current_router s) (sys_heap s) q now) j"
    and "cg_members cg (source_ID (source_of (current_router s) (target_Source (r_targets (current_router s) ! j)))) = Some m"
    and "cg_members cg (source_ID (source_of (current_router s) (target_Source (r_targets (current_router s) ! idx)))) = Some k"
    and "m < 2 ^ 53" and "k < 2 ^ 53"
  shows "k \<le> m"
proof -
  let ?r = "current_router s"
  have "\<not> better ?r (sys_heap s) cg j idx"
    using router_choose_optimal [OF current_scores_ok [OF assms(1)] assms(2,6,7)] assms(3) by simp
  moreover have "strategy_value ?r (sys_heap s) cg j = f_of_int (int m)"
    "strategy_value ?r (sys_heap s) cg idx = f_of_int (int k)"
    using assms(4,8,9) by (simp_all add: strategy_value_def Let_def)
  moreover have "f_of_int (int m) = Fin (of_int (int m))" "f_of_int (int k) = Fin (of_int (int k))"
    using assms(10,11) by (intro f_of_int_exact; simp)+
  ultimately show ?thesis
    using assms(5) by (simp add: better_def rank_def)
qed

lemma fallback_takes_first_witness:
  "\<exists>k m. cg_members (group_of (current_router sample_sys) sample_query) ''a'' = Some k \<and>
     cg_members (group_of (current_router sample_sys) sample_query) ''b'' = Some m \<and> k \<le> m \<and>
     fst (router_choose (current_router sample_sys) (sys_cap sample_sys) (sys_heap sample_sys) sample_query 5) = Some 0"
proof -
  let ?r = "current_router sample_sys" let ?g = "group_of ?r sample_query"
  have g: "group_Type (cg_Group ?g) = ''fallback''" "group_Preferences (cg_Group ?g) = []" by code_simp+
  have m: "cg_members ?g ''a'' = Some 0" "cg_members ?g ''b'' = Some 1" by code_simp+
  have i: "source_ID (source_of ?r (target_Source (r_targets ?r ! 0))) = ''a''"
    "source_ID (source_of ?r (target_Source (r_targets ?r ! 1))) = ''b''" by code_simp+
  have "(0::nat) \<le> 1"
    by (rule fallback_takes_first [OF sample_reachable(1) sample_choice refl g sample_takable,
          unfolded i, OF m(2,1)]) simp_all
  then show ?thesis using m sample_choice by simp
qed

end
