(* ===== verification/CapacityProps.thy ===== *)
theory CapacityProps
  imports Linking Samples
begin

section \<open>What the capacity accounting guarantees\<close>

text \<open>
  The promises of the router about concurrency, over every interleaving of its operations and every
  sequence of hot updates. They rest on the interpretation \<open>acct\<close> of \<open>router_invariant\<close>.
\<close>

definition outstanding :: "sys \<Rightarrow> (Source \<Rightarrow> bool) \<Rightarrow> int" where
  "outstanding s P = count_if (\<lambda>l. \<not> l_once l \<and> P (lease_source s l)) (sys_leases s)"

text \<open>
  The limits that hold for the source of lease \<open>n\<close>: requests in flight, of any generation, on the
  same source, quota domain and account, and in the process.
\<close>

definition within_limits :: "sys \<Rightarrow> nat \<Rightarrow> bool" where
  "within_limits s n =
     (let src = lease_source s (sys_leases s ! n); c = r_cfg (current_router s) in
      src \<in> set (cfg_Sources c) \<and>
      outstanding s (\<lambda>x. source_ID x = source_ID src) \<le> source_MaxInflight src \<and>
      outstanding s (\<lambda>x. source_QuotaDomain x = source_QuotaDomain src) \<le> source_QuotaMaxInflight src \<and>
      (\<forall>acc \<in> set (cfg_Accounts c). account_ID acc = source_AccountID src \<longrightarrow>
         outstanding s (\<lambda>x. source_AccountID x = account_ID acc) \<le> account_MaxInflight acc) \<and>
      outstanding s (\<lambda>_. True) \<le> rt_MaxInflight (cfg_Runtime c))"

lemma count_if_mono: "(\<And>x. x \<in> set xs \<Longrightarrow> P x \<Longrightarrow> Q x) \<Longrightarrow> count_if P xs \<le> count_if Q xs"
  by (induction xs) auto

lemma maps_bounds:
  assumes "maps_shape cap h"
  shows "map_of (cap_sourceStates cap) k = Some a \<Longrightarrow> a < length (h_states h)"
    "map_of (cap_quotaStates cap) k = Some b \<Longrightarrow> b < length (h_quotas h)"
    "map_of (cap_accountStates cap) k = Some d \<Longrightarrow> d < length (h_quotas h)"
  using assms by (auto simp: maps_shape_def dest!: map_of_SomeD)

lemma outstanding_le:
  assumes "sound s"
  shows "map_of (cap_sourceStates (sys_cap s)) k = Some a \<Longrightarrow>
      outstanding s (\<lambda>x. source_ID x = k) \<le> st_active (h_states (sys_heap s) ! a)"
    and "map_of (cap_quotaStates (sys_cap s)) k = Some a \<Longrightarrow>
      outstanding s (\<lambda>x. source_QuotaDomain x = k) \<le> qt_active (h_quotas (sys_heap s) ! a)"
    and "map_of (cap_accountStates (sys_cap s)) k = Some a \<Longrightarrow> k \<noteq> '''' \<Longrightarrow>
      outstanding s (\<lambda>x. source_AccountID x = k) \<le> qt_active (h_quotas (sys_heap s) ! a)"
proof -
  have ac: "accounting s" and ms: "maps_shape (sys_cap s) (sys_heap s)"
    and ll: "\<And>l. l \<in> set (sys_leases s) \<Longrightarrow> \<not> l_once l \<Longrightarrow> lease_link s l"
    using assms by (simp_all add: sound_def counted_def shape_def linked_def)
  have S: "outstanding s (\<lambda>x. source_ID x = k) \<le> count_if (holdsS a) (sys_leases s)"
    if "map_of (cap_sourceStates (sys_cap s)) k = Some a"
    using that ll unfolding outstanding_def
    by (intro count_if_mono) (fastforce simp: holds_defs lease_link_def Let_def)
  have Q: "outstanding s (\<lambda>x. source_QuotaDomain x = k) \<le> count_if (holdsQ a) (sys_leases s)"
    if "map_of (cap_quotaStates (sys_cap s)) k = Some a"
    using that ll unfolding outstanding_def
    by (intro count_if_mono) (fastforce simp: holds_defs lease_link_def Let_def)
  have A: "outstanding s (\<lambda>x. source_AccountID x = k) \<le> count_if (holdsA a) (sys_leases s)"
    if "map_of (cap_accountStates (sys_cap s)) k = Some a" "k \<noteq> ''''"
    using that ll unfolding outstanding_def
    by (intro count_if_mono) (fastforce simp: holds_defs lease_link_def Let_def)
  have cnt: "st_active (h_states (sys_heap s) ! b) = count_if (holdsS b) (sys_leases s)"
    if "b < length (h_states (sys_heap s))" for b
    using ac that by (simp add: act_nth accounting_def acct_ok_def)
  have cntQ: "qt_active (h_quotas (sys_heap s) ! b) = count_if (holdsQ b) (sys_leases s) + count_if (holdsA b) (sys_leases s)"
    if "b < length (h_quotas (sys_heap s))" for b
    using ac that by (simp add: act_nth accounting_def acct_ok_def)
  show "outstanding s (\<lambda>x. source_ID x = k) \<le> st_active (h_states (sys_heap s) ! a)"
    if m: "map_of (cap_sourceStates (sys_cap s)) k = Some a"
    using S [OF m] cnt [OF maps_bounds(1) [OF ms m]] by simp
  show "outstanding s (\<lambda>x. source_QuotaDomain x = k) \<le> qt_active (h_quotas (sys_heap s) ! a)"
    if m: "map_of (cap_quotaStates (sys_cap s)) k = Some a"
    using Q [OF m] cntQ [OF maps_bounds(2) [OF ms m]] count_if_nonneg [of "holdsA a" "sys_leases s"] by linarith
  show "outstanding s (\<lambda>x. source_AccountID x = k) \<le> qt_active (h_quotas (sys_heap s) ! a)"
    if m: "map_of (cap_accountStates (sys_cap s)) k = Some a" "k \<noteq> ''''"
    using A [OF m] cntQ [OF maps_bounds(3) [OF ms m(1)]] count_if_nonneg [of "holdsQ a" "sys_leases s"] by linarith
qed

lemma outstanding_total: "sound s \<Longrightarrow> outstanding s (\<lambda>_. True) = cap_active (sys_cap s)"
  by (simp add: sound_def counted_def accounting_def acct_ok_def outstanding_def)

lemma outstanding_evolves:
  assumes "evolves s s'" "sys_leases s' = sys_leases s @ ls"
    and "\<And>l. l \<in> set (sys_leases s) \<Longrightarrow> l_router l < length (sys_routers s)"
  shows "outstanding s' P = outstanding s P + count_if (\<lambda>l. \<not> l_once l \<and> P (lease_source s' l)) ls"
proof -
  have "lease_source s' l = lease_source s l" if "l \<in> set (sys_leases s)" for l
    using assms that by (intro lease_source_evolves) (simp_all add: evolves_def)
  then show ?thesis
    unfolding outstanding_def assms(2) count_if_simps by (simp cong: count_if_cong)
qed

lemma lease_routers: "sound s \<Longrightarrow> l \<in> set (sys_leases s) \<Longrightarrow> l_router l < length (sys_routers s)"
  by (simp add: sound_def counted_def shape_def lease_shape_def)

lemma current_router_evolves:
  assumes "evolves s s'" "sound s"
  shows "r_cfg (current_router s') = r_cfg (current_router s)"
  using assms
  by (auto simp: evolves_def frame_def routers_eq_def static_eq_def current_router_def sound_def counted_def shape_def)

lemma grant_within_limits:
  assumes so: "sound s" and g: "g < length (sys_routers s)"
    and ch: "router_choose (sys_routers s ! g) (sys_cap s) (sys_heap s) q now = (Some idx, e)"
  shows "within_limits (grant g idx q now s) (length (sys_leases s))"
proof -
  let ?s = "grant g idx q now s" and ?r = "sys_routers s ! g"
  let ?i = "target_Source (r_targets ?r ! idx)" and ?l = "new_lease g ?r idx q now"
  have ll: "sys_leases ?s = sys_leases s @ [?l]"
    by (simp add: grant_def Let_def split: prod.split)
  have cur: "?r = current_router s" using choose_current [OF _ g ch] so by (simp add: sound_def)
  have src: "lease_source ?s ?l = source_of ?r ?i"
    using g by (auto simp: lease_source_def grant_def new_lease_def source_of_def Let_def split: prod.split)
  have sh: "router_shape ?r (sys_heap s)" using so g by (simp add: sound_def counted_def shape_def)
  have i: "?i < length (cfg_Sources (r_cfg ?r))"
    using router_choose_sound [OF ch] candidate_source [OF sh] by blast
  have out: "outstanding ?s P = outstanding s P + (if P (source_of ?r ?i) then 1 else 0)" for P
    using outstanding_evolves [OF evolves_grant ll lease_routers [OF so]] src
    by (simp add: new_lease_def Let_def)
  have rl: "map_of (cap_sourceStates (sys_cap s)) (source_ID (source_of ?r ?i)) = Some (r_state ?r ! ?i)"
    "quota_link (r_cfg ?r) (h_quotas (sys_heap s)) (cap_quotaStates (sys_cap s)) (r_quotas ?r) ?i"
    "account_link (r_cfg ?r) (h_quotas (sys_heap s)) (cap_accountStates (sys_cap s)) (r_accounts ?r) ?i"
    using so i cur by (simp_all add: sound_def linked_def router_link_def source_of_def)
  have free: "free_target ?r (sys_heap s) q now idx" and act: "cap_active (sys_cap s) < rt_MaxInflight (cfg_Runtime (r_cfg ?r))"
    using router_choose_sound [OF ch] by blast+
  have "outstanding s (\<lambda>x. source_ID x = source_ID (source_of ?r ?i)) < source_MaxInflight (source_of ?r ?i)"
    using outstanding_le(1) [OF so rl(1)] free by (simp add: free_target_def source_busy_def state_of_def)
  moreover have "outstanding s (\<lambda>x. source_QuotaDomain x = source_QuotaDomain (source_of ?r ?i))
      < source_QuotaMaxInflight (source_of ?r ?i)"
    using outstanding_le(2) [OF so, of "source_QuotaDomain (source_of ?r ?i)" "r_quotas ?r ! ?i"] rl(2) free
    by (simp add: free_target_def source_busy_def quota_of_def quota_link_def Let_def source_of_def)
  moreover have "outstanding s (\<lambda>x. source_AccountID x = account_ID acc) < account_MaxInflight acc"
    if acc: "acc \<in> set (cfg_Accounts (r_cfg ?r))" "account_ID acc = source_AccountID (source_of ?r ?i)" for acc
  proof -
    have ne: "account_ID acc \<noteq> ''''"
      using so cur acc(1) unfolding sound_def linked_def cfg_wf_def by (metis imageI)
    then obtain a where a: "r_accounts ?r ! ?i = Some a" "map_of (cap_accountStates (sys_cap s)) (account_ID acc) = Some a"
      "qt_limit (h_quotas (sys_heap s) ! a) = account_MaxInflight acc"
      using rl(3) acc by (auto simp: account_link_def Let_def source_of_def)
    show ?thesis
      using outstanding_le(3) [OF so a(2) ne] free a(1,3)
      by (simp add: free_target_def account_busy_def account_of_def)
  qed
  moreover have "outstanding s (\<lambda>_. True) < rt_MaxInflight (cfg_Runtime (r_cfg ?r))"
    using act outstanding_total [OF so] by simp
  moreover have "r_cfg (current_router ?s) = r_cfg ?r"
    using current_router_evolves [OF evolves_grant so] cur by simp
  moreover have "source_of ?r ?i \<in> set (cfg_Sources (r_cfg ?r))"
    using i by (simp add: source_of_def)
  ultimately show ?thesis
    by (auto simp: within_limits_def Let_def ll src out add1_zle_eq)
qed

lemma within_limits_evolves:
  assumes "within_limits s n" "n < length (sys_leases s)" "sound s" "evolves s s'" "sys_leases s' = sys_leases s"
  shows "within_limits s' n"
proof -
  have "outstanding s' P = outstanding s P" for P
    using outstanding_evolves [OF assms(4) _ lease_routers [OF assms(3)], of "[]" P] assms(5) by simp
  moreover have "lease_source s' (sys_leases s ! n) = lease_source s (sys_leases s ! n)"
    using assms lease_routers [OF assms(3) nth_mem [OF assms(2)]]
    by (intro lease_source_evolves) (simp_all add: evolves_def)
  ultimately show ?thesis
    using assms(1,5) current_router_evolves [OF assms(4,3)] by (simp add: within_limits_def Let_def)
qed

lemma acquire_turn_Granted:
  assumes "acquire_turn g q e queued now s = (s', Granted n)"
  obtains idx el where "router_choose (sys_routers s ! g) (sys_cap s) (sys_heap s) q now = (Some idx, el)"
    "turn_queue (sys_routers s ! g) (sys_cap s) (sys_heap s) now queued (r_queue (sys_routers s ! g))"
    "s' = grant g idx q now s" "n = length (sys_leases s)" "e = None"
  using assms
  by (auto simp: acquire_turn_def Let_def split: option.splits prod.splits if_splits)

lemma resume_limits:
  assumes so: "sound s" and g: "g < length (sys_routers s)" and now: "sys_now s \<le> now"
    and res: "Acquire_resume g w consume now s = (s', Granted n)"
  shows "within_limits s' n \<and> n = length (sys_leases s)"
proof -
  define s1 where "s1 = (if consume then set_router g ((sys_routers s ! g)\<lparr>r_queue :=
      map (\<lambda>x. if w_id x = w_id w then x\<lparr>w_ready := False\<rparr> else x) (r_queue (sys_routers s ! g))\<rparr>) s else s)"
  obtain s2 out where s2: "acquire_turn g (w_query w) (w_ctxErr w) (Some (w_id w)) now s1 = (s2, out)"
    by fastforce
  let ?s3 = "set_router g (removeWaiter (w_id w) (sys_routers s2 ! g)) s2"
  have out: "out = Granted n" and s': "s' = signal g now ?s3"
    using res s2 by (auto simp: Acquire_resume_def Let_def s1_def [symmetric] split: acquired.splits)
  have s1: "sound s1" "g < length (sys_routers s1)" "sys_leases s1 = sys_leases s" "sys_now s1 \<le> now"
    using so g now by (auto simp: s1_def intro: sound_set_router)
  obtain idx el where gr: "router_choose (sys_routers s1 ! g) (sys_cap s1) (sys_heap s1) (w_query w) now = (Some idx, el)"
    "s2 = grant g idx (w_query w) now s1" "n = length (sys_leases s1)"
    using acquire_turn_Granted s2 out by metis
  have w: "within_limits s2 n" using grant_within_limits [OF s1(1,2) gr(1)] gr(2,3) by simp
  have n: "n < length (sys_leases s2)"
    using gr(2,3) by (simp add: grant_def Let_def split: prod.split)
  have so2: "sound (tick now s2)"
    using sound_acquire_turn [OF s1(1,2,4)] s2 by (metis fst_conv)
  have w2: "within_limits (tick now s2) n"
    using w by (simp add: within_limits_def outstanding_def lease_source_def current_router_def)
  have "evolves (tick now s2) (tick now s')"
    unfolding s' tick_signal tick_set_router
    by (rule evolves_trans [OF evolves_set_router evolves_signal]) simp_all
  then have "within_limits (tick now s') n"
    using within_limits_evolves [OF w2 _ so2] n s' by simp
  then show ?thesis
    using gr(3) s1(3) by (simp add: within_limits_def outstanding_def lease_source_def current_router_def)
qed

text \<open>C1. Whenever the router grants a request, whether at once or to a queued waiter, then right after the
  grant the requests in flight on the chosen source, on its quota domain, on its account and in the
  whole process are within the limits of the configuration now in force. The count includes requests
  that were admitted under every earlier configuration, so a hot update never doubles a slot.\<close>

theorem grant_respects_limits:
  assumes "reachable s" and "g < length (sys_routers s)" and "sys_now s \<le> now"
    and "Acquire_start g q e now s = (s', Granted n) \<or> Acquire_resume g w consume now s = (s', Granted n)"
  shows "within_limits s' n \<and> n = length (sys_leases s)"
  using assms(4)
proof
  assume "Acquire_start g q e now s = (s', Granted n)"
  then show ?thesis
    using grant_within_limits [OF acct.always [OF assms(1)] assms(2)]
    by (auto simp: Acquire_start_def elim!: acquire_turn_Granted)
next
  assume "Acquire_resume g w consume now s = (s', Granted n)"
  then show ?thesis using resume_limits [OF acct.always [OF assms(1)] assms(2,3)] by blast
qed

theorem grant_respects_limits_witness:
  "within_limits (fst (Acquire_start 0 sample_query None 5 sample_sys)) 0"
proof -
  have "0 < length (sys_routers sample_sys)" "sys_now sample_sys \<le> 5" by code_simp+
  then show ?thesis
    using grant_respects_limits [OF sample_reachable(1) _ _ disjI1 [OF sample_first_grant]] by blast
qed

text \<open>C2. The counters are exact in every reachable state: the active count of the process is the
  number of leases not yet released, and so is that of each source, domain or account object for the
  leases that hold it.\<close>

theorem counters_exact:
  assumes "reachable s"
  shows "cap_active (sys_cap s) = outstanding s (\<lambda>_. True) \<and>
    (\<forall>a < length (h_states (sys_heap s)).
       st_active (h_states (sys_heap s) ! a) = count_if (holdsS a) (sys_leases s)) \<and>
    (\<forall>a < length (h_quotas (sys_heap s)).
       qt_active (h_quotas (sys_heap s) ! a) =
         count_if (holdsQ a) (sys_leases s) + count_if (holdsA a) (sys_leases s))"
  using acct.always [OF assms] outstanding_total [OF acct.always [OF assms]]
  by (simp add: sound_def counted_def accounting_def acct_ok_def act_nth)

theorem counters_exact_witness:
  "cap_active (sys_cap sample_busy) = outstanding sample_busy (\<lambda>_. True) \<and>
   outstanding sample_busy (\<lambda>_. True) = 2"
proof -
  have "outstanding sample_busy (\<lambda>_. True) = 2" by code_simp
  then show ?thesis using counters_exact [OF sample_reachable(2)] by blast
qed

lemma Adopt_cfg:
  assumes "sound s" "cfg_wf c" "Adopt c now s = Some s'"
  shows "r_cfg (current_router s') = c"
proof -
  obtain next0 cap0 h0 nx cap h where new: "New c (length (sys_routers s)) (sys_heap s) = (next0, cap0, h0)"
    and inv: "adopt_inv c (sys_heap s) next0 (sys_cap s) h0 (length (cfg_Sources c)) (nx, cap, h)"
    and ad: "Adopt c now s = Some (signal (length (sys_routers s)) now (adopted c nx cap h s))"
    using Adopt_adopted [OF assms(1,2)] by blast
  let ?a = "adopted c nx cap h s"
  have "r_cfg (current_router ?a) = c"
    using adopted_shape(2) [OF inv new] by (simp add: current_router_def adopted_def nth_append)
  moreover have "static_eq (current_router ?a) (current_router (signal (length (sys_routers s)) now ?a))"
    using routers_eq_signal [OF routers_eq_refl, of ?a "length (sys_routers s)" now]
    by (simp add: current_router_def routers_eq_def) (simp add: adopted_def)
  ultimately show ?thesis using assms(3) ad by (simp add: static_eq_def)
qed

text \<open>C3. Adopting a validated configuration never dereferences a missing account, keeps every lease,
  retires every router but the new one, and the new router counts on the objects the outstanding
  leases will give their slots back to.\<close>

theorem adopt_succeeds:
  assumes "reachable s" and "cfg_wf c" and "sys_now s \<le> now"
  shows "\<exists>s'. Adopt c now s = Some s' \<and> sys_leases s' = sys_leases s \<and>
    r_cfg (current_router s') = c \<and> router_link (current_router s') (sys_cap s') (sys_heap s') \<and>
    (\<forall>l \<in> set (sys_leases s'). \<not> l_once l \<longrightarrow> lease_link s' l) \<and>
    (\<forall>i < length (sys_routers s'). r_retired (sys_routers s' ! i) \<longleftrightarrow> i \<noteq> cap_current (sys_cap s'))"
proof -
  have so: "sound s" by (rule acct.always [OF assms(1)])
  obtain s' where s': "Adopt c now s = Some s'" "sound (tick now s')"
    using sound_Adopt [OF so assms(2,3)] by blast
  have l: "linked (tick now s')" using s'(2) by (simp add: sound_def)
  have "lease_link (tick now s') x = lease_link s' x" for x
    by (simp add: lease_link_def lease_source_def)
  moreover have "current_router (tick now s') = current_router s'" by (simp add: current_router_def)
  moreover have "sys_leases s' = sys_leases s"
    using s'(1) by (auto simp: Adopt_def Let_def split: prod.splits option.splits)
  moreover have "r_cfg (current_router s') = c" by (rule Adopt_cfg [OF so assms(2) s'(1)])
  ultimately show ?thesis using l s'(1) by (simp add: linked_def)
qed

theorem adopt_succeeds_witness:
  "\<exists>s'. Adopt sample_config 9 sample_busy = Some s' \<and> sys_leases s' = sys_leases sample_busy \<and>
    r_cfg (current_router s') = sample_config"
proof -
  have "sys_now sample_busy \<le> 9" by code_simp
  then show ?thesis using adopt_succeeds [OF sample_reachable(2) sample_config_wf] by blast
qed

end
