(* ===== verification/RouterStatus.thy ===== *)
theory RouterStatus
  imports CapacityProps "HOL-Library.List_Lexorder" "HOL-Library.Char_ord"
begin

section \<open>What the router reports\<close>

text \<open>
  The read-only views the control plane shows: \<open>Status\<close>, \<open>Explain\<close> and \<open>Simulate\<close> of \<open>router.go\<close>,
  \<open>CapacityStatus\<close> and \<open>WorkloadStatus\<close>. None of them changes the state. The theorems say that the
  reports are true: the simulator names the target the next request gets, a target is reported
  eligible exactly when the scan could take it, and the reported use of a domain or account is the
  number of requests in flight on it in all generations.
\<close>

record Status =
  status_Health :: string
  status_LastValidatedAt :: "time option"
  status_LastValidationState :: string
  status_InputTokens :: u64
  status_OutputTokens :: u64
  status_TotalTokens :: u64
  status_EstimatedCostUSD :: f64
  status_CostKnown :: bool
  status_LastExecution :: "ExecutionResult option"
  status_TTFTMS :: f64
  status_LastSuccess :: time
  status_LastFailure :: time
  status_LastHTTPStatus :: int
  status_ID :: string
  status_Enabled :: bool
  status_Active :: int
  status_Completed :: u64
  status_Failures :: u64
  status_Blocked :: bool
  status_Cooldown :: time
  status_LatencyMS :: f64

record SimulationCandidate =
  sc_ID :: string
  sc_Order :: nat
  sc_Reason :: string
  sc_Eligible :: bool
  sc_Selected :: bool

record Simulation =
  sim_Selected :: string
  sim_Candidates :: "SimulationCandidate list"

record CapacityStatus =
  cs_ID :: string
  cs_Active :: int
  cs_Limit :: int
  cs_Sources :: "string list"
  cs_Retired :: bool

record WorkloadStatus =
  ws_Active :: int
  ws_ActiveLimit :: int
  ws_Queued :: int
  ws_QueueLimit :: int

definition maxTime :: "time \<Rightarrow> time \<Rightarrow> time" where
  "maxTime a b = (if a > b then a else b)"

definition source_health :: "Router \<Rightarrow> heap \<Rightarrow> time \<Rightarrow> nat \<Rightarrow> string" where
  "source_health r h now i =
     (let s = state_of r h i; qt = quota_of r h i in
      if \<not> (st_enabled s \<and> r_parentEnabled r ! i) then ''disabled''
      else if st_blocked s then ''blocked''
      else if now < maxTime (st_cooldown s) (qt_cooldown qt) then ''cooldown''
      else if source_MaxInflight (source_of r i) \<le> st_active s \<or> qt_limit qt \<le> qt_active qt then ''exhausted''
      else if 0 < st_failures s \<and> st_completed s = 0 then ''broken''
      else if 0 < st_failures s then ''degraded''
      else if 0 < st_completed s then ''healthy'' else ''untested'')"

definition source_status :: "Router \<Rightarrow> heap \<Rightarrow> time \<Rightarrow> nat \<Rightarrow> Status" where
  "source_status r h now i =
     (let s = state_of r h i in
      \<lparr>status_Health = source_health r h now i,
       status_LastValidatedAt = None, status_LastValidationState = '''',
       status_InputTokens = st_inputTokens s, status_OutputTokens = st_outputTokens s,
       status_TotalTokens = st_totalTokens s,
       status_EstimatedCostUSD = (if st_costKnown s then st_estimatedCost s else Fin 0),
       status_CostKnown = st_costKnown s, status_LastExecution = st_lastExecution s,
       status_TTFTMS = st_ttftMS s, status_LastSuccess = st_lastSuccess s,
       status_LastFailure = st_lastFailure s, status_LastHTTPStatus = st_lastHTTPStatus s,
       status_ID = source_ID (source_of r i),
       status_Enabled = (st_enabled s \<and> r_parentEnabled r ! i), status_Active = st_active s,
       status_Completed = st_completed s, status_Failures = st_failures s,
       status_Blocked = st_blocked s,
       status_Cooldown = maxTime (st_cooldown s) (qt_cooldown (quota_of r h i)),
       status_LatencyMS = st_latency s\<rparr>)"

definition router_Status :: "Router \<Rightarrow> heap \<Rightarrow> time \<Rightarrow> Status list" where
  "router_Status r h now = map (source_status r h now) [0..<length (r_state r)]"

definition explainReason :: "Router \<Rightarrow> capacity \<Rightarrow> heap \<Rightarrow> Target \<Rightarrow> Query \<Rightarrow> time \<Rightarrow> string" where
  "explainReason r cap h t q now =
     (let reason = snd (eligible r h t q); i = target_Source t;
          s = state_of r h i; qt = quota_of r h i
      in if reason \<noteq> '''' then reason
         else if account_busy r h i then ''account_capacity''
         else if now < maxTime (st_cooldown s) (qt_cooldown qt) then ''cooldown''
         else if source_MaxInflight (source_of r i) \<le> st_active s \<or> qt_limit qt \<le> qt_active qt
              \<or> rt_MaxInflight (cfg_Runtime (r_cfg r)) \<le> cap_active cap then ''capacity''
         else ''eligible'')"

definition Explain :: "Router \<Rightarrow> capacity \<Rightarrow> heap \<Rightarrow> Query \<Rightarrow> time \<Rightarrow> (string \<rightharpoonup> string)" where
  "Explain r cap h q now =
     foldl (\<lambda>m t. m(target_name (r_cfg r) t \<mapsto> explainReason r cap h t q now)) Map.empty (r_targets r)"

definition sim_candidate ::
  "Router \<Rightarrow> capacity \<Rightarrow> heap \<Rightarrow> Query \<Rightarrow> time \<Rightarrow> nat option \<Rightarrow> nat \<Rightarrow> nat \<Rightarrow> SimulationCandidate" where
  "sim_candidate r cap h q now selected order idx =
     (let t = r_targets r ! idx; reason = explainReason r cap h t q now in
      \<lparr>sc_ID = target_name (r_cfg r) t, sc_Order = order + 1, sc_Reason = reason,
       sc_Eligible = (reason = ''eligible''), sc_Selected = (selected = Some idx)\<rparr>)"

definition Simulate :: "Router \<Rightarrow> capacity \<Rightarrow> heap \<Rightarrow> Query \<Rightarrow> time \<Rightarrow> Simulation" where
  "Simulate r cap h q now =
     (let selected = fst (router_choose r cap h q now);
          cs = candidates_of r q;
          indices = (if cs = [] then [0..<length (r_targets r)] else cs)
      in \<lparr>sim_Selected = foldl (\<lambda>out idx. if selected = Some idx
              then target_name (r_cfg r) (r_targets r ! idx) else out) '''' indices,
          sim_Candidates = map (\<lambda>(order, idx). sim_candidate r cap h q now selected order idx)
            (zip [0..<length indices] indices)\<rparr>)"

subsection \<open>Capacity\<close>

text \<open>The sources of an account or domain, in configuration order; \<open>None\<close> when none names it.\<close>

definition sources_by :: "(Source \<Rightarrow> string) \<Rightarrow> Source list \<Rightarrow> string \<Rightarrow> string list option" where
  "sources_by f ss k =
     (case filter (\<lambda>s. f s = k) ss of [] \<Rightarrow> None | xs \<Rightarrow> Some (map source_ID xs))"

definition account_limits :: "Config \<Rightarrow> (string \<times> int) list" where
  "account_limits c = fold (\<lambda>a m. AList.update (account_ID a) (account_MaxInflight a) m) (cfg_Accounts c) []"

definition account_entry :: "Config \<Rightarrow> capacity \<Rightarrow> heap \<Rightarrow> string \<times> int \<Rightarrow> CapacityStatus" where
  "account_entry c cap h e =
     \<lparr>cs_ID = fst e,
      cs_Active = (case map_of (cap_accountStates cap) (fst e) of
                     Some a \<Rightarrow> qt_active (h_quotas h ! a) | None \<Rightarrow> 0),
      cs_Limit = snd e,
      cs_Sources = sort (case sources_by source_AccountID
          (filter (\<lambda>s. source_AccountID s \<noteq> '''') (cfg_Sources c)) (fst e) of Some xs \<Rightarrow> xs | None \<Rightarrow> []),
      cs_Retired = False\<rparr>"

definition retired_account :: "heap \<Rightarrow> string \<times> addr \<Rightarrow> CapacityStatus" where
  "retired_account h e =
     \<lparr>cs_ID = fst e, cs_Active = qt_active (h_quotas h ! snd e), cs_Limit = qt_limit (h_quotas h ! snd e),
      cs_Sources = [], cs_Retired = True\<rparr>"

definition domain_entry :: "Config \<Rightarrow> heap \<Rightarrow> string \<times> addr \<Rightarrow> CapacityStatus" where
  "domain_entry c h e =
     (let members = sources_by source_QuotaDomain (cfg_Sources c) (fst e) in
      \<lparr>cs_ID = fst e, cs_Active = qt_active (h_quotas h ! snd e), cs_Limit = qt_limit (h_quotas h ! snd e),
       cs_Sources = sort (case members of Some xs \<Rightarrow> xs | None \<Rightarrow> []), cs_Retired = (members = None)\<rparr>)"

definition CapacityStatus_accounts :: "Config \<Rightarrow> capacity \<Rightarrow> heap \<Rightarrow> CapacityStatus list" where
  "CapacityStatus_accounts c cap h =
     sort_key cs_ID
       (map (account_entry c cap h) (account_limits c) @
        map (retired_account h) (filter (\<lambda>e. map_of (account_limits c) (fst e) = None \<and>
            0 < qt_active (h_quotas h ! snd e)) (cap_accountStates cap)))"

definition CapacityStatus_domains :: "Config \<Rightarrow> capacity \<Rightarrow> heap \<Rightarrow> CapacityStatus list" where
  "CapacityStatus_domains c cap h =
     sort_key cs_ID (map (domain_entry c h)
       (filter (\<lambda>e. \<not> (sources_by source_QuotaDomain (cfg_Sources c) (fst e) = None \<and>
          qt_active (h_quotas h ! snd e) = 0)) (cap_quotaStates cap)))"

definition router_WorkloadStatus :: "Router \<Rightarrow> capacity \<Rightarrow> WorkloadStatus" where
  "router_WorkloadStatus r cap =
     \<lparr>ws_Active = cap_active cap, ws_ActiveLimit = rt_MaxInflight (cfg_Runtime (r_cfg r)),
      ws_Queued = r_waiting r, ws_QueueLimit = rt_MaxQueued (cfg_Runtime (r_cfg r))\<rparr>"

subsection \<open>The reports are true\<close>

lemma first_error_mem: "first_error cs = Some e \<Longrightarrow> Some e \<in> set cs"
  by (induction cs) (auto split: option.splits)

lemma fail_if_Some: "fail_if b e = Some e' \<longleftrightarrow> b \<and> e' = e"
  by (auto simp: fail_if_def)

definition good_reason :: "string \<Rightarrow> bool" where
  "good_reason e = (e \<noteq> '''' \<and> e \<noteq> ''eligible'')"

lemma eligible_target_reason: "eligible_target r h t q = Some e \<Longrightarrow> good_reason e"
  unfolding eligible_target_def Let_def
  by (drule first_error_mem) (auto simp: good_reason_def fail_if_Some eq_commute [of "Some e"])

lemma group_cost_reason: "group_cost_check cg m q = Some e \<Longrightarrow> good_reason e"
  unfolding group_cost_check_def
  by (drule first_error_mem) (auto simp: good_reason_def fail_if_Some eq_commute [of "Some e"] split: option.splits prod.splits if_splits)

lemma eligible_group_reason: "eligible_group r cg t q = Some e \<Longrightarrow> good_reason e"
  unfolding eligible_group_def Let_def
  by (drule first_error_mem) (auto simp: good_reason_def fail_if_Some eq_commute [of "Some e"]
      dest: group_cost_reason [unfolded good_reason_def])

lemma eligible_reason_good: "eligible_reason r h t q = Some e \<Longrightarrow> good_reason e"
  by (auto simp: eligible_reason_def orelse_check_def good_reason_def split: option.splits if_splits
      dest: eligible_target_reason [unfolded good_reason_def] eligible_group_reason [unfolded good_reason_def])

lemma snd_eligible: "snd (eligible r h t q) = (case eligible_reason r h t q of None \<Rightarrow> '''' | Some e \<Rightarrow> e)"
  by (simp add: eligible_def split: option.split)

lemma explain_eligible_iff:
  "explainReason r cap h (r_targets r ! idx) q now = ''eligible'' \<longleftrightarrow>
     free_target r h q now idx \<and> cap_active cap < rt_MaxInflight (cfg_Runtime (r_cfg r))"
proof (cases "eligible_reason r h (r_targets r ! idx) q")
  case None
  then show ?thesis
    by (auto simp: explainReason_def Let_def snd_eligible free_target_def source_busy_def maxTime_def)
next
  case (Some e)
  then show ?thesis
    using eligible_reason_good [OF Some]
    by (auto simp: explainReason_def Let_def snd_eligible free_target_def good_reason_def)
qed

lemma sim_selected_fold:
  "foldl (\<lambda>out idx. if sel = Some idx then f idx else out) a is =
     (case sel of Some i \<Rightarrow> if i \<in> set is then f i else a | None \<Rightarrow> a)"
  by (induction "is" arbitrary: a) (auto split: option.split)

lemma Simulate_selected:
  "sim_Selected (Simulate r cap h q now) =
     (case fst (router_choose r cap h q now) of
        None \<Rightarrow> '''' | Some idx \<Rightarrow> target_name (r_cfg r) (r_targets r ! idx))"
proof (cases "fst (router_choose r cap h q now)")
  case None
  then show ?thesis by (simp add: Simulate_def Let_def sim_selected_fold)
next
  case (Some idx)
  then obtain e where "router_choose r cap h q now = (Some idx, e)" by (metis prod.collapse)
  then have "idx \<in> set (candidates_of r q)" using router_choose_sound by blast
  then show ?thesis using Some by (auto simp: Simulate_def Let_def sim_selected_fold)
qed

lemma Simulate_candidates:
  assumes "indices = (if candidates_of r q = [] then [0..<length (r_targets r)] else candidates_of r q)"
  shows "length (sim_Candidates (Simulate r cap h q now)) = length indices"
    and "k < length indices \<Longrightarrow> sim_Candidates (Simulate r cap h q now) ! k =
      sim_candidate r cap h q now (fst (router_choose r cap h q now)) k (indices ! k)"
  by (simp_all add: Simulate_def Let_def assms [symmetric])

lemma sim_candidate_eligible:
  "sc_Eligible (sim_candidate r cap h q now sel k idx) \<longleftrightarrow>
     free_target r h q now idx \<and> cap_active cap < rt_MaxInflight (cfg_Runtime (r_cfg r))"
  by (simp add: sim_candidate_def Let_def explain_eligible_iff)

text \<open>A live router finds a target for a group exactly when the simulator marks some candidate eligible.\<close>

lemma Simulate_eligible_chosen:
  assumes "\<not> r_retired r" and "candidates_of r q \<noteq> []"
  shows "(\<exists>c \<in> set (sim_Candidates (Simulate r cap h q now)). sc_Eligible c) \<longleftrightarrow>
    fst (router_choose r cap h q now) \<noteq> None"
proof
  assume "\<exists>c \<in> set (sim_Candidates (Simulate r cap h q now)). sc_Eligible c"
  then obtain idx where "idx \<in> set (candidates_of r q)" "free_target r h q now idx"
    "cap_active cap < rt_MaxInflight (cfg_Runtime (r_cfg r))"
    using assms(2) by (auto simp: Simulate_def Let_def sim_candidate_eligible dest: set_zip_rightD)
  then show "fst (router_choose r cap h q now) \<noteq> None" using router_choose_complete assms(1) by blast
next
  assume "fst (router_choose r cap h q now) \<noteq> None"
  then obtain idx el where "router_choose r cap h q now = (Some idx, el)" by (metis option.exhaust prod.collapse)
  then have idx: "idx \<in> set (candidates_of r q)" "free_target r h q now idx"
    "cap_active cap < rt_MaxInflight (cfg_Runtime (r_cfg r))"
    using router_choose_sound by blast+
  then obtain k where k: "k < length (candidates_of r q)" "candidates_of r q ! k = idx" by (auto simp: in_set_conv_nth)
  then have "sc_Eligible (sim_Candidates (Simulate r cap h q now) ! k)"
    using idx assms(2) by (simp add: Simulate_candidates [OF refl] sim_candidate_eligible)
  then show "\<exists>c \<in> set (sim_Candidates (Simulate r cap h q now)). sc_Eligible c"
    using k(1) assms(2) by (intro bexI [OF _ nth_mem]) (simp_all add: Simulate_candidates(1) [OF refl])
qed

text \<open>C9. The simulator is a true dry run: in any state, when a request is granted at once, its lease is
  on the target the simulator names for the same query and time; it names none when the scan finds none.
  Its list holds the candidates of the group, or all targets when the group has none, in their order and
  numbered from 1; a candidate is marked eligible exactly when every eligibility, capacity and cooldown
  test of the scan passes and a place is free in the process, and marked selected exactly when it is the
  one the scan takes. A live router takes one of the group exactly when one is marked eligible.\<close>

theorem simulate_predicts_acquire:
  assumes "r = sys_routers s ! g" and "sim = Simulate r (sys_cap s) (sys_heap s) q now"
    and "chosen = fst (router_choose r (sys_cap s) (sys_heap s) q now)"
    and "indices = (if candidates_of r q = [] then [0..<length (r_targets r)] else candidates_of r q)"
  shows "(Acquire_start g q e now s = (s', Granted n) \<longrightarrow>
      sim_Selected sim = target_name (r_cfg r) (l_Target (sys_leases s' ! n))) \<and>
    (chosen = None \<longrightarrow> sim_Selected sim = '''') \<and>
    length (sim_Candidates sim) = length indices \<and>
    (\<forall>k < length indices. \<forall>c. c = sim_Candidates sim ! k \<longrightarrow>
      sc_ID c = target_name (r_cfg r) (r_targets r ! (indices ! k)) \<and> sc_Order c = k + 1 \<and>
      (sc_Eligible c \<longleftrightarrow> free_target r (sys_heap s) q now (indices ! k) \<and>
        cap_active (sys_cap s) < rt_MaxInflight (cfg_Runtime (r_cfg r))) \<and>
      (sc_Selected c \<longleftrightarrow> chosen = Some (indices ! k))) \<and>
    (\<not> r_retired r \<and> candidates_of r q \<noteq> [] \<longrightarrow>
      ((\<exists>c \<in> set (sim_Candidates sim). sc_Eligible c) \<longleftrightarrow> chosen \<noteq> None))"
proof (intro conjI impI)
  assume a: "Acquire_start g q e now s = (s', Granted n)"
  obtain i el where i: "router_choose r (sys_cap s) (sys_heap s) q now = (Some i, el)"
    "s' = grant g i q now s" "n = length (sys_leases s)"
    using a assms(1) by (auto simp: Acquire_start_def elim!: acquire_turn_Granted)
  then have "l_Target (sys_leases s' ! n) = r_targets r ! i"
    using assms(1) by (simp add: grant_def new_lease_def Let_def nth_append split: prod.split)
  then show "sim_Selected sim = target_name (r_cfg r) (l_Target (sys_leases s' ! n))"
    using i(1) assms(2) by (simp add: Simulate_selected)
next
  assume "\<not> r_retired r \<and> candidates_of r q \<noteq> []"
  then show "(\<exists>c \<in> set (sim_Candidates sim). sc_Eligible c) \<longleftrightarrow> chosen \<noteq> None"
    unfolding assms(2,3) using Simulate_eligible_chosen by blast
next
  show "\<forall>k < length indices. \<forall>c. c = sim_Candidates sim ! k \<longrightarrow>
      sc_ID c = target_name (r_cfg r) (r_targets r ! (indices ! k)) \<and> sc_Order c = k + 1 \<and>
      (sc_Eligible c \<longleftrightarrow> free_target r (sys_heap s) q now (indices ! k) \<and>
        cap_active (sys_cap s) < rt_MaxInflight (cfg_Runtime (r_cfg r))) \<and>
      (sc_Selected c \<longleftrightarrow> chosen = Some (indices ! k))"
    unfolding assms(2,3) using Simulate_candidates(2) [OF assms(4)] sim_candidate_eligible
    by (auto simp: sim_candidate_def Let_def)
qed (simp_all add: assms(2,3) Simulate_selected Simulate_candidates(1) [OF assms(4)])

text \<open>In the sample state the simulator names the target that the next request gets, and says so of it.\<close>

theorem simulate_predicts_acquire_witness:
  "sim_Selected (Simulate (sys_routers sample_sys ! 0) (sys_cap sample_sys) (sys_heap sample_sys) sample_query 5) =
     target_name sample_config (l_Target (sys_leases (fst (Acquire_start 0 sample_query None 5 sample_sys)) ! 0)) \<and>
   (\<exists>c \<in> set (sim_Candidates (Simulate (sys_routers sample_sys ! 0) (sys_cap sample_sys) (sys_heap sample_sys)
     sample_query 5)). sc_Eligible c)"
proof -
  let ?r = "sys_routers sample_sys ! 0"
  have cfg: "r_cfg ?r = sample_config"
    by (simp add: sample_sys_def init_sys_def New_def Let_def)
  have live: "\<not> r_retired ?r \<and> candidates_of ?r sample_query \<noteq> [] \<and>
      fst (router_choose ?r (sys_cap sample_sys) (sys_heap sample_sys) sample_query 5) \<noteq> None"
    by code_simp
  show ?thesis
    using simulate_predicts_acquire [OF refl refl refl refl, where s = sample_sys and g = 0 and q = sample_query
        and e = None and now = 5 and s' = "fst (Acquire_start 0 sample_query None 5 sample_sys)" and n = 0]
      sample_first_grant cfg live by simp
qed

lemma distinct_snd_map_of: "distinct (map snd m) \<Longrightarrow> map_of m x = Some a \<Longrightarrow> map_of m y = Some a \<Longrightarrow> x = y"
  by (blast dest: map_of_SomeD intro: distinct_snd_inj)

lemma outstanding_exact:
  assumes "sound s"
  shows "map_of (cap_quotaStates (sys_cap s)) k = Some a \<Longrightarrow>
      qt_active (h_quotas (sys_heap s) ! a) = outstanding s (\<lambda>x. source_QuotaDomain x = k)"
    and "map_of (cap_accountStates (sys_cap s)) k = Some a \<Longrightarrow> k \<noteq> '''' \<Longrightarrow>
      qt_active (h_quotas (sys_heap s) ! a) = outstanding s (\<lambda>x. source_AccountID x = k)"
proof -
  let ?q = "cap_quotaStates (sys_cap s)" and ?m = "cap_accountStates (sys_cap s)"
  have ac: "accounting s" and ms: "maps_shape (sys_cap s) (sys_heap s)" and md: "maps_distinct (sys_cap s)"
    and ll: "\<And>l. l \<in> set (sys_leases s) \<Longrightarrow> \<not> l_once l \<Longrightarrow> lease_link s l"
    using assms by (simp_all add: sound_def counted_def shape_def linked_def)
  have d: "distinct (map snd ?q)" "distinct (map snd ?m)"
    and disj: "\<And>x y b. map_of ?q x = Some b \<Longrightarrow> map_of ?m y \<noteq> Some b"
    using md unfolding maps_distinct_def by (auto dest!: map_of_SomeD) (metis disjoint_iff image_eqI snd_conv)
  have q: "holdsQ b l = (\<not> l_once l \<and> source_QuotaDomain (lease_source s l) = x)"
    if "l \<in> set (sys_leases s)" "map_of ?q x = Some b" for l x b
    using ll [OF that(1)] that(2) distinct_snd_map_of [OF d(1)]
    by (auto simp: holds_defs lease_link_def Let_def)
  have qa: "\<not> holdsA b l" if "l \<in> set (sys_leases s)" "map_of ?q x = Some b" for l x b
    using ll [OF that(1)] that(2) disj by (auto simp: holds_defs lease_link_def Let_def split: if_splits)
  have a: "holdsA b l = (\<not> l_once l \<and> source_AccountID (lease_source s l) = x)"
    if "l \<in> set (sys_leases s)" "map_of ?m x = Some b" "x \<noteq> ''''" for l x b
    using ll [OF that(1)] that(2,3) distinct_snd_map_of [OF d(2)]
    by (auto simp: holds_defs lease_link_def Let_def split: if_splits)
  have aq: "\<not> holdsQ b l" if "l \<in> set (sys_leases s)" "map_of ?m x = Some b" for l x b
    using ll [OF that(1)] that(2) disj by (auto simp: holds_defs lease_link_def Let_def)
  have cnt: "qt_active (h_quotas (sys_heap s) ! b) = count_if (holdsQ b) (sys_leases s) + count_if (holdsA b) (sys_leases s)"
    if "b < length (h_quotas (sys_heap s))" for b
    using ac that by (simp add: act_nth accounting_def acct_ok_def)
  show "qt_active (h_quotas (sys_heap s) ! a) = outstanding s (\<lambda>x. source_QuotaDomain x = k)"
    if m: "map_of ?q k = Some a"
    using cnt [OF maps_bounds(2) [OF ms m]] q [OF _ m] qa [OF _ m]
    by (simp add: outstanding_def count_if_zero cong: count_if_cong)
  show "qt_active (h_quotas (sys_heap s) ! a) = outstanding s (\<lambda>x. source_AccountID x = k)"
    if m: "map_of ?m k = Some a" "k \<noteq> ''''"
    using cnt [OF maps_bounds(3) [OF ms m(1)]] a [OF _ m] aq [OF _ m(1)]
    by (simp add: outstanding_def count_if_zero cong: count_if_cong)
qed

lemma distinct_map_sort: "distinct (map f (sort_key g xs)) = distinct (map f xs)"
  by (simp add: distinct_map)

lemma outstanding_pos:
  assumes "0 < outstanding s P"
  obtains l where "l \<in> set (sys_leases s)" "\<not> l_once l" "P (lease_source s l)"
  using assms count_if_zero [of "sys_leases s" "\<lambda>l. \<not> l_once l \<and> P (lease_source s l)"]
  unfolding outstanding_def by force

text \<open>The capacity report lists every quota domain that has requests in flight, each once and in
  order, and the use it reports is the number of requests in flight on the domain in all
  generations.\<close>

lemma domain_report_exact:
  assumes "reachable s" and "ds = CapacityStatus_domains (r_cfg (current_router s)) (sys_cap s) (sys_heap s)"
  shows "(\<forall>d \<in> set ds. cs_Active d = outstanding s (\<lambda>x. source_QuotaDomain x = cs_ID d)) \<and>
    distinct (map cs_ID ds) \<and> sorted (map cs_ID ds) \<and>
    (\<forall>k. 0 < outstanding s (\<lambda>x. source_QuotaDomain x = k) \<longrightarrow> k \<in> cs_ID ` set ds)"
proof -
  let ?c = "r_cfg (current_router s)" and ?h = "sys_heap s" and ?m = "cap_quotaStates (sys_cap s)"
  let ?P = "\<lambda>e. \<not> (sources_by source_QuotaDomain (cfg_Sources ?c) (fst e) = None \<and> qt_active (h_quotas ?h ! snd e) = 0)"
  have so: "sound s" by (rule acct.always [OF assms(1)])
  then have d: "distinct (map fst ?m)" by (simp add: sound_def linked_def maps_distinct_def)
  have ids: "map cs_ID (map (domain_entry ?c ?h) xs) = map fst xs" for xs
    by (simp add: domain_entry_def Let_def)
  have set: "set ds = domain_entry ?c ?h ` set (filter ?P ?m)"
    unfolding assms(2) CapacityStatus_domains_def by simp
  have "cs_Active x = outstanding s (\<lambda>y. source_QuotaDomain y = cs_ID x)" if x: "x \<in> set ds" for x
  proof -
    obtain k a where e: "(k, a) \<in> set ?m" "x = domain_entry ?c ?h (k, a)"
      using x unfolding set by auto
    then show ?thesis
      using outstanding_exact(1) [OF so map_of_is_SomeI [OF d e(1)]] by (simp add: domain_entry_def Let_def)
  qed
  moreover have "distinct (map cs_ID ds)"
  proof -
    have "distinct (map cs_ID (map (domain_entry ?c ?h) (filter ?P ?m)))"
      unfolding ids using d by (simp add: distinct_map_filter)
    then show ?thesis
      unfolding assms(2) CapacityStatus_domains_def distinct_map_sort .
  qed
  moreover have "k \<in> cs_ID ` set ds" if pos: "0 < outstanding s (\<lambda>x. source_QuotaDomain x = k)" for k
  proof -
    obtain l where l: "l \<in> set (sys_leases s)" "\<not> l_once l" "source_QuotaDomain (lease_source s l) = k"
      using outstanding_pos [OF pos] by blast
    then have m: "map_of ?m k = Some (l_quota l)"
      using so by (auto simp: sound_def linked_def lease_link_def Let_def)
    then have "(k, l_quota l) \<in> set (filter ?P ?m)"
      using outstanding_exact(1) [OF so m] pos map_of_SomeD [OF m] by simp
    then show ?thesis
      unfolding set image_image by (rule image_eqI [rotated]) (simp add: domain_entry_def Let_def)
  qed
  moreover have "sorted (map cs_ID ds)"
    unfolding assms(2) CapacityStatus_domains_def by simp
  ultimately show ?thesis by blast
qed

lemma domain_report_exact_witness:
  "\<exists>d \<in> set (CapacityStatus_domains (r_cfg (current_router sample_busy)) (sys_cap sample_busy) (sys_heap sample_busy)).
     cs_ID d = ''d'' \<and> cs_Active d = 2 \<and> outstanding sample_busy (\<lambda>x. source_QuotaDomain x = ''d'') = 2"
proof -
  let ?ds = "CapacityStatus_domains (r_cfg (current_router sample_busy)) (sys_cap sample_busy) (sys_heap sample_busy)"
  have "\<exists>d \<in> set ?ds. cs_ID d = ''d'' \<and> cs_Active d = 2" by code_simp
  then show ?thesis using domain_report_exact [OF sample_reachable(2) refl] by metis
qed

end
