(* ===== verification/RouterCooldown.thy ===== *)
theory RouterCooldown
  imports RouterRuns
begin

section \<open>What later operations do to a block or a cooldown\<close>

text \<open>
  A block sits in the state cell of a source and a cooldown in that cell or in the cell of its quota
  domain. This theory goes through the operations and says which of them can take either away: a block
  goes only when the source is enabled again, by hand or by a new configuration; a source's cooldown
  never gets earlier; a domain's cooldown is overwritten by a later 429 and by nothing else.
\<close>

subsection \<open>The operations that can\<close>

text \<open>The operation \<open>a\<close>, performed in \<open>s\<close>, enables the source whose state is the cell \<open>p\<close> again.\<close>

definition reenables :: "sys \<Rightarrow> addr \<Rightarrow> operation \<Rightarrow> bool" where
  "reenables s p a =
     (case a of
        OpSetEnabled g i on now \<Rightarrow> on \<and>
          (case index_of i (cfg_Sources (r_cfg (sys_routers s ! g))) of
             None \<Rightarrow> False | Some k \<Rightarrow> r_state (sys_routers s ! g) ! k = p)
      | OpAdopt c now \<Rightarrow> \<not> st_enabled (h_states (sys_heap s) ! p) \<and>
          (\<exists>src \<in> set (cfg_Sources c). source_Enabled src \<and>
             map_of (cap_sourceStates (sys_cap s)) (source_ID src) = Some p)
      | _ \<Rightarrow> False)"

text \<open>The operation is the first release, with a 429, of a lease on the quota cell \<open>p\<close>.\<close>

definition overwrites :: "sys \<Rightarrow> addr \<Rightarrow> operation \<Rightarrow> bool" where
  "overwrites s p a =
     (case a of
        OpRelease n status retryAfter now \<Rightarrow> status = 429 \<and> \<not> l_once (sys_leases s ! n) \<and> l_quota (sys_leases s ! n) = p
      | _ \<Rightarrow> False)"

subsection \<open>Operations that leave them alone\<close>

definition keeps_parking :: "heap \<Rightarrow> heap \<Rightarrow> bool" where
  "keeps_parking h h' \<longleftrightarrow>
     map st_cooldown (h_states h') = map st_cooldown (h_states h) \<and>
     map st_blocked (h_states h') = map st_blocked (h_states h) \<and>
     map qt_cooldown (h_quotas h') = map qt_cooldown (h_quotas h)"

lemma keeps_parking_refl [simp]: "keeps_parking h h"
  by (simp add: keeps_parking_def)

lemma keeps_parking_trans: "keeps_parking h h' \<Longrightarrow> keeps_parking h' h'' \<Longrightarrow> keeps_parking h h''"
  by (simp add: keeps_parking_def)

lemma keeps_parking_state:
  "keeps_parking h0 h \<Longrightarrow> (\<And>x. st_cooldown (f x) = st_cooldown x \<and> st_blocked (f x) = st_blocked x) \<Longrightarrow>
    keeps_parking h0 (upd_state p f h)"
  by (simp add: keeps_parking_def upd_state_def map_upd_same)

lemma keeps_parking_quota:
  "keeps_parking h0 h \<Longrightarrow> (\<And>x. qt_cooldown (f x) = qt_cooldown x) \<Longrightarrow> keeps_parking h0 (upd_quota p f h)"
  by (simp add: keeps_parking_def upd_quota_def map_upd_same)

lemma keeps_parking_account:
  "keeps_parking h0 h \<Longrightarrow> (\<And>x. qt_cooldown (f x) = qt_cooldown x) \<Longrightarrow> keeps_parking h0 (upd_account p f h)"
  by (simp add: upd_account_def keeps_parking_quota split: option.split)

lemmas keeps_parking_updates = keeps_parking_state keeps_parking_quota keeps_parking_account

lemma take_slot_parking: "take_slot r i cap h = (cap', h') \<Longrightarrow> keeps_parking h h'"
  unfolding take_slot_def Let_def
  by (auto intro!: keeps_parking_updates)

lemma return_slot_parking: "return_slot l cap h = (cap', h') \<Longrightarrow> keeps_parking h h'"
  unfolding return_slot_def Let_def
  by (auto intro!: keeps_parking_updates)

lemma acquire_turn_parking: "keeps_parking (sys_heap s) (sys_heap (fst (acquire_turn g q e queued now s)))"
proof (cases rule: acquire_turn_cases [of s g q e queued now])
  case same
  then show ?thesis by (simp add: same_core_def)
next
  case (granted idx el)
  then show ?thesis by (simp add: grant_def Let_def take_slot_parking split: prod.split)
qed

lemma resume_parking: "keeps_parking (sys_heap s) (sys_heap (fst (Acquire_resume g w consume now s)))"
proof -
  have "keeps_parking (sys_heap s) (sys_heap (fst (acquire_turn g (w_query w) (w_ctxErr w) (Some (w_id w)) now
      (consumed g (w_id w) consume s))))"
    using acquire_turn_parking [of "consumed g (w_id w) consume s"] by simp
  then show ?thesis by (auto simp: Acquire_resume_consumed split: prod.split acquired.split)
qed

lemma record_usage_parking:
  "st_cooldown (record_usage m result st) = st_cooldown st" "st_blocked (record_usage m result st) = st_blocked st"
  by (simp_all add: record_usage_def Let_def split: option.split)

lemma record_parking: "keeps_parking (sys_heap s) (sys_heap (RecordExecution n result s))"
  unfolding RecordExecution_def Let_def
  by (auto intro!: keeps_parking_updates simp: record_usage_parking)

lemma output_parking: "keeps_parking (sys_heap s) (sys_heap (FirstOutput n now s))"
  unfolding FirstOutput_def Let_def by (auto intro!: keeps_parking_updates)

lemma keeps_parking_nth:
  assumes "keeps_parking h h'"
  shows "p < length (h_states h) \<Longrightarrow> st_cooldown (h_states h' ! p) = st_cooldown (h_states h ! p) \<and>
      st_blocked (h_states h' ! p) = st_blocked (h_states h ! p)"
    "p < length (h_quotas h) \<Longrightarrow> qt_cooldown (h_quotas h' ! p) = qt_cooldown (h_quotas h ! p)"
  using assms unfolding keeps_parking_def by (metis length_map nth_map)+

subsection \<open>Release and SetEnabled\<close>

lemma nth_update_cell: "p < length xs \<Longrightarrow> xs[a := y] ! p = (if a = p then y else xs ! p)"
  by (cases "a < length xs") (auto simp: list_update_beyond)

lemma Release_parking:
  assumes "p < length (h_states (sys_heap s))"
  shows "st_blocked (h_states (sys_heap s) ! p) \<Longrightarrow> st_blocked (h_states (sys_heap (Release n status ra now s)) ! p)"
    "min (st_cooldown (h_states (sys_heap s) ! p)) (now + 5 * Second) \<le> st_cooldown (h_states (sys_heap (Release n status ra now s)) ! p)"
proof -
  let ?l = "sys_leases s ! n"
  obtain cap h where rs: "return_slot ?l (sys_cap s) (sys_heap s) = (cap, h)" by fastforce
  note h = keeps_parking_nth(1) [OF return_slot_parking [OF rs] assms]
  have len: "p < length (h_states h)" using return_slot_limits(2) [OF rs] assms by simp
  have c: "h_states (sys_heap (Release n status ra now s)) ! p = h_states (sys_heap s) ! p \<or>
      h_states (sys_heap (Release n status ra now s)) ! p = h_states h ! p \<or>
      h_states (sys_heap (Release n status ra now s)) ! p = release_state ?l status now (h_states h ! p)"
    using rs len by (auto simp: Release_def Let_def upd_state_def nth_update_cell)
  show "st_blocked (h_states (sys_heap (Release n status ra now s)) ! p)" if "st_blocked (h_states (sys_heap s) ! p)"
    using c h that by (auto simp: release_state_def Let_def)
  show "min (st_cooldown (h_states (sys_heap s) ! p)) (now + 5 * Second) \<le> st_cooldown (h_states (sys_heap (Release n status ra now s)) ! p)"
    using c h by (auto simp: release_state_def Let_def)
qed

lemma Release_quota_parking:
  assumes "p < length (h_quotas (sys_heap s))" and "\<not> overwrites s p (OpRelease n status ra now)"
  shows "qt_cooldown (h_quotas (sys_heap (Release n status ra now s)) ! p) = qt_cooldown (h_quotas (sys_heap s) ! p)"
proof -
  let ?l = "sys_leases s ! n"
  obtain cap h where rs: "return_slot ?l (sys_cap s) (sys_heap s) = (cap, h)" by fastforce
  note h = keeps_parking_nth(2) [OF return_slot_parking [OF rs] assms(1)]
  have "p < length (h_quotas h)" using return_slot_limits(2) [OF rs] assms(1) by simp
  then show ?thesis
    using rs h assms(2)
    by (auto simp: Release_def Let_def upd_quota_def nth_update_cell release_cooldown_def overwrites_def)
qed

lemma SetEnabled_quotas: "h_quotas (sys_heap (fst (SetEnabled g i on now s))) = h_quotas (sys_heap s)"
  by (simp add: SetEnabled_def Let_def split: option.split)

lemma SetEnabled_parking:
  assumes "p < length (h_states (sys_heap s))"
  shows "st_cooldown (h_states (sys_heap (fst (SetEnabled g i on now s))) ! p) = st_cooldown (h_states (sys_heap s) ! p)"
    "\<not> reenables s p (OpSetEnabled g i on now) \<Longrightarrow>
       st_blocked (h_states (sys_heap (fst (SetEnabled g i on now s))) ! p) = st_blocked (h_states (sys_heap s) ! p)"
  using assms by (auto simp: SetEnabled_def Let_def upd_state_def nth_update_cell reenables_def split: option.split)

subsection \<open>Adopt\<close>

text \<open>No two source names of the shared maps have the same state cell.\<close>

definition cells_ok :: "sys \<Rightarrow> bool" where
  "cells_ok s \<longleftrightarrow> distinct (map snd (cap_sourceStates (sys_cap s)))"

lemma adopt_source_effect:
  assumes "adopt_source k (nx, cap, h) = Some (nx', cap', h')"
  obtains sa where
    "adopt_entry (source_ID (source_of nx k)) (r_state nx ! k) (cap_sourceStates cap) = (sa, cap_sourceStates cap')"
    "r_cfg nx' = r_cfg nx" "r_state nx' = (r_state nx)[k := sa]"
    "h_states h' = (h_states h)[sa := (h_states h ! sa)\<lparr>
       st_blocked := (if \<not> st_enabled (h_states h ! sa) \<and> source_Enabled (source_of nx k) then False
         else st_blocked (h_states h ! sa)), st_enabled := source_Enabled (source_of nx k)\<rparr>]"
    "map qt_cooldown (h_quotas h') = map qt_cooldown (h_quotas h)"
proof -
  obtain sa sm where sa: "adopt_entry (source_ID (source_of nx k)) (r_state nx ! k) (cap_sourceStates cap) = (sa, sm)"
    by fastforce
  obtain qa qm where qa: "adopt_entry (source_QuotaDomain (source_of nx k)) (r_quotas nx ! k) (cap_quotaStates cap) = (qa, qm)"
    by fastforce
  have "sm = cap_sourceStates cap' \<and> r_cfg nx' = r_cfg nx \<and> r_state nx' = (r_state nx)[k := sa] \<and>
    h_states h' = (h_states h)[sa := (h_states h ! sa)\<lparr>
       st_blocked := (if \<not> st_enabled (h_states h ! sa) \<and> source_Enabled (source_of nx k) then False
         else st_blocked (h_states h ! sa)), st_enabled := source_Enabled (source_of nx k)\<rparr>] \<and>
    map qt_cooldown (h_quotas h') = map qt_cooldown (h_quotas h)"
    using assms unfolding adopt_source_def prod.case sa qa Let_def adopt_account_def
    by (auto simp: upd_state_def upd_quota_def map_upd_same split: if_splits option.splits prod.splits)
  then show thesis using sa by (intro that) simp_all
qed

text \<open>
  The loop of \<open>Adopt\<close> after \<open>k\<close> sources: \<open>len\<close> state cells were there before. A source not yet visited
  has its own fresh cell, and no two names share one.
\<close>

definition adopt_cells :: "Config \<Rightarrow> nat \<Rightarrow> nat \<Rightarrow> Router \<times> capacity \<times> heap \<Rightarrow> bool" where
  "adopt_cells c len k st \<longleftrightarrow>
     (case st of (nx, cap, h) \<Rightarrow>
        r_cfg nx = c \<and> length (r_state nx) = length (cfg_Sources c) \<and>
        (\<forall>j. k \<le> j \<and> j < length (cfg_Sources c) \<longrightarrow> r_state nx ! j = len + j) \<and>
        distinct (map snd (cap_sourceStates cap)) \<and> (\<forall>(x, b) \<in> set (cap_sourceStates cap). b < len + k))"

text \<open>The cell \<open>p\<close> stays blocked unless a source not yet visited enables it.\<close>

definition adopt_block :: "Config \<Rightarrow> addr \<Rightarrow> nat \<Rightarrow> Router \<times> capacity \<times> heap \<Rightarrow> bool" where
  "adopt_block c p k st \<longleftrightarrow>
     (case st of (nx, cap, h) \<Rightarrow>
        st_blocked (h_states h ! p) \<and>
        (\<forall>j. k \<le> j \<and> j < length (cfg_Sources c) \<and> source_Enabled (cfg_Sources c ! j) \<and>
           map_of (cap_sourceStates cap) (source_ID (cfg_Sources c ! j)) = Some p \<longrightarrow> st_enabled (h_states h ! p)))"

lemma adopt_cells_step:
  assumes "adopt_cells c len k st" and "k < length (cfg_Sources c)" and "adopt_source k st = Some st'"
  shows "adopt_cells c len (Suc k) st'"
proof -
  obtain nx cap h nx' cap' h' where st: "st = (nx, cap, h)" "st' = (nx', cap', h')" by (cases st; cases st') auto
  from assms(3) [unfolded st] obtain sa where
    e: "adopt_entry (source_ID (source_of nx k)) (r_state nx ! k) (cap_sourceStates cap) = (sa, cap_sourceStates cap')"
    and f: "r_cfg nx' = r_cfg nx" "r_state nx' = (r_state nx)[k := sa]"
    by (rule adopt_source_effect) simp
  from e have "distinct (map snd (cap_sourceStates cap')) \<and> (\<forall>(x, b) \<in> set (cap_sourceStates cap'). b < len + Suc k)"
    using assms(1,2) by (cases rule: adopt_entry_cases) (auto simp: adopt_cells_def st)
  then show ?thesis using assms(1,2) f by (auto simp: adopt_cells_def st)
qed

lemma adopt_block_step:
  assumes "adopt_cells c len k st" and "adopt_block c p k st" and "k < length (cfg_Sources c)"
    and "adopt_source k st = Some st'" and "p < len" and "cfg_wf c" and "len \<le> length (h_states (snd (snd st)))"
  shows "adopt_block c p (Suc k) st'"
proof -
  obtain nx cap h nx' cap' h' where st: "st = (nx, cap, h)" "st' = (nx', cap', h')" by (cases st; cases st') auto
  let ?S = "cfg_Sources c" and ?m = "cap_sourceStates cap"
  have src: "source_of nx k = ?S ! k" using assms(1) by (simp add: adopt_cells_def st source_of_def)
  have fresh: "r_state nx ! k = len + k" using assms(1,3) by (simp add: adopt_cells_def st)
  have p: "p < length (h_states h)" using assms(5,7) st by simp
  from assms(4) [unfolded st] obtain sa where
    e: "adopt_entry (source_ID (?S ! k)) (len + k) ?m = (sa, cap_sourceStates cap')"
    and h': "h_states h' = (h_states h)[sa := (h_states h ! sa)\<lparr>
       st_blocked := (if \<not> st_enabled (h_states h ! sa) \<and> source_Enabled (?S ! k) then False
         else st_blocked (h_states h ! sa)), st_enabled := source_Enabled (?S ! k)\<rparr>]"
    unfolding src [symmetric] fresh [symmetric] by (rule adopt_source_effect) simp
  have old: "map_of ?m x = Some p" if "map_of (cap_sourceStates cap') x = Some p" for x
    using e that assms(5) by (cases rule: adopt_entry_cases) (auto simp: map_add_def split: option.splits if_splits)
  have b: "st_blocked (h_states h ! p)" and en: "\<And>j. k \<le> j \<Longrightarrow> j < length ?S \<Longrightarrow> source_Enabled (?S ! j) \<Longrightarrow>
      map_of ?m (source_ID (?S ! j)) = Some p \<Longrightarrow> st_enabled (h_states h ! p)"
    using assms(2) by (auto simp: adopt_block_def st)
  show ?thesis
  proof (cases "sa = p")
    case False
    then have "h_states h' ! p = h_states h ! p" using h' by simp
    moreover have "st_enabled (h_states h ! p)" if "Suc k \<le> j" "j < length ?S" "source_Enabled (?S ! j)"
      "map_of (cap_sourceStates cap') (source_ID (?S ! j)) = Some p" for j
      using en [of j] old [of "source_ID (?S ! j)"] that by simp
    ultimately show ?thesis using b by (auto simp: adopt_block_def st)
  next
    case True
    have m: "map_of ?m (source_ID (?S ! k)) = Some p"
      using e True assms(5) by (cases rule: adopt_entry_cases) auto
    have "st_blocked (h_states h' ! p)" using h' True b en [of k] m assms(3) p by auto
    moreover have "j = k" if j: "j < length ?S" "map_of ?m (source_ID (?S ! j)) = Some p" for j
    proof -
      have "distinct (map snd ?m)" using assms(1) by (simp add: adopt_cells_def st)
      then have "source_ID (?S ! j) = source_ID (?S ! k)"
        using map_of_SomeD [OF m] map_of_SomeD [OF j(2)] by (blast intro: distinct_snd_inj)
      then show ?thesis using assms(3,6) j(1) by (auto simp: cfg_wf_def distinct_conv_nth)
    qed
    ultimately show ?thesis using old by (fastforce simp: adopt_block_def st)
  qed
qed

text \<open>The whole loop, from what \<open>New\<close> allocated.\<close>

lemma adopt_sources_cells:
  "adopt_cells c len k st \<Longrightarrow> k \<le> length (cfg_Sources c) \<Longrightarrow>
   adopt_sources [k..<length (cfg_Sources c)] st = Some st' \<Longrightarrow>
   adopt_cells c len (length (cfg_Sources c)) st' \<and>
   map st_cooldown (h_states (snd (snd st'))) = map st_cooldown (h_states (snd (snd st))) \<and>
   map qt_cooldown (h_quotas (snd (snd st'))) = map qt_cooldown (h_quotas (snd (snd st))) \<and>
   (cfg_wf c \<longrightarrow> p < len \<longrightarrow> len \<le> length (h_states (snd (snd st))) \<longrightarrow> adopt_block c p k st \<longrightarrow>
      adopt_block c p (length (cfg_Sources c)) st')"
proof (induction "length (cfg_Sources c) - k" arbitrary: k st)
  case 0
  then show ?case by simp
next
  case (Suc m)
  then have k: "k < length (cfg_Sources c)" by simp
  obtain st1 where st1: "adopt_source k st = Some st1"
    "adopt_sources [Suc k..<length (cfg_Sources c)] st1 = Some st'"
    using Suc.prems(3) k by (auto simp: upt_conv_Cons split: option.splits)
  have c1: "adopt_cells c len (Suc k) st1" by (rule adopt_cells_step [OF Suc.prems(1) k st1(1)])
  obtain nx cap h nx1 cap1 h1 where st: "st = (nx, cap, h)" "st1 = (nx1, cap1, h1)" by (cases st; cases st1) auto
  have maps: "map st_cooldown (h_states h1) = map st_cooldown (h_states h)"
    "map qt_cooldown (h_quotas h1) = map qt_cooldown (h_quotas h)" "length (h_states h1) = length (h_states h)"
    using st1(1) unfolding st by (auto elim!: adopt_source_effect simp: map_upd_same)
  from Suc.hyps(1) [of "Suc k", OF _ c1 _ st1(2)] Suc.hyps(2) k maps adopt_block_step [OF Suc.prems(1) _ k st1(1)]
  show ?case unfolding st by auto
qed

lemma Adopt_sources:
  assumes "Adopt c now s = Some s'" and "cfg_wf c" and "cells_ok s" and "maps_shape (sys_cap s) (sys_heap s)"
  obtains nx cap next0 cap0 h0 where
    "New c (length (sys_routers s)) (sys_heap s) = (next0, cap0, h0)"
    "adopt_sources [0..<length (cfg_Sources c)] (next0, sys_cap s, h0) = Some (nx, cap, sys_heap s')"
    "cap_sourceStates (sys_cap s') = cap_sourceStates (prune_maps c (sys_heap s') cap)"
    "adopt_cells c (length (h_states (sys_heap s))) 0 (next0, sys_cap s, h0)"
proof -
  obtain next0 cap0 h0 where new: "New c (length (sys_routers s)) (sys_heap s) = (next0, cap0, h0)"
    by (cases "New c (length (sys_routers s)) (sys_heap s)")
  then obtain nx cap h where ad: "adopt_sources [0..<length (cfg_Sources c)] (next0, sys_cap s, h0) = Some (nx, cap, h)"
    and s': "sys_heap s' = h" "cap_sourceStates (sys_cap s') = cap_sourceStates (prune_maps c h cap)"
    using assms(1) unfolding Adopt_def Let_def by (auto split: option.splits prod.splits)
  have "adopt_cells c (length (h_states (sys_heap s))) 0 (next0, sys_cap s, h0)"
    using assms(3,4) by (auto simp: adopt_cells_def cells_ok_def maps_shape_def New_simps [OF new])
  then show thesis using that new ad s' by blast
qed

lemma cells_ok_Adopt:
  assumes "Adopt c now s = Some s'" and "cfg_wf c" and "cells_ok s" and "maps_shape (sys_cap s) (sys_heap s)"
  shows "cells_ok s'"
proof -
  obtain nx cap next0 h0 where "adopt_sources [0..<length (cfg_Sources c)] (next0, sys_cap s, h0) = Some (nx, cap, sys_heap s')"
    and m: "cap_sourceStates (sys_cap s') = cap_sourceStates (prune_maps c (sys_heap s') cap)"
    and c0: "adopt_cells c (length (h_states (sys_heap s))) 0 (next0, sys_cap s, h0)"
    using Adopt_sources [OF assms] by metis
  from adopt_sources_cells [OF c0 _ this(1)] have "distinct (map snd (cap_sourceStates cap))"
    by (simp add: adopt_cells_def)
  then show ?thesis by (simp add: cells_ok_def m prune_maps_def distinct_map_filter)
qed

lemma Adopt_parking:
  assumes "Adopt c now s = Some s'" and "cfg_wf c" and "cells_ok s" and "maps_shape (sys_cap s) (sys_heap s)"
  shows "p < length (h_states (sys_heap s)) \<Longrightarrow>
      st_cooldown (h_states (sys_heap s') ! p) = st_cooldown (h_states (sys_heap s) ! p)"
    "p < length (h_quotas (sys_heap s)) \<Longrightarrow>
      qt_cooldown (h_quotas (sys_heap s') ! p) = qt_cooldown (h_quotas (sys_heap s) ! p)"
    "p < length (h_states (sys_heap s)) \<Longrightarrow> \<not> reenables s p (OpAdopt c now) \<Longrightarrow>
      st_blocked (h_states (sys_heap s) ! p) \<Longrightarrow> st_blocked (h_states (sys_heap s') ! p)"
    "length (h_states (sys_heap s)) \<le> length (h_states (sys_heap s'))"
    "length (h_quotas (sys_heap s)) \<le> length (h_quotas (sys_heap s'))"
proof -
  obtain nx cap next0 cap0 h0 where new: "New c (length (sys_routers s)) (sys_heap s) = (next0, cap0, h0)"
    and ad: "adopt_sources [0..<length (cfg_Sources c)] (next0, sys_cap s, h0) = Some (nx, cap, sys_heap s')"
    and c0: "adopt_cells c (length (h_states (sys_heap s))) 0 (next0, sys_cap s, h0)"
    using Adopt_sources [OF assms] by metis
  note loop = adopt_sources_cells [OF c0 _ ad, unfolded snd_conv, simplified]
  note heap = New_simps(11,12) [OF new]
  have "length (h_states (sys_heap s')) = length (h_states h0)" "length (h_quotas (sys_heap s')) = length (h_quotas h0)"
    using loop by (metis length_map)+
  then show "length (h_states (sys_heap s)) \<le> length (h_states (sys_heap s'))"
    "length (h_quotas (sys_heap s)) \<le> length (h_quotas (sys_heap s'))"
    by (simp_all add: heap)
  have h0: "h_states h0 ! p = h_states (sys_heap s) ! p" if "p < length (h_states (sys_heap s))" for p
    using that by (simp add: heap nth_append)
  have q0: "h_quotas h0 ! p = h_quotas (sys_heap s) ! p" if "p < length (h_quotas (sys_heap s))" for p
    using that by (simp add: heap nth_append)
  show "st_cooldown (h_states (sys_heap s') ! p) = st_cooldown (h_states (sys_heap s) ! p)"
    if p: "p < length (h_states (sys_heap s))"
  proof -
    have "p < length (h_states h0)" using p by (simp add: heap)
    then have "st_cooldown (h_states (sys_heap s') ! p) = st_cooldown (h_states h0 ! p)"
      using loop by (metis length_map nth_map)
    then show ?thesis by (simp add: h0 [OF p])
  qed
  show "qt_cooldown (h_quotas (sys_heap s') ! p) = qt_cooldown (h_quotas (sys_heap s) ! p)"
    if p: "p < length (h_quotas (sys_heap s))"
  proof -
    have "p < length (h_quotas h0)" using p by (simp add: heap)
    then have "qt_cooldown (h_quotas (sys_heap s') ! p) = qt_cooldown (h_quotas h0 ! p)"
      using loop by (metis length_map nth_map)
    then show ?thesis by (simp add: q0 [OF p])
  qed
  show "st_blocked (h_states (sys_heap s') ! p)"
    if p: "p < length (h_states (sys_heap s))" and n: "\<not> reenables s p (OpAdopt c now)"
      and b: "st_blocked (h_states (sys_heap s) ! p)"
  proof -
    have "adopt_block c p 0 (next0, sys_cap s, h0)"
      using n b by (auto simp: adopt_block_def h0 [OF p] reenables_def)
    then show ?thesis using loop assms(2) p by (auto simp: adopt_block_def heap)
  qed
qed

subsection \<open>Every operation\<close>

lemma cells_ok_evolves: "evolves s s' \<Longrightarrow> cells_ok s' = cells_ok s"
  by (simp add: evolves_def frame_def cells_ok_def)

lemma cells_ok_tick [simp]: "cells_ok (tick now s) = cells_ok s"
  by (simp add: cells_ok_def)

lemma cells_ok_step:
  assumes "sound s" "cells_ok s" "step s s'"
  shows "cells_ok s'"
  using assms(3)
proof cases
  case (acquire g now q e)
  then show ?thesis using assms(2) cells_ok_evolves [OF evolves_acquire_turn] by (simp add: Acquire_start_def)
next
  case (adopt c now s'')
  then show ?thesis
    using cells_ok_Adopt [OF _ _ assms(2)] assms(1) by (simp add: sound_def counted_def shape_def)
qed (use assms(2) in \<open>simp_all add: cells_ok_evolves [OF evolves_resume] cells_ok_evolves [OF evolves_cancel]
    cells_ok_evolves [OF evolves_Release] cells_ok_evolves [OF evolves_RecordExecution]
    cells_ok_evolves [OF evolves_FirstOutput] cells_ok_evolves [OF evolves_SetEnabled]\<close>)

lemma cells_ok_init:
  assumes "cfg_wf c"
  shows "cells_ok (init_sys c now)"
proof -
  obtain r cap h where new: "New c 0 \<lparr>h_states = [], h_quotas = []\<rparr> = (r, cap, h)"
    by (cases "New c 0 \<lparr>h_states = [], h_quotas = []\<rparr>")
  then show ?thesis
    by (simp add: cells_ok_def init_sys_def New_maps(1) [OF new assms] New_simps(5) [OF new] del: upt_Suc)
qed

interpretation cells: router_invariant sound cells_ok
  by unfold_locales (auto intro: acct.always cells_ok_init cells_ok_step)

text \<open>What an operation that is not a hot update can do to the cells of the heap.\<close>

lemma performs_parking:
  assumes "reachable s" and "performs a s s'"
  shows "p < length (h_states (sys_heap s)) \<Longrightarrow> p < length (h_states (sys_heap s')) \<and>
      min (st_cooldown (h_states (sys_heap s) ! p)) (sys_now s + 5 * Second) \<le> st_cooldown (h_states (sys_heap s') ! p) \<and>
      (\<not> reenables s p a \<and> st_blocked (h_states (sys_heap s) ! p) \<longrightarrow> st_blocked (h_states (sys_heap s') ! p))" (is "?p \<Longrightarrow> ?P")
    and "b < length (h_quotas (sys_heap s)) \<Longrightarrow> b < length (h_quotas (sys_heap s')) \<and>
      (\<not> overwrites s b a \<longrightarrow> qt_cooldown (h_quotas (sys_heap s') ! b) = qt_cooldown (h_quotas (sys_heap s) ! b))" (is "?b \<Longrightarrow> ?B")
    and "sys_now s \<le> sys_now s'"
proof -
  have len: "length (h_states (sys_heap x)) = length (h_states (sys_heap s))"
    "length (h_quotas (sys_heap x)) = length (h_quotas (sys_heap s))" if "evolves s x" for x
    using that by (simp_all add: evolves_def frame_def)
  have keep: "(?p \<longrightarrow> ?P) \<and> (?b \<longrightarrow> ?B)" if "keeps_parking (sys_heap s) (sys_heap s')" "evolves s s'"
    using keeps_parking_nth [OF that(1)] len [OF that(2)] by simp
  have all: "(?p \<longrightarrow> ?P) \<and> (?b \<longrightarrow> ?B) \<and> sys_now s \<le> sys_now s'"
    using assms(2)
  proof cases
    case (acquire g now q e)
    then show ?thesis
      using acquire_turn_parking [of s g q e None now] len [OF evolves_acquire_turn [of s g q e None now]] keeps_parking_nth
      by (simp add: Acquire_start_def)
  next
    case (resume g w now consume)
    then show ?thesis
      using resume_parking [of s g w consume now] len [OF evolves_resume [of s g w consume now]] keeps_parking_nth by simp
  next
    case (cancel g i e)
    then show ?thesis by simp
  next
    case (release n now status ra)
    then show ?thesis
      using Release_parking(1) [of p s n status ra now] Release_parking(2) [of p s now n status ra]
        Release_quota_parking [of b s n status ra now]
        len [OF evolves_Release [of s n status ra now]] by auto
  next
    case (record_execution n result)
    then show ?thesis
      using record_parking [of s n result] len [OF evolves_RecordExecution [of s n result]] keeps_parking_nth
      by (simp add: RecordExecution_def Let_def)
  next
    case (first_output n now)
    then show ?thesis
      using output_parking [of s n now] len [OF evolves_FirstOutput [of s n now]] keeps_parking_nth by simp
  next
    case (set_enabled g now i on)
    then show ?thesis
      using SetEnabled_parking [of p s g i on now] SetEnabled_quotas [of g i on now s]
        len [OF evolves_SetEnabled [of s g i on now]] by auto
  next
    case (adopt c now s'')
    have "maps_shape (sys_cap s) (sys_heap s)"
      using acct.always [OF assms(1)] by (simp add: sound_def counted_def shape_def)
    from Adopt_parking [OF adopt(5,3) cells.always [OF assms(1)] this] adopt
    show ?thesis by auto
  qed
  then show "?p \<Longrightarrow> ?P" "?b \<Longrightarrow> ?B" "sys_now s \<le> sys_now s'" by blast+
qed

subsection \<open>Runs\<close>

text \<open>
  Along a run a block stays while no operation of the run enables the source again; a source's cooldown
  stays whatever happens; a domain's cooldown stays while no other 429 overwrites it.
\<close>

lemma blocked_runs:
  assumes "runs (\<lambda>x a. \<not> reenables x p a) s s'" and "reachable s"
    and "p < length (h_states (sys_heap s))" "st_blocked (h_states (sys_heap s) ! p)"
  shows "st_blocked (h_states (sys_heap s') ! p)"
proof -
  have "reachable s' \<and> (p < length (h_states (sys_heap s')) \<and> st_blocked (h_states (sys_heap s') ! p))"
    by (rule runs_keep [OF assms(1,2), where I = "\<lambda>x. p < length (h_states (sys_heap x)) \<and> st_blocked (h_states (sys_heap x) ! p)"])
      (use assms(3,4) performs_parking(1) in blast)+
  then show ?thesis by blast
qed

lemma cooling_runs:
  assumes "runs P s s'" and "reachable s" and "p < length (h_states (sys_heap s))"
    and "until \<le> st_cooldown (h_states (sys_heap s) ! p)" and "until \<le> sys_now s + 5 * Second"
  shows "until \<le> st_cooldown (h_states (sys_heap s') ! p)"
proof -
  let ?I = "\<lambda>x. p < length (h_states (sys_heap x)) \<and> until \<le> st_cooldown (h_states (sys_heap x) ! p) \<and>
    until \<le> sys_now x + 5 * Second"
  have "?I y" if "reachable x" "?I x" "performs a x y" for x a y
    using performs_parking(1,3) [OF that(1,3)] that(2) by force
  then have "reachable s' \<and> ?I s'"
    by (intro runs_keep [OF assms(1,2), where I = ?I]) (use assms(3-5) in blast)+
  then show ?thesis by blast
qed

lemma domain_cooling_runs:
  assumes "runs (\<lambda>x a. \<not> overwrites x p a) s s'" and "reachable s" and "p < length (h_quotas (sys_heap s))"
  shows "qt_cooldown (h_quotas (sys_heap s') ! p) = qt_cooldown (h_quotas (sys_heap s) ! p)"
proof -
  let ?I = "\<lambda>x. p < length (h_quotas (sys_heap x)) \<and>
    qt_cooldown (h_quotas (sys_heap x) ! p) = qt_cooldown (h_quotas (sys_heap s) ! p)"
  have "?I y" if "reachable x" "?I x" "\<not> overwrites x p a" "performs a x y" for x a y
    using performs_parking(2) [OF that(1,4)] that(2,3) by simp
  then have "reachable s' \<and> ?I s'"
    by (intro runs_keep [OF assms(1,2), where I = ?I]) (use assms(3) in blast)+
  then show ?thesis by blast
qed

end
