(* ===== verification/RouterEvents.thy ===== *)
theory RouterEvents
  imports RouterCooldown Samples
begin

section \<open>Outcomes: the event ring and what a release does\<close>

text \<open>
  \<open>events.go\<close> keeps the last thousand finished executions in a ring; it implements the bounded log of
  the prelude. The second half states what the status of a finished request means for the next
  choices: a source that failed is parked, a second release does nothing.
\<close>

definition ring_ok :: "capacity \<Rightarrow> bool" where
  "ring_ok cap =
     (length (cap_events cap) \<le> MaxExecutionEvents \<and> cap_eventCursor cap < MaxExecutionEvents \<and>
      (length (cap_events cap) < MaxExecutionEvents \<longrightarrow> cap_eventCursor cap = 0))"

lemma map_rotate_index:
  assumes "c \<le> length xs"
  shows "map (\<lambda>i. xs ! ((c + i) mod length xs)) [0..<length xs] = drop c xs @ take c xs"
proof (rule nth_equalityI)
  show "length (map (\<lambda>i. xs ! ((c + i) mod length xs)) [0..<length xs]) = length (drop c xs @ take c xs)"
    using assms by simp
  fix i assume "i < length (map (\<lambda>i. xs ! ((c + i) mod length xs)) [0..<length xs])"
  then have i: "i < length xs" by simp
  show "map (\<lambda>i. xs ! ((c + i) mod length xs)) [0..<length xs] ! i = (drop c xs @ take c xs) ! i"
  proof (cases "c + i < length xs")
    case True
    then have "i < length xs - c" by linarith
    then show ?thesis using i True by (simp add: nth_append)
  next
    case False
    then have "(c + i) mod length xs = c + i - length xs"
      using i assms by (simp add: le_mod_geq)
    moreover have "\<not> i < length xs - c" using False by linarith
    ultimately show ?thesis
      using i assms False by (simp add: nth_append add.commute)
  qed
qed

lemma ring_contents: "ring_ok cap \<Longrightarrow> ExecutionEvents cap =
    drop (cap_eventCursor cap) (cap_events cap) @ take (cap_eventCursor cap) (cap_events cap)"
proof (cases "length (cap_events cap) < MaxExecutionEvents")
  case True
  assume "ring_ok cap"
  then show ?thesis using True map_rotate_index [of 0 "cap_events cap"] by (simp add: ExecutionEvents_def ring_ok_def)
next
  case False
  assume "ring_ok cap"
  then show ?thesis
    using False map_rotate_index [of "cap_eventCursor cap" "cap_events cap"]
    by (simp add: ExecutionEvents_def ring_ok_def)
qed

lemma ring_push:
  assumes "ring_ok cap"
  shows "ring_ok (push_event e cap)"
    "ExecutionEvents (push_event e cap) = keep_last MaxExecutionEvents (ExecutionEvents cap @ [e])"
proof -
  let ?c = "cap_eventCursor cap" and ?xs = "cap_events cap" and ?N = MaxExecutionEvents
  have N: "0 < ?N" by (simp add: MaxExecutionEvents_def)
  show ok: "ring_ok (push_event e cap)"
    using assms N by (auto simp: ring_ok_def push_event_def)
  show "ExecutionEvents (push_event e cap) = keep_last ?N (ExecutionEvents cap @ [e])"
  proof (cases "length ?xs < ?N")
    case True
    then have "?c = 0" using assms by (simp add: ring_ok_def)
    then show ?thesis
      unfolding ring_contents [OF ok] ring_contents [OF assms] using True by (simp add: push_event_def)
  next
    case False
    then have len: "length ?xs = ?N" and c: "?c < ?N" using assms by (simp_all add: ring_ok_def)
    have "keep_last ?N ((drop ?c ?xs @ take ?c ?xs) @ [e]) = tl (drop ?c ?xs @ take ?c ?xs) @ [e]"
      using len c by (simp add: keep_last_def drop_Suc drop_tl)
    also have "\<dots> = drop (Suc ?c) ?xs @ take ?c ?xs @ [e]"
      using len c by (cases "drop ?c ?xs") (simp_all, metis drop_Suc tl_drop list.sel(3))
    also have "\<dots> = ExecutionEvents (push_event e cap)"
    proof (cases "Suc ?c = ?N")
      case True
      then show ?thesis
        using len c unfolding ring_contents [OF ok]
        by (simp add: push_event_def upd_conv_take_nth_drop)
    next
      case False
      then have "Suc ?c mod ?N = Suc ?c" using c by simp
      then show ?thesis
        using len c unfolding ring_contents [OF ok] by (simp add: push_event_def take_Suc_conv_app_nth)
    qed
    finally show ?thesis by (simp add: ring_contents [OF assms])
  qed
qed

interpretation event_ring: bounded_log ring_ok push_event ExecutionEvents MaxExecutionEvents
  by unfold_locales (simp_all add: ring_push, simp add: ring_ok_def ExecutionEvents_def)

subsection \<open>Sequence numbers\<close>

definition numbered :: "u64 \<Rightarrow> ExecutionEvent list \<Rightarrow> bool" where
  "numbered n es = (map ev_Sequence es = map (\<lambda>i. n - of_nat (length es - 1 - i)) [0..<length es])"

lemma numbered_snoc: "numbered n es \<Longrightarrow> ev_Sequence e = n + 1 \<Longrightarrow> numbered (n + 1) (es @ [e])"
proof -
  assume "numbered n es" "ev_Sequence e = n + 1"
  moreover have "n - word_of_nat (length es - 1 - i) = n + 1 - word_of_nat (length es - i)" if "i < length es" for i
  proof -
    have "length es - i = Suc (length es - 1 - i)" using that by simp
    then show ?thesis by (simp only: of_nat_Suc) simp
  qed
  ultimately show ?thesis by (simp add: numbered_def)
qed

lemma numbered_keep_last: "numbered n es \<Longrightarrow> numbered n (keep_last k es)"
proof (cases "length es \<le> k")
  case False
  let ?d = "length es - k"
  assume "numbered n es"
  then have "drop ?d (map ev_Sequence es) = drop ?d (map (\<lambda>i. n - of_nat (length es - 1 - i)) [0..<length es])"
    by (simp add: numbered_def)
  then have "map ev_Sequence (drop ?d es) = map (\<lambda>i. n - of_nat (length es - 1 - i)) [?d..<length es]"
    by (simp add: drop_map)
  also have "[?d..<length es] = map (\<lambda>i. i + ?d) [0..<k]"
  proof -
    have "k + ?d = length es" using False by simp
    then show ?thesis by (simp only: map_add_upt)
  qed
  also have "map (\<lambda>i. n - of_nat (length es - 1 - i)) (map (\<lambda>i. i + ?d) [0..<k]) =
      map (\<lambda>i. n - of_nat (length (drop ?d es) - 1 - i)) [0..<length (drop ?d es)]"
    using False by (simp add: o_def)
  finally show ?thesis by (simp add: numbered_def keep_last_def)
qed simp

definition events_ok :: "sys \<Rightarrow> bool" where
  "events_ok s = (ring_ok (sys_cap s) \<and> numbered (cap_eventSequence (sys_cap s)) (ExecutionEvents (sys_cap s)))"

lemma events_ok_same:
  assumes "cap_events (sys_cap s') = cap_events (sys_cap s)" "cap_eventCursor (sys_cap s') = cap_eventCursor (sys_cap s)"
    "cap_eventSequence (sys_cap s') = cap_eventSequence (sys_cap s)"
  shows "events_ok s' = events_ok s"
  using assms by (simp add: events_ok_def ring_ok_def ExecutionEvents_def)

lemma recordEvent_log:
  assumes "ring_ok cap" "numbered (cap_eventSequence cap) (ExecutionEvents cap)"
  shows "ring_ok (recordEvent r l st now cap)"
    "ExecutionEvents (recordEvent r l st now cap) = keep_last MaxExecutionEvents (ExecutionEvents cap @ [new_event r cap l st now])"
    "numbered (cap_eventSequence (recordEvent r l st now cap)) (ExecutionEvents (recordEvent r l st now cap))"
proof -
  let ?c = "cap\<lparr>cap_eventSequence := cap_eventSequence cap + 1\<rparr>" and ?e = "new_event r cap l st now"
  have ok: "ring_ok ?c" and ee: "ExecutionEvents ?c = ExecutionEvents cap"
    using assms(1) by (simp_all add: ring_ok_def ExecutionEvents_def)
  show "ring_ok (recordEvent r l st now cap)"
    unfolding recordEvent_def by (rule event_ring.push_ok [OF ok])
  show log: "ExecutionEvents (recordEvent r l st now cap) = keep_last MaxExecutionEvents (ExecutionEvents cap @ [?e])"
    unfolding recordEvent_def event_ring.push_contents [OF ok] ee ..
  have "cap_eventSequence (recordEvent r l st now cap) = cap_eventSequence cap + 1"
    by (simp add: recordEvent_def push_event_def)
  moreover have "ev_Sequence ?e = cap_eventSequence cap + 1" by (simp add: new_event_def)
  ultimately show "numbered (cap_eventSequence (recordEvent r l st now cap)) (ExecutionEvents (recordEvent r l st now cap))"
    using numbered_keep_last [OF numbered_snoc [OF assms(2)]] log by simp
qed

lemma take_slot_events:
  "take_slot r i cap h = (cap', h') \<Longrightarrow> cap_events cap' = cap_events cap \<and>
     cap_eventCursor cap' = cap_eventCursor cap \<and> cap_eventSequence cap' = cap_eventSequence cap"
  by (auto simp: take_slot_def Let_def)

lemma events_acquire_turn: "events_ok (fst (acquire_turn g q e queued now s)) = events_ok s"
proof (cases rule: acquire_turn_cases [of s g q e queued now])
  case same
  then show ?thesis by (intro events_ok_same) (simp_all add: same_core_def)
next
  case (granted idx el)
  then show ?thesis
    by (intro events_ok_same) (simp_all add: grant_def Let_def take_slot_events split: prod.split)
qed

lemma events_resume: "events_ok (fst (Acquire_resume g w consume now s)) = events_ok s"
proof -
  have e: "events_ok (set_router g r x) = events_ok x" "events_ok (signal g now x) = events_ok x" for g r x
    by (rule events_ok_same; simp)+
  define s1 where "s1 = (if consume then set_router g ((sys_routers s ! g)\<lparr>r_queue :=
      map (\<lambda>x. if w_id x = w_id w then x\<lparr>w_ready := False\<rparr> else x) (r_queue (sys_routers s ! g))\<rparr>) s else s)"
  obtain s2 out where s2: "acquire_turn g (w_query w) (w_ctxErr w) (Some (w_id w)) now s1 = (s2, out)"
    by fastforce
  have "events_ok s2 = events_ok s"
    using events_acquire_turn [of g "w_query w" "w_ctxErr w" "Some (w_id w)" now s1] s2
    by (simp add: s1_def e)
  then show ?thesis
    using s2 by (simp add: Acquire_resume_def Let_def s1_def [symmetric] e split: acquired.split)
qed

lemma events_Release: "events_ok s \<Longrightarrow> events_ok (Release n st ra now s)"
proof -
  assume ok: "events_ok s"
  let ?l = "sys_leases s ! n"
  obtain cap h where rs: "return_slot ?l (sys_cap s) (sys_heap s) = (cap, h)" by fastforce
  then have cap: "ring_ok cap" "numbered (cap_eventSequence cap) (ExecutionEvents cap)"
    using ok by (auto simp: return_slot_def Let_def events_ok_def ring_ok_def ExecutionEvents_def)
  show ?thesis
    using ok rs cap recordEvent_log(1,3) [OF cap]
    by (auto simp: Release_def Let_def events_ok_def)
qed

lemma events_Adopt:
  assumes "sound s" "cfg_wf c" "Adopt c now s = Some s'"
  shows "events_ok s' = events_ok s"
proof -
  obtain next0 cap0 h0 nx cap h where "New c (length (sys_routers s)) (sys_heap s) = (next0, cap0, h0)"
    and inv: "adopt_inv c (sys_heap s) next0 (sys_cap s) h0 (length (cfg_Sources c)) (nx, cap, h)"
    and ad: "Adopt c now s = Some (signal (length (sys_routers s)) now (adopted c nx cap h s))"
    using Adopt_adopted [OF assms(1,2)] by blast
  have cap: "cap = (sys_cap s)\<lparr>cap_sourceStates := cap_sourceStates cap, cap_quotaStates := cap_quotaStates cap,
                  cap_accountStates := cap_accountStates cap\<rparr>"
    using inv unfolding adopt_inv_def prod.case by blast
  have "cap_events cap = cap_events (sys_cap s)" "cap_eventCursor cap = cap_eventCursor (sys_cap s)"
    "cap_eventSequence cap = cap_eventSequence (sys_cap s)"
    by (subst cap, simp)+
  then show ?thesis
    using ad assms(3) by (intro events_ok_same) (auto simp: adopted_def prune_maps_def)
qed

lemma events_step:
  assumes "sound s" "events_ok s" "step s s'"
  shows "events_ok s'"
  using assms(3,2)
proof (cases rule: step.cases)
  case (acquire g now q e)
  then show ?thesis
    using assms(2) events_acquire_turn [of g q e None now s] by (simp add: Acquire_start_def events_ok_def)
next
  case (resume g w now consume)
  then show ?thesis using assms(2) events_resume [of g w consume now s] by (simp add: events_ok_def)
next
  case (cancel g i e)
  then show ?thesis using assms(2) by (simp add: events_ok_def)
next
  case (release n now status retryAfter)
  then show ?thesis using events_Release [OF assms(2)] by (simp add: events_ok_def)
next
  case (record_execution n result)
  then show ?thesis using assms(2) by (simp add: events_ok_def RecordExecution_def Let_def)
next
  case (first_output n now)
  then show ?thesis using assms(2) by (simp add: events_ok_def FirstOutput_def Let_def)
next
  case (set_enabled g now i on)
  then show ?thesis using assms(2) by (simp add: events_ok_def SetEnabled_def Let_def split: option.split)
next
  case (adopt c now s'')
  then show ?thesis using events_Adopt [OF assms(1), of c now s''] assms(2) by (simp add: events_ok_def)
qed

lemma events_init: "events_ok (init_sys c now)"
  by (simp add: events_ok_def init_sys_def New_def Let_def ring_ok_def ExecutionEvents_def numbered_def
      MaxExecutionEvents_def)

interpretation events: router_invariant sound events_ok
  by unfold_locales (auto intro: acct.always events_init events_step)

subsection \<open>Properties\<close>

text \<open>C10. The event log is the last thousand finished executions, oldest first: recording events one by
  one from the empty ring leaves exactly the last thousand of them, although the ring overwrites in
  place.\<close>

theorem event_ring_is_last_events:
  "ExecutionEvents (fold push_event es (sys_cap (init_sys c now))) = keep_last 1000 es"
  using event_ring.fold_contents [of "sys_cap (init_sys c now)" es] events_init [of c now]
  by (simp add: events_ok_def MaxExecutionEvents_def ExecutionEvents_def [of "sys_cap (init_sys c now)"])
    (simp add: init_sys_def New_def Let_def)

text \<open>In every reachable state the log has at most a thousand events, their sequence numbers are
  consecutive and the last one is the current sequence counter: no finished execution is skipped.\<close>

lemma event_numbers_consecutive:
  assumes "reachable s" and "es = ExecutionEvents (sys_cap s)"
  shows "length es \<le> 1000 \<and>
    map ev_Sequence es = map (\<lambda>i. cap_eventSequence (sys_cap s) - of_nat (length es - 1 - i)) [0..<length es]"
  using events.always [OF assms(1)] event_ring.within [of "sys_cap s"] assms(2)
  by (simp add: events_ok_def numbered_def MaxExecutionEvents_def)

definition sample_finished :: sys where
  "sample_finished = tick 9 (Release 1 500 0 9 (tick 8 (Release 0 200 0 8 sample_busy)))"

lemma sample_finished_reachable: "reachable sample_finished"
proof -
  have "reachable (tick 8 (Release 0 200 0 8 sample_busy))"
    by (rule reachable.step [OF sample_reachable(2) step.release]) code_simp+
  then show ?thesis
    unfolding sample_finished_def by (rule reachable.step [OF _ step.release]) code_simp+
qed

lemma event_numbers_consecutive_witness:
  "map ev_Sequence (ExecutionEvents (sys_cap sample_finished)) = [1, 2]"
proof -
  have "length (ExecutionEvents (sys_cap sample_finished)) = 2" "cap_eventSequence (sys_cap sample_finished) = 2"
    by code_simp+
  then show ?thesis
    using event_numbers_consecutive [OF sample_finished_reachable refl] by (simp add: upt_rec)
qed

text \<open>Releasing a lease is idempotent: whatever status and time a second release carries, it
  changes nothing.\<close>

lemma release_idempotent:
  assumes "n < length (sys_leases s)"
  shows "Release n status' retryAfter' now' (Release n status retryAfter now s) =
         Release n status retryAfter now s"
proof -
  have "l_once (sys_leases (Release n status retryAfter now s) ! n)"
    using assms by (auto simp: Release_def Let_def split: prod.split)
  then show ?thesis by (simp add: Release_def [of n status' retryAfter' now'])
qed

lemma release_idempotent_witness:
  "Release 0 500 0 9 (Release 0 200 0 8 sample_busy) = Release 0 200 0 8 sample_busy"
proof -
  have "0 < length (sys_leases sample_busy)" by code_simp
  then show ?thesis by (rule release_idempotent)
qed

lemma Release_heap:
  assumes "\<not> l_once (sys_leases s ! n)" "status \<noteq> - 1" "l = sys_leases s ! n"
    and "l_state l < length (h_states (sys_heap s))" "l_quota l < length (h_quotas (sys_heap s))"
  shows "h_states (sys_heap (Release n status ra now s)) ! l_state l =
      release_state l status now ((h_states (sys_heap s) ! l_state l)\<lparr>st_active := st_active (h_states (sys_heap s) ! l_state l) - 1\<rparr>)"
    "qt_cooldown (h_quotas (sys_heap (Release n status ra now s)) ! l_quota l) =
      (if status = 429 then now + min (if ra \<le> 0 then 30 * Second else ra) (24 * Hour)
       else qt_cooldown (h_quotas (sys_heap s) ! l_quota l))"
  using assms
  by (auto simp: Release_def Let_def return_slot_def upd_state_def upd_quota_def upd_account_def
      release_cooldown_def nth_list_update split: option.split)

text \<open>C11. A failure parks what failed, whatever operations run afterwards, hot updates included. After a
  request ended with 401 or 403, its source is given only to probes until it is enabled again, by hand or
  by a configuration that enables a source that was disabled. After a server error or a lost connection
  nothing gets the source for five seconds. After a 429 no source of its quota domain is used before the
  retry time, which is at most a day away, unless another request of the domain also ends with a 429: the
  later answer then counts. Source and domain stand for their state cells, which stay the same while the
  source stays configured.\<close>

theorem failure_parks_source:
  assumes "reachable s" and "n < length (sys_leases s)" and "\<not> l_once (sys_leases s ! n)" and "sys_now s \<le> now"
    and "l = sys_leases s ! n" and "s' = tick now (Release n status retryAfter now s)"
    and "runs (\<lambda>x a. True) s' s2" and "r \<in> set (sys_routers s2)"
    and "router_choose r (sys_cap s2) (sys_heap s2) q t = (Some idx, e)"
    and "i = target_Source (r_targets r ! idx)"
  shows "(r_state r ! i = l_state l \<and> status \<in> {401, 403} \<and>
      runs (\<lambda>x a. \<not> reenables x (l_state l) a) s' s2 \<longrightarrow> q_Probe q) \<and>
    (r_state r ! i = l_state l \<and> (status = 0 \<or> 500 \<le> status) \<longrightarrow> now + 5 * Second \<le> t) \<and>
    (r_quotas r ! i = l_quota l \<and> status = 429 \<and>
      runs (\<lambda>x a. \<not> overwrites x (l_quota l) a) s' s2 \<longrightarrow>
       now + min (if retryAfter \<le> 0 then 30 * Second else retryAfter) (24 * Hour) \<le> t)"
proof -
  have "lease_shape s l"
    using acct.always [OF assms(1)] assms(2,5) by (simp add: sound_def counted_def shape_def)
  then have len: "l_state l < length (h_states (sys_heap s))" "l_quota l < length (h_quotas (sys_heap s))"
    by (simp_all add: lease_shape_def)
  have r': "reachable s'" unfolding assms(6) by (rule reachable.step [OF assms(1) step.release [OF assms(2,4)]])
  have ev: "evolves s (Release n status retryAfter now s)" by (rule evolves_Release)
  have len': "l_state l < length (h_states (sys_heap s'))" "l_quota l < length (h_quotas (sys_heap s'))"
    using len ev by (simp_all add: assms(6) evolves_def frame_def)
  have free: "free_target r (sys_heap s2) q t idx" using router_choose_sound [OF assms(9)] by blast
  then have el: "eligible_target r (sys_heap s2) (r_targets r ! idx) q = None"
    and cool: "st_cooldown (state_of r (sys_heap s2) i) \<le> t" "qt_cooldown (quota_of r (sys_heap s2) i) \<le> t"
    using assms(10) by (auto simp: free_target_def eligible_reason_def source_busy_def)
  have blocked: "q_Probe q \<or> \<not> st_blocked (state_of r (sys_heap s2) i)"
    using el assms(10) unfolding eligible_target_def Let_def first_error_None by auto
  show ?thesis
  proof (cases "status = - 1")
    case False
    note rh = Release_heap [OF assms(3) False assms(5) len, of retryAfter now]
    show ?thesis
    proof (intro conjI impI)
      assume a: "r_state r ! i = l_state l \<and> status \<in> {401, 403} \<and> runs (\<lambda>x a. \<not> reenables x (l_state l) a) s' s2"
      have "st_blocked (h_states (sys_heap s') ! l_state l)"
        using a rh(1) by (auto simp: assms(6) release_state_def Let_def)
      then have "st_blocked (h_states (sys_heap s2) ! l_state l)" using blocked_runs a r' len' by blast
      then show "q_Probe q" using blocked a by (simp add: state_of_def)
    next
      assume a: "r_state r ! i = l_state l \<and> (status = 0 \<or> 500 \<le> status)"
      have "now + 5 * Second \<le> st_cooldown (h_states (sys_heap s') ! l_state l)" "now + 5 * Second \<le> sys_now s' + 5 * Second"
        using a rh(1) by (auto simp: assms(6) release_state_def Let_def)
      from cooling_runs [OF assms(7) r' len'(1) this] show "now + 5 * Second \<le> t"
        using cool(1) a by (simp add: state_of_def)
    next
      assume a: "r_quotas r ! i = l_quota l \<and> status = 429 \<and> runs (\<lambda>x a. \<not> overwrites x (l_quota l) a) s' s2"
      then have "qt_cooldown (h_quotas (sys_heap s2) ! l_quota l) = qt_cooldown (h_quotas (sys_heap s') ! l_quota l)"
        using domain_cooling_runs r' len' by blast
      then show "now + min (if retryAfter \<le> 0 then 30 * Second else retryAfter) (24 * Hour) \<le> t"
        using cool(2) a rh(2) by (simp add: assms(6) quota_of_def)
    qed
  qed simp
qed

text \<open>A source fails, another caller goes away a second later, and the source is free again after five
  seconds.\<close>

theorem failure_parks_source_witness:
  "router_choose (current_router (Release 1 499 0 1000000008 (tick 8 (Release 0 500 0 8 sample_busy))))
     (sys_cap (Release 1 499 0 1000000008 (tick 8 (Release 0 500 0 8 sample_busy))))
     (sys_heap (Release 1 499 0 1000000008 (tick 8 (Release 0 500 0 8 sample_busy)))) sample_query 5000000008 =
       (Some 0, True) \<and> 8 + 5 * Second \<le> 5000000008"
proof -
  let ?s1 = "tick 8 (Release 0 500 0 8 sample_busy)"
  let ?s2 = "Release 1 499 0 1000000008 ?s1"
  have n: "0 < length (sys_leases sample_busy)" "\<not> l_once (sys_leases sample_busy ! 0)" "sys_now sample_busy \<le> 8"
    by code_simp+
  have m: "1 < length (sys_leases ?s1)" "sys_now ?s1 \<le> 1000000008" by code_simp+
  have run: "runs (\<lambda>x a. True) ?s1 (tick 1000000008 ?s2)"
    unfolding runs_def using performs.release [OF m] by (intro r_into_rtranclp) blast
  have c: "router_choose (current_router ?s2) (sys_cap ?s2) (sys_heap ?s2) sample_query 5000000008 = (Some 0, True)"
    by code_simp
  have st: "r_state (current_router ?s2) ! target_Source (r_targets (current_router ?s2) ! 0) = l_state (sys_leases sample_busy ! 0)"
    by code_simp
  have "cap_current (sys_cap ?s2) < length (sys_routers ?s2)" by code_simp
  then have r: "current_router ?s2 \<in> set (sys_routers (tick 1000000008 ?s2))"
    unfolding current_router_def tick_simps by (rule nth_mem)
  have c': "router_choose (current_router ?s2) (sys_cap (tick 1000000008 ?s2)) (sys_heap (tick 1000000008 ?s2)) sample_query 5000000008 = (Some 0, True)"
    unfolding tick_simps by (rule c)
  show ?thesis
    using failure_parks_source [OF sample_reachable(2) n refl refl run r c' refl] c st by simp
qed

text \<open>
  A second 429 can end a domain's cooldown early: its \<open>Retry-After\<close> replaces the one that is still
  running, even when it is shorter.
\<close>

lemma shorter_retry_shortens:
  assumes "reachable s" and "n < length (sys_leases s)" and "\<not> l_once (sys_leases s ! n)"
    and "retryAfter = 1 * Second"
  shows "qt_cooldown (h_quotas (sys_heap (Release n 429 retryAfter now s)) ! l_quota (sys_leases s ! n)) = now + 1 * Second"
proof -
  have "lease_shape s (sys_leases s ! n)"
    using acct.always [OF assms(1)] assms(2) by (simp add: sound_def counted_def shape_def)
  then show ?thesis
    using Release_heap(2) [OF assms(3) _ refl, of 429 retryAfter now] assms(4)
    by (simp add: lease_shape_def Second_def Hour_def)
qed

lemma shorter_retry_example:
  "qt_cooldown (h_quotas (sys_heap (Release 0 429 (60 * Second) 8 sample_busy)) ! l_quota (sys_leases sample_busy ! 0)) = 8 + 60 * Second \<and>
   qt_cooldown (h_quotas (sys_heap (Release 1 429 (1 * Second) 9 (tick 8 (Release 0 429 (60 * Second) 8 sample_busy)))) !
     l_quota (sys_leases sample_busy ! 0)) = 9 + 1 * Second"
  by code_simp

end
