(* ===== verification/RouterPolicy.thy ===== *)
theory RouterPolicy
  imports CapacityProps RouterRuns
begin

section \<open>The policy a grant obeys\<close>

text \<open>
  What is true of the target of every lease, however the scan reached it. The conclusions are the
  promises the configuration makes to the user: disabled, blocked and unapproved sources are not
  used, requests stay local when their group says so, no paid source is used where the group forbids
  it, and the estimated cost of a request with a budget fits into what the request has not yet spent.
\<close>

definition within_budget :: "compiledGroup \<Rightarrow> Model \<Rightarrow> Query \<Rightarrow> bool" where
  "within_budget cg m q =
     (case group_MaxUSDPerRequest (cg_Group cg) of
        None \<Rightarrow> True
      | Some budget \<Rightarrow>
          snd (estimatedRequestCost m q) \<and> \<not> flt (q_SpentUSD q) (Fin 0) \<and>
          \<not> flt budget (fadd (q_SpentUSD q) (fst (estimatedRequestCost m q))))"

definition obeys_group :: "Router \<Rightarrow> compiledGroup \<Rightarrow> Source \<Rightarrow> nat \<Rightarrow> Model \<Rightarrow> Query \<Rightarrow> bool" where
  "obeys_group r cg src i m q =
     (source_AutoApproved src \<and> r_parentApproved r ! i \<and> cg_members cg (source_ID src) \<noteq> None \<and>
      model_AutoApproved m \<noteq> Some False \<and> \<not> q_Stateful q \<and>
      (group_LocalOnly (cg_Group cg) \<longrightarrow> LocalInference src) \<and> BillingAllowed (cg_Group cg) src \<and>
      (group_RequireTools (cg_Group cg) \<longrightarrow> model_Tools m = ''native'') \<and>
      (group_RequireVision (cg_Group cg) \<longrightarrow> model_Vision m) \<and>
      (Tier (model_Tier m) < 0 \<longrightarrow> group_AllowUnrated (cg_Group cg)) \<and>
      (0 \<le> Tier (model_Tier m) \<longrightarrow>
         Tier (group_MinTier (cg_Group cg)) \<le> Tier (model_Tier m) \<and>
         requested_tier (q_Model q) \<le> Tier (model_Tier m)) \<and>
      (group_Type (cg_Group cg) = ''select'' \<longrightarrow> hd (group_Sources (cg_Group cg)) = source_ID src) \<and>
      within_budget cg m q)"

lemma group_cost_budget: "group_cost_check cg m q = None \<Longrightarrow> within_budget cg m q"
  by (auto simp: group_cost_check_def within_budget_def split: option.splits prod.splits if_splits)

lemma eligible_group_obeys:
  assumes "eligible_group r cg t q = None"
  shows "obeys_group r cg (source_of r (target_Source t)) (target_Source t) (target_Model t) q"
  using assms group_cost_budget [of cg "target_Model t" q]
  unfolding eligible_group_def Let_def first_error_None by (auto simp: obeys_group_def)

lemma granted_choice:
  assumes "Acquire_start g q e now s = (s', Granted n) \<or>
    Acquire_resume g w consume now s = (s', Granted n) \<and> q = w_query w"
  obtains idx el where "router_choose (sys_routers s ! g) (sys_cap s) (sys_heap s) q now = (Some idx, el)"
    "l_Target (sys_leases s' ! n) = r_targets (sys_routers s ! g) ! idx"
  using assms
proof
  assume "Acquire_start g q e now s = (s', Granted n)"
  then obtain idx el where ch: "router_choose (sys_routers s ! g) (sys_cap s) (sys_heap s) q now = (Some idx, el)"
    and s': "s' = grant g idx q now s" "n = length (sys_leases s)"
    by (auto simp: Acquire_start_def elim!: acquire_turn_Granted)
  then have "l_Target (sys_leases s' ! n) = r_targets (sys_routers s ! g) ! idx"
    by (simp add: grant_def new_lease_def Let_def nth_append split: prod.split)
  with ch show thesis by (rule that)
qed (auto elim!: resume_Granted intro: that)

text \<open>C12. Every granted request, whether it is granted at once or when it runs again after waiting, is on
  a target that supports its protocol, size, tools and images and whose source the request has not
  excluded; unless it is a probe of that one target, the source, its parent and the model are enabled and
  not blocked; and for a group the target is approved and inside the group's policy: local inference,
  billing, tier floor and the remaining budget.\<close>

theorem grant_obeys_policy:
  assumes "Acquire_start g q e now s = (s', Granted n) \<or>
      Acquire_resume g w consume now s = (s', Granted n) \<and> q = w_query w"
    and "r = sys_routers s ! g"
    and "t = l_Target (sys_leases s' ! n)" and "src = source_of r (target_Source t)" and "m = target_Model t"
  shows "q_Protocol q \<in> set (model_Protocols m) \<and> q_Bytes q \<le> model_MaxInputBytes m \<and>
    (q_Tools q \<longrightarrow> model_Tools m = ''native'') \<and> (q_Vision q \<longrightarrow> model_Vision m) \<and>
    source_ID src \<notin> set (q_ExcludedSources q) \<and>
    (\<not> q_Probe q \<longrightarrow> st_enabled (state_of r (sys_heap s) (target_Source t)) \<and>
       \<not> st_blocked (state_of r (sys_heap s) (target_Source t)) \<and>
       r_parentEnabled r ! target_Source t \<and> model_Enabled m \<noteq> Some False) \<and>
    (q_Probe q \<longrightarrow> q_Model q = source_ID src @ ''/'' @ model_ID m) \<and>
    (case r_groups r (group_key (q_Model q)) of
       Some cg \<Rightarrow> obeys_group r cg src (target_Source t) m q
     | None \<Rightarrow> q_Model q = target_name (r_cfg r) t \<or> q_Model q = model_ID m)"
proof -
  obtain idx el where ch: "router_choose r (sys_cap s) (sys_heap s) q now = (Some idx, el)"
    and t: "t = r_targets r ! idx"
    using granted_choice [OF assms(1)] assms(2,3) by metis
  have "eligible_reason r (sys_heap s) t q = None"
    using router_choose_sound [OF ch] t by (simp add: free_target_def)
  then have el: "eligible_target r (sys_heap s) t q = None"
    and gr: "case r_groups r (group_key (q_Model q)) of Some cg \<Rightarrow> eligible_group r cg t q = None
       | None \<Rightarrow> q_Model q = target_name (r_cfg r) t \<or> q_Model q = model_ID m"
    using assms(5) by (auto simp: eligible_reason_def split: option.splits if_splits)
  have "case r_groups r (group_key (q_Model q)) of
       Some cg \<Rightarrow> obeys_group r cg src (target_Source t) m q
     | None \<Rightarrow> q_Model q = target_name (r_cfg r) t \<or> q_Model q = model_ID m"
    using gr eligible_group_obeys assms(4,5) by (auto split: option.splits)
  then show ?thesis
    using el assms(4,5) unfolding eligible_target_def Let_def first_error_None by auto
qed

theorem grant_obeys_policy_witness:
  "obeys_group (sys_routers sample_sys ! 0) (compile_group sample_group)
     (source_of (sys_routers sample_sys ! 0) 0) 0 sample_model sample_query"
proof -
  let ?s = "fst (Acquire_start 0 sample_query None 5 sample_sys)"
  have t: "target_Source (l_Target (sys_leases ?s ! 0)) = 0" "target_Model (l_Target (sys_leases ?s ! 0)) = sample_model"
    by code_simp+
  have "r_groups (sys_routers sample_sys ! 0) (group_key (q_Model sample_query)) = Some (compile_group sample_group)"
    by (simp add: sample_sys_def init_sys_def New_def Let_def compile_groups_def map_by_def sample_config_def
        sample_query_def group_key_def HasPrefix_def sample_group_def zero_Group_def)
  then show ?thesis
    using grant_obeys_policy [OF disjI1 [OF sample_first_grant] refl refl refl refl] t by simp
qed

end
