(* ===== verification/GoNet.thy ===== *)
theory GoNet
  imports GoStrings
begin

section \<open>URLs and addresses of the Go standard library\<close>

text \<open>
  What validation uses of \<open>net/url\<close> and \<open>net\<close>: \<open>url.Parse\<close> with \<open>Hostname\<close> and \<open>Port\<close>,
  \<open>net.ParseIP\<close> with \<open>IsLoopback\<close>, and \<open>net.SplitHostPort\<close>, on byte strings. An error is \<open>None\<close>:
  the callers only test for it. The algorithms are those of the library, so odd inputs (a port that is
  not a number, an escaped host, an embedded IPv4 address) take the same branch here and there.
\<close>

record URL =
  url_Scheme :: string
  url_Opaque :: string
  url_User :: bool
  url_Host :: string
  url_Path :: string
  url_RawQuery :: string
  url_Fragment :: string

definition zero_URL :: URL where
  "zero_URL = \<lparr>url_Scheme = '''', url_Opaque = '''', url_User = False, url_Host = '''', url_Path = '''',
     url_RawQuery = '''', url_Fragment = ''''\<rparr>"

subsection \<open>Searching from the right\<close>

text \<open>The parts before and after the last separator.\<close>

definition LastCut :: "char \<Rightarrow> string \<Rightarrow> (string \<times> string) option" where
  "LastCut sep s =
     (case Cut sep (rev s) of (a, b, found) \<Rightarrow> if found then Some (rev b, rev a) else None)"

lemma LastCut_append: "LastCut sep s = Some (a, b) \<Longrightarrow> s = a @ sep # b \<and> sep \<notin> set b"
proof -
  assume *: "LastCut sep s = Some (a, b)"
  then have c: "Cut sep (rev s) = (rev b, rev a, True)"
    by (auto simp: LastCut_def split: prod.splits if_splits)
  from Cut_append [OF c] have "rev s = rev b @ sep # rev a" by simp
  then have "s = a @ sep # b" by (metis rev_rev_ident rev_append rev.simps(2) append.assoc append_Cons append_Nil)
  moreover have "sep \<notin> set b" using Cut_before [OF c] by simp
  ultimately show ?thesis by simp
qed

subsection \<open>Escapes\<close>

definition hex_value :: "char \<Rightarrow> int option" where
  "hex_value c =
     (let v = of_char c :: int in
      if 48 \<le> v \<and> v \<le> 57 then Some (v - 48)
      else if 97 \<le> v \<and> v \<le> 102 then Some (v - 87)
      else if 65 \<le> v \<and> v \<le> 70 then Some (v - 55) else None)"

definition to_lower :: "char \<Rightarrow> char" where
  "to_lower c = (let v = of_char c :: nat in if 65 \<le> v \<and> v \<le> 90 then char_of (v + 32) else c)"

datatype url_mode = EncodePath | EncodeFragment | EncodeUserPassword | EncodeHost | EncodeZone

text \<open>\<open>shouldEscape\<close> in the two modes in which unescaping rejects characters.\<close>

definition host_escape :: "char \<Rightarrow> bool" where
  "host_escape c = (\<not> is_alnum c \<and> c \<notin> set ''!$&()*+,;=:[]<>-_.~'' \<and> c \<noteq> CHR 0x27 \<and> c \<noteq> CHR 0x22)"

fun unescape :: "url_mode \<Rightarrow> string \<Rightarrow> string option" where
  "unescape m [] = Some []"
| "unescape m (c # s) =
     (if c = CHR ''%'' then
        (case s of
           h # l # t \<Rightarrow>
             (case (hex_value h, hex_value l) of
                (Some a, Some b) \<Rightarrow>
                  (let v = char_of (nat (16 * a + b)) :: char; is_pct = (h = CHR ''2'' \<and> l = CHR ''5'') in
                   if m = EncodeHost \<and> a < 8 \<and> \<not> is_pct then None
                   else if m = EncodeZone \<and> \<not> is_pct \<and> v \<noteq> CHR '' '' \<and> host_escape v then None
                   else map_option (\<lambda>r. v # r) (unescape m t))
              | _ \<Rightarrow> None)
         | _ \<Rightarrow> None)
      else if (m = EncodeHost \<or> m = EncodeZone) \<and> (of_char c :: nat) < 128 \<and> host_escape c then None
      else map_option (\<lambda>r. c # r) (unescape m s))"

subsection \<open>IP addresses\<close>

text \<open>
  \<open>netip.ParseAddr\<close>: the bytes of the address, four or sixteen, and the zone. The fields of an IPv4
  address are decimal without leading zeros.
\<close>

definition ipv4_field :: "string \<Rightarrow> int option" where
  "ipv4_field f =
     (if f = '''' \<or> \<not> list_all is_digit f \<or> (2 \<le> length f \<and> hd f = CHR ''0'') \<or> 255 < digits_value f
      then None else Some (digits_value f))"

fun all_some :: "'a option list \<Rightarrow> 'a list option" where
  "all_some [] = Some []"
| "all_some (None # xs) = None"
| "all_some (Some x # xs) = map_option (\<lambda>ys. x # ys) (all_some xs)"

definition parseIPv4 :: "string \<Rightarrow> int list option" where
  "parseIPv4 s =
     (let fs = Split (CHR ''.'') s in if length fs = 4 then all_some (map ipv4_field fs) else None)"

text \<open>The hexadecimal group at the front: its value, its length and the rest.\<close>

fun hex_group :: "nat \<Rightarrow> int \<Rightarrow> string \<Rightarrow> (int \<times> nat \<times> string) option" where
  "hex_group n acc [] = Some (acc, n, [])"
| "hex_group n acc (c # s) =
     (case hex_value c of
        None \<Rightarrow> Some (acc, n, c # s)
      | Some d \<Rightarrow> if 3 < n then None else hex_group (Suc n) (16 * acc + d) s)"

text \<open>
  The loop over the groups: \<open>ip\<close> holds the bytes so far and \<open>ell\<close> where the ellipsis was. Each turn
  adds at least two of at most sixteen bytes, so nine turns are enough.
\<close>

fun ipv6_loop :: "nat \<Rightarrow> int list \<Rightarrow> nat option \<Rightarrow> string \<Rightarrow> (int list \<times> nat option \<times> string) option" where
  "ipv6_loop 0 ip ell s = None"
| "ipv6_loop (Suc k) ip ell s =
     (if 16 \<le> length ip then Some (ip, ell, s)
      else
        (case hex_group 0 0 s of
           None \<Rightarrow> None
         | Some (acc, n, rest) \<Rightarrow>
             if n = 0 then None
             else if HasPrefix rest ''.'' then
               (if (ell = None \<and> length ip \<noteq> 12) \<or> 16 < length ip + 4 then None
                else map_option (\<lambda>v4. (ip @ v4, ell, '''')) (parseIPv4 s))
             else
               (let ip' = ip @ [acc div 256, acc mod 256] in
                case rest of
                  [] \<Rightarrow> Some (ip', ell, '''')
                | [c] \<Rightarrow> None
                | c # d # t \<Rightarrow>
                    if c \<noteq> CHR '':'' then None
                    else if d = CHR '':'' then
                      (if ell \<noteq> None then None
                       else if t = '''' then Some (ip', Some (length ip'), '''')
                       else ipv6_loop k ip' (Some (length ip')) t)
                    else ipv6_loop k ip' ell (d # t))))"

definition ipv6_expand :: "int list \<times> nat option \<times> string \<Rightarrow> int list option" where
  "ipv6_expand r =
     (case r of (ip, ell, s) \<Rightarrow>
        if s \<noteq> '''' then None
        else if length ip < 16 then
          (case ell of
             None \<Rightarrow> None
           | Some e \<Rightarrow> Some (take e ip @ replicate (16 - length ip) 0 @ drop e ip))
        else if ell \<noteq> None then None else Some ip)"

definition parseIPv6_addr :: "string \<Rightarrow> int list option" where
  "parseIPv6_addr s =
     (if s = ''::'' then Some (replicate 16 0)
      else
        (let (ell, s') = (if HasPrefix s ''::'' then (Some 0, drop 2 s) else (None, s)) in
         case ipv6_loop 9 [] ell s' of None \<Rightarrow> None | Some r \<Rightarrow> ipv6_expand r))"

definition ParseAddr :: "string \<Rightarrow> (int list \<times> string) option" where
  "ParseAddr s =
     (case find (\<lambda>c. c \<in> set ''.:%'') s of
        None \<Rightarrow> None
      | Some c \<Rightarrow>
          if c = CHR ''.'' then map_option (\<lambda>a. (a, '''')) (parseIPv4 s)
          else if c = CHR '':'' then
            (case Cut (CHR ''%'') s of (a, zone, found) \<Rightarrow>
               if found \<and> zone = '''' then None else map_option (\<lambda>ip. (ip, zone)) (parseIPv6_addr a))
          else None)"

text \<open>\<open>net.ParseIP\<close>: no zone is allowed.\<close>

definition ParseIP :: "string \<Rightarrow> int list option" where
  "ParseIP s = (case ParseAddr s of Some (ip, zone) \<Rightarrow> if zone = '''' then Some ip else None | None \<Rightarrow> None)"

text \<open>\<open>To4\<close> turns a mapped address into four bytes.\<close>

definition To4 :: "int list \<Rightarrow> int list option" where
  "To4 ip =
     (if length ip = 4 then Some ip
      else if length ip = 16 \<and> take 12 ip = replicate 10 0 @ [255, 255] then Some (drop 12 ip) else None)"

definition IsLoopback :: "int list \<Rightarrow> bool" where
  "IsLoopback ip =
     (case To4 ip of Some v4 \<Rightarrow> hd v4 = 127 | None \<Rightarrow> ip = replicate 15 0 @ [1])"

subsection \<open>Authority\<close>

definition validOptionalPort :: "string \<Rightarrow> bool" where
  "validOptionalPort p = (case p of [] \<Rightarrow> True | c # ds \<Rightarrow> c = CHR '':'' \<and> list_all is_digit ds)"

fun find_zone :: "string \<Rightarrow> (string \<times> string) option" where
  "find_zone [] = None"
| "find_zone (c # s) =
     (if HasPrefix (c # s) ''%25'' then Some ([], c # s)
      else map_option (\<lambda>(a, b). (c # a, b)) (find_zone s))"

definition parseHost :: "string \<Rightarrow> string \<Rightarrow> string option" where
  "parseHost scheme host =
     (case LastCut (CHR ''['') host of
        Some (front, after) \<Rightarrow>
          if front \<noteq> '''' then None
          else
            (case LastCut (CHR '']'') after of
               None \<Rightarrow> None
             | Some (inner, colonPort) \<Rightarrow>
                 if \<not> validOptionalPort colonPort then None
                 else
                   (case (case find_zone inner of
                            None \<Rightarrow> unescape EncodeHost inner
                          | Some (a, z) \<Rightarrow>
                              (case (unescape EncodeHost a, unescape EncodeZone z) of
                                 (Some h1, Some h2) \<Rightarrow> Some (h1 @ h2) | _ \<Rightarrow> None)) of
                      None \<Rightarrow> None
                    | Some name \<Rightarrow>
                        (case ParseAddr name of
                           Some (ip, _) \<Rightarrow>
                             if length ip = 4 then None else Some (''['' @ name @ '']'' @ colonPort)
                         | None \<Rightarrow> None)))
      | None \<Rightarrow>
          (case (if scheme = ''http'' \<or> scheme = ''https''
                 then (case Cut (CHR '':'') host of (_, p, found) \<Rightarrow> if found then Some p else None)
                 else map_option snd (LastCut (CHR '':'') host)) of
             Some p \<Rightarrow> if list_all is_digit p then unescape EncodeHost host else None
           | None \<Rightarrow> unescape EncodeHost host))"

definition validUserinfo :: "string \<Rightarrow> bool" where
  "validUserinfo s =
     list_all (\<lambda>c. is_alnum c \<or> c \<in> set ''-._:~!$&()*+,;=%@'' \<or> c = CHR 0x27) s"

definition userinfo_ok :: "string \<Rightarrow> bool" where
  "userinfo_ok s =
     (validUserinfo s \<and>
      (case Cut (CHR '':'') s of (u, p, found) \<Rightarrow>
         unescape EncodeUserPassword u \<noteq> None \<and> (found \<longrightarrow> unescape EncodeUserPassword p \<noteq> None)))"

text \<open>Whether there is user information, and the host.\<close>

definition parseAuthority :: "string \<Rightarrow> string \<Rightarrow> (bool \<times> string) option" where
  "parseAuthority scheme authority =
     (case LastCut (CHR ''@'') authority of
        None \<Rightarrow> map_option (\<lambda>h. (False, h)) (parseHost scheme authority)
      | Some (userinfo, h) \<Rightarrow>
          (case parseHost scheme h of
             None \<Rightarrow> None
           | Some host \<Rightarrow> if userinfo_ok userinfo then Some (True, host) else None))"

subsection \<open>Parse\<close>

text \<open>The scheme and the rest; \<open>None\<close> when the string starts with a colon.\<close>

fun getScheme_loop :: "string \<Rightarrow> string \<Rightarrow> string \<Rightarrow> (string \<times> string) option" where
  "getScheme_loop raw acc [] = Some ([], raw)"
| "getScheme_loop raw acc (c # s) =
     (if is_letter c then getScheme_loop raw (acc @ [c]) s
      else if is_digit c \<or> c \<in> set ''+-.'' then
        (if acc = [] then Some ([], raw) else getScheme_loop raw (acc @ [c]) s)
      else if c = CHR '':'' then (if acc = [] then None else Some (acc, s))
      else Some ([], raw))"

definition getScheme :: "string \<Rightarrow> (string \<times> string) option" where
  "getScheme raw = getScheme_loop raw [] raw"

definition count_char :: "char \<Rightarrow> string \<Rightarrow> nat" where
  "count_char c s = length (filter (\<lambda>x. x = c) s)"

definition split_query :: "string \<Rightarrow> string \<times> string" where
  "split_query rest =
     (if HasSuffix rest ''?'' \<and> count_char (CHR ''?'') rest = 1 then (take (length rest - 1) rest, '''')
      else (case Cut (CHR ''?'') rest of (a, b, _) \<Rightarrow> (a, b)))"

definition split_authority :: "string \<Rightarrow> string \<times> string" where
  "split_authority s =
     (case Cut (CHR ''/'') s of (a, b, found) \<Rightarrow> (a, if found then CHR ''/'' # b else ''''))"

definition parse_hierarchical :: "URL \<Rightarrow> string \<Rightarrow> URL option" where
  "parse_hierarchical u rest =
     (let auth = HasPrefix rest ''//'' \<and> (url_Scheme u \<noteq> '''' \<or> \<not> HasPrefix rest ''///'') in
      case (if auth then
              (case split_authority (drop 2 rest) of (a, r) \<Rightarrow>
                 map_option (\<lambda>(user, host). (u\<lparr>url_User := user, url_Host := host\<rparr>, r)) (parseAuthority (url_Scheme u) a))
            else Some (u, rest)) of
        None \<Rightarrow> None
      | Some (u', path) \<Rightarrow> map_option (\<lambda>p. u'\<lparr>url_Path := p\<rparr>) (unescape EncodePath path))"

definition parse_no_fragment :: "string \<Rightarrow> URL option" where
  "parse_no_fragment raw =
     (if \<exists>c \<in> set raw. (of_char c :: nat) < 32 \<or> (of_char c :: nat) = 127 then None
      else if raw = ''*'' then Some (zero_URL\<lparr>url_Path := ''*''\<rparr>)
      else
        (case getScheme raw of
           None \<Rightarrow> None
         | Some (scheme, rest0) \<Rightarrow>
             (case split_query rest0 of (rest, query) \<Rightarrow>
                (let u = zero_URL\<lparr>url_Scheme := map to_lower scheme, url_RawQuery := query\<rparr> in
                 if \<not> HasPrefix rest ''/'' then
                   (if scheme \<noteq> '''' then Some (u\<lparr>url_Opaque := rest\<rparr>)
                    else if CHR '':'' \<in> set (fst (Cut (CHR ''/'') rest)) then None
                    else parse_hierarchical u rest)
                 else parse_hierarchical u rest))))"

definition url_Parse :: "string \<Rightarrow> URL option" where
  "url_Parse raw =
     (case Cut (CHR ''#'') raw of (u, frag, _) \<Rightarrow>
        (case parse_no_fragment u of
           None \<Rightarrow> None
         | Some url \<Rightarrow>
             if frag = '''' then Some url
             else map_option (\<lambda>f. url\<lparr>url_Fragment := f\<rparr>) (unescape EncodeFragment frag)))"

definition splitHostPort :: "string \<Rightarrow> string \<times> string" where
  "splitHostPort hp =
     (let (host, port) =
        (case LastCut (CHR '':'') hp of
           Some (h, p) \<Rightarrow> if list_all is_digit p then (h, p) else (hp, '''')
         | None \<Rightarrow> (hp, ''''))
      in (if HasPrefix host ''['' \<and> HasSuffix host '']'' then drop 1 (take (length host - 1) host) else host, port))"

definition Hostname :: "URL \<Rightarrow> string" where
  "Hostname u = fst (splitHostPort (url_Host u))"

definition Port :: "URL \<Rightarrow> string" where
  "Port u = snd (splitHostPort (url_Host u))"

subsection \<open>SplitHostPort\<close>

definition SplitHostPort :: "string \<Rightarrow> (string \<times> string) option" where
  "SplitHostPort hp =
     (case LastCut (CHR '':'') hp of
        None \<Rightarrow> None
      | Some (front, port) \<Rightarrow>
          if HasPrefix hp ''['' then
            (case Cut (CHR '']'') hp of (a, rest, found) \<Rightarrow>
               if \<not> found \<or> rest \<noteq> CHR '':'' # port then None
               else if CHR ''['' \<in> set (drop 1 hp) \<or> CHR '']'' \<in> set rest then None
               else Some (drop 1 a, port))
          else if CHR '':'' \<in> set front \<or> CHR ''['' \<in> set hp \<or> CHR '']'' \<in> set hp then None
          else Some (front, port))"

end
