(* ===== verification/ProviderDef.thy ===== *)
theory ProviderDef
  imports GoStrings "HOL-Library.List_Lexorder" "HOL-Library.Char_ord"
begin

section \<open>The provider registry\<close>

text \<open>
  \<open>internal/providerdef/registry.go\<close>: the table of adapters that validation, the factories and the
  control plane share. The Go map is an association list; the passes of \<open>build\<close> over it keep their
  order, and the panic on a duplicate id is the value \<open>None\<close>. \<open>Lookup\<close> copies the slices of a
  descriptor so that a caller cannot change the registry; values of HOL are never changed in place,
  so the copy is the value itself.
\<close>

record CredentialField =
  cf_Name :: string
  cf_Label :: string
  cf_Secret :: bool
  cf_Required :: bool

record Descriptor =
  d_ID :: string
  d_Factory :: string
  d_Protocols :: "string list"
  d_TextOnly :: bool
  d_ToolsAllowed :: bool
  d_BrowserRequired :: bool
  d_BrowserAuthCheck :: bool
  d_CredentialModes :: "string list"
  d_LoginMaterials :: "string list"
  d_InvokeCredentials :: "string list"
  d_LoginFlow :: string
  d_SessionAcquisition :: string
  d_RefreshStrategy :: string
  d_AllowedOrigins :: "string list"
  d_CredentialFields :: "CredentialField list"
  d_CredentialFieldsByMode :: "(string \<times> CredentialField list) list"
  d_DefaultMaxInflight :: int

type_synonym registry = "(string \<times> Descriptor) list"

definition zero_Descriptor :: Descriptor where
  "zero_Descriptor = \<lparr>d_ID = '''', d_Factory = '''', d_Protocols = [], d_TextOnly = False,
     d_ToolsAllowed = False, d_BrowserRequired = False, d_BrowserAuthCheck = False,
     d_CredentialModes = [], d_LoginMaterials = [], d_InvokeCredentials = [], d_LoginFlow = '''',
     d_SessionAcquisition = '''', d_RefreshStrategy = '''', d_AllowedOrigins = [],
     d_CredentialFields = [], d_CredentialFieldsByMode = [], d_DefaultMaxInflight = 0\<rparr>"

definition FieldsForMode :: "Descriptor \<Rightarrow> string \<Rightarrow> CredentialField list" where
  "FieldsForMode d mode =
     (case map_of (d_CredentialFieldsByMode d) mode of
        Some fs \<Rightarrow> fs
      | None \<Rightarrow> d_CredentialFields d)"

subsection \<open>Building the table\<close>

definition new_descriptor :: "string \<Rightarrow> bool \<Rightarrow> string \<Rightarrow> Descriptor" where
  "new_descriptor factory textOnly pid = zero_Descriptor\<lparr>d_ID := pid, d_Factory := factory,
     d_Protocols := [''chat''], d_TextOnly := textOnly, d_ToolsAllowed := \<not> textOnly,
     d_CredentialModes := [''api_key'', ''oauth'', ''cookie'', ''browser_session''],
     d_CredentialFields := [\<lparr>cf_Name = ''value'', cf_Label = ''Credential value'',
       cf_Secret = True, cf_Required = True\<rparr>],
     d_DefaultMaxInflight := 1\<rparr>"

fun add_ids :: "string \<Rightarrow> bool \<Rightarrow> string list \<Rightarrow> registry \<Rightarrow> registry option" where
  "add_ids factory textOnly [] out = Some out"
| "add_ids factory textOnly (pid # ids) out =
     (if map_of out pid \<noteq> None then None
      else add_ids factory textOnly ids (out @ [(pid, new_descriptor factory textOnly pid)]))"

definition add :: "string \<times> bool \<times> string list \<Rightarrow> registry option \<Rightarrow> registry option" where
  "add call out =
     (case call of (factory, textOnly, ids) \<Rightarrow>
        Option.bind out (add_ids factory textOnly ids))"

definition add_calls :: "(string \<times> bool \<times> string list) list" where
  "add_calls =
     [(''http'', False, [''openai'', ''anthropic'', ''gemini'', ''copilot'', ''codex'', ''claude-code'',
        ''gemini-cli'', ''qwen-code'', ''kimi-code'']),
      (''chatgptweb'', True, [''chatgpt-web'']),
      (''appdevice'', True, [''app-device'']),
      (''playground'', True, [''cloudflare-playground'']),
      (''chinaapps'', True, [''tencent-ima'', ''weread-ai'']),
      (''chinafinal'', True, [''tencent-aistudio-web'']),
      (''webnext'', True, [''flowith'', ''langfast'', ''liaobots'']),
      (''codingnext'', False, [''freebuff'', ''codebuddy-cn'']),
      (''codingnext'', True, [''zed-hosted'']),
      (''chinamore'', True, [''minimax-web'', ''mimo'', ''stepchat'']),
      (''codingmore'', True, [''amazon-q'', ''augment'', ''devin-cli'']),
      (''codingfinal'', True, [''cursor'', ''windsurf'', ''trae'', ''v0-web'', ''warp'', ''zcode'', ''qoder'']),
      (''businessweb'', True, [''gemini-business'', ''aistudio-playground'', ''aistudio-build'',
        ''copilot-m365'', ''promptql'']),
      (''enterpriseweb'', True, [''maxai'', ''notion-web'', ''opera-aria'', ''google-ai-mode'']),
      (''chinaremaining'', True, [''emohaa'', ''spark-web'', ''qwen-web-cn'', ''metaso'']),
      (''chinanext'', True, [''dola-web'', ''yuanbao'', ''deepseek-web'', ''doubao'']),
      (''china'', True, [''kimi-web'', ''qwen-web-intl'', ''glm-web'', ''zai-web'']),
      (''coding'', False, [''kiro'', ''antigravity'']),
      (''embedded'', True, [''tabbit'', ''fanzha'', ''chataigpt'', ''chatgptfree'']),
      (''webhttp'', True, [''venice-web'', ''inkeep'', ''gptanon'', ''perfectassistant'', ''aifreeforever'',
        ''toolbaz'', ''phindai'', ''whiterabbitneo'']),
      (''majorweb'', True, [''claude-web'', ''grok-web'', ''grok-console'', ''grok-build'', ''genspark'',
        ''zenmux-web'', ''blackbox'', ''conol-web'', ''adapta-web'', ''pi'', ''reka-web'',
        ''huggingchat'', ''hyperagent'', ''inner-ai'', ''uc-web'', ''easemate'',
        ''gemini-web'', ''gigachat-web'', ''copilot-web'', ''perplexity-web'', ''t3-web'',
        ''you'', ''poe-web'', ''meta-ai'', ''arena'', ''tinycms-web'', ''merlin'',
        ''sider'', ''monica'', ''raycast'', ''duckduckgo-web''])]"

text \<open>The \<open>d := out[id]; ...; out[id] = d\<close> of every later pass: a missing key reads as the zero value.\<close>

definition modify :: "(Descriptor \<Rightarrow> Descriptor) \<Rightarrow> string \<Rightarrow> registry \<Rightarrow> registry" where
  "modify f pid out =
     AList.update pid (f (case map_of out pid of Some d \<Rightarrow> d | None \<Rightarrow> zero_Descriptor)) out"

definition protocol_table :: "(string \<times> string list) list" where
  "protocol_table =
     [(''openai'', [''chat'', ''responses'']), (''chatgpt-web'', [''chat'', ''responses'']),
      (''grok-console'', [''chat'', ''responses'']), (''grok-build'', [''chat'', ''responses'']),
      (''anthropic'', [''messages'']), (''claude-code'', [''messages'']), (''gemini'', [''gemini'']),
      (''gemini-cli'', [''gemini'']), (''antigravity'', [''gemini'']),
      (''copilot'', [''chat'', ''responses'', ''messages'']), (''codex'', [''responses'']),
      (''kiro'', [''chat'', ''messages'']), (''kimi-code'', [''chat'', ''messages''])]"

definition set_protocols :: "registry \<Rightarrow> registry" where
  "set_protocols = fold (\<lambda>(pid, ps). modify (d_Protocols_update (\<lambda>_. ps)) pid) protocol_table"

definition browser_ids :: "string list" where
  "browser_ids = [''chatgpt-web'', ''doubao'', ''gemini-web'', ''gigachat-web'', ''aistudio-build'',
     ''cloudflare-playground'']"

definition browser_required :: "Descriptor \<Rightarrow> Descriptor" where
  "browser_required d = d\<lparr>d_BrowserRequired := True,
     d_CredentialModes := [''browser_profile'', ''browser_session'', ''cookie'']\<rparr>"

definition set_browser_required :: "registry \<Rightarrow> registry" where
  "set_browser_required = fold (modify browser_required) browser_ids"

definition password_fields :: "(string \<times> CredentialField list) list" where
  "password_fields =
     [(''username_password'',
        [\<lparr>cf_Name = ''username'', cf_Label = ''Username'', cf_Secret = False, cf_Required = True\<rparr>,
         \<lparr>cf_Name = ''password'', cf_Label = ''Password'', cf_Secret = True, cf_Required = True\<rparr>]),
      (''browser_session'',
        [\<lparr>cf_Name = ''value'', cf_Label = ''Browser session reference'', cf_Secret = True,
           cf_Required = True\<rparr>]),
      (''cookie'',
        [\<lparr>cf_Name = ''value'', cf_Label = ''Cookie'', cf_Secret = True, cf_Required = True\<rparr>]),
      (''browser_profile'',
        [\<lparr>cf_Name = ''value'', cf_Label = ''Browser profile reference'', cf_Secret = False,
           cf_Required = True\<rparr>])]"

definition auth_check_ids :: "string list" where
  "auth_check_ids = [''chatgpt-web'', ''claude-web'', ''blackbox'']"

definition password_login :: "Descriptor \<Rightarrow> Descriptor" where
  "password_login d = d\<lparr>
     d_CredentialModes :=
       (if ''username_password'' \<in> set (d_CredentialModes d) then d_CredentialModes d
        else d_CredentialModes d @ [''username_password'']),
     d_CredentialFieldsByMode := password_fields\<rparr>"

definition set_password_login :: "registry \<Rightarrow> registry" where
  "set_password_login = fold (modify password_login) auth_check_ids"

text \<open>\<open>d.CredentialFields[0].Label = "API key"\<close> writes to the slice of this one descriptor.\<close>

definition api_key_ids :: "string list" where
  "api_key_ids = [''openai'', ''anthropic'', ''gemini'']"

definition api_key_only :: "Descriptor \<Rightarrow> Descriptor" where
  "api_key_only d = d\<lparr>d_CredentialModes := [''api_key''],
     d_CredentialFields :=
       (case d_CredentialFields d of [] \<Rightarrow> [] | f # fs \<Rightarrow> f\<lparr>cf_Label := ''API key''\<rparr> # fs)\<rparr>"

definition set_api_key :: "registry \<Rightarrow> registry" where
  "set_api_key = fold (modify api_key_only) api_key_ids"

definition set_auth_check :: "registry \<Rightarrow> registry" where
  "set_auth_check = fold (modify (d_BrowserAuthCheck_update (\<lambda>_. True))) auth_check_ids"

definition cli_ids :: "string list" where
  "cli_ids = [''devin-cli'', ''zcode'', ''codex'', ''claude-code'', ''gemini-cli'', ''qwen-code'',
     ''kimi-code'', ''kiro'', ''antigravity'', ''amazon-q'']"

definition set_cli_modes :: "registry \<Rightarrow> registry" where
  "set_cli_modes =
     fold (modify (d_CredentialModes_update (\<lambda>_. [''oauth'', ''cli_session'', ''api_key'']))) cli_ids"

definition set_kiro :: "registry \<Rightarrow> registry" where
  "set_kiro = modify (d_ToolsAllowed_update (\<lambda>_. False)) ''kiro''"

definition set_app_device :: "registry \<Rightarrow> registry" where
  "set_app_device = modify (\<lambda>d. d\<lparr>d_CredentialModes := [''device_session''],
     d_CredentialFields := [],
     d_CredentialFieldsByMode :=
       [(''device_session'', [\<lparr>cf_Name = ''value'', cf_Label = ''Device session reference'',
          cf_Secret = False, cf_Required = True\<rparr>])]\<rparr>) ''app-device''"

text \<open>The last pass: what follows from the fields set before.\<close>

definition derive :: "string \<Rightarrow> Descriptor \<Rightarrow> Descriptor" where
  "derive pid d = d\<lparr>
     d_LoginMaterials := filter (\<lambda>kind. kind = ''username_password'') (d_CredentialModes d),
     d_InvokeCredentials := filter (\<lambda>kind. kind \<noteq> ''username_password'') (d_CredentialModes d),
     d_LoginFlow :=
       (if d_BrowserRequired d \<or> d_BrowserAuthCheck d then ''interactive_browser''
        else ''manual_credential''),
     d_SessionAcquisition :=
       (if pid = ''chatgpt-web'' then ''identity_checked_browser_profile''
        else if pid = ''claude-web'' then ''verified_cookie_and_organization''
        else if d_BrowserRequired d then ''bound_browser_profile''
        else ''explicit_import''),
     d_AllowedOrigins :=
       (if pid = ''blackbox'' then [''https://app.blackbox.ai'']
        else if pid = ''chatgpt-web'' then [''https://chatgpt.com'']
        else if pid = ''claude-web'' then [''https://claude.ai'']
        else d_AllowedOrigins d),
     d_RefreshStrategy :=
       (if ''oauth'' \<in> set (filter (\<lambda>kind. kind \<noteq> ''username_password'') (d_CredentialModes d))
        then ''oauth_grant_if_configured_else_reauthorize'' else ''replace_or_reauthorize'')\<rparr>"

definition passes :: "registry \<Rightarrow> registry" where
  "passes out =
     map (\<lambda>(pid, d). (pid, derive pid d))
       (set_app_device (set_kiro (set_cli_modes (set_auth_check (set_api_key
         (set_password_login (set_browser_required (set_protocols out))))))))"

definition build :: "registry option" where
  "build = map_option passes (fold add add_calls (Some []))"

subsection \<open>Looking up\<close>

text \<open>The package variable: a panic of \<open>build\<close> would stop the process before \<open>main\<close>.\<close>

definition registry :: registry where
  "registry = (case build of Some r \<Rightarrow> r | None \<Rightarrow> [])"

definition Lookup :: "string \<Rightarrow> Descriptor option" where
  "Lookup pid = map_of registry pid"

definition All_descriptors :: "Descriptor list" where
  "All_descriptors = sort_key d_ID (map snd registry)"

definition provider_Supports :: "string \<Rightarrow> string \<Rightarrow> bool" where
  "provider_Supports pid protocol =
     (case map_of registry pid of None \<Rightarrow> False | Some d \<Rightarrow> protocol \<in> set (d_Protocols d))"

subsection \<open>The table is built\<close>

definition descriptor_ids :: "string list" where
  "descriptor_ids = concat (map (\<lambda>(factory, textOnly, ids). ids) add_calls)"

definition added :: "(string \<times> bool \<times> string list) list \<Rightarrow> registry" where
  "added calls =
     concat (map (\<lambda>(factory, textOnly, ids). map (\<lambda>i. (i, new_descriptor factory textOnly i)) ids) calls)"

lemma added_keys: "map fst (added calls) = concat (map (\<lambda>(factory, textOnly, ids). ids) calls)"
  by (induction calls) (auto simp: added_def comp_def)

lemma add_ids_distinct:
  "distinct (map fst out @ ids) \<Longrightarrow>
   add_ids factory textOnly ids out = Some (out @ map (\<lambda>i. (i, new_descriptor factory textOnly i)) ids)"
proof (induction ids arbitrary: out)
  case (Cons i ids)
  then have "map_of out i = None" by (auto simp: map_of_eq_None_iff)
  with Cons show ?case by simp
qed simp

lemma fold_add_distinct:
  "distinct (map fst out @ map fst (added calls)) \<Longrightarrow> fold add calls (Some out) = Some (out @ added calls)"
proof (induction calls arbitrary: out)
  case (Cons call calls)
  obtain factory textOnly ids where call: "call = (factory, textOnly, ids)" by (cases call)
  from Cons.prems have d: "distinct (map fst out @ ids)"
    by (auto simp: added_def call comp_def)
  have "added (call # calls) = map (\<lambda>i. (i, new_descriptor factory textOnly i)) ids @ added calls"
    by (simp add: added_def call)
  with Cons.prems have "distinct (map fst (out @ map (\<lambda>i. (i, new_descriptor factory textOnly i)) ids)
      @ map fst (added calls))"
    by (simp add: comp_def)
  from Cons.IH [OF this] show ?case
    by (simp add: call add_def add_ids_distinct [OF d] added_def)
qed (simp add: added_def)

lemma descriptor_ids_distinct: "distinct descriptor_ids"
  by code_simp

lemma fold_add_calls: "fold add add_calls (Some []) = Some (added add_calls)"
  using fold_add_distinct [of "[]" add_calls] descriptor_ids_distinct
  by (simp add: added_keys descriptor_ids_def)

lemma build_Some: "build = Some registry" and registry_eq: "registry = passes (added add_calls)"
  by (simp_all add: registry_def build_def fold_add_calls)

subsection \<open>What a pass does to one entry\<close>

definition entry :: "registry \<Rightarrow> string \<Rightarrow> Descriptor" where
  "entry out pid = (case map_of out pid of Some d \<Rightarrow> d | None \<Rightarrow> zero_Descriptor)"

lemma map_of_modify: "map_of (modify f pid out) = (map_of out)(pid \<mapsto> f (entry out pid))"
  by (simp add: modify_def entry_def update_conv')

lemma modify_keys: "pid \<in> set (map fst out) \<Longrightarrow> map fst (modify f pid out) = map fst out"
  by (simp add: modify_def update_keys)

lemma fold_modify_keys:
  "key ` set xs \<subseteq> set (map fst out) \<Longrightarrow>
   map fst (fold (\<lambda>x. modify (f x) (key x)) xs out) = map fst out"
  by (induction xs arbitrary: out) (auto simp: modify_keys simp del: set_map)

lemma map_of_modify_all:
  assumes "pid \<in> set (map fst out)" "\<forall>(k, d) \<in> set out. P k d" "\<And>d. P pid d \<Longrightarrow> P pid (f d)"
    "distinct (map fst out)"
  shows "\<forall>(k, d) \<in> set (modify f pid out). P k d"
proof -
  from assms(1) obtain d0 where d0: "map_of out pid = Some d0"
    by (metis map_of_eq_None_iff not_Some_eq set_map)
  with assms(2) have "P pid d0" by (auto dest: map_of_SomeD)
  with assms(3) have p: "P pid (f d0)" by blast
  have dist: "distinct (map fst (modify f pid out))"
    using assms(1,4) by (simp add: modify_keys del: set_map)
  show ?thesis
  proof safe
    fix k d assume "(k, d) \<in> set (modify f pid out)"
    with dist have "map_of (modify f pid out) k = Some d" by simp
    then have "((map_of out)(pid \<mapsto> f d0)) k = Some d"
      by (simp add: map_of_modify entry_def d0)
    with p assms(2) show "P k d" by (auto split: if_splits dest: map_of_SomeD)
  qed
qed

lemma fold_modify_all:
  assumes "key ` set xs \<subseteq> set (map fst out)" "distinct (map fst out)" "\<forall>(k, d) \<in> set out. P k d"
    "\<And>x d. x \<in> set xs \<Longrightarrow> P (key x) d \<Longrightarrow> P (key x) (f x d)"
  shows "\<forall>(k, d) \<in> set (fold (\<lambda>x. modify (f x) (key x)) xs out). P k d"
  using assms
proof (induction xs arbitrary: out)
  case (Cons x xs)
  then have k: "key x \<in> set (map fst out)" by simp
  have *: "\<forall>(k, d) \<in> set (modify (f x) (key x) out). P k d"
    by (rule map_of_modify_all [OF k Cons.prems(3) _ Cons.prems(2)]) (simp add: Cons.prems(4))
  show ?case
    unfolding fold_simps
    by (rule Cons.IH) (use Cons.prems * modify_keys [OF k] in \<open>auto simp del: set_map\<close>)
qed simp

text \<open>
  The passes in order, each as a list of keys and changes; every key is a registered id, so no pass
  adds an entry.
\<close>

definition changes :: "(string \<times> (Descriptor \<Rightarrow> Descriptor)) list" where
  "changes =
     map (\<lambda>(pid, ps). (pid, d_Protocols_update (\<lambda>_. ps))) protocol_table @
     map (\<lambda>pid. (pid, browser_required)) browser_ids @
     map (\<lambda>pid. (pid, password_login)) auth_check_ids @
     map (\<lambda>pid. (pid, api_key_only)) api_key_ids @
     map (\<lambda>pid. (pid, d_BrowserAuthCheck_update (\<lambda>_. True))) auth_check_ids @
     map (\<lambda>pid. (pid, d_CredentialModes_update (\<lambda>_. [''oauth'', ''cli_session'', ''api_key'']))) cli_ids @
     [(''kiro'', d_ToolsAllowed_update (\<lambda>_. False))]"

lemma fold_map_pair: "fold (\<lambda>x. modify (snd x) (fst x)) (map (\<lambda>i. (i, f)) ks) = fold (modify f) ks"
  by (induction ks) simp_all

lemma passes_eq:
  "passes out = map (\<lambda>(pid, d). (pid, derive pid d))
     (set_app_device (fold (\<lambda>x. modify (snd x) (fst x)) changes out))"
proof -
  have "fold (\<lambda>x. modify (snd x) (fst x)) (map (\<lambda>(pid, ps). (pid, d_Protocols_update (\<lambda>_. ps))) table)
     = fold (\<lambda>(pid, ps). modify (d_Protocols_update (\<lambda>_. ps)) pid) table" for table
    by (induction table) (simp_all add: case_prod_beta)
  then show ?thesis
    by (simp add: passes_def changes_def fold_map_pair set_protocols_def set_browser_required_def
        set_password_login_def set_api_key_def set_auth_check_def set_cli_modes_def set_kiro_def)
qed

lemma changes_known: "set (map fst changes) \<subseteq> set descriptor_ids"
  by code_simp

lemma added_add_calls_keys: "map fst (added add_calls) = descriptor_ids"
  by (simp add: added_keys descriptor_ids_def)

lemma changed_keys:
  "map fst (fold (\<lambda>x. modify (snd x) (fst x)) changes (added add_calls)) = descriptor_ids"
  using fold_modify_keys [of fst changes "added add_calls" snd] changes_known
  by (simp add: added_add_calls_keys)

lemma app_device_known: "''app-device'' \<in> set descriptor_ids"
  by code_simp

lemma derive_keys: "map fst (map (\<lambda>(pid, d). (pid, derive pid d)) out) = map fst out"
  by (induction out) auto

lemma registry_keys: "map fst registry = descriptor_ids"
  unfolding registry_eq passes_eq set_app_device_def derive_keys
  using changed_keys app_device_known by (simp add: modify_keys del: set_map)

subsection \<open>A lookup, entry by entry\<close>

text \<open>
  The descriptor of one id as the passes leave it: only the changes made to that id matter. Used as
  a code equation it evaluates one lookup without building the table.
\<close>

definition app_device_fields :: "Descriptor \<Rightarrow> Descriptor" where
  "app_device_fields d = d\<lparr>d_CredentialModes := [''device_session''],
     d_CredentialFields := [],
     d_CredentialFieldsByMode :=
       [(''device_session'', [\<lparr>cf_Name = ''value'', cf_Label = ''Device session reference'',
          cf_Secret = False, cf_Required = True\<rparr>])]\<rparr>"

lemma set_app_device_eq: "set_app_device = modify app_device_fields ''app-device''"
  by (rule ext) (simp add: set_app_device_def modify_def app_device_fields_def)

definition changed :: "string \<Rightarrow> Descriptor \<Rightarrow> Descriptor" where
  "changed pid d =
     fold (\<lambda>(k, f) d. if k = pid then f d else d) (changes @ [(''app-device'', app_device_fields)]) d"

lemma map_of_added:
  "map_of (added calls) pid =
     (case find (\<lambda>(factory, textOnly, ids). pid \<in> set ids) calls of
        None \<Rightarrow> None | Some (factory, textOnly, ids) \<Rightarrow> Some (new_descriptor factory textOnly pid))"
proof (induction calls)
  case (Cons call calls)
  obtain factory textOnly ids where call: "call = (factory, textOnly, ids)" by (cases call)
  have "map_of (map (\<lambda>i. (i, new_descriptor factory textOnly i)) ids) pid
      = (if pid \<in> set ids then Some (new_descriptor factory textOnly pid) else None)"
    by (induction ids) auto
  moreover have "added (call # calls)
      = map (\<lambda>i. (i, new_descriptor factory textOnly i)) ids @ added calls"
    by (simp add: added_def call)
  ultimately show ?case using Cons.IH by (simp add: call map_add_def)
qed (simp add: added_def)

lemma map_of_fold_modify:
  assumes "pid \<in> fst ` set xs \<Longrightarrow> map_of out pid \<noteq> None"
  shows "map_of (fold (\<lambda>x. modify (snd x) (fst x)) xs out) pid =
    map_option (\<lambda>d. fold (\<lambda>(k, f) d. if k = pid then f d else d) xs d) (map_of out pid)"
  using assms
proof (induction xs arbitrary: out)
  case (Cons x xs)
  have step: "map_of (modify (snd x) (fst x) out) pid =
      map_option (\<lambda>d. if fst x = pid then snd x d else d) (map_of out pid)"
    using Cons.prems by (auto simp: map_of_modify entry_def option.map_ident)
  have "map_of (fold (\<lambda>x. modify (snd x) (fst x)) xs (modify (snd x) (fst x) out)) pid =
    map_option (\<lambda>d. fold (\<lambda>(k, f) d. if k = pid then f d else d) xs d)
      (map_of (modify (snd x) (fst x) out) pid)"
    by (rule Cons.IH) (use Cons.prems in \<open>auto simp: step\<close>)
  then show ?case
    unfolding step by (cases x; cases "map_of out pid") simp_all
qed (simp add: option.map_id0)

lemma Lookup_code [code]:
  "Lookup pid =
     (case find (\<lambda>(factory, textOnly, ids). pid \<in> set ids) add_calls of
        None \<Rightarrow> None
      | Some (factory, textOnly, ids) \<Rightarrow>
          Some (derive pid (changed pid (new_descriptor factory textOnly pid))))"
proof -
  have derive: "map_of (map (\<lambda>(pid, d). (pid, derive pid d)) out) pid = map_option (derive pid) (map_of out pid)"
    for out :: registry by (induction out) auto
  let ?xs = "changes @ [(''app-device'', app_device_fields)]"
  have dom: "\<exists>d. map_of (added add_calls) pid = Some d" if "pid \<in> fst ` set ?xs"
  proof -
    from that have "pid \<in> set descriptor_ids" using changes_known app_device_known by auto
    then have "pid \<in> set (map fst (added add_calls))" by (simp only: added_add_calls_keys)
    then show ?thesis by (metis map_of_eq_None_iff not_Some_eq set_map)
  qed
  have "map_of (fold (\<lambda>x. modify (snd x) (fst x)) ?xs (added add_calls)) pid
      = map_option (changed pid) (map_of (added add_calls) pid)"
    unfolding changed_def
    by (rule map_of_fold_modify) (use dom in blast)
  then show ?thesis
    by (simp add: Lookup_def registry_eq passes_eq set_app_device_eq derive map_of_added
        option.map_comp comp_def split: option.split)
qed

lemma provider_Supports_code [code]:
  "provider_Supports pid protocol =
     (case Lookup pid of None \<Rightarrow> False | Some d \<Rightarrow> protocol \<in> set (d_Protocols d))"
  by (simp add: provider_Supports_def Lookup_def)

subsection \<open>Well-formed descriptors\<close>

text \<open>
  The contract of a descriptor. \<open>descriptor_base\<close> is kept by every pass before the last two; the
  device adapter gives up the fallback fields, and the last pass derives the login data.
\<close>

definition wire_protocols :: "string list" where
  "wire_protocols = [''chat'', ''responses'', ''messages'', ''gemini'']"

definition descriptor_common :: "string \<Rightarrow> Descriptor \<Rightarrow> bool" where
  "descriptor_common pid d =
     (d_ID d = pid \<and> d_Protocols d \<noteq> [] \<and> list_all (\<lambda>p. p \<in> set wire_protocols) (d_Protocols d)
      \<and> distinct (d_Protocols d) \<and> (d_TextOnly d \<longrightarrow> \<not> d_ToolsAllowed d)
      \<and> d_CredentialModes d \<noteq> [] \<and> distinct (d_CredentialModes d)
      \<and> (''username_password'' \<in> set (d_CredentialModes d) \<longrightarrow> pid \<in> set auth_check_ids)
      \<and> list_all (\<lambda>(m, fs). fs \<noteq> []) (d_CredentialFieldsByMode d)
      \<and> d_DefaultMaxInflight d = 1)"

definition descriptor_base :: "string \<Rightarrow> Descriptor \<Rightarrow> bool" where
  "descriptor_base pid d = (descriptor_common pid d \<and> d_CredentialFields d \<noteq> [])"

definition has_fields :: "Descriptor \<Rightarrow> bool" where
  "has_fields d = list_all (\<lambda>m. FieldsForMode d m \<noteq> []) (d_CredentialModes d)"

definition descriptor_ok :: "string \<Rightarrow> Descriptor \<Rightarrow> bool" where
  "descriptor_ok pid d =
     (descriptor_common pid d \<and> has_fields d
      \<and> list_all (\<lambda>m. m \<in> set (d_LoginMaterials d) \<union> set (d_InvokeCredentials d)) (d_CredentialModes d)
      \<and> list_all (\<lambda>m. m \<in> set (d_CredentialModes d) \<and> m \<noteq> ''username_password'') (d_InvokeCredentials d)
      \<and> list_all (\<lambda>m. m \<in> set (d_CredentialModes d) \<and> m = ''username_password'') (d_LoginMaterials d)
      \<and> (d_LoginMaterials d \<noteq> [] \<longrightarrow> d_BrowserAuthCheck d \<and> d_LoginFlow d = ''interactive_browser'')
      \<and> (d_BrowserRequired d \<longrightarrow> d_LoginFlow d = ''interactive_browser''
           \<and> d_SessionAcquisition d \<noteq> ''explicit_import'')
      \<and> (''oauth'' \<in> set (d_CredentialModes d) \<longleftrightarrow>
           d_RefreshStrategy d = ''oauth_grant_if_configured_else_reauthorize''))"

lemma base_new: "descriptor_base pid (new_descriptor factory textOnly pid)"
  by (simp add: descriptor_base_def descriptor_common_def new_descriptor_def zero_Descriptor_def
      wire_protocols_def)

lemma protocol_table_ok:
  "list_all (\<lambda>(pid, ps). ps \<noteq> [] \<and> distinct ps \<and> list_all (\<lambda>p. p \<in> set wire_protocols) ps) protocol_table"
  by code_simp

lemma base_changes:
  assumes "x \<in> set changes" "descriptor_base (fst x) d"
  shows "descriptor_base (fst x) (snd x d)"
proof -
  note defs = descriptor_base_def descriptor_common_def
  have "descriptor_base k (d_Protocols_update (\<lambda>_. ps) d)"
    if "(k, ps) \<in> set protocol_table" "descriptor_base k d" for k ps
    using that protocol_table_ok by (auto simp: defs list_all_iff)
  moreover have "descriptor_base k (browser_required d)" if "descriptor_base k d" for k
    using that by (simp add: defs browser_required_def)
  moreover have "descriptor_base k (password_login d)"
    if "k \<in> set auth_check_ids" "descriptor_base k d" for k
    using that by (simp add: defs password_login_def password_fields_def)
  moreover have "descriptor_base k (api_key_only d)" if "descriptor_base k d" for k
    using that by (auto simp: defs api_key_only_def split: list.split)
  moreover have "descriptor_base k (d_BrowserAuthCheck_update (\<lambda>_. True) d)" if "descriptor_base k d" for k
    using that by (simp add: defs)
  moreover have "descriptor_base k (d_CredentialModes_update (\<lambda>_. [''oauth'', ''cli_session'', ''api_key'']) d)"
    if "descriptor_base k d" for k
    using that by (simp add: defs)
  moreover have "descriptor_base k (d_ToolsAllowed_update (\<lambda>_. False) d)" if "descriptor_base k d" for k
    using that by (simp add: defs)
  ultimately show ?thesis using assms by (auto simp: changes_def)
qed

lemma changed_base:
  "\<forall>(k, d) \<in> set (fold (\<lambda>x. modify (snd x) (fst x)) changes (added add_calls)). descriptor_base k d"
proof (rule fold_modify_all)
  show "fst ` set changes \<subseteq> set (map fst (added add_calls))"
    using changes_known by (simp add: added_add_calls_keys del: set_map) simp
  show "distinct (map fst (added add_calls))"
    by (simp add: added_add_calls_keys descriptor_ids_distinct)
  show "\<forall>(k, d) \<in> set (added add_calls). descriptor_base k d"
    by (auto simp: added_def base_new)
qed (rule base_changes)

lemma base_has_fields: "descriptor_base k d \<Longrightarrow> has_fields d"
  by (auto simp: has_fields_def list_all_iff FieldsForMode_def descriptor_base_def
      descriptor_common_def split: option.split dest!: map_of_SomeD)

definition descriptor_final :: "string \<Rightarrow> Descriptor \<Rightarrow> bool" where
  "descriptor_final k d = (descriptor_common k d \<and> has_fields d)"

lemma final_entries:
  "\<forall>(k, d) \<in> set (set_app_device (fold (\<lambda>x. modify (snd x) (fst x)) changes (added add_calls))).
     descriptor_final k d"
  unfolding set_app_device_eq
proof (rule map_of_modify_all)
  let ?out = "fold (\<lambda>x. modify (snd x) (fst x)) changes (added add_calls)"
  show "''app-device'' \<in> set (map fst ?out)" "distinct (map fst ?out)"
    by (simp_all only: changed_keys app_device_known descriptor_ids_distinct)
  show "\<forall>(k, d) \<in> set ?out. descriptor_final k d"
    using changed_base by (auto simp: descriptor_final_def base_has_fields) (auto simp: descriptor_base_def)
  show "descriptor_final ''app-device'' (app_device_fields d)" if "descriptor_final ''app-device'' d" for d
    using that by (simp add: descriptor_final_def descriptor_common_def app_device_fields_def
        has_fields_def FieldsForMode_def)
qed

lemma auth_check_entries:
  "list_all (\<lambda>pid. case Lookup pid of None \<Rightarrow> False | Some d \<Rightarrow> d_BrowserAuthCheck d) auth_check_ids"
  by code_simp

lemma registry_distinct: "distinct (map fst registry)"
  by (simp add: registry_keys descriptor_ids_distinct)

lemma derive_frame:
  "d_ID (derive pid d) = d_ID d" "d_Protocols (derive pid d) = d_Protocols d"
  "d_TextOnly (derive pid d) = d_TextOnly d" "d_ToolsAllowed (derive pid d) = d_ToolsAllowed d"
  "d_CredentialModes (derive pid d) = d_CredentialModes d"
  "d_CredentialFields (derive pid d) = d_CredentialFields d"
  "d_CredentialFieldsByMode (derive pid d) = d_CredentialFieldsByMode d"
  "d_DefaultMaxInflight (derive pid d) = d_DefaultMaxInflight d"
  by (simp_all add: derive_def)

lemma derive_common: "descriptor_common k (derive pid d) = descriptor_common k d"
  by (simp add: descriptor_common_def derive_frame)

lemma derive_has_fields: "has_fields (derive pid d) = has_fields d"
  unfolding has_fields_def FieldsForMode_def derive_frame by (rule refl)

lemma descriptor_ok_derive:
  assumes "descriptor_final pid d"
    "''username_password'' \<in> set (d_CredentialModes d) \<Longrightarrow> d_BrowserAuthCheck d"
  shows "descriptor_ok pid (derive pid d)"
  unfolding descriptor_ok_def
proof (intro conjI)
  show "descriptor_common pid (derive pid d)" "has_fields (derive pid d)"
    using assms(1) by (simp_all add: descriptor_final_def derive_common derive_has_fields)
  show "d_LoginMaterials (derive pid d) \<noteq> [] \<longrightarrow>
    d_BrowserAuthCheck (derive pid d) \<and> d_LoginFlow (derive pid d) = ''interactive_browser''"
    using assms(2) by (auto simp: derive_def filter_empty_conv)
qed (auto simp: derive_def list_all_iff)

lemma registry_ok: "(pid, d) \<in> set registry \<Longrightarrow> descriptor_ok pid d"
proof -
  assume mem: "(pid, d) \<in> set registry"
  then obtain d0 where d: "d = derive pid d0" and final: "descriptor_final pid d0"
    using final_entries by (auto simp: registry_eq passes_eq)
  from mem registry_distinct have "Lookup pid = Some d" by (simp add: Lookup_def)
  with auth_check_entries have "pid \<in> set auth_check_ids \<Longrightarrow> d_BrowserAuthCheck d"
    by (auto simp: list_all_iff)
  then have "''username_password'' \<in> set (d_CredentialModes d0) \<Longrightarrow> d_BrowserAuthCheck d0"
    using final by (simp add: d derive_def descriptor_final_def descriptor_common_def)
  with final show ?thesis unfolding d by (rule descriptor_ok_derive)
qed

subsection \<open>The properties of the registry\<close>

text \<open>C30. Building the provider registry never panics on a duplicate id, and the table that results has one
  well-formed descriptor for each of the ids of the \<open>add\<close> calls and no other entry: known wire
  protocols, no tools on a text-only adapter, a field template for every credential mode, login
  materials and invocation credentials that split the credential modes, and password login only
  where the adapter has a browser authentication check.\<close>

theorem registry_wellformed:
  "build = Some registry \<and> map fst registry = descriptor_ids \<and> distinct descriptor_ids \<and>
   list_all (\<lambda>(pid, d). descriptor_ok pid d) registry"
  using registry_ok by (auto simp: build_Some registry_keys descriptor_ids_distinct list_all_iff)

text \<open>\<open>All_descriptors\<close> lists exactly the descriptors that \<open>Lookup\<close> finds, in increasing order of their ids and
  each id once, and \<open>Supports\<close> answers as the descriptor that \<open>Lookup\<close> returns.\<close>

lemma registry_listing:
  "sorted_wrt (<) (map d_ID All_descriptors) \<and> set (map d_ID All_descriptors) = {pid. Lookup pid \<noteq> None} \<and>
   set All_descriptors = {d. Lookup (d_ID d) = Some d} \<and>
   provider_Supports pid protocol = (\<exists>d \<in> set All_descriptors. d_ID d = pid \<and> protocol \<in> set (d_Protocols d))"
proof -
  have ids: "d_ID d = k" if "(k, d) \<in> set registry" for k d
    using registry_ok [OF that] by (simp add: descriptor_ok_def descriptor_common_def)
  have names: "map d_ID (map snd registry) = descriptor_ids"
  proof -
    have "map d_ID (map snd registry) = map fst registry" using ids by auto
    then show ?thesis by (simp only: registry_keys)
  qed
  have "distinct (map d_ID (map snd registry))"
    unfolding names by (rule descriptor_ids_distinct)
  then have "distinct (map d_ID All_descriptors)"
    unfolding All_descriptors_def by (metis distinct_map distinct_sort set_sort)
  then have 1: "sorted_wrt (<) (map d_ID All_descriptors)"
    unfolding strict_sorted_iff by (simp add: All_descriptors_def)
  have look: "Lookup k = Some d \<longleftrightarrow> (k, d) \<in> set registry" for k d
    using registry_distinct by (simp add: Lookup_def)
  have 2: "set All_descriptors = {d. Lookup (d_ID d) = Some d}"
  proof (rule set_eqI)
    fix d
    have "d \<in> set All_descriptors \<longleftrightarrow> (\<exists>k. (k, d) \<in> set registry)"
      by (simp add: All_descriptors_def image_iff Bex_def)
    also have "\<dots> \<longleftrightarrow> (d_ID d, d) \<in> set registry" using ids [of _ d] by blast
    finally show "d \<in> set All_descriptors \<longleftrightarrow> d \<in> {d. Lookup (d_ID d) = Some d}" by (simp add: look)
  qed
  have 3: "set (map d_ID All_descriptors) = {pid. Lookup pid \<noteq> None}"
    unfolding list.set_map 2
  proof (rule set_eqI)
    fix k
    show "k \<in> d_ID ` {d. Lookup (d_ID d) = Some d} \<longleftrightarrow> k \<in> {pid. Lookup pid \<noteq> None}"
      using ids [of k] look [of k] by (cases "Lookup k") (auto simp: image_iff)
  qed
  have 4: "provider_Supports pid protocol = (\<exists>d \<in> set All_descriptors. d_ID d = pid \<and> protocol \<in> set (d_Protocols d))"
  proof (cases "Lookup pid")
    case (Some d)
    then have "d_ID d = pid" using ids look by blast
    with Some show ?thesis by (auto simp: 2 provider_Supports_code)
  qed (auto simp: 2 provider_Supports_code)
  from 1 2 3 4 show ?thesis by blast
qed

end
