(* ===== verification/ConfigValidate.thy ===== *)
theory ConfigValidate
  imports Config GoNet ProviderDef
begin

section \<open>Validation of a configuration\<close>

text \<open>
  \<open>Validate\<close>, \<open>ValidateAccounts\<close>, \<open>ValidateBrowserProfiles\<close> and \<open>validateAccountMetadata\<close> of
  \<open>internal/config\<close>, with every error text. A loop of the source that stops at the first error is
  \<open>check_each\<close>: the checks of one element against what the earlier elements left in the local maps, then
  the update of those maps. The locale \<open>unique_loop\<close> is the contract of the loops that refuse a
  repeated key; each such loop is an interpretation.
\<close>

fun check_each :: "('s \<Rightarrow> 'a \<Rightarrow> check) \<Rightarrow> ('s \<Rightarrow> 'a \<Rightarrow> 's) \<Rightarrow> 's \<Rightarrow> 'a list \<Rightarrow> 's result" where
  "check_each chk upd s [] = Inr s"
| "check_each chk upd s (x # xs) =
     (case chk s x of Some e \<Rightarrow> Inl e | None \<Rightarrow> check_each chk upd (upd s x) xs)"

text \<open>A loop without local state.\<close>

definition check_all :: "('a \<Rightarrow> check) \<Rightarrow> 'a list \<Rightarrow> check" where
  "check_all chk xs = first_error (map chk xs)"

definition error_of :: "'s result \<Rightarrow> check" where
  "error_of r = (case r of Inl e \<Rightarrow> Some e | Inr s \<Rightarrow> None)"

lemma check_all_None: "check_all chk xs = None \<longleftrightarrow> (\<forall>x \<in> set xs. chk x = None)"
  by (auto simp: check_all_def)

lemma error_of_None: "error_of r = None \<longleftrightarrow> (\<exists>s. r = Inr s)"
  by (cases r) (auto simp: error_of_def)

lemma check_each_checked:
  "check_each chk upd s xs = Inr s' \<Longrightarrow> x \<in> set xs \<Longrightarrow> \<exists>t. chk t x = None"
  by (induction xs arbitrary: s) (auto split: option.splits)

text \<open>The loops that refuse a repeated key.\<close>

locale unique_loop =
  fixes chk :: "'s \<Rightarrow> 'a \<Rightarrow> check" and upd :: "'s \<Rightarrow> 'a \<Rightarrow> 's"
    and seen :: "'s \<Rightarrow> 'k set" and key :: "'a \<Rightarrow> 'k"
  assumes rejects: "chk s x = None \<Longrightarrow> key x \<notin> seen s"
    and records: "seen (upd s x) = insert (key x) (seen s)"
begin

lemma unique_keys:
  "check_each chk upd s xs = Inr s' \<Longrightarrow>
   distinct (map key xs) \<and> seen s \<inter> key ` set xs = {} \<and> seen s' = seen s \<union> key ` set xs"
proof (induction xs arbitrary: s)
  case (Cons x xs)
  then have c: "chk s x = None" and r: "check_each chk upd (upd s x) xs = Inr s'"
    by (auto split: option.splits)
  from Cons.IH [OF r] rejects [OF c] show ?case by (auto simp: records)
qed auto

end

subsection \<open>Browser profiles\<close>

definition BrowserEngines :: "string list" where
  "BrowserEngines = [''chrome'', ''edge'', ''brave'', ''firefox'', ''opera'', ''vivaldi'', ''chromium'', ''arc'']"

definition containsBrowserEngine :: "string \<Rightarrow> bool" where
  "containsBrowserEngine engine = contains BrowserEngines engine"

text \<open>The regular expression \<open>^/devtools/browser/[A-Za-z0-9-]{8,128}$\<close>.\<close>

definition devtools_path :: "string \<Rightarrow> bool" where
  "devtools_path p =
     (HasPrefix p ''/devtools/browser/'' \<and>
      (let t = TrimPrefix p ''/devtools/browser/'' in
       8 \<le> length t \<and> length t \<le> 128 \<and> list_all (\<lambda>c. is_alnum c \<or> c = CHR ''-'') t))"

text \<open>An address of the host itself: \<open>ip != nil && ip.IsLoopback()\<close>.\<close>

definition loopback_ip :: "string \<Rightarrow> bool" where
  "loopback_ip host = (case ParseIP host of None \<Rightarrow> False | Some ip \<Rightarrow> IsLoopback ip)"

definition bare_url :: "URL \<Rightarrow> bool" where
  "bare_url u = (\<not> url_User u \<and> url_RawQuery u = '''' \<and> url_Fragment u = '''')"

definition cdp_endpoint_ok :: "BrowserProfile \<Rightarrow> URL \<Rightarrow> bool" where
  "cdp_endpoint_ok p u =
     (let port = (case Atoi (Port u) of Some n \<Rightarrow> n | None \<Rightarrow> 0);
          normal = (url_Scheme u = ''http'' \<and> (url_Path u = '''' \<or> url_Path u = ''/''));
          externalWS = (bp_External p \<and> bp_Engine p \<noteq> ''firefox'' \<and> url_Scheme u = ''ws'' \<and>
            devtools_path (url_Path u))
      in (normal \<or> externalWS) \<and> loopback_ip (Hostname u) \<and> 1024 \<le> port \<and> port \<le> 65535 \<and> bare_url u)"

record profile_loop =
  pl_ids :: "string list"
  pl_endpoints :: "string list"

definition check_profile :: "profile_loop \<Rightarrow> BrowserProfile \<Rightarrow> check" where
  "check_profile st p =
     (if \<not> identifier_MatchString (bp_ID p) \<or> bp_ID p \<in> set (pl_ids st)
      then Some ''invalid or duplicate browser profile id''
      else if \<not> containsBrowserEngine (bp_Engine p)
      then Some (''profile '' @ bp_ID p @ '': unsupported browser engine'')
      else (case url_Parse (bp_CDPURL p) of
              None \<Rightarrow> Some (''profile '' @ bp_ID p @ '': invalid CDP URL'')
            | Some u \<Rightarrow>
                if \<not> cdp_endpoint_ok p u
                then Some (''profile '' @ bp_ID p @
                  '': CDP must be loopback HTTP or an external browser WebSocket with port 1024..65535'')
                else if Port u \<in> set (pl_endpoints st)
                then Some ''browser profiles must use distinct CDP ports''
                else None))"

definition profile_port :: "BrowserProfile \<Rightarrow> string" where
  "profile_port p = (case url_Parse (bp_CDPURL p) of None \<Rightarrow> '''' | Some u \<Rightarrow> Port u)"

definition record_profile :: "profile_loop \<Rightarrow> BrowserProfile \<Rightarrow> profile_loop" where
  "record_profile st p = st\<lparr>pl_ids := bp_ID p # pl_ids st,
     pl_endpoints := profile_port p # pl_endpoints st\<rparr>"

definition default_browser_check :: "Browser \<Rightarrow> check" where
  "default_browser_check b =
     (if browser_Engine b \<noteq> '''' \<and> \<not> containsBrowserEngine (browser_Engine b)
      then Some ''unsupported default browser engine''
      else if browser_Engine b = ''firefox'' \<and>
        (case url_Parse (browser_CDPURL b) of
           None \<Rightarrow> True
         | Some u \<Rightarrow> Port u = '''' \<or> (url_Path u \<noteq> '''' \<and> url_Path u \<noteq> ''/''))
      then Some ''Firefox default browser requires a port and no endpoint path''
      else None)"

definition ValidateBrowserProfiles :: "Config \<Rightarrow> check" where
  "ValidateBrowserProfiles c =
     (case default_browser_check (cfg_Browser c) of
        Some e \<Rightarrow> Some e
      | None \<Rightarrow>
          if 64 < length (cfg_BrowserProfiles c) then Some ''browser registry exceeds 64 profiles''
          else (case check_each check_profile record_profile \<lparr>pl_ids = [], pl_endpoints = []\<rparr>
                       (cfg_BrowserProfiles c) of
                  Inl e \<Rightarrow> Some e
                | Inr st \<Rightarrow> check_all
                    (\<lambda>a. fail_if (account_BrowserProfileID a \<noteq> '''' \<and>
                        account_BrowserProfileID a \<notin> set (pl_ids st))
                      (''account '' @ account_ID a @ '': unknown browser profile''))
                    (cfg_Accounts c)))"

subsection \<open>Providers, accounts and their sources\<close>

definition loopback_host :: "string \<Rightarrow> bool" where
  "loopback_host host = (host = ''localhost'' \<or> loopback_ip host)"

text \<open>The endpoint rule accounts and sources share: a host, nothing secret, HTTPS off the machine.\<close>

definition plain_endpoint :: "URL option \<Rightarrow> bool" where
  "plain_endpoint u = (case u of None \<Rightarrow> False | Some v \<Rightarrow> url_Host v \<noteq> '''' \<and> bare_url v)"

definition secure_endpoint :: "URL \<Rightarrow> bool" where
  "secure_endpoint u =
     (url_Scheme u = ''https'' \<or> (url_Scheme u = ''http'' \<and> loopback_host (Hostname u)))"

definition validateAccountMetadata :: "Account \<Rightarrow> check" where
  "validateAccountMetadata a =
     (if field_too_long (account_Organization a)
      then Some (''account '' @ account_ID a @ '': invalid organization'')
      else if field_too_long (account_Project a)
      then Some (''account '' @ account_ID a @ '': invalid project'')
      else if field_too_long (account_ExpectedIdentity a)
      then Some (''account '' @ account_ID a @ '': invalid expected_identity'')
      else if account_BaseURL a = '''' then None
      else (case url_Parse (account_BaseURL a) of
              None \<Rightarrow> Some (''account '' @ account_ID a @ '': invalid base_url'')
            | Some u \<Rightarrow>
                if url_Host u = '''' \<or> \<not> bare_url u
                then Some (''account '' @ account_ID a @ '': invalid base_url'')
                else if \<not> secure_endpoint u
                then Some (''account '' @ account_ID a @ '': base_url must use HTTPS outside loopback'')
                else None))"

definition check_provider :: "string list \<Rightarrow> Provider \<Rightarrow> check" where
  "check_provider providers p =
     (if \<not> identifier_MatchString (provider_ID p) \<or> provider_ID p \<in> set providers
      then Some ''invalid or duplicate provider id''
      else if provider_PoolStrategy p \<notin> set ['''', ''round-robin'', ''least-load'', ''sticky'', ''weighted'']
      then Some (''provider '' @ provider_ID p @ '': invalid pool strategy'')
      else None)"

definition record_provider :: "string list \<Rightarrow> Provider \<Rightarrow> string list" where
  "record_provider providers p = provider_ID p # providers"

definition check_account :: "string list \<Rightarrow> (string \<times> Account) list \<Rightarrow> Account \<Rightarrow> check" where
  "check_account providers accounts a =
     (if account_VerificationState a \<notin> set ['''', ''verified'', ''unverified'', ''unfilled'', ''invalid'']
      then Some (''account '' @ account_ID a @ '': invalid verification state'')
      else if \<not> identifier_MatchString (account_ID a) \<or>
        (case map_of accounts (account_ID a) of None \<Rightarrow> False | Some b \<Rightarrow> account_ID b \<noteq> '''')
      then Some ''invalid or duplicate account id''
      else if account_ProviderID a \<notin> set providers
      then Some (''account '' @ account_ID a @ '': unknown provider'')
      else if \<not> ValidCredentialRef (account_CredentialRef a) \<or> \<not> ValidCredentialRef (account_LoginCredentialRef a)
      then Some (''account '' @ account_ID a @ '': invalid credential reference'')
      else (case validateAccountMetadata a of
              Some e \<Rightarrow> Some e
            | None \<Rightarrow>
                if account_MaxInflight a < 1 \<or> account_MaxInflight a > 10000 \<or> account_Weight a < 1 \<or>
                  account_Weight a > 10000 \<or> \<not> identifier_MatchString (account_QuotaDomain a)
                then Some (''account '' @ account_ID a @ '': invalid capacity, weight or quota domain'')
                else None))"

definition record_account :: "(string \<times> Account) list \<Rightarrow> Account \<Rightarrow> (string \<times> Account) list" where
  "record_account accounts a = (account_ID a, a) # accounts"

definition check_binding :: "(string \<times> Account) list \<Rightarrow> Source \<Rightarrow> check" where
  "check_binding accounts s =
     (if \<not> ValidCredentialRef (source_CredentialRef s)
      then Some (''source '' @ source_ID s @ '': invalid credential reference'')
      else if source_AccountID s = '''' then None
      else (case map_of accounts (source_AccountID s) of
              None \<Rightarrow> Some (''source '' @ source_ID s @ '': unknown account or provider mismatch'')
            | Some a \<Rightarrow>
                if account_ProviderID a \<noteq> source_Provider s
                then Some (''source '' @ source_ID s @
                  '': account provider changed while source is bound; migrate source first'')
                else if source_QuotaDomain s \<noteq> account_QuotaDomain a
                then Some (''source '' @ source_ID s @ '': quota domain must match its account'')
                else if source_CredentialRef s \<noteq> '''' \<and> account_CredentialRef a \<noteq> '''' \<and>
                  source_CredentialRef s \<noteq> account_CredentialRef a
                then Some (''source '' @ source_ID s @ '': conflicting account credential'')
                else None))"

definition ValidateAccounts :: "Config \<Rightarrow> check" where
  "ValidateAccounts c =
     (case ValidateBrowserProfiles c of
        Some e \<Rightarrow> Some e
      | None \<Rightarrow>
          (case check_each check_provider record_provider [] (cfg_Providers c) of
             Inl e \<Rightarrow> Some e
           | Inr providers \<Rightarrow>
               (case check_each (check_account providers) record_account [] (cfg_Accounts c) of
                  Inl e \<Rightarrow> Some e
                | Inr accounts \<Rightarrow> check_all (check_binding accounts) (cfg_Sources c))))"

subsection \<open>Sources\<close>

definition runtime_limits_ok :: "Runtime \<Rightarrow> bool" where
  "runtime_limits_ok r = (\<not> (rt_MaxInflight r < 1 \<or> rt_MaxInflight r > 10000 \<or> rt_MaxQueued r < 0 \<or>
     rt_MaxQueued r > 10000 \<or> rt_MaxBodyBytes r < 1 \<or> rt_MaxBodyBytes r > 64 * 2 ^ 20 \<or>
     rt_MaxBufferedBytes r < rt_MaxBodyBytes r \<or> rt_MaxBufferedBytes r > 2 * 2 ^ 30 \<or>
     rt_MaxOutputBytes r < 1 \<or> rt_QueueTimeoutMS r < 1 \<or> rt_RequestTimeoutMS r < 1 \<or>
     rt_WriteTimeoutMS r < 1 \<or> rt_BodyReadTimeoutMS r < 1))"

definition server_check :: "Config \<Rightarrow> check" where
  "server_check c =
     (if cfg_SchemaVersion c \<noteq> 1 then Some ''unsupported schema_version''
      else (case SplitHostPort (cfg_Listen c) of
              None \<Rightarrow> Some ''listen must be host:port''
            | Some (host, port) \<Rightarrow>
                if host = '''' then Some ''listen must specify an explicit host''
                else if \<not> runtime_limits_ok (cfg_Runtime c) then Some ''invalid runtime resource limits''
                else None))"

text \<open>The local variables of the source loop.\<close>

record source_loop =
  sl_ids :: "string list"
  sl_domains :: "(string \<times> int) list"
  sl_chatgptProfiles :: "string list"
  sl_browserCount :: int
  sl_doubaoBrowserCount :: int
  sl_geminiBrowserCount :: int
  sl_gigaChatBrowserCount :: int
  sl_buildBrowserCount :: int

definition source_loop_start :: source_loop where
  "source_loop_start = \<lparr>sl_ids = [], sl_domains = [], sl_chatgptProfiles = [], sl_browserCount = 0,
     sl_doubaoBrowserCount = 0, sl_geminiBrowserCount = 0, sl_gigaChatBrowserCount = 0,
     sl_buildBrowserCount = 0\<rparr>"

text \<open>The guards of the adapters that drive a browser.\<close>

definition browser_adapter_check :: "Config \<Rightarrow> source_loop \<Rightarrow> Source \<Rightarrow> check" where
  "browser_adapter_check c st s =
     (let browser = SourceBrowser c s; off = (source_Enabled s \<and> \<not> browser_Enabled browser);
          single = (source_MaxInflight s = 1 \<and> source_QuotaMaxInflight s = 1) in
      if source_Adapter s = ''chatgpt-web'' then
        (if browser_CDPURL browser \<in> set (sl_chatgptProfiles st)
         then Some ''one ChatGPT web source per browser profile is supported''
         else if off then Some ''chatgpt-web requires browser.enabled''
         else if \<not> single then Some ''ChatGPT web account and browser concurrency must be one''
         else None)
      else if source_Adapter s = ''doubao'' then
        (if off then Some ''doubao requires browser.enabled'' else None)
      else if source_Adapter s = ''gemini-web'' then
        (if off then Some ''gemini-web requires browser.enabled''
         else if \<not> single then Some ''Gemini Web account and browser concurrency must be one''
         else None)
      else if source_Adapter s = ''gigachat-web'' then
        (if off then Some ''gigachat-web requires browser.enabled''
         else if \<not> single then Some ''GigaChat Web account and browser concurrency must be one''
         else None)
      else if source_Adapter s = ''cloudflare-playground'' then
        (if off then Some ''cloudflare-playground requires browser.enabled''
         else if TrimRight (source_BaseURL s) (CHR ''/'') \<noteq> ''https://playground.ai.cloudflare.com''
         then Some ''cloudflare-playground uses its public browser origin''
         else if source_MaxInflight s \<noteq> 1
         then Some ''cloudflare-playground browser concurrency must be one''
         else None)
      else if source_Adapter s = ''aistudio-build'' then
        (if off then Some ''aistudio-build requires browser.enabled''
         else if \<not> single then Some ''AI Studio Build account and browser concurrency must be one''
         else None)
      else None)"

definition device_models :: "string \<Rightarrow> string" where
  "device_models provider =
     (if provider = ''meituan-xiaotuan'' then ''meituan_xiaotuan''
      else if provider = ''wangzhe-lingbao'' then ''wangzhe_lingbao''
      else if provider = ''douyin-xiaohuoren'' then ''douyin_xiaohuoren'' else '''')"

definition path_IsAbs :: "string \<Rightarrow> bool" where
  "path_IsAbs p = HasPrefix p ''/''"

definition device_ready :: "Device \<Rightarrow> Source \<Rightarrow> bool" where
  "device_ready d s =
     (\<not> (\<not> device_Enabled d \<or> \<not> path_IsAbs (device_ADBPath d) \<or> \<not> path_IsAbs (device_OCRPath d) \<or>
         \<not> path_IsAbs (device_StateDir d) \<or> device_Serial d = '''' \<or>
         ContainsAny (device_Serial d) [CHR 0x0D, CHR 0x0A, CHR 0x00] \<or> device_ClipboardSyncMS d < 200 \<or>
         device_ClipboardSyncMS d > 5000 \<or> source_Project s \<noteq> ''current-app-session''))"

definition device_check :: "Config \<Rightarrow> Source \<Rightarrow> check" where
  "device_check c s =
     (if source_Adapter s \<noteq> ''app-device'' then None
      else if device_models (source_Provider s) = '''' \<or> source_BaseURL s \<noteq> ''adb://current-app-session'' \<or>
        source_Local s \<or> source_AutoApproved s \<or> \<not> source_Anonymous s \<or> source_KeyEnv s \<noteq> '''' \<or>
        source_MaxInflight s \<noteq> 1 \<or> source_QuotaMaxInflight s \<noteq> 1 \<or> source_QuotaDomain s \<noteq> ''android-device''
      then Some (''source '' @ source_ID s @
        '': device providers require manual routing, android-device capacity one, and adb://current-app-session'')
      else if source_Enabled s \<and> \<not> device_ready (cfg_Device c) s
      then Some (''source '' @ source_ID s @
        '': enabled device requires explicit paths, serial, sync delay and project current-app-session'')
      else check_all (\<lambda>m. fail_if (model_Upstream m \<noteq> device_models (source_Provider s))
        (''source '' @ source_ID s @ '': unknown device model selector'')) (source_Models s))"

definition project_check :: "Source \<Rightarrow> check" where
  "project_check s =
     (if (source_Adapter s = ''gemini-cli'' \<or> source_Adapter s = ''antigravity'') \<and> source_Project s = ''''
      then Some (''source '' @ source_ID s @ '': Code Assist project required'')
      else if source_Adapter s = ''weread-ai'' \<and> TrimSpace (source_Project s) = ''''
      then Some (''source '' @ source_ID s @ '': WeRead book ID required in project'')
      else None)"

definition endpoint_check :: "Source \<Rightarrow> check" where
  "endpoint_check s =
     (if source_Adapter s = ''app-device'' then None
      else if source_Adapter s = ''devin-cli'' then
        fail_if (source_BaseURL s \<noteq> ''devin://acp/stdio'' \<or> \<not> source_Local s)
          (''source '' @ source_ID s @ '': Devin CLI requires local base_url devin://acp/stdio'')
      else if source_Adapter s = ''zcode'' then
        fail_if (source_BaseURL s \<noteq> ''zcode://app-server/stdio'' \<or> \<not> source_Local s)
          (''source '' @ source_ID s @ '': ZCode requires local base_url zcode://app-server/stdio'')
      else (case url_Parse (source_BaseURL s) of
              None \<Rightarrow> Some (''source '' @ source_ID s @ '': invalid base_url'')
            | Some u \<Rightarrow>
                if url_Host u = '''' \<or> \<not> bare_url u
                then Some (''source '' @ source_ID s @ '': invalid base_url'')
                else if \<not> secure_endpoint u
                then Some (''source '' @ source_ID s @ '': HTTPS required outside loopback'')
                else if source_Local s \<and> \<not> loopback_host (Hostname u)
                then Some (''source '' @ source_ID s @ '': local requires loopback endpoint'')
                else None))"

definition keyless_adapters :: "string list" where
  "keyless_adapters = [''chatgpt-web'', ''doubao'', ''gemini-web'', ''gigachat-web'', ''duckduckgo-web'',
     ''aistudio-build'']"

definition capacity_check :: "Config \<Rightarrow> source_loop \<Rightarrow> Source \<Rightarrow> check" where
  "capacity_check c st s = first_error
     [fail_if (\<not> source_Local s \<and> \<not> source_Anonymous s \<and> source_KeyEnv s = '''' \<and>
          SourceCredentialRef c s = '''' \<and> source_Adapter s \<notin> set keyless_adapters)
        (''source '' @ source_ID s @ '': key_env required''),
      fail_if (source_MaxInflight s < 1 \<or> source_MaxInflight s > 10000 \<or> source_QuotaDomain s = '''' \<or>
          source_QuotaMaxInflight s < 1 \<or> source_QuotaMaxInflight s > 10000)
        (''source '' @ source_ID s @ '': explicit source and quota capacity required''),
      fail_if (source_Models s = [])
        (''source '' @ source_ID s @ '': at least one model is required''),
      fail_if (case map_of (sl_domains st) (source_QuotaDomain s) of
                 None \<Rightarrow> False | Some n \<Rightarrow> n \<noteq> source_QuotaMaxInflight s)
        (''inconsistent quota limit for '' @ source_QuotaDomain s)]"

definition config_Supports :: "string \<Rightarrow> string \<Rightarrow> bool" where
  "config_Supports adapter p = provider_Supports adapter p"

definition check_model :: "Source \<Rightarrow> Descriptor \<Rightarrow> string list \<Rightarrow> Model \<Rightarrow> check" where
  "check_model s descriptor models m = first_error
     ([fail_if (model_ID m = '''' \<or> length (model_ID m) > 256 \<or> HasPrefix (model_ID m) ''auto'' \<or>
          model_ID m \<in> set models \<or> model_Upstream m = '''' \<or> length (model_Upstream m) > 1024 \<or>
          ContainsAny (model_Upstream m) [CHR ''?'', CHR ''#'', CHR 0x5C])
        (''source '' @ source_ID s @ '': invalid model''),
      fail_if (\<not> ValidPrice (model_InputUSDPerMillion m) \<or> \<not> ValidPrice (model_OutputUSDPerMillion m))
        (''source '' @ source_ID s @ '': invalid model USD rate''),
      fail_if (model_Tier m \<noteq> ''unrated'' \<and> (Tier (model_Tier m) < 0 \<or> model_RatingBasis m = ''''))
        (''source '' @ source_ID s @ '': rated models require rating_basis''),
      fail_if (model_MaxInputBytes m < 1 \<or> model_Protocols m = [])
        (''source '' @ source_ID s @ '': model limits and protocols required''),
      fail_if (model_Tools m \<noteq> ''native'' \<and> model_Tools m \<noteq> ''none'' \<and> model_Tools m \<noteq> ''unknown'')
        (''source '' @ source_ID s @ '': invalid tools capability''),
      fail_if (d_TextOnly descriptor \<and> (model_Tools m \<noteq> ''none'' \<or> model_Vision m))
        (''source '' @ source_ID s @ '': text adapter requires tools none and vision false''),
      fail_if (\<not> d_ToolsAllowed descriptor \<and> model_Tools m \<noteq> ''none'')
        (''source '' @ source_ID s @ '': adapter requires tools none'')] @
      map (\<lambda>p. fail_if (\<not> config_Supports (source_Adapter s) p)
        (''source '' @ source_ID s @ '': adapter does not support '' @ p)) (model_Protocols m))"

definition record_model :: "string list \<Rightarrow> Model \<Rightarrow> string list" where
  "record_model models m = model_ID m # models"

text \<open>One iteration of the source loop: \<open>s\<close> is the source with its account's defaults.\<close>

definition check_source :: "Config \<Rightarrow> source_loop \<Rightarrow> Source \<Rightarrow> check" where
  "check_source c st configured =
     (let s = EffectiveSource c configured in
      if source_Weight s < 0 \<or> source_Weight s > 10000
      then Some (''source '' @ source_ID s @ '': invalid weight'')
      else (case ValidateMetadata s of
              Some e \<Rightarrow> Some (''source '' @ source_ID s @ '': '' @ e)
            | None \<Rightarrow>
                if \<not> identifier_MatchString (source_ID s) \<or> source_ID s \<in> set (sl_ids st)
                then Some (''invalid or duplicate source id: '' @ source_ID s)
                else (case Lookup (source_Adapter s) of
                        None \<Rightarrow> Some (''source '' @ source_ID s @ '': unsupported adapter'')
                      | Some descriptor \<Rightarrow> first_error
                          [browser_adapter_check c st s, project_check s, device_check c s,
                           endpoint_check s, capacity_check c st s,
                           error_of (check_each (check_model s descriptor) record_model [] (source_Models s))])))"

definition count_adapter :: "string \<Rightarrow> Source \<Rightarrow> int" where
  "count_adapter adapter s = (if source_Adapter s = adapter then 1 else 0)"

definition record_source :: "Config \<Rightarrow> source_loop \<Rightarrow> Source \<Rightarrow> source_loop" where
  "record_source c st configured =
     (let s = EffectiveSource c configured in st\<lparr>
        sl_ids := source_ID s # sl_ids st,
        sl_domains := AList.update (source_QuotaDomain s) (source_QuotaMaxInflight s) (sl_domains st),
        sl_chatgptProfiles :=
          (if source_Adapter s = ''chatgpt-web''
           then browser_CDPURL (SourceBrowser c s) # sl_chatgptProfiles st else sl_chatgptProfiles st),
        sl_browserCount := sl_browserCount st + count_adapter ''chatgpt-web'' s,
        sl_doubaoBrowserCount := sl_doubaoBrowserCount st + count_adapter ''doubao'' s,
        sl_geminiBrowserCount := sl_geminiBrowserCount st + count_adapter ''gemini-web'' s,
        sl_gigaChatBrowserCount := sl_gigaChatBrowserCount st + count_adapter ''gigachat-web'' s,
        sl_buildBrowserCount := sl_buildBrowserCount st + count_adapter ''aistudio-build'' s\<rparr>)"

subsection \<open>The browser, the groups, and the whole configuration\<close>

definition browser_check :: "Browser \<Rightarrow> check" where
  "browser_check b =
     (case url_Parse (browser_CDPURL b) of
        None \<Rightarrow> Some ''browser cdp_url must be an explicit loopback HTTP endpoint''
      | Some u \<Rightarrow>
          if url_Scheme u \<noteq> ''http'' \<or> \<not> loopback_ip (Hostname u) \<or> \<not> bare_url u
          then Some ''browser cdp_url must be an explicit loopback HTTP endpoint''
          else if browser_StateFile b = '''' \<or> browser_MaxSessions b < 1 \<or> browser_MaxSessions b > 4096 \<or>
            browser_SessionTTLSeconds b < 60 \<or> browser_PollMS b < 500 \<or> browser_PollMS b > 10000 \<or>
            browser_MaxPromptBytes b < 1 \<or> browser_MaxPromptBytes b > 2 ^ 20 \<or>
            browser_MaxResponseBytes b < 1 \<or> browser_MaxResponseBytes b > 4 * 2 ^ 20
          then Some ''invalid browser resource limits''
          else None)"

definition drives_browser :: "source_loop \<Rightarrow> bool" where
  "drives_browser st = (sl_browserCount st > 0 \<or> sl_doubaoBrowserCount st > 0 \<or>
     sl_geminiBrowserCount st > 0 \<or> sl_gigaChatBrowserCount st > 0 \<or> sl_buildBrowserCount st > 0)"

definition preference_names :: "string list" where
  "preference_names = [''lower_latency'', ''existing_subscription'', ''lower_cost'', ''official_api'',
     ''reverse_source'']"

definition check_preference :: "Group \<Rightarrow> string list \<Rightarrow> string \<Rightarrow> check" where
  "check_preference g seenPreferences preference =
     (if preference \<notin> set preference_names
      then Some (''group '' @ group_ID g @ '': invalid preference'')
      else if preference \<in> set seenPreferences \<or>
        (group_Type g \<noteq> ''auto'' \<and> group_Type g \<noteq> ''latency'' \<and> group_Type g \<noteq> ''load-balance'')
      then Some (''group '' @ group_ID g @
        '': preferences must be unique and require auto, latency or load-balance'')
      else None)"

definition record_preference :: "string list \<Rightarrow> string \<Rightarrow> string list" where
  "record_preference seenPreferences preference = preference # seenPreferences"

definition check_group :: "string list \<Rightarrow> string list \<Rightarrow> Group \<Rightarrow> check" where
  "check_group ids gids g = first_error
     ([fail_if (\<not> ValidPrice (group_MaxUSDPerMillion g) \<or> \<not> ValidPrice (group_MaxUSDPerRequest g))
        (''group '' @ group_ID g @ '': invalid USD budget''),
      error_of (check_each (check_preference g) record_preference [] (group_Preferences g)),
      fail_if (group_MaxAttempts g < 0 \<or> group_MaxAttempts g > 8)
        (''group '' @ group_ID g @ '': max_attempts must be between 0 and 8''),
      fail_if (\<not> identifier_MatchString (group_ID g) \<or> group_ID g \<in> set gids)
        ''invalid or duplicate group id'',
      fail_if (group_Type g \<notin> set [''auto'', ''select'', ''fallback'', ''latency'', ''load-balance'', ''weighted''])
        (''group '' @ group_ID g @ '': invalid type''),
      fail_if (Tier (group_MinTier g) < 0)
        (''group '' @ group_ID g @ '': invalid min_tier'')] @
      map (\<lambda>i. fail_if (i \<notin> set ids) (''group '' @ group_ID g @ '': unknown source '' @ i))
        (group_Sources g))"

definition record_group :: "string list \<Rightarrow> Group \<Rightarrow> string list" where
  "record_group gids g = group_ID g # gids"

definition Validate :: "Config \<Rightarrow> check" where
  "Validate c =
     (case ValidateAccounts c of
        Some e \<Rightarrow> Some e
      | None \<Rightarrow>
          (case server_check c of
             Some e \<Rightarrow> Some e
           | None \<Rightarrow>
               (case check_each (check_source c) (record_source c) source_loop_start (cfg_Sources c) of
                  Inl e \<Rightarrow> Some e
                | Inr st \<Rightarrow>
                    (case (if drives_browser st then browser_check (cfg_Browser c) else None) of
                       Some e \<Rightarrow> Some e
                     | None \<Rightarrow> error_of (check_each (check_group (sl_ids st)) record_group [] (cfg_Groups c))))))"

end
