(* ===== verification/ConfigProps.thy ===== *)
theory ConfigProps
  imports ConfigValidate CapacityProps
begin

section \<open>What a validated configuration guarantees\<close>

text \<open>
  The contracts of \<open>ConfigValidate\<close>: the loops that refuse repeated keys are interpretations of
  \<open>unique_loop\<close>, and a configuration that passes \<open>Validate\<close> is one the router, the adapters and the
  browser sessions can rely on.
\<close>

subsection \<open>What one passed check says\<close>

lemma check_model_None:
  "check_model s d models m = None \<Longrightarrow> model_ID m \<noteq> '''' \<and> model_ID m \<notin> set models
     \<and> \<not> HasPrefix (model_ID m) ''auto'' \<and> ValidPrice (model_InputUSDPerMillion m)
     \<and> ValidPrice (model_OutputUSDPerMillion m) \<and> 1 \<le> model_MaxInputBytes m
     \<and> model_Protocols m \<noteq> [] \<and> model_Tools m \<in> {''native'', ''none'', ''unknown''}
     \<and> (d_TextOnly d \<longrightarrow> model_Tools m = ''none'' \<and> \<not> model_Vision m)
     \<and> (d_ToolsAllowed d \<or> model_Tools m = ''none'')
     \<and> (\<forall>p \<in> set (model_Protocols m). config_Supports (source_Adapter s) p)"
  by (simp add: check_model_def ball_Un del: first_error.simps)

lemma capacity_check_None:
  "capacity_check c st s = None \<Longrightarrow> 1 \<le> source_MaxInflight s \<and> source_MaxInflight s \<le> 10000
     \<and> source_QuotaDomain s \<noteq> '''' \<and> 1 \<le> source_QuotaMaxInflight s \<and> source_QuotaMaxInflight s \<le> 10000
     \<and> source_Models s \<noteq> []
     \<and> (\<forall>n. map_of (sl_domains st) (source_QuotaDomain s) = Some n \<longrightarrow> source_QuotaMaxInflight s = n)"
  by (simp add: capacity_check_def del: first_error.simps split: option.splits)

lemma check_source_parts:
  assumes "check_source c st s = None"
  obtains d where "Lookup (source_Adapter s) = Some d" "ValidateMetadata (EffectiveSource c s) = None"
    "browser_adapter_check c st (EffectiveSource c s) = None" "endpoint_check (EffectiveSource c s) = None"
    "capacity_check c st (EffectiveSource c s) = None" "device_check c (EffectiveSource c s) = None"
    "\<exists>ms. check_each (check_model (EffectiveSource c s) d) record_model [] (source_Models s) = Inr ms"
    "0 \<le> source_Weight s" "source_Weight s \<le> 10000" "source_ID s \<notin> set (sl_ids st)"
  using assms
  by (simp add: check_source_def Let_def error_of_None del: first_error.simps
      split: if_splits option.splits)

lemma check_group_None:
  "check_group ids gids g = None \<Longrightarrow> group_ID g \<notin> set gids \<and> identifier_MatchString (group_ID g)
     \<and> ValidPrice (group_MaxUSDPerMillion g) \<and> ValidPrice (group_MaxUSDPerRequest g)
     \<and> (\<exists>ps. check_each (check_preference g) record_preference [] (group_Preferences g) = Inr ps)
     \<and> 0 \<le> group_MaxAttempts g \<and> group_MaxAttempts g \<le> 8 \<and> 0 \<le> Tier (group_MinTier g)
     \<and> group_Type g \<in> {''auto'', ''select'', ''fallback'', ''latency'', ''load-balance'', ''weighted''}
     \<and> set (group_Sources g) \<subseteq> set ids"
  by (simp add: check_group_def ball_Un error_of_None subset_iff del: first_error.simps)

lemma check_account_None:
  "check_account providers accounts a = None \<Longrightarrow> identifier_MatchString (account_ID a)
     \<and> (\<forall>b. map_of accounts (account_ID a) = Some b \<longrightarrow> account_ID b = '''')
     \<and> account_ProviderID a \<in> set providers \<and> validateAccountMetadata a = None
     \<and> 1 \<le> account_MaxInflight a \<and> 1 \<le> account_Weight a"
  by (simp add: check_account_def split: if_splits option.splits)

subsection \<open>The loops\<close>

interpretation profile_ids: unique_loop check_profile record_profile "\<lambda>st. set (pl_ids st)" bp_ID
  by unfold_locales (auto simp: check_profile_def record_profile_def split: if_splits)

interpretation profile_ports: unique_loop check_profile record_profile "\<lambda>st. set (pl_endpoints st)" profile_port
  by unfold_locales
    (auto simp: check_profile_def record_profile_def profile_port_def split: if_splits option.splits)

interpretation provider_ids: unique_loop check_provider record_provider set provider_ID
  by unfold_locales (auto simp: check_provider_def record_provider_def split: if_splits)

interpretation model_ids: unique_loop "check_model s d" record_model set model_ID for s d
  by unfold_locales (auto simp: record_model_def dest: check_model_None)

interpretation source_ids: unique_loop "check_source c" "record_source c" "\<lambda>st. set (sl_ids st)" source_ID for c
  by unfold_locales (auto simp: record_source_def Let_def elim: check_source_parts)

interpretation preferences: unique_loop "check_preference g" record_preference set "\<lambda>p. p" for g
  by unfold_locales (auto simp: check_preference_def record_preference_def split: if_splits)

interpretation group_ids: unique_loop "check_group ids" record_group set group_ID for ids
  by unfold_locales (auto simp: record_group_def dest: check_group_None)

text \<open>
  The account loop looks the id up in a map of accounts and compares the id it finds with the empty
  string; ids that match the pattern are not empty, so this is a duplicate test too.
\<close>

lemma identifier_nonempty: "identifier_MatchString i \<Longrightarrow> i \<noteq> ''''"
  by auto

lemma account_loop:
  assumes "check_each (check_account providers) record_account accounts xs = Inr accounts'"
    "\<forall>(k, a) \<in> set accounts. account_ID a = k \<and> k \<noteq> ''''"
  shows "distinct (map account_ID xs) \<and> fst ` set accounts \<inter> account_ID ` set xs = {}
    \<and> accounts' = rev (map (\<lambda>a. (account_ID a, a)) xs) @ accounts
    \<and> (\<forall>a \<in> set xs. account_ID a \<noteq> '''')"
  using assms
proof (induction xs arbitrary: accounts)
  case (Cons a xs)
  then have c: "check_account providers accounts a = None"
    and r0: "check_each (check_account providers) record_account (record_account accounts a) xs = Inr accounts'"
    by (simp_all split: option.splits)
  note r = r0 [unfolded record_account_def [of accounts a]]
  from c have ident: "account_ID a \<noteq> ''''"
    using check_account_None identifier_nonempty by blast
  have new: "account_ID a \<notin> fst ` set accounts"
  proof
    assume "account_ID a \<in> fst ` set accounts"
    then obtain b where b: "map_of accounts (account_ID a) = Some b"
      by (metis map_of_eq_None_iff not_Some_eq)
    with Cons.prems(2) have "account_ID b \<noteq> ''''" by (auto dest!: map_of_SomeD)
    with c b show False using check_account_None by blast
  qed
  from Cons.prems(2) ident have "\<forall>(k, b) \<in> set ((account_ID a, a) # accounts). account_ID b = k \<and> k \<noteq> ''''"
    by simp
  from Cons.IH [OF r this] new ident show ?case by simp
qed simp

lemma domain_loop:
  assumes "check_each (check_source c) (record_source c) st xs = Inr st'"
  shows "(s \<in> set xs \<longrightarrow> map_of (sl_domains st) (source_QuotaDomain s) = Some n \<longrightarrow> source_QuotaMaxInflight s = n)
    \<and> (s \<in> set xs \<longrightarrow> s' \<in> set xs \<longrightarrow> source_QuotaDomain s = source_QuotaDomain s' \<longrightarrow>
         source_QuotaMaxInflight s = source_QuotaMaxInflight s')"
  using assms
proof (induction xs arbitrary: st s s' n)
  case (Cons x xs)
  then have c: "check_source c st x = None"
    and r: "check_each (check_source c) (record_source c) (record_source c st x) xs = Inr st'"
    by (auto split: option.splits)
  have dom: "map_of (sl_domains (record_source c st x)) = (map_of (sl_domains st))
      (source_QuotaDomain x \<mapsto> source_QuotaMaxInflight x)"
    by (simp add: record_source_def Let_def update_conv')
  from c have head: "map_of (sl_domains st) (source_QuotaDomain x) = Some n \<Longrightarrow> source_QuotaMaxInflight x = n" for n
    by (rule check_source_parts) (auto dest: capacity_check_None)
  have tail: "y \<in> set xs \<Longrightarrow> source_QuotaDomain y = source_QuotaDomain x \<Longrightarrow>
      source_QuotaMaxInflight y = source_QuotaMaxInflight x" for y
    using Cons.IH [OF r, of y "source_QuotaMaxInflight x"] by (simp add: dom)
  have rest: "s \<in> set xs \<Longrightarrow> map_of (sl_domains st) (source_QuotaDomain s) = Some n \<Longrightarrow>
      source_QuotaMaxInflight s = n"
    using Cons.IH [OF r, of s n] tail [of s] head [of n]
    by (cases "source_QuotaDomain s = source_QuotaDomain x") (simp_all add: dom)
  from head [of n] rest tail [of s] tail [of s'] Cons.IH [OF r, of s _ s'] show ?case by auto
qed simp

subsection \<open>Taking a successful validation apart\<close>

lemma Validate_parts:
  assumes "Validate c = None"
  obtains st where "ValidateAccounts c = None" "server_check c = None"
    "check_each (check_source c) (record_source c) source_loop_start (cfg_Sources c) = Inr st"
    "drives_browser st \<Longrightarrow> browser_check (cfg_Browser c) = None"
    "\<exists>gids. check_each (check_group (sl_ids st)) record_group [] (cfg_Groups c) = Inr gids"
  using assms by (auto simp: Validate_def error_of_None split: option.splits sum.splits if_splits)

lemma ValidateAccounts_parts:
  assumes "ValidateAccounts c = None"
  obtains providers accounts where "ValidateBrowserProfiles c = None"
    "check_each check_provider record_provider [] (cfg_Providers c) = Inr providers"
    "check_each (check_account providers) record_account [] (cfg_Accounts c) = Inr accounts"
    "\<forall>s \<in> set (cfg_Sources c). check_binding accounts s = None"
  using assms by (auto simp: ValidateAccounts_def check_all_None split: option.splits sum.splits)

lemma source_checked:
  assumes "Validate c = None" "s \<in> set (cfg_Sources c)"
  obtains st where "check_source c st s = None"
  using assms by (metis Validate_parts check_each_checked)

subsection \<open>The router's precondition\<close>

lemma validated_cfg_wf:
  assumes "Validate c = None"
  shows "cfg_wf c"
proof -
  from assms obtain st where v: "ValidateAccounts c = None" "server_check c = None"
    "check_each (check_source c) (record_source c) source_loop_start (cfg_Sources c) = Inr st"
    by (rule Validate_parts)
  from v(1) obtain providers accounts where a:
    "check_each (check_account providers) record_account [] (cfg_Accounts c) = Inr accounts"
    "\<forall>s \<in> set (cfg_Sources c). check_binding accounts s = None"
    by (rule ValidateAccounts_parts)
  from account_loop [OF a(1)] have acc: "distinct (map account_ID (cfg_Accounts c))"
    "accounts = rev (map (\<lambda>a. (account_ID a, a)) (cfg_Accounts c))"
    "\<forall>a \<in> set (cfg_Accounts c). account_ID a \<noteq> ''''"
    by auto
  have bound: "source_AccountID s = '''' \<or> source_AccountID s \<in> account_ID ` set (cfg_Accounts c)"
    if "s \<in> set (cfg_Sources c)" for s
  proof -
    from a(2) that have "check_binding accounts s = None" by blast
    then have "source_AccountID s = '''' \<or> map_of accounts (source_AccountID s) \<noteq> None"
      by (auto simp: check_binding_def split: if_splits option.splits)
    then show ?thesis by (auto simp: acc(2) dest!: map_of_SomeD)
  qed
  have limits: "source_Weight s \<le> 10000 \<and> 1 \<le> source_MaxInflight s \<and> source_MaxInflight s \<le> 10000"
    if "s \<in> set (cfg_Sources c)" for s
  proof -
    from check_each_checked [OF v(3) that] obtain t where "check_source c t s = None" by blast
    then show ?thesis by (rule check_source_parts) (auto dest: capacity_check_None)
  qed
  have "0 \<le> rt_MaxQueued (cfg_Runtime c)"
    using v(2) by (auto simp: server_check_def runtime_limits_ok_def split: if_splits option.splits)
  moreover have "'''' \<notin> account_ID ` set (cfg_Accounts c)" using acc(3) by fastforce
  moreover have "distinct (map source_ID (cfg_Sources c))" using source_ids.unique_keys [OF v(3)] by simp
  moreover have "\<forall>s \<in> set (cfg_Sources c). \<forall>s' \<in> set (cfg_Sources c).
      source_QuotaDomain s = source_QuotaDomain s' \<longrightarrow> source_QuotaMaxInflight s = source_QuotaMaxInflight s'"
    using domain_loop [OF v(3)] by blast
  moreover note acc(1)
  ultimately show ?thesis
    unfolding cfg_wf_def using bound limits by (intro conjI) (assumption | blast)+
qed

subsection \<open>The properties of validation\<close>

lemma sample_validates: "Validate sample_config = None"
  by code_simp

definition sample_browser_config :: Config where
  "sample_browser_config = Default\<lparr>cfg_BrowserProfiles := [\<lparr>bp_External = False, bp_ID = ''work'',
     bp_Enabled = True, bp_Engine = ''chrome'', bp_CDPURL = ''http://127.0.0.1:9333''\<rparr>]\<rparr>"

lemma sample_browser_validates: "Validate sample_browser_config = None"
  by code_simp

text \<open>C16. Configuration and router composed: a configuration that passes \<open>Validate\<close> can always be put into
  service. A fresh router on it starts in a reachable state, and the hot update of any running
  system to it succeeds and leads to a reachable state again.\<close>

theorem validated_config_adopts:
  assumes "Validate c = None"
  shows "(0 \<le> now \<longrightarrow> reachable (init_sys c now)) \<and>
    (reachable s \<longrightarrow> sys_now s \<le> now \<longrightarrow> (\<exists>s'. Adopt c now s = Some s' \<and> reachable (tick now s')))"
proof (intro conjI impI)
  show "reachable (init_sys c now)" if "0 \<le> now"
    by (rule reachable.init [OF validated_cfg_wf [OF assms] that])
  assume r: "reachable s" and le: "sys_now s \<le> now"
  have "sound s" by (rule acct.always [OF r])
  then obtain s' where s': "Adopt c now s = Some s'"
    using sound_Adopt [OF _ validated_cfg_wf [OF assms] le] by blast
  have "reachable (tick now s')"
    by (rule reachable.step [OF r step.adopt [OF validated_cfg_wf [OF assms] le s']])
  with s' show "\<exists>s'. Adopt c now s = Some s' \<and> reachable (tick now s')" by blast
qed

theorem validated_config_adopts_witness:
  "reachable (init_sys sample_config 0)"
  using validated_config_adopts [OF sample_validates] by simp

text \<open>C20. In a validated configuration every source that is reached over HTTP has, once the account
  defaults are applied, a base URL with a host and without user information, query or fragment, that
  uses HTTPS unless the host is a loopback address, and a source declared local points to a loopback
  address.\<close>

theorem validated_endpoints:
  assumes "Validate c = None" and "s \<in> set (cfg_Sources c)"
    and "source_Adapter s \<notin> {''app-device'', ''devin-cli'', ''zcode''}"
  shows "\<exists>u. url_Parse (source_BaseURL (EffectiveSource c s)) = Some u \<and> url_Host u \<noteq> '''' \<and>
    \<not> url_User u \<and> url_RawQuery u = '''' \<and> url_Fragment u = '''' \<and>
    (url_Scheme u = ''https'' \<or> (url_Scheme u = ''http'' \<and> loopback_host (Hostname u))) \<and>
    (source_Local s \<longrightarrow> loopback_host (Hostname u))"
proof -
  from assms(1,2) obtain st where "check_source c st s = None" by (rule source_checked)
  then have "endpoint_check (EffectiveSource c s) = None" by (rule check_source_parts)
  with assms(3) show ?thesis
    by (auto simp: endpoint_check_def bare_url_def secure_endpoint_def
        split: option.splits if_splits)
qed

theorem validated_endpoints_witness:
  "\<exists>u. url_Parse (source_BaseURL (EffectiveSource sample_config (sample_source ''b'' ''''))) = Some u \<and>
     url_Host u \<noteq> ''''"
proof -
  have "sample_source ''b'' '''' \<in> set (cfg_Sources sample_config)" by (simp add: sample_config_def)
  from validated_endpoints [OF sample_validates this] show ?thesis by (auto simp: sample_source_def)
qed

text \<open>C21. In a validated configuration every model of every source can be served: source ids are unique,
  model ids are unique within their source and never start with \<open>auto\<close>, prices are finite and not
  negative, the adapter is registered and speaks every protocol of the model, the model's tools
  capability is one of the three known values, an adapter without tools has no model with them, and a
  text-only adapter offers neither tools nor vision.\<close>

theorem validated_models:
  assumes "Validate c = None" and "s \<in> set (cfg_Sources c)" and "m \<in> set (source_Models s)"
  shows "distinct (map source_ID (cfg_Sources c)) \<and> distinct (map model_ID (source_Models s)) \<and>
    model_ID m \<noteq> '''' \<and> \<not> HasPrefix (model_ID m) ''auto'' \<and>
    ValidPrice (model_InputUSDPerMillion m) \<and> ValidPrice (model_OutputUSDPerMillion m) \<and>
    1 \<le> model_MaxInputBytes m \<and> model_Protocols m \<noteq> [] \<and>
    (\<exists>d. Lookup (source_Adapter s) = Some d \<and> set (model_Protocols m) \<subseteq> set (d_Protocols d) \<and>
       model_Tools m \<in> {''native'', ''none'', ''unknown''} \<and>
       (\<not> d_ToolsAllowed d \<longrightarrow> model_Tools m = ''none'') \<and>
       (d_TextOnly d \<longrightarrow> model_Tools m = ''none'' \<and> \<not> model_Vision m))"
proof -
  from assms(1) have wf: "cfg_wf c" by (rule validated_cfg_wf)
  from assms(1,2) obtain st where "check_source c st s = None" by (rule source_checked)
  then obtain d ms where d: "Lookup (source_Adapter s) = Some d"
    and ms: "check_each (check_model (EffectiveSource c s) d) record_model [] (source_Models s) = Inr ms"
    by (rule check_source_parts) blast
  from check_each_checked [OF ms assms(3)] obtain t
    where "check_model (EffectiveSource c s) d t m = None" by blast
  from check_model_None [OF this] have m: "model_ID m \<noteq> ''''" "\<not> HasPrefix (model_ID m) ''auto''"
    "ValidPrice (model_InputUSDPerMillion m)" "ValidPrice (model_OutputUSDPerMillion m)"
    "1 \<le> model_MaxInputBytes m" "model_Protocols m \<noteq> []"
    "d_TextOnly d \<longrightarrow> model_Tools m = ''none'' \<and> \<not> model_Vision m"
    "model_Tools m \<in> {''native'', ''none'', ''unknown''}" "\<not> d_ToolsAllowed d \<longrightarrow> model_Tools m = ''none''"
    "\<forall>p \<in> set (model_Protocols m). config_Supports (source_Adapter s) p"
    by (simp_all del: ball_simps, blast)
  have "set (model_Protocols m) \<subseteq> set (d_Protocols d)"
    using m(10) d by (auto simp: config_Supports_def provider_Supports_code)
  with m d model_ids.unique_keys [OF ms] wf show ?thesis by (simp add: cfg_wf_def)
qed

theorem validated_models_witness:
  "distinct (map source_ID (cfg_Sources sample_config)) \<and>
   (\<exists>d. Lookup ''openai'' = Some d \<and> set (model_Protocols sample_model) \<subseteq> set (d_Protocols d))"
proof -
  have s: "sample_source ''b'' '''' \<in> set (cfg_Sources sample_config)" by (simp add: sample_config_def)
  have m: "sample_model \<in> set (source_Models (sample_source ''b'' ''''))" by (simp add: sample_source_def)
  have "source_Adapter (sample_source ''b'' '''') = ''openai''" by (simp add: sample_source_def)
  with validated_models [OF sample_validates s m] show ?thesis by (simp del: distinct_map) blast
qed

text \<open>In a validated configuration group ids are unique and every group is usable: its type and
  minimum tier are known, it names only configured sources, its preferences are not repeated, its
  USD budgets are finite and not negative, and its number of attempts lies between zero and eight.\<close>

lemma validated_groups:
  assumes "Validate c = None" and "g \<in> set (cfg_Groups c)"
  shows "distinct (map group_ID (cfg_Groups c)) \<and>
    set (group_Sources g) \<subseteq> source_ID ` set (cfg_Sources c) \<and>
    distinct (group_Preferences g) \<and> 0 \<le> Tier (group_MinTier g) \<and>
    group_Type g \<in> {''auto'', ''select'', ''fallback'', ''latency'', ''load-balance'', ''weighted''} \<and>
    ValidPrice (group_MaxUSDPerMillion g) \<and> ValidPrice (group_MaxUSDPerRequest g) \<and>
    0 \<le> group_MaxAttempts g \<and> group_MaxAttempts g \<le> 8"
proof -
  from assms(1) obtain st gids where
    src: "check_each (check_source c) (record_source c) source_loop_start (cfg_Sources c) = Inr st"
    and gids: "check_each (check_group (sl_ids st)) record_group [] (cfg_Groups c) = Inr gids"
    by (rule Validate_parts) blast
  from source_ids.unique_keys [OF src] have ids: "set (sl_ids st) = source_ID ` set (cfg_Sources c)"
    by (simp add: source_loop_start_def)
  from check_each_checked [OF gids assms(2)] obtain t where "check_group (sl_ids st) t g = None" by blast
  note g = check_group_None [OF this]
  then obtain ps where "check_each (check_preference g) record_preference [] (group_Preferences g) = Inr ps"
    by blast
  from preferences.unique_keys [OF this] have "distinct (group_Preferences g)" by simp
  moreover have "distinct (map group_ID (cfg_Groups c))" using group_ids.unique_keys [OF gids] by simp
  ultimately show ?thesis using g unfolding ids by blast
qed

lemma validated_groups_witness:
  "set (group_Sources sample_group) \<subseteq> source_ID ` set (cfg_Sources sample_config)"
proof -
  have "sample_group \<in> set (cfg_Groups sample_config)" by (simp add: sample_config_def)
  from validated_groups [OF sample_validates this] show ?thesis by blast
qed

text \<open>The browser control channel of a validated configuration never leaves the machine: there are at
  most 64 browser profiles, with unique ids and unique ports, each with an endpoint on a literal
  loopback address and a port from 1024 to 65535, and an account that names a profile names one of
  them.\<close>

lemma validated_browser_profiles:
  assumes "Validate c = None"
  shows "length (cfg_BrowserProfiles c) \<le> 64 \<and> distinct (map bp_ID (cfg_BrowserProfiles c)) \<and>
    distinct (map profile_port (cfg_BrowserProfiles c)) \<and>
    (\<forall>p \<in> set (cfg_BrowserProfiles c). \<exists>u n. url_Parse (bp_CDPURL p) = Some u \<and>
       loopback_ip (Hostname u) \<and> Atoi (Port u) = Some n \<and> 1024 \<le> n \<and> n \<le> 65535 \<and>
       \<not> url_User u \<and> (url_Scheme u = ''http'' \<or> (url_Scheme u = ''ws'' \<and> bp_External p))) \<and>
    (\<forall>a \<in> set (cfg_Accounts c). account_BrowserProfileID a = '''' \<or>
       account_BrowserProfileID a \<in> bp_ID ` set (cfg_BrowserProfiles c))"
proof -
  from assms have "ValidateAccounts c = None" by (rule Validate_parts)
  then have "ValidateBrowserProfiles c = None" by (rule ValidateAccounts_parts)
  then obtain st where len: "length (cfg_BrowserProfiles c) \<le> 64"
    and loop: "check_each check_profile record_profile \<lparr>pl_ids = [], pl_endpoints = []\<rparr>
      (cfg_BrowserProfiles c) = Inr st"
    and acc: "\<forall>a \<in> set (cfg_Accounts c). account_BrowserProfileID a = '''' \<or>
      account_BrowserProfileID a \<in> set (pl_ids st)"
    by (auto simp: ValidateBrowserProfiles_def check_all_None split: option.splits if_splits sum.splits)
  have ids: "distinct (map bp_ID (cfg_BrowserProfiles c))" "set (pl_ids st) = bp_ID ` set (cfg_BrowserProfiles c)"
    using profile_ids.unique_keys [OF loop] by auto
  have ports: "distinct (map profile_port (cfg_BrowserProfiles c))"
    using profile_ports.unique_keys [OF loop] by simp
  have "\<exists>u n. url_Parse (bp_CDPURL p) = Some u \<and>
       loopback_ip (Hostname u) \<and> Atoi (Port u) = Some n \<and> 1024 \<le> n \<and> n \<le> 65535 \<and>
       \<not> url_User u \<and> (url_Scheme u = ''http'' \<or> (url_Scheme u = ''ws'' \<and> bp_External p))"
    if p: "p \<in> set (cfg_BrowserProfiles c)" for p
  proof -
    from check_each_checked [OF loop p] obtain t where "check_profile t p = None" by blast
    then obtain u where u: "url_Parse (bp_CDPURL p) = Some u" "cdp_endpoint_ok p u"
      by (auto simp: check_profile_def split: option.splits if_splits)
    then obtain n where "Atoi (Port u) = Some n"
      by (cases "Atoi (Port u)") (auto simp: cdp_endpoint_ok_def Let_def)
    with u show ?thesis by (auto simp: cdp_endpoint_ok_def Let_def bare_url_def)
  qed
  with len ids ports acc show ?thesis by simp
qed

lemma validated_browser_profiles_witness:
  "length (cfg_BrowserProfiles sample_browser_config) = 1 \<and>
   (\<exists>u. url_Parse (bp_CDPURL (hd (cfg_BrowserProfiles sample_browser_config))) = Some u \<and> loopback_ip (Hostname u))"
  using validated_browser_profiles [OF sample_browser_validates]
  by (simp add: sample_browser_config_def) blast

end
