(* ===== verification/ConfigService.thy ===== *)
theory ConfigService
  imports ConfigValidate
begin

section \<open>The versioned configuration service\<close>

text \<open>
  \<open>internal/config/service.go\<close>: the journal of configuration versions, the optimistic concurrency
  check, the two-phase update (prepare, persist, commit or discard) and the atomic replacement of the
  journal file.

  A version has the configuration, its revision, its time and its summary. The encoder and decoder of \<open>encoding/json\<close> are the fields of \<open>codec\<close>: what the service needs of
  them is that a value that was encoded decodes to itself, which is a hypothesis of the theorems
  that need it (\<open>journal_round_trip\<close>, \<open>clones\<close>). The file system is a map from paths to contents. The
  outcome of every system call is an input, \<open>io\<close>, so the theorems hold for every pattern of
  failures; the states the file system passes through are recorded, the last one first.
\<close>

record Version =
  ver_Revision :: u64
  ver_CreatedAt :: time
  ver_Summary :: string
  ver_Config :: Config

record journal =
  j_Format :: int
  j_Versions :: "Version list"

definition zero_Config :: Config where
  "zero_Config = \<lparr>cfg_BrowserProfiles = [], cfg_Providers = [], cfg_Accounts = [],
     cfg_SchemaVersion = 0, cfg_Listen = '''', cfg_APIKeyEnv = '''', cfg_AdminKeyEnv = '''',
     cfg_Runtime = \<lparr>rt_MaxInflight = 0, rt_MaxQueued = 0, rt_MaxBodyBytes = 0,
       rt_MaxBufferedBytes = 0, rt_MaxOutputBytes = 0, rt_QueueTimeoutMS = 0,
       rt_RequestTimeoutMS = 0, rt_WriteTimeoutMS = 0, rt_BodyReadTimeoutMS = 0\<rparr>,
     cfg_Browser = \<lparr>browser_ExpectedIdentity = '''', browser_Engine = '''',
       browser_Enabled = False, browser_CDPURL = '''', browser_StateFile = '''',
       browser_MaxSessions = 0, browser_SessionTTLSeconds = 0, browser_PollMS = 0,
       browser_MaxPromptBytes = 0, browser_MaxResponseBytes = 0\<rparr>,
     cfg_Device = \<lparr>device_Enabled = False, device_ADBPath = '''', device_Serial = '''',
       device_StateDir = '''', device_OCRPath = '''', device_OCRDataDir = '''',
       device_ClipboardSyncMS = 0\<rparr>,
     cfg_Sources = [], cfg_Groups = []\<rparr>"

definition ErrRevisionConflict :: string where
  "ErrRevisionConflict = ''configuration changed; refresh the preview before applying''"

record codec =
  json_Marshal :: "Config \<Rightarrow> string result"
  json_Unmarshal :: "string \<Rightarrow> Config result"
  json_MarshalIndent :: "journal \<Rightarrow> string result"
  json_Decode :: "string \<Rightarrow> journal option"
  json_DecodeConfig :: "Config \<Rightarrow> string \<Rightarrow> Config result"
  json_Single :: "string \<Rightarrow> bool"

type_synonym fs = "string \<Rightarrow> string option"

record io =
  io_MkdirAll :: bool
  io_CreateTemp :: "string option"
  io_Chmod :: bool
  io_Copy :: "nat option"
  io_Sync :: bool
  io_Close :: bool
  io_Rename :: bool

text \<open>
  \<open>io_Copy\<close> is \<open>None\<close> when all bytes were written and \<open>Some n\<close> when writing stopped with an error after
  \<open>n\<close> bytes.
\<close>

definition atomicWrite :: "string \<Rightarrow> string \<Rightarrow> io \<Rightarrow> fs \<Rightarrow> check \<times> fs list" where
  "atomicWrite path b os fs0 =
     (if \<not> io_MkdirAll os then (Some ''cannot create configuration directory'', [fs0])
      else (case io_CreateTemp os of
              None \<Rightarrow> (Some ''cannot start configuration transaction'', [fs0])
            | Some name \<Rightarrow>
                (let fs1 = fs0(name \<mapsto> '''');
                     fs2 = (if io_Chmod os
                            then fs1(name \<mapsto> (case io_Copy os of None \<Rightarrow> b | Some n \<Rightarrow> take n b)) else fs1);
                     err = (\<not> io_Chmod os \<or> io_Copy os \<noteq> None \<or> \<not> io_Sync os)
                 in if err \<or> \<not> io_Close os
                    then (Some ''cannot write configuration transaction'', [fs2(name := None), fs2, fs1, fs0])
                    else if \<not> io_Rename os
                    then (Some ''cannot commit configuration transaction'', [fs2(name := None), fs2, fs1, fs0])
                    else (let fs3 = (fs2(name := None))(path \<mapsto> b)
                          in (None, [fs3(name := None), fs3, fs2, fs1, fs0])))))"

subsection \<open>Reading the journal\<close>

datatype journal_read = NotExist | ReadError string | Versions "Version list"

definition Clone :: "codec \<Rightarrow> Config \<Rightarrow> Config result" where
  "Clone J c = result_bind (json_Marshal J c) (json_Unmarshal J)"

fun check_revisions :: "u64 \<Rightarrow> Version list \<Rightarrow> check" where
  "check_revisions previous [] = None"
| "check_revisions previous (v # vs) =
     (if ver_Revision v \<le> previous then Some ''invalid configuration revision order''
      else (case Validate (ver_Config v) of
              Some e \<Rightarrow> Some (''invalid configuration history revision '' @ show_nat (unat (ver_Revision v)) @ '': '' @ e)
            | None \<Rightarrow> check_revisions (ver_Revision v) vs))"

definition readJournal :: "codec \<Rightarrow> string \<Rightarrow> fs \<Rightarrow> journal_read" where
  "readJournal J path fs =
     (case fs path of
        None \<Rightarrow> NotExist
      | Some b \<Rightarrow>
          if length b > 32 * 2 ^ 20 then ReadError ''configuration history exceeds size limit''
          else (case json_Decode J b of
                  None \<Rightarrow> ReadError ''invalid configuration history''
                | Some j \<Rightarrow>
                    if j_Format j \<noteq> 1 \<or> j_Versions j = [] \<or> length (j_Versions j) > 50
                    then ReadError ''invalid configuration history''
                    else (case check_revisions 0 (j_Versions j) of
                            Some e \<Rightarrow> ReadError e
                          | None \<Rightarrow> Versions (j_Versions j))))"

text \<open>
  \<open>Load\<close>: the last version of the journal, or, without a journal, the seed file decoded over the
  defaults. \<open>json_DecodeConfig\<close> decodes the first value of the input over a given configuration and
  refuses unknown fields; \<open>json_Single\<close> says whether the input holds nothing after that value.
\<close>

definition Load :: "codec \<Rightarrow> string \<Rightarrow> fs \<Rightarrow> Config result" where
  "Load J path fs =
     (case readJournal J (path @ ''.state'') fs of
        Versions vs \<Rightarrow> Inr (ver_Config (last vs))
      | ReadError e \<Rightarrow> Inl e
      | NotExist \<Rightarrow>
          (case fs path of
             None \<Rightarrow> Inl ''file does not exist''
           | Some b \<Rightarrow>
               (let input = take (4 * 2 ^ 20) b in
                result_bind (json_DecodeConfig J Default input) (\<lambda>c.
                  if \<not> json_Single J input then Inl ''configuration must contain one JSON object''
                  else (case Validate c of Some e \<Rightarrow> Inl e | None \<Rightarrow> Inr c)))))"

subsection \<open>The service\<close>

text \<open>
  \<open>prepare\<close> builds the next runtime: an error, or whether the two closures it returns are non-nil. The
  calls of the closures are recorded in order.
\<close>

type_synonym prepare = "Config \<Rightarrow> (bool \<times> bool) result"

datatype closure_call = Commit | Discard

record service =
  svc_path :: string
  svc_versions :: "Version list"

definition OpenService :: "codec \<Rightarrow> string \<Rightarrow> Config \<Rightarrow> time \<Rightarrow> fs \<Rightarrow> service result" where
  "OpenService J path seed now fs =
     (case Validate seed of
        Some e \<Rightarrow> Inl e
      | None \<Rightarrow>
          (case readJournal J (path @ ''.state'') fs of
             NotExist \<Rightarrow> result_bind (Clone J seed) (\<lambda>seed'. Inr \<lparr>svc_path = path @ ''.state'',
               svc_versions = [\<lparr>ver_Revision = 1, ver_CreatedAt = now,
                 ver_Summary = ''Initial configuration'', ver_Config = seed'\<rparr>]\<rparr>)
           | ReadError e \<Rightarrow> Inl e
           | Versions vs \<Rightarrow> Inr \<lparr>svc_path = path @ ''.state'', svc_versions = vs\<rparr>))"

text \<open>\<open>cloneVersion\<close> ignores the error of \<open>Clone\<close>, which then returns the zero configuration.\<close>

definition cloneVersion :: "codec \<Rightarrow> Version \<Rightarrow> Version" where
  "cloneVersion J v =
     v\<lparr>ver_Config := (case Clone J (ver_Config v) of Inr c \<Rightarrow> c | Inl e \<Rightarrow> zero_Config)\<rparr>"

definition Current :: "codec \<Rightarrow> service \<Rightarrow> Version" where
  "Current J s = cloneVersion J (last (svc_versions s))"

definition History :: "codec \<Rightarrow> service \<Rightarrow> Version list" where
  "History J s = map (cloneVersion J) (svc_versions s)"

definition preview :: "codec \<Rightarrow> u64 \<Rightarrow> Config \<Rightarrow> time \<Rightarrow> service \<Rightarrow> Version result" where
  "preview J expected next now s =
     (let current = last (svc_versions s) in
      if expected \<noteq> ver_Revision current then Inl ErrRevisionConflict
      else (case Validate next of
              Some e \<Rightarrow> Inl e
            | None \<Rightarrow>
                (case json_Marshal J next of
                   Inl e \<Rightarrow> Inl ''configuration exceeds size limit''
                 | Inr b \<Rightarrow>
                     if length b > 4 * 2 ^ 20 then Inl ''configuration exceeds size limit''
                     else result_bind (Clone J next) (\<lambda>next'. Inr \<lparr>ver_Revision = ver_Revision current + 1,
                       ver_CreatedAt = now, ver_Summary = '''', ver_Config = next'\<rparr>))))"

text \<open>The loop that drops the oldest versions until the encoded journal fits.\<close>

fun fit_journal :: "codec \<Rightarrow> Version list \<Rightarrow> (Version list \<times> string) result" where
  "fit_journal J versions =
     (case json_MarshalIndent J \<lparr>j_Format = 1, j_Versions = versions\<rparr> of
        Inl e \<Rightarrow> Inl e
      | Inr b \<Rightarrow>
          if length b < 32 * 2 ^ 20 then Inr (versions, b)
          else if length versions \<le> 1 then Inl ''configuration history exceeds size limit''
          else fit_journal J (tl versions))"

declare fit_journal.simps [simp del]

text \<open>
  The whole update. The result carries the service, the states of the file system (the last one
  first), the calls of the closures, and the version or the error.
\<close>

record outcome =
  out_service :: service
  out_fs :: "fs list"
  out_calls :: "closure_call list"
  out_result :: "Version result"

definition finish :: "codec \<Rightarrow> Version \<Rightarrow> io \<Rightarrow> fs \<Rightarrow> bool \<Rightarrow> service \<Rightarrow> outcome" where
  "finish J v os fs prepared s =
     (let discarded = (if prepared then [Discard] else []) in
      case fit_journal J (keep_last 50 (svc_versions s @ [v])) of
        Inl e \<Rightarrow> \<lparr>out_service = s, out_fs = [fs], out_calls = discarded, out_result = Inl e\<rparr>
      | Inr (versions, b) \<Rightarrow>
          (case atomicWrite (svc_path s) b os fs of
             (Some e, trace) \<Rightarrow> \<lparr>out_service = s, out_fs = trace, out_calls = discarded, out_result = Inl e\<rparr>
           | (None, trace) \<Rightarrow> \<lparr>out_service = s\<lparr>svc_versions := versions\<rparr>, out_fs = trace,
               out_calls = (if prepared then [Commit] else []), out_result = Inr (cloneVersion J v)\<rparr>))"

definition service_apply :: "codec \<Rightarrow> prepare option \<Rightarrow> u64 \<Rightarrow> Config \<Rightarrow> string \<Rightarrow> time \<Rightarrow> io \<Rightarrow> fs
    \<Rightarrow> service \<Rightarrow> outcome" where
  "service_apply J prep expected next summary now os fs s =
     (let failed = (\<lambda>e. \<lparr>out_service = s, out_fs = [fs], out_calls = [], out_result = Inl e\<rparr>) in
      case preview J expected next now s of
        Inl e \<Rightarrow> failed e
      | Inr v0 \<Rightarrow>
          if length summary > 512 then failed ''configuration summary is too long''
          else (let v = v0\<lparr>ver_Summary := summary\<rparr> in
                case prep of
                  None \<Rightarrow> finish J v os fs False s
                | Some f \<Rightarrow>
                    (case f (ver_Config v) of
                       Inl e \<Rightarrow> failed e
                     | Inr (commit, discard) \<Rightarrow>
                         if \<not> commit \<or> \<not> discard then failed ''invalid runtime preparation''
                         else finish J v os fs True s)))"

definition Rollback :: "codec \<Rightarrow> prepare option \<Rightarrow> u64 \<Rightarrow> u64 \<Rightarrow> time \<Rightarrow> io \<Rightarrow> fs \<Rightarrow> service \<Rightarrow> outcome" where
  "Rollback J prep expected target now os fs s =
     (case find (\<lambda>v. ver_Revision v = target) (svc_versions s) of
        Some v \<Rightarrow> service_apply J prep expected (ver_Config v)
          (''Rollback to revision '' @ show_nat (unat target)) now os fs s
      | None \<Rightarrow> \<lparr>out_service = s, out_fs = [fs], out_calls = [],
          out_result = Inl ''configuration revision is not retained''\<rparr>)"

subsection \<open>Lemmas on the parts\<close>

lemma check_revisions_None:
  "check_revisions previous vs = None \<longleftrightarrow>
   sorted_wrt (<) (previous # map ver_Revision vs) \<and> (\<forall>v \<in> set vs. Validate (ver_Config v) = None)"
proof (induction vs arbitrary: previous)
  case (Cons v vs)
  show ?case
    by (auto simp: Cons.IH not_le split: option.splits)
qed simp

definition encodes :: "codec \<Rightarrow> Version list \<Rightarrow> string \<Rightarrow> bool" where
  "encodes J vs b =
     (json_MarshalIndent J \<lparr>j_Format = 1, j_Versions = vs\<rparr> = Inr b \<and> length b < 32 * 2 ^ 20)"

lemma fit_journal_suffix:
  "fit_journal J vs = Inr (vs', b) \<Longrightarrow> vs \<noteq> [] \<Longrightarrow>
   vs' \<noteq> [] \<and> last vs' = last vs \<and> (\<exists>n. vs' = drop n vs) \<and> encodes J vs' b"
proof (induction vs rule: length_induct)
  case (1 vs)
  from 1(2) obtain b0 where b0: "json_MarshalIndent J \<lparr>j_Format = 1, j_Versions = vs\<rparr> = Inr b0"
    by (subst (asm) fit_journal.simps) (auto split: sum.splits)
  consider "length b0 < 32 * 2 ^ 20" | "\<not> length b0 < 32 * 2 ^ 20" "length vs > 1"
    | "\<not> length b0 < 32 * 2 ^ 20" "length vs \<le> 1" by linarith
  then show ?case
  proof cases
    case 1
    with b0 \<open>fit_journal J vs = Inr (vs', b)\<close> have "vs' = vs" "b = b0"
      by (subst (asm) fit_journal.simps, simp)+
    with 1 b0 \<open>vs \<noteq> []\<close> show ?thesis by (auto simp: encodes_def intro: exI [of _ 0])
  next
    case 2
    with b0 \<open>fit_journal J vs = Inr (vs', b)\<close> have "fit_journal J (tl vs) = Inr (vs', b)"
      by (subst (asm) fit_journal.simps) simp
    moreover from 2 have "tl vs \<noteq> []" "length (tl vs) < length vs" by (cases vs; auto)+
    ultimately have "vs' \<noteq> [] \<and> last vs' = last (tl vs) \<and> (\<exists>n. vs' = drop n (tl vs)) \<and> encodes J vs' b"
      using 1(1) by blast
    then show ?thesis using \<open>tl vs \<noteq> []\<close> by (metis drop_Suc last_tl)
  next
    case 3
    with b0 \<open>fit_journal J vs = Inr (vs', b)\<close> show ?thesis
      by (subst (asm) fit_journal.simps) simp
  qed
qed

text \<open>
  An atomic write: the target holds its old content until the rename, and then all of the new one.
  The name of the temporary file is one no file of the directory has.
\<close>

lemma atomicWrite_cases:
  assumes "io_CreateTemp os \<noteq> Some path" "atomicWrite path b os fs = (err, trace)"
  shows "trace \<noteq> [] \<and> (\<forall>f \<in> set trace. f path = fs path \<or> f path = Some b) \<and>
    hd trace path = (if err = None then Some b else fs path)"
proof (cases "io_CreateTemp os")
  case None
  then show ?thesis using assms(2) by (auto simp: atomicWrite_def split: if_splits)
next
  case (Some name)
  then have "name \<noteq> path" using assms(1) by auto
  then show ?thesis using assms(2) Some by (auto simp: atomicWrite_def Let_def split: if_splits)
qed

lemma atomicWrite_cleanup:
  assumes "atomicWrite path b os fs = (err, trace)" "io_CreateTemp os = Some name" "fs name = None" "name \<noteq> path"
  shows "hd trace name = None"
  using assms by (auto simp: atomicWrite_def Let_def split: if_splits)

subsection \<open>The invariant of the service\<close>

definition svc_ok :: "service \<Rightarrow> bool" where
  "svc_ok s = (svc_versions s \<noteq> [] \<and> length (svc_versions s) \<le> 50 \<and>
     check_revisions 0 (svc_versions s) = None)"

definition clones :: "codec \<Rightarrow> Config \<Rightarrow> bool" where
  "clones J c = (Clone J c = Inr c)"

lemma preview_Inr:
  assumes "preview J expected next now s = Inr v"
  shows "expected = ver_Revision (last (svc_versions s)) \<and> Validate next = None \<and>
    ver_Revision v = expected + 1 \<and> Clone J next = Inr (ver_Config v)"
  using assms
  by (auto simp: preview_def Let_def result_bind_Inr_iff split: if_splits option.splits sum.splits)

lemma check_revisions_suffix: "check_revisions 0 vs = None \<Longrightarrow> check_revisions 0 (drop n vs) = None"
  unfolding check_revisions_None
  by (auto dest!: in_set_dropD simp: drop_map [symmetric] sorted_wrt_drop)

lemma u64_less_inc: "(x :: u64) \<noteq> - 1 \<Longrightarrow> x < x + 1"
  using max_word_wrap [of x] by (metis word_less_nat_alt lessI unatSuc add.commute)

lemma check_revisions_snoc:
  assumes "check_revisions 0 vs = None" "vs \<noteq> []" "ver_Revision v = ver_Revision (last vs) + 1"
    "ver_Revision (last vs) \<noteq> - 1" "Validate (ver_Config v) = None"
  shows "check_revisions 0 (vs @ [v]) = None"
proof -
  obtain us u where vs: "vs = us @ [u]" using assms(2) by (metis rev_exhaust)
  have "ver_Revision u < ver_Revision v"
    using assms(3,4) u64_less_inc by (simp add: vs)
  with assms(1,5) show ?thesis
    unfolding check_revisions_None vs
    by (simp add: sorted_wrt_append) (metis less_trans)
qed


text \<open>
  The three ways an update ends: refused before anything happened, failed after the preparation, or
  done.
\<close>

lemma service_apply_cases:
  fixes J prep expected "next" summary now os fs s
  defines "out \<equiv> service_apply J prep expected next summary now os fs s"
  assumes fresh: "io_CreateTemp os \<noteq> Some (svc_path s)"
  obtains (refused) e where "out = \<lparr>out_service = s, out_fs = [fs], out_calls = [], out_result = Inl e\<rparr>"
  | (failed) e trace where "out = \<lparr>out_service = s, out_fs = trace,
        out_calls = (if prep = None then [] else [Discard]), out_result = Inl e\<rparr>"
      "trace \<noteq> []" "hd trace (svc_path s) = fs (svc_path s)"
      "\<exists>vs b. encodes J vs b \<and> (\<forall>f \<in> set trace. f (svc_path s) = fs (svc_path s) \<or> f (svc_path s) = Some b)
         \<or> trace = [fs]"
  | (applied) v vs b trace where "out = \<lparr>out_service = s\<lparr>svc_versions := vs\<rparr>, out_fs = trace,
        out_calls = (if prep = None then [] else [Commit]),
        out_result = Inr (cloneVersion J v)\<rparr>"
      "preview J expected next now s = Inr (v\<lparr>ver_Summary := ''''\<rparr>)" "ver_Summary v = summary"
      "vs \<noteq> []" "last vs = v" "\<exists>n. vs = drop n (svc_versions s @ [v])" "length vs \<le> 50" "encodes J vs b"
      "hd trace (svc_path s) = Some b" "trace \<noteq> []"
      "\<forall>f \<in> set trace. f (svc_path s) = fs (svc_path s) \<or> f (svc_path s) = Some b"
proof -
  consider (a) e where "out = \<lparr>out_service = s, out_fs = [fs], out_calls = [], out_result = Inl e\<rparr>"
    | (b) v0 where "preview J expected next now s = Inr v0"
      "out = finish J (v0\<lparr>ver_Summary := summary\<rparr>) os fs (prep \<noteq> None) s"
  proof (cases "preview J expected next now s")
    case (Inl e)
    then show ?thesis by (intro a [of e]) (simp add: out_def service_apply_def)
  next
    case (Inr v0)
    consider (early) e where "out = \<lparr>out_service = s, out_fs = [fs], out_calls = [], out_result = Inl e\<rparr>"
      | (late) "out = finish J (v0\<lparr>ver_Summary := summary\<rparr>) os fs (prep \<noteq> None) s"
    proof (cases prep)
      case None
      with Inr that show ?thesis
        by (cases "512 < length summary") (simp_all add: out_def service_apply_def)
    next
      case (Some f)
      with Inr that show ?thesis
        by (cases "512 < length summary"; cases "f (ver_Config v0)";
            cases "fst (projr (f (ver_Config v0))) \<and> snd (projr (f (ver_Config v0)))")
          (auto simp: out_def service_apply_def Let_def)
    qed
    then show ?thesis using a b Inr by cases blast+
  qed
  then show thesis
  proof cases
    case a
    then show ?thesis by (rule refused)
  next
    case b
    let ?v = "v0\<lparr>ver_Summary := summary\<rparr>"
    have v0: "v0 = ?v\<lparr>ver_Summary := ''''\<rparr>"
      using b(1) by (auto simp: preview_def Let_def result_bind_Inr_iff split: if_splits option.splits sum.splits)
    show ?thesis
    proof (cases "fit_journal J (keep_last 50 (svc_versions s @ [?v]))")
      case (Inl e)
      with b(2) show ?thesis by (intro failed [of "[fs]" e]) (auto simp: finish_def)
    next
      case (Inr p)
      obtain vs bytes where p: "p = (vs, bytes)" by (cases p)
      obtain err trace where w: "atomicWrite (svc_path s) bytes os fs = (err, trace)" by fastforce
      note aw = atomicWrite_cases [OF fresh w]
      have ne: "keep_last 50 (svc_versions s @ [?v]) \<noteq> []" by (simp add: keep_last_def)
      have last: "last (keep_last 50 (svc_versions s @ [?v])) = ?v"
        unfolding keep_last_def by (subst last_drop) simp_all
      from fit_journal_suffix [OF Inr [unfolded p] ne] obtain n where
        vs: "vs \<noteq> []" "last vs = ?v" "vs = drop n (keep_last 50 (svc_versions s @ [?v]))" "encodes J vs bytes"
        unfolding last by blast
      have len: "length vs \<le> 50" unfolding vs(3) by simp
      have suffix: "\<exists>n. vs = drop n (svc_versions s @ [?v])"
        unfolding vs(3) keep_last_def drop_drop by blast
      show ?thesis
      proof (cases err)
        case None
        show ?thesis
          by (rule applied [of vs trace ?v bytes])
            (use b Inr p w None aw vs(1,2,4) len suffix v0 in \<open>auto simp: finish_def\<close>)
      next
        case (Some e)
        show ?thesis
          by (rule failed [of trace e])
            (use b Inr p w Some aw vs(4) in \<open>auto simp: finish_def\<close>)
      qed
    qed
  qed
qed


lemma service_apply_ok:
  assumes "svc_ok s" "clones J next" "ver_Revision (last (svc_versions s)) \<noteq> - 1"
    "io_CreateTemp os \<noteq> Some (svc_path s)"
  shows "svc_ok (out_service (service_apply J prep expected next summary now os fs s))"
  using assms(4)
proof (cases rule: service_apply_cases [of os s J prep expected "next" summary now fs])
  case (applied v vs b trace)
  have pv: "ver_Revision v = ver_Revision (last (svc_versions s)) + 1" "ver_Config v = next" "Validate next = None"
    using preview_Inr [OF applied(2)] assms(2) by (auto simp: clones_def)
  have "check_revisions 0 (svc_versions s @ [v]) = None"
    using assms(1,3) pv by (intro check_revisions_snoc) (auto simp: svc_ok_def)
  moreover obtain n where n: "vs = drop n (svc_versions s @ [v])" using applied(6) by blast
  ultimately have "check_revisions 0 vs = None" unfolding n by (intro check_revisions_suffix)
  with applied(1,4,7) show ?thesis by (simp add: svc_ok_def)
qed (use assms(1) in simp_all)

subsection \<open>The properties of the service\<close>

text \<open>C17. An update of the configuration is all or nothing, for every pattern of failing system calls. When it
  returns an error the service is unchanged, the journal file has its old content, the prepared
  runtime was never committed and was discarded at most once; when it succeeds the prepared runtime
  was committed exactly once and never discarded, the new version is the last one with the next
  revision, and the journal file holds the encoding of the versions the service now has. At no
  moment in between does the journal file hold anything but its old content or the complete new
  one.\<close>

theorem config_update_all_or_nothing:
  assumes "io_CreateTemp os \<noteq> Some (svc_path s)"
    and "out = service_apply J prep expected next summary now os fs s"
  shows "(case out_result out of
      Inl e \<Rightarrow> out_service out = s \<and> hd (out_fs out) (svc_path s) = fs (svc_path s) \<and>
        Commit \<notin> set (out_calls out) \<and> length (out_calls out) \<le> 1
    | Inr v \<Rightarrow> out_calls out = (if prep = None then [] else [Commit]) \<and>
        ver_Revision v = expected + 1 \<and> ver_Summary v = summary \<and>
        expected = ver_Revision (last (svc_versions s)) \<and>
        cloneVersion J (last (svc_versions (out_service out))) = v \<and>
        svc_path (out_service out) = svc_path s \<and> length (svc_versions (out_service out)) \<le> 50 \<and>
        (\<exists>b. encodes J (svc_versions (out_service out)) b \<and> hd (out_fs out) (svc_path s) = Some b)) \<and>
    (\<exists>b. \<forall>f \<in> set (out_fs out). f (svc_path s) = fs (svc_path s) \<or> f (svc_path s) = Some b)"
  using assms(1)
proof (cases rule: service_apply_cases [of os s J prep expected "next" summary now fs])
  case (refused e)
  then show ?thesis by (simp add: assms(2))
next
  case (failed e trace)
  then show ?thesis by (auto simp: assms(2))
next
  case (applied v vs b trace)
  have "ver_Revision v = expected + 1" "expected = ver_Revision (last (svc_versions s))"
    using preview_Inr [OF applied(2)] by simp_all
  with applied show ?thesis by (auto simp: assms(2) cloneVersion_def)
qed

text \<open>The concurrency check and the validation come before everything else: an update made against a
  revision that is not the current one is refused with \<open>ErrRevisionConflict\<close>, one whose
  configuration does not validate with the error of the validation, and a rollback to a revision that
  is no longer kept with an error of its own; nothing is prepared, written or called.\<close>

lemma config_update_refusals:
  "(expected \<noteq> ver_Revision (last (svc_versions s)) \<longrightarrow>
    service_apply J prep expected next summary now os fs s =
      \<lparr>out_service = s, out_fs = [fs], out_calls = [], out_result = Inl ErrRevisionConflict\<rparr>) \<and>
   (expected = ver_Revision (last (svc_versions s)) \<longrightarrow> Validate next = Some e \<longrightarrow>
    service_apply J prep expected next summary now os fs s =
      \<lparr>out_service = s, out_fs = [fs], out_calls = [], out_result = Inl e\<rparr>) \<and>
   (target \<notin> ver_Revision ` set (svc_versions s) \<longrightarrow>
    Rollback J prep expected target now os fs s =
      \<lparr>out_service = s, out_fs = [fs], out_calls = [],
        out_result = Inl ''configuration revision is not retained''\<rparr>)"
proof -
  have "find (\<lambda>v. ver_Revision v = target) (svc_versions s) = None"
    if "target \<notin> ver_Revision ` set (svc_versions s)"
    using that by (auto simp: find_None_iff)
  then show ?thesis by (auto simp: service_apply_def preview_def Rollback_def)
qed

definition sample_version :: Version where
  "sample_version = \<lparr>ver_Revision = 1, ver_CreatedAt = 0, ver_Summary = '''', ver_Config = Default\<rparr>"

definition sample_version2 :: Version where
  "sample_version2 = \<lparr>ver_Revision = 2, ver_CreatedAt = 5, ver_Summary = ''Rollback to revision 1'',
     ver_Config = Default\<rparr>"

definition sample_codec :: codec where
  "sample_codec = \<lparr>json_Marshal = \<lambda>c. Inr ''c'', json_Unmarshal = \<lambda>b. Inr Default,
     json_MarshalIndent = \<lambda>j. Inr ''j'',
     json_Decode = \<lambda>b. Some \<lparr>j_Format = 1, j_Versions = [sample_version, sample_version2]\<rparr>,
     json_DecodeConfig = \<lambda>c b. Inr c, json_Single = \<lambda>b. True\<rparr>"

definition sample_io :: io where
  "sample_io = \<lparr>io_MkdirAll = True, io_CreateTemp = Some ''t'', io_Chmod = True, io_Copy = None,
     io_Sync = True, io_Close = True, io_Rename = True\<rparr>"

definition sample_service :: service where
  "sample_service = \<lparr>svc_path = ''c.state'', svc_versions = [sample_version]\<rparr>"

lemma Default_validates: "Validate Default = None"
  by code_simp

lemma config_update_refusals_witness:
  "out_result (service_apply sample_codec None 7 Default '''' 5 sample_io Map.empty sample_service) =
     Inl ErrRevisionConflict"
  using config_update_refusals [of 7 sample_service sample_codec None Default "''''" 5 sample_io Map.empty]
  by (simp add: sample_service_def sample_version_def)

text \<open>A file system on which every call succeeds.\<close>

definition io_good :: "io \<Rightarrow> bool" where
  "io_good os = (io_MkdirAll os \<and> io_CreateTemp os \<noteq> None \<and> io_Chmod os \<and> io_Copy os = None \<and>
     io_Sync os \<and> io_Close os \<and> io_Rename os)"

lemma show_nat_length: "n < 10 ^ Suc k \<Longrightarrow> length (show_nat n) \<le> Suc k"
proof (induction k arbitrary: n)
  case 0
  then show ?case by (simp add: show_nat.simps)
next
  case (Suc k)
  show ?case
  proof (cases "n < 10")
    case True
    then show ?thesis by (simp add: show_nat.simps)
  next
    case False
    moreover from Suc.prems have "n div 10 < 10 ^ Suc k" by (simp add: less_mult_imp_div_less mult.commute)
    ultimately show ?thesis using Suc.IH [of "n div 10"] by (subst show_nat.simps) simp
  qed
qed

lemma show_u64_length: "length (show_nat (unat (x :: u64))) \<le> 20"
proof -
  have "unat x < 2 ^ 64" using unsigned_less [of x] by simp
  then have "unat x < 10 ^ Suc 19" by simp
  from show_nat_length [OF this] show ?thesis by simp
qed

lemma atomicWrite_good: "io_good os \<Longrightarrow> fst (atomicWrite path b os fs) = None"
  by (auto simp: io_good_def atomicWrite_def Let_def)

lemma service_apply_succeeds:
  assumes "Validate next = None" "clones J next" "\<And>b. json_Marshal J next = Inr b \<Longrightarrow> length b \<le> 4 * 2 ^ 20"
    "\<And>vs. \<exists>b. encodes J vs b" "case prep of None \<Rightarrow> True | Some f \<Rightarrow> f next = Inr (True, True)"
    "io_good os" "ver_Revision (last (svc_versions s)) = expected" "length summary \<le> 512"
  shows "out_result (service_apply J prep expected next summary now os fs s) \<in> range Inr"
proof -
  obtain b where b: "json_Marshal J next = Inr b"
    using assms(2) by (cases "json_Marshal J next") (auto simp: clones_def Clone_def)
  have fits: "\<exists>b. fit_journal J vs = Inr (vs, b)" for vs
    using assms(4) [of vs] by (subst fit_journal.simps) (auto simp: encodes_def)
  have fin: "out_result (finish J v os fs prepared s) \<in> range Inr" for v prepared
  proof -
    obtain c where c: "fit_journal J (keep_last 50 (svc_versions s @ [v])) = Inr (keep_last 50 (svc_versions s @ [v]), c)"
      using fits by blast
    obtain trace where "atomicWrite (svc_path s) c os fs = (None, trace)"
      using atomicWrite_good [OF assms(6)] by (metis prod.collapse)
    with c show ?thesis by (simp add: finish_def)
  qed
  have "preview J expected next now s = Inr \<lparr>ver_Revision = expected + 1, ver_CreatedAt = now,
      ver_Summary = '''', ver_Config = next\<rparr>"
    using assms(1,2,7) assms(3) [OF b] b by (simp add: preview_def clones_def)
  with assms(5,8) fin show ?thesis
    by (cases prep) (simp_all add: service_apply_def)
qed

text \<open>A rollback restores the configuration of the version it names, as a new version: when the file system
  works, the runtime can be prepared, and the configuration and the journal fit their size limits,
  rolling back to a kept revision succeeds, the new current version has the target's configuration
  and the next revision, and the versions of the service stay valid and strictly ordered.\<close>

lemma rollback_restores:
  assumes "svc_ok s" and "v \<in> set (svc_versions s)" and "clones J (ver_Config v)"
    and "\<And>b. json_Marshal J (ver_Config v) = Inr b \<Longrightarrow> length b \<le> 4 * 2 ^ 20"
    and "\<And>vs. \<exists>b. encodes J vs b"
    and "case prep of None \<Rightarrow> True | Some f \<Rightarrow> f (ver_Config v) = Inr (True, True)"
    and "io_good os" and "io_CreateTemp os \<noteq> Some (svc_path s)"
    and "ver_Revision (last (svc_versions s)) = expected" and "expected \<noteq> - 1"
    and "out = Rollback J prep expected (ver_Revision v) now os fs s"
  shows "out_result out \<in> range Inr \<and>
    ver_Config (last (svc_versions (out_service out))) = ver_Config v \<and>
    ver_Revision (last (svc_versions (out_service out))) = expected + 1 \<and>
    svc_ok (out_service out)"
proof -
  have inj: "w = v" if "w \<in> set (svc_versions s)" "ver_Revision w = ver_Revision v" for w
  proof -
    have "sorted_wrt (<) (map ver_Revision (svc_versions s))"
      using assms(1) by (auto simp: svc_ok_def check_revisions_None)
    then have "inj_on ver_Revision (set (svc_versions s))"
      by (metis distinct_map strict_sorted_iff)
    then show ?thesis using that assms(2) by (meson inj_onD)
  qed
  have f: "find (\<lambda>w. ver_Revision w = ver_Revision v) (svc_versions s) = Some v"
  proof (cases "find (\<lambda>w. ver_Revision w = ver_Revision v) (svc_versions s)")
    case None
    then show ?thesis using assms(2) by (auto simp: find_None_iff)
  next
    case (Some w)
    then have "w \<in> set (svc_versions s)" "ver_Revision w = ver_Revision v"
      by (auto simp: find_Some_iff)
    with Some inj show ?thesis by simp
  qed
  let ?summary = "''Rollback to revision '' @ show_nat (unat (ver_Revision v))"
  let ?out = "service_apply J prep expected (ver_Config v) ?summary now os fs s"
  have out: "out = ?out" by (simp only: assms(11) Rollback_def f option.case)
  have valid: "Validate (ver_Config v) = None"
    using assms(1,2) by (auto simp: svc_ok_def check_revisions_None)
  have "svc_ok (out_service ?out)"
    using assms(1,3,8,9,10) by (intro service_apply_ok) simp_all
  moreover have "out_result ?out \<in> range Inr"
    by (rule service_apply_succeeds)
      (use assms valid show_u64_length [of "ver_Revision v"] in simp_all)
  moreover have "ver_Config (last (svc_versions (out_service ?out))) = ver_Config v \<and>
      ver_Revision (last (svc_versions (out_service ?out))) = expected + 1"
    using assms(8)
  proof (cases rule: service_apply_cases [of os s J prep expected "ver_Config v" ?summary now fs])
    case (applied w vs b trace)
    from preview_Inr [OF applied(2)] assms(3) applied(1,5) show ?thesis by (simp add: clones_def)
  qed (use calculation(2) in auto)
  ultimately show ?thesis by (simp add: out)
qed


lemma sample_clones: "clones sample_codec Default"
  by (simp add: clones_def Clone_def sample_codec_def)

lemma sample_encodes: "encodes sample_codec vs ''j''"
  by (simp add: encodes_def sample_codec_def)

lemma sample_service_ok: "svc_ok sample_service"
  by (simp add: svc_ok_def sample_service_def sample_version_def Default_validates word_less_def)

lemma sample_io_good: "io_good sample_io" "io_CreateTemp sample_io \<noteq> Some (svc_path sample_service)"
  by (simp_all add: io_good_def sample_io_def sample_service_def)

lemma rollback_restores_witness:
  "out_result (Rollback sample_codec None 1 1 5 sample_io Map.empty sample_service) \<in> range Inr"
proof -
  have s: "svc_versions sample_service = [sample_version]" "ver_Revision sample_version = 1"
    "ver_Config sample_version = Default"
    by (simp_all add: sample_service_def sample_version_def)
  have small: "json_Marshal sample_codec (ver_Config sample_version) = Inr b \<Longrightarrow> length b \<le> 4 * 2 ^ 20" for b
    by (auto simp: sample_codec_def)
  show ?thesis
    by (rule rollback_restores [OF sample_service_ok, of sample_version sample_codec None sample_io 1, THEN conjunct1])
      (use sample_clones sample_encodes sample_io_good small in \<open>auto simp: s\<close>)
qed

text \<open>What the service expects of the decoder: a journal that was encoded decodes to itself.\<close>

definition journal_round_trip :: "codec \<Rightarrow> Version list \<Rightarrow> bool" where
  "journal_round_trip J vs =
     (case json_MarshalIndent J \<lparr>j_Format = 1, j_Versions = vs\<rparr> of
        Inl e \<Rightarrow> True | Inr b \<Rightarrow> json_Decode J b = Some \<lparr>j_Format = 1, j_Versions = vs\<rparr>)"

text \<open>C18. The journal is durable: after a successful update, opening the service again on the files the
  update left gives back exactly the versions the running service has, and \<open>Load\<close> returns the
  configuration that was applied.\<close>

theorem config_update_durable:
  assumes "svc_ok s" and "clones J next" and "ver_Revision (last (svc_versions s)) \<noteq> - 1"
    and "io_CreateTemp os \<noteq> Some (svc_path s)" and "svc_path s = path @ ''.state''"
    and "out = service_apply J prep expected next summary now os fs s" and "out_result out = Inr v"
    and "journal_round_trip J (svc_versions (out_service out))" and "Validate seed = None"
  shows "OpenService J path seed later (hd (out_fs out)) = Inr (out_service out) \<and>
    Load J path (hd (out_fs out)) = Inr next"
  using assms(4)
proof (cases rule: service_apply_cases [of os s J prep expected "next" summary now fs])
  case (applied w vs b trace)
  have ok: "svc_ok (out_service out)" using assms(1-4) by (simp add: assms(6) service_apply_ok)
  from applied have o: "out_service out = s\<lparr>svc_versions := vs\<rparr>" "out_fs out = trace" by (simp_all add: assms(6))
  have w: "ver_Config w = next" using preview_Inr [OF applied(2)] assms(2) by (simp add: clones_def)
  have "json_Decode J b = Some \<lparr>j_Format = 1, j_Versions = vs\<rparr>"
    using assms(8) applied(8) by (simp add: journal_round_trip_def encodes_def o)
  with ok applied have "readJournal J (path @ ''.state'') (hd trace) = Versions vs"
    by (simp add: readJournal_def assms(5) [symmetric] encodes_def svc_ok_def o)
  with assms(5,9) applied(5) w show ?thesis by (simp add: OpenService_def Load_def o)
qed (use assms(6,7) in simp_all)

theorem config_update_durable_witness:
  "\<exists>out. out = service_apply sample_codec None 1 Default ''Rollback to revision 1'' 5 sample_io Map.empty sample_service \<and>
     OpenService sample_codec ''c'' Default 9 (hd (out_fs out)) = Inr (out_service out)"
proof -
  let ?out = "service_apply sample_codec None 1 Default ''Rollback to revision 1'' 5 sample_io Map.empty sample_service"
  have s: "svc_versions sample_service = [sample_version]" "ver_Revision sample_version = 1" "svc_path sample_service = ''c'' @ ''.state''"
    by (simp_all add: sample_service_def sample_version_def)
  have pv: "preview sample_codec 1 Default 5 sample_service = Inr \<lparr>ver_Revision = 2, ver_CreatedAt = 5,
      ver_Summary = '''', ver_Config = Default\<rparr>"
    by (simp add: preview_def s Default_validates sample_codec_def Clone_def)
  have "\<exists>v. out_result ?out = Inr v \<and> svc_versions (out_service ?out) = [sample_version, sample_version2]"
    unfolding service_apply_def pv Let_def
    by (simp add: finish_def s keep_last_def fit_journal.simps sample_codec_def
        atomicWrite_def sample_io_def sample_version2_def Let_def)
  then obtain v where v: "out_result ?out = Inr v"
    and vs: "svc_versions (out_service ?out) = [sample_version, sample_version2]" by blast
  have "journal_round_trip sample_codec (svc_versions (out_service ?out))"
    unfolding vs by (simp add: journal_round_trip_def sample_codec_def)
  from config_update_durable [OF sample_service_ok sample_clones _ sample_io_good(2) s(3) refl v this Default_validates]
  show ?thesis by (simp add: s)
qed

theorem config_update_all_or_nothing_witness:
  "out_service (service_apply sample_codec None 1 Default '''' 5 (sample_io\<lparr>io_Sync := False\<rparr>) Map.empty sample_service)
     = sample_service"
proof -
  let ?out = "service_apply sample_codec None 1 Default '''' 5 (sample_io\<lparr>io_Sync := False\<rparr>) Map.empty sample_service"
  have "out_result ?out \<in> range Inl"
    by (simp add: service_apply_def preview_def sample_service_def sample_version_def Default_validates
        Clone_def finish_def fit_journal.simps sample_codec_def atomicWrite_def sample_io_def)
  then show ?thesis
    using config_update_all_or_nothing [OF _ refl, of "sample_io\<lparr>io_Sync := False\<rparr>" sample_service
        sample_codec None 1 Default "''''" 5 Map.empty] sample_io_good(2)
    by (auto split: sum.splits)
qed

text \<open>C19. Every update, applied or not, leaves the service with at least one and at most 50 versions whose
  revisions are strictly increasing and whose configurations all validate, as long as the revision
  counter has not reached its last value.\<close>

theorem config_versions_invariant:
  assumes "svc_ok s" and "clones J next" and "ver_Revision (last (svc_versions s)) \<noteq> - 1"
    and "io_CreateTemp os \<noteq> Some (svc_path s)"
    and "vs = svc_versions (out_service (service_apply J prep expected next summary now os fs s))"
  shows "vs \<noteq> [] \<and> length vs \<le> 50 \<and> sorted_wrt (<) (map ver_Revision vs) \<and>
    (\<forall>v \<in> set vs. Validate (ver_Config v) = None)"
  using service_apply_ok [OF assms(1-4)] unfolding assms(5) svc_ok_def check_revisions_None by simp

theorem config_versions_invariant_witness:
  "sorted_wrt (<) (map ver_Revision
     (svc_versions (out_service (service_apply sample_codec None 1 Default '''' 5 sample_io Map.empty sample_service))))"
  using config_versions_invariant [OF sample_service_ok sample_clones _ sample_io_good(2) refl]
  by (simp add: sample_service_def sample_version_def)

end
