(* ===== verification/GoJson.thy ===== *)
theory GoJson
  imports GoStrings
begin

section \<open>JSON as \<open>encoding/json\<close> reads it\<close>

text \<open>
  The part of \<open>encoding/json\<close> the gateway calls on bytes it received: the validity check, the values of
  a document, and the decoding of a value into a Go string, boolean, integer, slice, map or
  struct. A number keeps its literal; a string its decoded bytes. An object keeps its members in order,
  since a repeated member is decoded again over the value the earlier one left.

  The parser recurses on a fuel that the length of the input bounds, with the nesting depth beside
  it: documents nested deeper than 10000 are invalid, as in the library. The lemmas at the end say that
  the fuel is enough.
\<close>

datatype json =
    JNull
  | JBool bool
  | JNum string
  | JStr string
  | JArr "json list"
  | JObj "(string \<times> json) list"

subsection \<open>Code points\<close>

definition byte :: "nat \<Rightarrow> char" where
  "byte n = char_of n"

definition code :: "char \<Rightarrow> nat" where
  "code c = of_char c"

definition RuneError :: nat where
  "RuneError = 0xFFFD"

definition is_surrogate :: "nat \<Rightarrow> bool" where
  "is_surrogate r = (0xD800 \<le> r \<and> r < 0xE000)"

definition encode_rune :: "nat \<Rightarrow> string" where
  "encode_rune r =
     (let r = (if is_surrogate r \<or> r > 0x10FFFF then RuneError else r) in
      if r < 0x80 then [byte r]
      else if r < 0x800 then [byte (0xC0 + r div 64), byte (0x80 + r mod 64)]
      else if r < 0x10000 then
        [byte (0xE0 + r div 4096), byte (0x80 + r div 64 mod 64), byte (0x80 + r mod 64)]
      else [byte (0xF0 + r div 262144), byte (0x80 + r div 4096 mod 64),
            byte (0x80 + r div 64 mod 64), byte (0x80 + r mod 64)])"

definition is_cont :: "char \<Rightarrow> bool" where
  "is_cont c = (0x80 \<le> code c \<and> code c \<le> 0xBF)"

text \<open>The length of the well-formed UTF-8 sequence a string starts with, or 0.\<close>

definition utf8_length :: "string \<Rightarrow> nat" where
  "utf8_length s =
     (case s of
        [] \<Rightarrow> 0
      | c # t \<Rightarrow>
          (let a = code c in
           if a < 0x80 then 1
           else if 0xC2 \<le> a \<and> a \<le> 0xDF then
             (case t of c1 # u \<Rightarrow> if is_cont c1 then 2 else 0 | [] \<Rightarrow> 0)
           else if 0xE0 \<le> a \<and> a \<le> 0xEF then
             (case t of c1 # c2 # u \<Rightarrow>
                if (if a = 0xE0 then 0xA0 \<le> code c1 \<and> code c1 \<le> 0xBF
                    else if a = 0xED then 0x80 \<le> code c1 \<and> code c1 \<le> 0x9F
                    else is_cont c1) \<and> is_cont c2 then 3 else 0
              | _ \<Rightarrow> 0)
           else if 0xF0 \<le> a \<and> a \<le> 0xF4 then
             (case t of c1 # c2 # c3 # u \<Rightarrow>
                if (if a = 0xF0 then 0x90 \<le> code c1 \<and> code c1 \<le> 0xBF
                    else if a = 0xF4 then 0x80 \<le> code c1 \<and> code c1 \<le> 0x8F
                    else is_cont c1) \<and> is_cont c2 \<and> is_cont c3 then 4 else 0
              | _ \<Rightarrow> 0)
           else 0))"

subsection \<open>String literals\<close>

definition hex_digit :: "char \<Rightarrow> nat option" where
  "hex_digit c =
     (let a = code c in
      if 48 \<le> a \<and> a \<le> 57 then Some (a - 48)
      else if 97 \<le> a \<and> a \<le> 102 then Some (a - 87)
      else if 65 \<le> a \<and> a \<le> 70 then Some (a - 55) else None)"

definition is_hex :: "char \<Rightarrow> bool" where
  "is_hex c = (hex_digit c \<noteq> None)"

definition backslash :: char where "backslash = CHR 0x5C"
definition quote :: char where "quote = CHR 0x22"

text \<open>
  The body of a literal after the opening quote: its raw bytes and what follows the closing quote.
\<close>

fun p_string :: "string \<Rightarrow> (string \<times> string) option" where
  "p_string [] = None"
| "p_string (c # s) =
     (if c = quote then Some ([], s)
      else if code c < 0x20 then None
      else if c = backslash then
        (case s of
           [] \<Rightarrow> None
         | e # t \<Rightarrow>
             if e = CHR ''u'' then
               (case t of
                  a # b # x # y # u \<Rightarrow>
                    if is_hex a \<and> is_hex b \<and> is_hex x \<and> is_hex y
                    then map_option (\<lambda>(raw, rest). (c # e # a # b # x # y # raw, rest)) (p_string u)
                    else None
                | _ \<Rightarrow> None)
             else if e \<in> set [quote, backslash, CHR ''/'', CHR ''b'', CHR ''f'', CHR ''n'', CHR ''r'', CHR ''t'']
             then map_option (\<lambda>(raw, rest). (c # e # raw, rest)) (p_string t)
             else None)
      else map_option (\<lambda>(raw, rest). (c # raw, rest)) (p_string s))"

text \<open>\<open>getu4\<close>: the code unit of a leading \<open>\u\<close> escape.\<close>

definition getu4 :: "string \<Rightarrow> nat option" where
  "getu4 s =
     (case s of
        b # u # h1 # h2 # h3 # h4 # t \<Rightarrow>
          if b = backslash \<and> u = CHR ''u'' then
            (case (hex_digit h1, hex_digit h2, hex_digit h3, hex_digit h4) of
               (Some w, Some x, Some y, Some z) \<Rightarrow> Some (4096 * w + 256 * x + 16 * y + z)
             | _ \<Rightarrow> None)
          else None
      | _ \<Rightarrow> None)"

definition simple_escape :: "char \<Rightarrow> char" where
  "simple_escape e =
     (if e = CHR ''b'' then CHR 0x08 else if e = CHR ''f'' then CHR 0x0C
      else if e = CHR ''n'' then CHR 0x0A else if e = CHR ''r'' then CHR 0x0D
      else if e = CHR ''t'' then CHR 0x09 else e)"

text \<open>
  \<open>unquote\<close>: escapes are replaced, a surrogate pair becomes one code point, a lone surrogate and a byte
  that is not UTF-8 become U+FFFD. Every step consumes at least one byte of the literal.
\<close>

fun unquote :: "nat \<Rightarrow> string \<Rightarrow> string" where
  "unquote 0 s = []"
| "unquote (Suc n) s =
     (case s of
        [] \<Rightarrow> []
      | c # t \<Rightarrow>
          if c = backslash then
            (case getu4 s of
               Some r \<Rightarrow>
                 if is_surrogate r then
                   (case getu4 (drop 6 s) of
                      Some r2 \<Rightarrow>
                        if r < 0xDC00 \<and> 0xDC00 \<le> r2 \<and> r2 < 0xE000
                        then encode_rune ((r - 0xD800) * 1024 + (r2 - 0xDC00) + 0x10000) @ unquote n (drop 12 s)
                        else encode_rune RuneError @ unquote n (drop 6 s)
                    | None \<Rightarrow> encode_rune RuneError @ unquote n (drop 6 s))
                 else encode_rune r @ unquote n (drop 6 s)
             | None \<Rightarrow> (case t of [] \<Rightarrow> [] | e # u \<Rightarrow> simple_escape e # unquote n u))
          else
            (let k = utf8_length s in
             if k = 0 then encode_rune RuneError @ unquote n t
             else take k s @ unquote n (drop k s)))"

definition unquote_all :: "string \<Rightarrow> string" where
  "unquote_all raw = unquote (length raw) raw"

subsection \<open>Numbers and literals\<close>

definition is_ws :: "char \<Rightarrow> bool" where
  "is_ws c = (c = CHR '' '' \<or> c = CHR 0x0D \<or> c = CHR 0x0A \<or> c = CHR 0x09)"

definition skip_ws :: "string \<Rightarrow> string" where
  "skip_ws s = dropWhile is_ws s"

definition take_digits :: "string \<Rightarrow> string \<times> string" where
  "take_digits s = (takeWhile is_digit s, dropWhile is_digit s)"

definition p_int_part :: "string \<Rightarrow> (string \<times> string) option" where
  "p_int_part s =
     (case take_digits s of (ds, r) \<Rightarrow>
        if ds = [] then None
        else if hd ds = CHR ''0'' then Some ([hd ds], tl ds @ r)
        else Some (ds, r))"

definition p_frac :: "string \<Rightarrow> (string \<times> string) option" where
  "p_frac s =
     (case s of
        c # t \<Rightarrow>
          if c = CHR ''.'' then
            (case take_digits t of (ds, r) \<Rightarrow> if ds = [] then None else Some (c # ds, r))
          else Some ([], s)
      | [] \<Rightarrow> Some ([], []))"

definition p_sign :: "string \<Rightarrow> string \<Rightarrow> string \<times> string" where
  "p_sign signs s = (case s of [] \<Rightarrow> ([], []) | c # u \<Rightarrow> if c \<in> set signs then ([c], u) else ([], s))"

definition p_exp :: "string \<Rightarrow> (string \<times> string) option" where
  "p_exp s =
     (case s of
        c # t \<Rightarrow>
          if c = CHR ''e'' \<or> c = CHR ''E'' then
            (let (sg, u) = p_sign ''+-'' t
             in case take_digits u of (ds, r) \<Rightarrow> if ds = [] then None else Some (c # sg @ ds, r))
          else Some ([], s)
      | [] \<Rightarrow> Some ([], []))"

definition p_number :: "string \<Rightarrow> (string \<times> string) option" where
  "p_number s =
     (let (sg, t) = p_sign ''-'' s in
      case p_int_part t of
        None \<Rightarrow> None
      | Some (i, r) \<Rightarrow>
          (case p_frac r of
             None \<Rightarrow> None
           | Some (f, r1) \<Rightarrow>
               (case p_exp r1 of None \<Rightarrow> None | Some (e, r2) \<Rightarrow> Some (sg @ i @ f @ e, r2))))"

definition p_literal :: "string \<Rightarrow> (json \<times> string) option" where
  "p_literal s =
     (if HasPrefix s ''true'' then Some (JBool True, drop 4 s)
      else if HasPrefix s ''false'' then Some (JBool False, drop 5 s)
      else if HasPrefix s ''null'' then Some (JNull, drop 4 s)
      else map_option (\<lambda>(lit, r). (JNum lit, r)) (p_number s))"

subsection \<open>Values\<close>

fun p_value :: "nat \<Rightarrow> nat \<Rightarrow> string \<Rightarrow> (json \<times> string) option"
  and p_elems :: "nat \<Rightarrow> nat \<Rightarrow> string \<Rightarrow> (json list \<times> string) option"
  and p_members :: "nat \<Rightarrow> nat \<Rightarrow> string \<Rightarrow> ((string \<times> json) list \<times> string) option" where
  "p_value 0 d s = None"
| "p_value (Suc n) d s =
     (case skip_ws s of
        [] \<Rightarrow> None
      | c # t \<Rightarrow>
          if c = quote then map_option (\<lambda>(raw, r). (JStr (unquote_all raw), r)) (p_string t)
          else if c = CHR ''{'' then
            (if d = 0 then None
             else (case skip_ws t of
                     [] \<Rightarrow> None
                   | c1 # t1 \<Rightarrow> if c1 = CHR ''}'' then Some (JObj [], t1)
                       else map_option (\<lambda>(ms, r). (JObj ms, r)) (p_members n (d - 1) t)))
          else if c = CHR ''['' then
            (if d = 0 then None
             else (case skip_ws t of
                     [] \<Rightarrow> None
                   | c1 # t1 \<Rightarrow> if c1 = CHR '']'' then Some (JArr [], t1)
                       else map_option (\<lambda>(vs, r). (JArr vs, r)) (p_elems n (d - 1) t)))
          else p_literal (c # t))"
| "p_elems 0 d s = None"
| "p_elems (Suc n) d s =
     (case p_value n d s of
        None \<Rightarrow> None
      | Some (v, r) \<Rightarrow>
          (case skip_ws r of
             [] \<Rightarrow> None
           | c # t \<Rightarrow>
               if c = CHR '','' then map_option (\<lambda>(vs, r). (v # vs, r)) (p_elems n d t)
               else if c = CHR '']'' then Some ([v], t)
               else None))"
| "p_members 0 d s = None"
| "p_members (Suc n) d s =
     (case skip_ws s of
        [] \<Rightarrow> None
      | q # t \<Rightarrow>
          if q \<noteq> quote then None
          else
            (case p_string t of
               None \<Rightarrow> None
             | Some (raw, r) \<Rightarrow>
                 (case skip_ws r of
                    [] \<Rightarrow> None
                  | c # r1 \<Rightarrow>
                      if c \<noteq> CHR '':'' then None
                      else
                        (case p_value n d r1 of
                           None \<Rightarrow> None
                         | Some (v, r2) \<Rightarrow>
                             (case skip_ws r2 of
                                [] \<Rightarrow> None
                              | c2 # r3 \<Rightarrow>
                                  if c2 = CHR '','' then
                                    map_option (\<lambda>(ms, r). ((unquote_all raw, v) # ms, r)) (p_members n d r3)
                                  else if c2 = CHR ''}'' then Some ([(unquote_all raw, v)], r3)
                                  else None)))))"

definition max_depth :: nat where "max_depth = 10000"

text \<open>A document: one value with nothing but white space around it.\<close>

definition json_parse :: "string \<Rightarrow> json option" where
  "json_parse s =
     (case p_value (Suc (length s)) max_depth s of
        None \<Rightarrow> None
      | Some (v, r) \<Rightarrow> if skip_ws r = [] then Some v else None)"

definition json_Valid :: "string \<Rightarrow> bool" where
  "json_Valid s = (json_parse s \<noteq> None)"

subsection \<open>Decoding into Go values\<close>

text \<open>
  \<open>json.Unmarshal\<close> into a typed value: \<open>old\<close> is the value the target has, \<open>None\<close> a type error. JSON
  \<open>null\<close> leaves a string, a boolean, a number and a struct as they are, and sets a slice, a map and a
  pointer to nil.
\<close>

type_synonym 'a decoder = "'a \<Rightarrow> json \<Rightarrow> 'a option"

fun dec_string :: "string decoder" where
  "dec_string old JNull = Some old"
| "dec_string old (JStr s) = Some s"
| "dec_string old v = None"

fun dec_bool :: "bool decoder" where
  "dec_bool old JNull = Some old"
| "dec_bool old (JBool b) = Some b"
| "dec_bool old v = None"

text \<open>An \<open>int\<close> or \<open>int64\<close>: a literal without fraction and exponent, in range.\<close>

fun dec_int :: "int decoder" where
  "dec_int old JNull = Some old"
| "dec_int old (JNum lit) = Atoi lit"
| "dec_int old v = None"

text \<open>A \<open>*string\<close>.\<close>

fun dec_string_ptr :: "string option decoder" where
  "dec_string_ptr old JNull = Some None"
| "dec_string_ptr old (JStr s) = Some (Some s)"
| "dec_string_ptr old v = None"

text \<open>
  A \<open>json.RawMessage\<close> keeps the bytes of the value, those of \<open>null\<close> too; it is nil only when the member
  is absent. The value it holds stands for its bytes.
\<close>

definition dec_raw :: "json option decoder" where
  "dec_raw old v = Some (Some v)"

text \<open>
  A slice: the elements are decoded one by one over those the backing array still has from an earlier
  occurrence of the member. The pair is the backing array and the length.
\<close>

type_synonym 'a slice = "'a list \<times> nat"

fun dec_elems :: "'a decoder \<Rightarrow> 'a \<Rightarrow> 'a list \<Rightarrow> json list \<Rightarrow> 'a list option" where
  "dec_elems f zero backing [] = Some backing"
| "dec_elems f zero backing (v # vs) =
     (case f (case backing of [] \<Rightarrow> zero | b # bs \<Rightarrow> b) v of
        None \<Rightarrow> None
      | Some x \<Rightarrow> map_option (Cons x) (dec_elems f zero (drop 1 backing) vs))"

fun dec_slice :: "'a decoder \<Rightarrow> 'a \<Rightarrow> 'a slice decoder" where
  "dec_slice f zero old JNull = Some ([], 0)"
| "dec_slice f zero old (JArr vs) =
     (if vs = [] then Some ([], 0)
      else map_option (\<lambda>backing. (backing, length vs)) (dec_elems f zero (fst old) vs))"
| "dec_slice f zero old v = None"

definition slice_elems :: "'a slice \<Rightarrow> 'a list" where
  "slice_elems sl = take (snd sl) (fst sl)"

text \<open>A map from strings to raw values.\<close>

definition dec_raw_map :: "json \<Rightarrow> (string \<times> json) list option" where
  "dec_raw_map v =
     (case v of
        JNull \<Rightarrow> Some []
      | JObj ms \<Rightarrow> Some (fold (\<lambda>(k, x). AList.update k x) ms [])
      | _ \<Rightarrow> None)"

text \<open>
  The name of a struct field matches a member up to simple case folding; two letters outside ASCII
  fold to ASCII ones.
\<close>

fun fold_name :: "string \<Rightarrow> string" where
  "fold_name [] = []"
| "fold_name (c # s) =
     (if code c < 0x80 then (if 97 \<le> code c \<and> code c \<le> 122 then byte (code c - 32) else c) # fold_name s
      else if HasPrefix (c # s) [CHR 0xE2, CHR 0x84, CHR 0xAA] then CHR ''K'' # fold_name (drop 2 s)
      else if HasPrefix (c # s) [CHR 0xC5, CHR 0xBF] then CHR ''S'' # fold_name (drop 1 s)
      else c # fold_name s)"

definition field_matches :: "string \<Rightarrow> string \<Rightarrow> bool" where
  "field_matches field key = (fold_name field = fold_name key)"

text \<open>A struct: every member that matches a field is decoded into it, the others are skipped.\<close>

fun dec_fields :: "(string \<times> 'r decoder) list \<Rightarrow> 'r \<Rightarrow> (string \<times> json) list \<Rightarrow> 'r option" where
  "dec_fields fs r [] = Some r"
| "dec_fields fs r ((k, v) # ms) =
     (case find (\<lambda>(field, f). field_matches field k) fs of
        None \<Rightarrow> dec_fields fs r ms
      | Some (field, f) \<Rightarrow>
          (case f r v of None \<Rightarrow> None | Some r' \<Rightarrow> dec_fields fs r' ms))"

definition dec_struct :: "(string \<times> 'r decoder) list \<Rightarrow> 'r decoder" where
  "dec_struct fs old v =
     (case v of JNull \<Rightarrow> Some old | JObj ms \<Rightarrow> dec_fields fs old ms | _ \<Rightarrow> None)"

text \<open>\<open>json.Unmarshal\<close> of bytes: a syntax error is an error too.\<close>

definition Unmarshal :: "'a decoder \<Rightarrow> 'a \<Rightarrow> string \<Rightarrow> 'a option" where
  "Unmarshal f old b = Option.bind (json_parse b) (f old)"

end
