(* ===== verification/RequestScan.thy ===== *)
theory RequestScan
  imports GoJson
begin

section \<open>Inspecting and rewriting a request body\<close>

text \<open>
  \<open>internal/protocol/request.go\<close>: the scanner that finds the routing fields of a request without
  building a JSON tree, and the replacement of the model name. The scanner works on indices into
  the body; an index or a slice out of range, which panics in Go, is \<open>None\<close> or \<open>Panic\<close> here.
\<close>

record Request =
  req_Model :: string
  req_Stream :: bool
  req_Tools :: bool
  req_Stateful :: bool
  req_Vision :: bool
  req_MaxOutputTokens :: int
  req_ModelStart :: int
  req_ModelEnd :: int

definition new_Request :: Request where
  "new_Request = \<lparr>req_Model = '''', req_Stream = False, req_Tools = False, req_Stateful = False,
     req_Vision = False, req_MaxOutputTokens = 0, req_ModelStart = - 1, req_ModelEnd = 0\<rparr>"

definition byte_at :: "string \<Rightarrow> nat \<Rightarrow> char option" where
  "byte_at b i = (if i < length b then Some (b ! i) else None)"

definition slice :: "string \<Rightarrow> nat \<Rightarrow> nat \<Rightarrow> string option" where
  "slice b lo hi = (if lo \<le> hi \<and> hi \<le> length b then Some (take (hi - lo) (drop lo b)) else None)"

lemma byte_at_Some: "byte_at b i = Some c \<longleftrightarrow> i < length b \<and> b ! i = c"
  by (simp add: byte_at_def)

subsection \<open>The scanner\<close>

function space :: "string \<Rightarrow> nat \<Rightarrow> nat" where
  "space b i = (if i < length b \<and> is_ws (b ! i) then space b (i + 1) else i)"
  by pat_completeness auto
termination by (relation "measure (\<lambda>(b, i). length b - i)") auto

declare space.simps [simp del]

fun index_byte :: "char \<Rightarrow> string \<Rightarrow> nat option" where
  "index_byte c [] = None"
| "index_byte c (x # xs) = (if x = c then Some 0 else map_option Suc (index_byte c xs))"

text \<open>The backslashes of \<open>b\<close> immediately before \<open>hi\<close>, not looking before \<open>lo\<close>.\<close>

fun backslashes :: "string \<Rightarrow> nat \<Rightarrow> nat \<Rightarrow> nat" where
  "backslashes b lo 0 = 0"
| "backslashes b lo (Suc j) = (if lo \<le> j \<and> b ! j = backslash then Suc (backslashes b lo j) else 0)"

function string_loop :: "string \<Rightarrow> nat \<Rightarrow> nat" where
  "string_loop b i =
     (if i < length b then
        (case index_byte quote (drop i b) of
           None \<Rightarrow> length b
         | Some q \<Rightarrow> if even (backslashes b i (i + q)) then i + q + 1 else string_loop b (i + q + 1))
      else i)"
  by pat_completeness auto
termination by (relation "measure (\<lambda>(b, i). length b - i)") auto

declare string_loop.simps [simp del]

definition stringEnd :: "string \<Rightarrow> nat \<Rightarrow> nat" where
  "stringEnd b i = string_loop b (i + 1)"

lemma space_ge: "i \<le> space b i"
  by (induction b i rule: space.induct) (subst space.simps, auto)

lemma string_loop_ge: "i \<le> string_loop b i"
proof (induction b i rule: string_loop.induct)
  case (1 b i)
  then show ?case by (subst string_loop.simps) (fastforce split: option.split)
qed

lemma stringEnd_gt: "i < stringEnd b i"
  using string_loop_ge [of "i + 1" b] by (simp add: stringEnd_def)

function value_loop :: "string \<Rightarrow> nat \<Rightarrow> nat \<Rightarrow> nat" where
  "value_loop b depth i =
     (if i < length b then
        (let c = b ! i in
         if c = quote then value_loop b depth (stringEnd b i)
         else if c = CHR ''['' \<or> c = CHR ''{'' then value_loop b (depth + 1) (i + 1)
         else if c = CHR '']'' \<or> c = CHR ''}'' then
           (if depth = 0 then i
            else if depth = 1 then i + 1
            else value_loop b (depth - 1) (i + 1))
         else if c = CHR '','' \<and> depth = 0 then i
         else value_loop b depth (i + 1))
      else i)"
  by pat_completeness auto
termination
  by (relation "measure (\<lambda>(b, depth, i). length b - i)") (auto simp: stringEnd_gt diff_less_mono2)

declare value_loop.simps [simp del]

definition valueEnd :: "string \<Rightarrow> nat \<Rightarrow> nat option" where
  "valueEnd b i =
     (case byte_at b i of
        None \<Rightarrow> None
      | Some c \<Rightarrow> Some (if c = quote then stringEnd b i else value_loop b 0 i))"

lemma value_loop_ge: "i \<le> value_loop b depth i"
proof (induction "length b - i" arbitrary: depth i rule: less_induct)
  case less
  have later: "i \<le> value_loop b d j" if "i < length b" "i < j" for d j
    using less [of j d] that by linarith
  show ?case
    by (subst value_loop.simps) (simp add: Let_def later stringEnd_gt)
qed

lemma valueEnd_ge: "valueEnd b i = Some j \<Longrightarrow> i \<le> j"
  using stringEnd_gt [of i b] value_loop_ge [of i b 0]
  by (auto simp: valueEnd_def split: option.splits if_splits)

subsection \<open>Fields\<close>

definition positiveInt :: "string \<Rightarrow> int option" where
  "positiveInt raw =
     (case Unmarshal dec_int 0 raw of
        None \<Rightarrow> None
      | Some value \<Rightarrow> if value \<le> 0 then None else Some value)"

definition generationOutputLimit :: "string \<Rightarrow> int option" where
  "generationOutputLimit raw =
     (case Unmarshal (dec_struct
        [(''maxOutputTokens'', \<lambda>(a, b) v. map_option (\<lambda>x. (x, b)) (dec_int a v)),
         (''max_output_tokens'', \<lambda>(a, b) v. map_option (\<lambda>x. (a, x)) (dec_int b v))]) (0, 0) raw of
        None \<Rightarrow> None
      | Some (camel, snake) \<Rightarrow>
          (let value = (if snake > camel then snake else camel) in
           if value \<le> 0 then None else Some value))"

definition quoted :: "string \<Rightarrow> string" where
  "quoted s = quote # s @ [quote]"

text \<open>A literal spelling is compared as bytes; one with an escape is decoded.\<close>

definition literal_or_decoded :: "string list \<Rightarrow> string \<Rightarrow> string" where
  "literal_or_decoded names raw =
     (case find (\<lambda>k. raw = quoted k) names of
        Some k \<Rightarrow> k
      | None \<Rightarrow>
          if backslash \<in> set raw
          then (case Unmarshal dec_string '''' raw of Some key \<Rightarrow> key | None \<Rightarrow> '''') else '''')"

definition routing_names :: "string list" where
  "routing_names = [''model'', ''stream'', ''tools'', ''functions'', ''previous_response_id'',
     ''conversation'', ''messages'', ''contents'', ''input'', ''max_tokens'',
     ''max_completion_tokens'', ''max_output_tokens'', ''generationConfig'', ''generation_config'']"

definition routingKey :: "string \<Rightarrow> string" where
  "routingKey raw = literal_or_decoded routing_names raw"

definition image_names :: "string list" where
  "image_names = [''type'', ''image'', ''input_image'', ''image_url'', ''inlineData'', ''inline_data'']"

definition imageMarker :: "string \<Rightarrow> string" where
  "imageMarker raw = literal_or_decoded image_names raw"

text \<open>What \<open>hasImage\<close> asks of the string at \<open>i\<close> that ends at \<open>end\<close>.\<close>

definition image_at :: "string \<Rightarrow> nat \<Rightarrow> nat \<Rightarrow> bool option" where
  "image_at b i e =
     (let nx = space b e in
      if byte_at b nx = Some (CHR '':'') then
        (case slice b i e of
           None \<Rightarrow> None
         | Some raw \<Rightarrow>
             (let key = imageMarker raw in
              if key = ''image_url'' \<or> key = ''inlineData'' \<or> key = ''inline_data'' then Some True
              else if key = ''type'' then
                (let value = space b (nx + 1) in
                 if byte_at b value = Some quote then
                   (case slice b value (stringEnd b value) of
                      None \<Rightarrow> None
                    | Some vraw \<Rightarrow>
                        (let kind = imageMarker vraw in
                         Some (kind = ''image'' \<or> kind = ''image_url'' \<or> kind = ''input_image'')))
                 else Some False)
              else Some False))
      else Some False)"

function image_loop :: "string \<Rightarrow> nat \<Rightarrow> bool option" where
  "image_loop b i =
     (if i < length b then
        (if b ! i \<noteq> quote then image_loop b (i + 1)
         else (case image_at b i (stringEnd b i) of
                 None \<Rightarrow> None
               | Some True \<Rightarrow> Some True
               | Some False \<Rightarrow> image_loop b (stringEnd b i)))
      else Some False)"
  by pat_completeness auto
termination
  by (relation "measure (\<lambda>(b, i). length b - i)") (auto simp: stringEnd_gt diff_less_mono2)

declare image_loop.simps [simp del]

definition hasImage :: "string \<Rightarrow> bool option" where
  "hasImage b =
     (if \<not> Contains b ''image'' \<and> \<not> Contains b ''inlineData'' \<and> \<not> Contains b ''inline_data'' \<and>
         \<not> Contains b [backslash, CHR ''u'']
      then Some False else image_loop b 0)"

subsection \<open>Inspect\<close>

datatype inspected = Panic | Failed string | Inspected Request

definition raise_limit :: "int option \<Rightarrow> Request \<Rightarrow> Request" where
  "raise_limit v r =
     (case v of None \<Rightarrow> r
      | Some value \<Rightarrow> if value > req_MaxOutputTokens r then r\<lparr>req_MaxOutputTokens := value\<rparr> else r)"

text \<open>
  The switch on one member: its key, the raw bytes of its value and their position. The state is the
  request built so far and \<open>seenStream\<close>.
\<close>

definition member_case :: "string \<Rightarrow> string \<Rightarrow> nat \<Rightarrow> nat \<Rightarrow> Request \<times> bool \<Rightarrow> (inspected, Request \<times> bool) sum" where
  "member_case key raw start i st =
     (case st of (r, seenStream) \<Rightarrow>
        if key = ''model'' then
          (if req_ModelStart r \<ge> 0 then Inl (Failed ''duplicate model'')
           else (case Unmarshal dec_string (req_Model r) raw of
                   None \<Rightarrow> Inl (Failed ''model must be a string'')
                 | Some m \<Rightarrow> Inr (r\<lparr>req_Model := m, req_ModelStart := int start, req_ModelEnd := int i\<rparr>, seenStream)))
        else if key = ''stream'' then
          (if seenStream then Inl (Failed ''duplicate stream'')
           else (case Unmarshal dec_bool (req_Stream r) raw of
                   None \<Rightarrow> Inl (Failed ''stream must be boolean'')
                 | Some v \<Rightarrow> Inr (r\<lparr>req_Stream := v\<rparr>, True)))
        else if key = ''tools'' \<or> key = ''functions'' then
          Inr (if raw \<noteq> ''[]'' \<and> raw \<noteq> ''null'' then r\<lparr>req_Tools := True\<rparr> else r, seenStream)
        else if key = ''previous_response_id'' \<or> key = ''conversation'' then
          Inr (if raw \<noteq> ''null'' then r\<lparr>req_Stateful := True\<rparr> else r, seenStream)
        else if key = ''messages'' \<or> key = ''contents'' \<or> key = ''input'' then
          (if req_Vision r then Inr (r, seenStream)
           else (case hasImage raw of
                   None \<Rightarrow> Inl Panic
                 | Some v \<Rightarrow> Inr (r\<lparr>req_Vision := v\<rparr>, seenStream)))
        else if key = ''max_tokens'' \<or> key = ''max_completion_tokens'' \<or> key = ''max_output_tokens'' then
          Inr (raise_limit (positiveInt raw) r, seenStream)
        else if key = ''generationConfig'' \<or> key = ''generation_config'' then
          Inr (raise_limit (generationOutputLimit raw) r, seenStream)
        else Inr st)"

function inspect_loop :: "string \<Rightarrow> nat \<Rightarrow> Request \<times> bool \<Rightarrow> inspected" where
  "inspect_loop b i0 st =
     (let i = space b i0 in
      case byte_at b i of
        None \<Rightarrow> Panic
      | Some c \<Rightarrow>
          if c = CHR ''}'' then Inspected (fst st)
          else
            (let keyEnd = stringEnd b i in
             case slice b i keyEnd of
               None \<Rightarrow> Panic
             | Some rawKey \<Rightarrow>
                 (let start = space b (space b keyEnd + 1) in
                  case valueEnd b start of
                    None \<Rightarrow> Panic
                  | Some j \<Rightarrow>
                      (case slice b start j of
                         None \<Rightarrow> Panic
                       | Some raw \<Rightarrow>
                           (case member_case (routingKey rawKey) raw start j st of
                              Inl out \<Rightarrow> out
                            | Inr st' \<Rightarrow>
                                (let k = space b j in
                                 case byte_at b k of
                                   None \<Rightarrow> Panic
                                 | Some c2 \<Rightarrow>
                                     inspect_loop b (if c2 = CHR '','' then k + 1 else k) st'))))))"
  by pat_completeness auto
termination
proof (relation "measure (\<lambda>(b, i, st). length b - i)", goal_cases)
  case (2 b i0 st i c keyEnd rawKey start j raw st' k c2)
  have "i < keyEnd" using stringEnd_gt [of i b] 2 by simp
  moreover have "keyEnd \<le> start"
    using 2 space_ge [of keyEnd b] space_ge [of "space b keyEnd + 1" b] by simp
  moreover have "start \<le> j" using 2 valueEnd_ge by blast
  moreover have "j \<le> k" using 2 space_ge by blast
  moreover have "i0 \<le> i" using 2 space_ge by blast
  moreover have "i < length b" using 2 by (simp add: byte_at_Some)
  ultimately show ?case by auto
qed simp

declare inspect_loop.simps [simp del]

definition Inspect :: "string \<Rightarrow> inspected" where
  "Inspect b =
     (if \<not> json_Valid b then Failed ''invalid JSON''
      else (let i = space b 0 in
            if byte_at b i \<noteq> Some (CHR ''{'') then Failed ''request must be an object''
            else inspect_loop b (i + 1) (new_Request, False)))"

subsection \<open>Rewrite\<close>

text \<open>
  \<open>strconv.AppendQuote\<close>: which code points outside ASCII are printable is a table of the \<open>unicode\<close>
  package, the argument \<open>isPrint\<close>.
\<close>

definition hex_char :: "nat \<Rightarrow> char" where
  "hex_char n = ''0123456789abcdef'' ! (n mod 16)"

definition escaped_byte :: "nat \<Rightarrow> string" where
  "escaped_byte n = [backslash, CHR ''x'', hex_char (n div 16), hex_char n]"

definition decode_rune :: "string \<Rightarrow> nat" where
  "decode_rune s =
     (case map code s of
        [a] \<Rightarrow> a
      | [a, b] \<Rightarrow> (a - 0xC0) * 64 + (b - 0x80)
      | [a, b, c] \<Rightarrow> (a - 0xE0) * 4096 + (b - 0x80) * 64 + (c - 0x80)
      | [a, b, c, d] \<Rightarrow> (a - 0xF0) * 262144 + (b - 0x80) * 4096 + (c - 0x80) * 64 + (d - 0x80)
      | _ \<Rightarrow> RuneError)"

definition escaped_rune :: "(nat \<Rightarrow> bool) \<Rightarrow> string \<Rightarrow> string" where
  "escaped_rune isPrint s =
     (let r = decode_rune s in
      if s = [quote] \<or> s = [backslash] then backslash # s
      else if (if r < 0x80 then 0x20 \<le> r \<and> r < 0x7F else isPrint r) then s
      else if r = 7 then [backslash, CHR ''a''] else if r = 8 then [backslash, CHR ''b'']
      else if r = 12 then [backslash, CHR ''f''] else if r = 10 then [backslash, CHR ''n'']
      else if r = 13 then [backslash, CHR ''r''] else if r = 9 then [backslash, CHR ''t'']
      else if r = 11 then [backslash, CHR ''v'']
      else if r < 0x20 \<or> r = 0x7F then escaped_byte r
      else if r < 0x10000 then
        [backslash, CHR ''u'', hex_char (r div 4096), hex_char (r div 256), hex_char (r div 16), hex_char r]
      else [backslash, CHR ''U'', hex_char (r div 268435456), hex_char (r div 16777216),
        hex_char (r div 1048576), hex_char (r div 65536),
        hex_char (r div 4096), hex_char (r div 256), hex_char (r div 16), hex_char r])"

fun quote_body :: "(nat \<Rightarrow> bool) \<Rightarrow> nat \<Rightarrow> string \<Rightarrow> string" where
  "quote_body isPrint 0 s = []"
| "quote_body isPrint (Suc n) s =
     (case s of
        [] \<Rightarrow> []
      | c # t \<Rightarrow>
          (let k = utf8_length s in
           if k = 0 then escaped_byte (code c) @ quote_body isPrint n t
           else escaped_rune isPrint (take k s) @ quote_body isPrint n (drop k s)))"

definition AppendQuote :: "(nat \<Rightarrow> bool) \<Rightarrow> string \<Rightarrow> string" where
  "AppendQuote isPrint s = quoted (quote_body isPrint (length s) s)"

definition Rewrite :: "(nat \<Rightarrow> bool) \<Rightarrow> string \<Rightarrow> Request \<Rightarrow> string \<Rightarrow> string" where
  "Rewrite isPrint b r model =
     (if req_ModelStart r < 0 \<or> req_Model r = model then b
      else take (nat (req_ModelStart r)) b @ AppendQuote isPrint model @ drop (nat (req_ModelEnd r)) b)"

end
