(* ===== verification/RequestProofs.thy ===== *)
theory RequestProofs
  imports RequestScan
begin

section \<open>The scanner against the grammar\<close>

text \<open>
  The index-based scanner is first restated on the rest of the input (\<open>str_rest\<close>, \<open>val_rest\<close>), then
  compared with the parser of \<open>GoJson\<close>: on a valid document it stops exactly where the grammar says,
  so it never leaves the body, and it finds the members of the top-level object and no others.
\<close>

subsection \<open>On suffixes\<close>

lemma drop_space: "i \<le> length b \<Longrightarrow> drop (space b i) b = skip_ws (drop i b) \<and> space b i \<le> length b"
proof (induction b i rule: space.induct)
  case (1 b i)
  show ?case
  proof (cases "i < length b")
    case True
    then have "drop i b = b ! i # drop (i + 1) b" by (simp add: Cons_nth_drop_Suc)
    with 1 True show ?thesis unfolding space.simps [of b i] by (auto simp: skip_ws_def)
  next
    case False
    with 1 show ?thesis by (simp add: space.simps skip_ws_def)
  qed
qed

lemma skip_ws_idem [simp]: "skip_ws (skip_ws s) = skip_ws s"
  by (simp add: skip_ws_def)

lemma skip_ws_split: "\<exists>w. s = w @ skip_ws s \<and> (\<forall>c \<in> set w. is_ws c)"
  unfolding skip_ws_def by (metis set_takeWhileD takeWhile_dropWhile_id)

text \<open>What follows a string, from behind its opening quote.\<close>

fun str_rest :: "string \<Rightarrow> string" where
  "str_rest [] = []"
| "str_rest [c] = []"
| "str_rest (c # e # t) =
     (if c = quote then e # t else if c = backslash then str_rest t else str_rest (e # t))"

lemma str_rest_simps [simp]:
  "str_rest (quote # s) = s"
  "c \<noteq> quote \<Longrightarrow> c \<noteq> backslash \<Longrightarrow> str_rest (c # s) = str_rest s"
  by (cases s; simp)+

lemma str_rest_length: "length (str_rest s) \<le> length s"
  by (induction s rule: str_rest.induct) auto

text \<open>A quote ends the string if an even number of backslashes stands before it.\<close>

definition trail :: "string \<Rightarrow> nat" where
  "trail s = length (takeWhile (\<lambda>c. c = backslash) (rev s))"

lemma trail_Nil [simp]: "trail [] = 0"
  by (simp add: trail_def)

lemma trail_append:
  "trail (t @ s) = (if \<forall>c \<in> set s. c = backslash then length s + trail t else trail s)"
proof (cases "\<forall>c \<in> set s. c = backslash")
  case True
  then have "takeWhile (\<lambda>c. c = backslash) (rev s) = rev s" by (simp add: takeWhile_eq_all_conv)
  with True show ?thesis by (simp add: trail_def takeWhile_append)
next
  case False
  then obtain c where "c \<in> set (rev s)" "c \<noteq> backslash" by auto
  then have "takeWhile (\<lambda>c. c = backslash) (rev s @ rev t) = takeWhile (\<lambda>c. c = backslash) (rev s)"
    by (rule takeWhile_append1)
  with False show ?thesis by (auto simp: trail_def)
qed

lemma trail_all: "\<forall>c \<in> set s. c = backslash \<Longrightarrow> trail s = length s"
  using trail_append [of "[]" s] by simp

lemma trail_Cons: "c \<noteq> backslash \<Longrightarrow> trail (c # s) = trail s"
  using trail_append [of "[c]" s] trail_all [of s] by (simp add: trail_def [of "[c]"] split: if_splits)

lemma trail_escape: "even (trail (backslash # e # s)) = even (trail s)"
  using trail_append [of "[backslash, e]" s] trail_all [of s]
  by (simp add: trail_def [of "[backslash, e]"] split: if_splits)

lemma trail_snoc: "trail (s @ [c]) = (if c = backslash then Suc (trail s) else 0)"
  by (simp add: trail_def)

lemma quote_not_backslash [simp]: "quote \<noteq> backslash" "backslash \<noteq> quote"
  by (simp_all add: quote_def backslash_def)

lemma str_rest_quote:
  "quote \<notin> set seg \<Longrightarrow> str_rest (seg @ quote # u) = (if even (trail seg) then u else str_rest u)"
proof (induction seg rule: str_rest.induct)
  case (2 c)
  then show ?case by (cases "c = backslash") (auto simp: trail_def)
next
  case (3 c e t)
  then show ?case
    using trail_escape [of e t] trail_Cons [of c "e # t"] by (cases "c = backslash") auto
qed simp

lemma str_rest_no_quote: "quote \<notin> set s \<Longrightarrow> str_rest s = []"
  by (induction s rule: str_rest.induct) auto

lemma backslashes_trail: "lo \<le> hi \<Longrightarrow> hi \<le> length b \<Longrightarrow> backslashes b lo hi = trail (drop lo (take hi b))"
proof (induction hi)
  case (Suc j)
  show ?case
  proof (cases "lo \<le> j")
    case True
    with Suc.prems have "drop lo (take (Suc j) b) = drop lo (take j b) @ [b ! j]"
      by (simp add: take_Suc_conv_app_nth)
    with Suc True show ?thesis by (simp add: trail_snoc)
  next
    case False
    with Suc.prems show ?thesis by simp
  qed
qed simp

lemma index_byte_Some:
  "index_byte c s = Some q \<Longrightarrow> q < length s \<and> c \<notin> set (take q s) \<and> drop q s = c # drop (Suc q) s"
  by (induction s arbitrary: q) (auto split: if_splits)

lemma index_byte_None: "index_byte c s = None \<longleftrightarrow> c \<notin> set s"
  by (induction s) auto

lemma drop_string_loop:
  "i \<le> length b \<Longrightarrow> drop (string_loop b i) b = str_rest (drop i b) \<and> string_loop b i \<le> length b"
proof (induction "length b - i" arbitrary: i rule: less_induct)
  case less
  show ?case
  proof (cases "index_byte quote (drop i b)")
    case None
    then show ?thesis using less.prems
      unfolding string_loop.simps [of b i] by (auto simp: index_byte_None [symmetric] str_rest_no_quote)
  next
    case (Some q)
    note q = index_byte_Some [OF Some]
    let ?seg = "take q (drop i b)"
    have b: "drop i b = ?seg @ quote # drop (i + q + 1) b"
      using q by (metis append_take_drop_id drop_drop add.commute add_Suc_right Suc_eq_plus1)
    have "backslashes b i (i + q) = trail ?seg"
      using q by (subst backslashes_trail) (auto simp: drop_take)
    moreover have "str_rest (drop i b) = (if even (trail ?seg) then drop (i + q + 1) b else str_rest (drop (i + q + 1) b))"
      using q by (subst b) (rule str_rest_quote, simp)
    moreover have "i < length b" "i + q + 1 \<le> length b" using q by auto
    moreover have "drop (string_loop b (i + q + 1)) b = str_rest (drop (i + q + 1) b)
        \<and> string_loop b (i + q + 1) \<le> length b"
      by (rule less.hyps) (use q in auto)
    ultimately show ?thesis using Some unfolding string_loop.simps [of b i] by simp
  qed
qed

lemma drop_stringEnd:
  "i < length b \<Longrightarrow> drop (stringEnd b i) b = str_rest (drop (i + 1) b) \<and> stringEnd b i \<le> length b"
  unfolding stringEnd_def by (rule drop_string_loop) simp

text \<open>What follows a value.\<close>

function val_rest :: "nat \<Rightarrow> string \<Rightarrow> string" where
  "val_rest depth [] = []"
| "val_rest depth (c # s) =
     (if c = quote then val_rest depth (str_rest s)
      else if c = CHR ''['' \<or> c = CHR ''{'' then val_rest (depth + 1) s
      else if c = CHR '']'' \<or> c = CHR ''}'' then
        (if depth = 0 then c # s else if depth = 1 then s else val_rest (depth - 1) s)
      else if c = CHR '','' \<and> depth = 0 then c # s
      else val_rest depth s)"
  by pat_completeness auto
termination
  by (relation "measure (\<lambda>(depth, s). length s)") (auto simp: le_imp_less_Suc str_rest_length)

lemma drop_value_loop:
  "i \<le> length b \<Longrightarrow>
   drop (value_loop b depth i) b = val_rest depth (drop i b) \<and> value_loop b depth i \<le> length b"
proof (induction "length b - i" arbitrary: depth i rule: less_induct)
  case less
  show ?case
  proof (cases "i < length b")
    case True
    have later: "drop (value_loop b d j) b = val_rest d (drop j b) \<and> value_loop b d j \<le> length b"
      if "i < j" "j \<le> length b" for d j
      by (rule less.hyps) (use that in auto)
    have b: "drop i b = b ! i # drop (i + 1) b" using True by (simp add: Cons_nth_drop_Suc)
    have se: "drop (stringEnd b i) b = str_rest (drop (i + 1) b)" "stringEnd b i \<le> length b"
      using drop_stringEnd [OF True] by simp_all
    show ?thesis
      using True later [of "stringEnd b i" depth] later [of "i + 1"] stringEnd_gt [of i b] se b
      unfolding value_loop.simps [of b depth i] by (simp add: Let_def)
  next
    case False
    with less.prems show ?thesis by (simp add: value_loop.simps)
  qed
qed


subsection \<open>Where the grammar stops\<close>

lemma hex_plain: "is_hex p \<Longrightarrow> p \<noteq> quote \<and> p \<noteq> backslash"
  by (auto simp: is_hex_def hex_digit_def code_def quote_def backslash_def)

lemma p_string_both:
  "p_string s = Some (raw, rest) \<Longrightarrow> s = raw @ quote # rest \<and> str_rest s = rest"
proof (induction s arbitrary: raw rule: length_induct)
  case (1 s0)
  then obtain c s where s0: "s0 = c # s" by (cases s0) auto
  have IH: "t = raw' @ quote # rest \<and> str_rest t = rest"
    if "p_string t = Some (raw', rest)" "length t \<le> length s" for t raw'
    using 1(1) that by (auto simp: s0)
  have p: "p_string (c # s) = Some (raw, rest)" using 1(2) by (simp only: s0)
  show ?case
  proof (cases "c = backslash")
    case bs: True
    with p obtain e t where s: "s = e # t" by (cases s) (auto split: if_splits)
    show ?thesis
    proof (cases "e = CHR ''u''")
      case True
      with p bs s obtain a b x y u raw' where t: "t = a # b # x # y # u"
        "is_hex a" "is_hex b" "is_hex x" "is_hex y" "p_string u = Some (raw', rest)"
        "raw = c # e # a # b # x # y # raw'"
        by (auto split: list.splits if_splits)
      from IH [OF t(6)] have u: "u = raw' @ quote # rest" "str_rest u = rest" unfolding s t(1) by auto
      have "str_rest s0 = str_rest u" using bs s s0 t hex_plain by simp
      with u bs s s0 t show ?thesis by simp
    next
      case False
      with p bs s obtain raw' where r: "p_string t = Some (raw', rest)" "raw = c # e # raw'"
        by (auto split: if_splits)
      from IH [OF r(1)] s have "t = raw' @ quote # rest" "str_rest t = rest" by auto
      moreover have "str_rest s0 = str_rest t" using bs s s0 by simp
      ultimately show ?thesis using r(2) bs s s0 by simp
    qed
  next
    case False
    with p IH [of s] show ?thesis by (auto simp: s0 split: if_splits)
  qed
qed

lemma p_string_split: "p_string s = Some (raw, rest) \<Longrightarrow> s = raw @ quote # rest"
  and p_string_rest: "p_string s = Some (raw, rest) \<Longrightarrow> str_rest s = rest"
  using p_string_both by blast+

text \<open>The bytes of a number or a literal are none the scanner reacts to.\<close>

definition plain :: "char \<Rightarrow> bool" where
  "plain c = (c \<notin> {quote, CHR ''['', CHR ''{'', CHR '']'', CHR ''}'', CHR '',''})"

lemma plain_digit: "is_digit c \<Longrightarrow> plain c"
  by (auto simp: is_digit_def plain_def quote_def)

lemma val_rest_plain: "\<forall>c \<in> set w. plain c \<Longrightarrow> val_rest k (w @ s) = val_rest k s"
  by (induction w) (auto simp: plain_def)

lemma plain_ws: "is_ws c \<Longrightarrow> plain c"
  by (auto simp: is_ws_def plain_def quote_def)

lemma val_rest_skip_ws: "val_rest k (skip_ws s) = val_rest k s"
  using skip_ws_split [of s] val_rest_plain [of _ k "skip_ws s"] plain_ws by metis

lemma take_digits_split: "take_digits s = (ds, r) \<Longrightarrow> s = ds @ r \<and> (\<forall>c \<in> set ds. plain c)"
  by (auto simp: take_digits_def dest: set_takeWhileD plain_digit)

lemma p_int_part_split: "p_int_part s = Some (i, r) \<Longrightarrow> s = i @ r \<and> i \<noteq> [] \<and> (\<forall>c \<in> set i. plain c)"
proof -
  assume p: "p_int_part s = Some (i, r)"
  obtain ds t where d: "take_digits s = (ds, t)" by fastforce
  note sp = take_digits_split [OF d]
  show ?thesis
    using p d sp by (cases ds) (auto simp: p_int_part_def split: if_splits)
qed

lemma p_frac_split: "p_frac s = Some (f, r) \<Longrightarrow> s = f @ r \<and> (\<forall>c \<in> set f. plain c)"
  by (auto simp: p_frac_def plain_def quote_def split: list.splits if_splits prod.splits
      dest!: take_digits_split)

lemma p_sign_split: "p_sign signs s = (sg, t) \<Longrightarrow> s = sg @ t \<and> (\<forall>c \<in> set sg. c \<in> set signs)"
  by (auto simp: p_sign_def split: list.splits if_splits)

lemma plain_sign: "c \<in> set ''+-'' \<Longrightarrow> plain c" "c \<in> set ''-'' \<Longrightarrow> plain c"
  by (auto simp: plain_def quote_def)

lemma p_exp_split: "p_exp s = Some (e, r) \<Longrightarrow> s = e @ r \<and> (\<forall>c \<in> set e. plain c)"
proof -
  assume p: "p_exp s = Some (e, r)"
  show ?thesis
  proof (cases "\<exists>c t. s = c # t \<and> (c = CHR ''e'' \<or> c = CHR ''E'')")
    case True
    then obtain c t where t: "s = c # t" "c = CHR ''e'' \<or> c = CHR ''E''" by blast
    obtain sg u where sg: "p_sign ''+-'' t = (sg, u)" by fastforce
    obtain ds w where d: "take_digits u = (ds, w)" by fastforce
    have "e = c # sg @ ds" "r = w" using p t sg d by (auto simp: p_exp_def split: if_splits)
    moreover have "\<forall>c \<in> set sg. plain c" using p_sign_split [OF sg] plain_sign by blast
    moreover have "plain c" using t(2) by (auto simp: plain_def quote_def)
    ultimately show ?thesis using t p_sign_split [OF sg] take_digits_split [OF d] by auto
  next
    case False
    with p show ?thesis by (auto simp: p_exp_def split: list.splits if_splits)
  qed
qed

lemma p_number_split: "p_number s = Some (lit, r) \<Longrightarrow> s = lit @ r \<and> lit \<noteq> [] \<and> (\<forall>c \<in> set lit. plain c)"
proof -
  assume p: "p_number s = Some (lit, r)"
  obtain sg t where st: "p_sign ''-'' s = (sg, t)" by fastforce
  have sg: "s = sg @ t" "\<forall>c \<in> set sg. plain c"
    using p_sign_split [OF st] plain_sign by auto
  from p st obtain i r0 f r1 e where parts: "p_int_part t = Some (i, r0)" "p_frac r0 = Some (f, r1)"
    "p_exp r1 = Some (e, r)" "lit = sg @ i @ f @ e"
    by (auto simp: p_number_def split: option.splits prod.splits)
  from p_int_part_split [OF parts(1)] p_frac_split [OF parts(2)] p_exp_split [OF parts(3)] sg(1,2) parts(4)
  show ?thesis by auto
qed

lemma p_literal_split:
  "p_literal s = Some (v, r) \<Longrightarrow> \<exists>w. s = w @ r \<and> w \<noteq> [] \<and> (\<forall>c \<in> set w. plain c)"
proof -
  assume p: "p_literal s = Some (v, r)"
  consider (word) w where "w \<in> {''true'', ''false'', ''null''}" "s = w @ r"
    | (number) lit where "p_number s = Some (lit, r)"
    using p by (auto simp: p_literal_def HasPrefix_iff split: if_splits)
  then show ?thesis
  proof cases
    case word
    then show ?thesis by (intro exI [of _ w]) (auto simp: plain_def quote_def)
  next
    case number
    then show ?thesis using p_number_split by blast
  qed
qed


text \<open>The shapes of a successful parse.\<close>

lemma quote_other [simp]:
  "quote \<noteq> CHR ''{''" "quote \<noteq> CHR ''[''" "quote \<noteq> CHR ''}''" "quote \<noteq> CHR '']''" "quote \<noteq> CHR '',''"
  "quote \<noteq> CHR '':''"
  by (simp_all add: quote_def)

lemmas quote_other_sym [simp] = quote_other [symmetric]

lemma p_value_cases:
  assumes "p_value (Suc n) d s = Some (v, r)"
  obtains (str) t raw where "skip_ws s = quote # t" "p_string t = Some (raw, r)" "v = JStr (unquote_all raw)"
  | (obj0) t where "skip_ws s = CHR ''{'' # t" "skip_ws t = CHR ''}'' # r" "v = JObj []" "d \<noteq> 0"
  | (obj) t ms c1 t1 where "skip_ws s = CHR ''{'' # t" "p_members n (d - 1) t = Some (ms, r)" "v = JObj ms"
      "d \<noteq> 0" "skip_ws t = c1 # t1" "c1 \<noteq> CHR ''}''"
  | (arr0) t where "skip_ws s = CHR ''['' # t" "skip_ws t = CHR '']'' # r" "v = JArr []" "d \<noteq> 0"
  | (arr) t vs c1 t1 where "skip_ws s = CHR ''['' # t" "p_elems n (d - 1) t = Some (vs, r)" "v = JArr vs"
      "d \<noteq> 0" "skip_ws t = c1 # t1" "c1 \<noteq> CHR '']''"
  | (lit) c t where "skip_ws s = c # t" "p_literal (c # t) = Some (v, r)" "c \<noteq> quote" "c \<noteq> CHR ''{''" "c \<noteq> CHR ''[''"
proof -
  from assms obtain c t where ct: "skip_ws s = c # t" by (auto split: list.splits)
  consider "c = quote" | "c = CHR ''{''" | "c = CHR ''[''" | "c \<noteq> quote" "c \<noteq> CHR ''{''" "c \<noteq> CHR ''[''"
    by blast
  then show thesis
  proof cases
    case 1
    with assms ct str show ?thesis by auto
  next
    case 2
    with assms ct obj0 obj show ?thesis by (auto split: list.splits if_splits)
  next
    case 3
    with assms ct arr0 arr show ?thesis by (auto split: list.splits if_splits)
  next
    case 4
    with assms ct lit show ?thesis by auto
  qed
qed

lemma p_elems_cases:
  assumes "p_elems (Suc n) d s = Some (vs, r)"
  obtains (last) v r1 where "p_value n d s = Some (v, r1)" "skip_ws r1 = CHR '']'' # r" "vs = [v]"
  | (more) v r1 t ws where "p_value n d s = Some (v, r1)" "skip_ws r1 = CHR '','' # t"
      "p_elems n d t = Some (ws, r)" "vs = v # ws"
  using assms by (auto split: option.splits list.splits if_splits)

lemma p_members_cases:
  assumes "p_members (Suc n) d s = Some (ms, r)"
  obtains (last) t raw r1 r2 v r3 where "skip_ws s = quote # t" "p_string t = Some (raw, r1)"
      "skip_ws r1 = CHR '':'' # r2" "p_value n d r2 = Some (v, r3)" "skip_ws r3 = CHR ''}'' # r"
      "ms = [(unquote_all raw, v)]"
  | (more) t raw r1 r2 v r3 u ns where "skip_ws s = quote # t" "p_string t = Some (raw, r1)"
      "skip_ws r1 = CHR '':'' # r2" "p_value n d r2 = Some (v, r3)" "skip_ws r3 = CHR '','' # u"
      "p_members n d u = Some (ns, r)" "ms = (unquote_all raw, v) # ns"
  using assms by (auto split: option.splits list.splits if_splits)

text \<open>
  Inside brackets the scanner passes over a value, and leaves the bracket where the grammar does.
\<close>

lemma val_rest_ws: "skip_ws s = t \<Longrightarrow> val_rest k s = val_rest k t"
  using val_rest_skip_ws by metis

lemma bracket_rest:
  "(p_value n d s = Some (v, r) \<longrightarrow> val_rest (Suc k) s = val_rest (Suc k) r) \<and>
   (p_elems n d s = Some (vs, r') \<longrightarrow> val_rest (Suc k) s = (if k = 0 then r' else val_rest k r')) \<and>
   (p_members n d s = Some (ms, r'') \<longrightarrow> val_rest (Suc k) s = (if k = 0 then r'' else val_rest k r''))"
proof (induction n arbitrary: d s v r vs r' ms r'' k)
  case (Suc n)
  note IHv = Suc.IH [THEN conjunct1, rule_format]
  note IHe = Suc.IH [THEN conjunct2, THEN conjunct1, rule_format]
  note IHm = Suc.IH [THEN conjunct2, THEN conjunct2, rule_format]
  have "val_rest (Suc k) s = val_rest (Suc k) r" if "p_value (Suc n) d s = Some (v, r)"
    using that
  proof (cases rule: p_value_cases)
    case (str t raw)
    then show ?thesis by (simp add: val_rest_ws [OF str(1)] p_string_rest)
  next
    case (obj0 t)
    then show ?thesis by (simp add: val_rest_ws [OF obj0(1)] val_rest_ws [OF obj0(2)])
  next
    case (obj t ms)
    then show ?thesis by (simp add: val_rest_ws [OF obj(1)] IHm)
  next
    case (arr0 t)
    then show ?thesis by (simp add: val_rest_ws [OF arr0(1)] val_rest_ws [OF arr0(2)])
  next
    case (arr t vs)
    then show ?thesis by (simp add: val_rest_ws [OF arr(1)] IHe)
  next
    case (lit c t)
    from p_literal_split [OF lit(2)] obtain w where "c # t = w @ r" "\<forall>c \<in> set w. plain c" by blast
    then show ?thesis by (simp only: val_rest_ws [OF lit(1)] val_rest_plain)
  qed
  moreover have "val_rest (Suc k) s = (if k = 0 then r' else val_rest k r')"
    if "p_elems (Suc n) d s = Some (vs, r')"
    using that
  proof (cases rule: p_elems_cases)
    case (last v r1)
    then show ?thesis using IHv [OF last(1), of k] by (simp add: val_rest_ws [OF last(2)])
  next
    case (more v r1 t ws)
    then show ?thesis using IHv [OF more(1), of k] IHe [OF more(3), of k] by (simp add: val_rest_ws [OF more(2)])
  qed
  moreover have "val_rest (Suc k) s = (if k = 0 then r'' else val_rest k r'')"
    if "p_members (Suc n) d s = Some (ms, r'')"
    using that
  proof (cases rule: p_members_cases)
    case (last t raw r1 r2 v r3)
    then show ?thesis using IHv [OF last(4), of k] p_string_rest [OF last(2)]
      by (simp add: val_rest_ws [OF last(1)] val_rest_ws [OF last(3)] val_rest_ws [OF last(5)])
  next
    case (more t raw r1 r2 v r3 u ns)
    then show ?thesis using IHv [OF more(4), of k] IHm [OF more(6), of k] p_string_rest [OF more(2)]
      by (simp add: val_rest_ws [OF more(1)] val_rest_ws [OF more(3)] val_rest_ws [OF more(5)])
  qed
  ultimately show ?case by blast
qed simp

subsection \<open>A value is parsed the same wherever it stands\<close>

text \<open>\<open>stops\<close>: no byte that could continue a number follows.\<close>

definition no_digit :: "string \<Rightarrow> bool" where
  "no_digit s = (case s of [] \<Rightarrow> True | c # t \<Rightarrow> \<not> is_digit c)"

definition stops :: "string \<Rightarrow> bool" where
  "stops s = (case s of [] \<Rightarrow> True | c # t \<Rightarrow> \<not> is_digit c \<and> c \<notin> set ''.eE'')"

lemma stops_no_digit: "stops s \<Longrightarrow> no_digit s"
  by (auto simp: stops_def no_digit_def split: list.split)

lemma take_digits_local:
  "\<forall>c \<in> set ds. is_digit c \<Longrightarrow> no_digit x \<Longrightarrow> take_digits (ds @ x) = (ds, x)"
  by (cases x) (auto simp: take_digits_def no_digit_def takeWhile_append)

lemma take_digits_set: "take_digits s = (ds, r) \<Longrightarrow> s = ds @ r \<and> (\<forall>c \<in> set ds. is_digit c)"
  by (auto simp: take_digits_def dest: set_takeWhileD)

lemma p_int_part_local:
  assumes "p_int_part s = Some (i, r)" "no_digit x"
  shows "p_int_part (i @ x) = Some (i, x)"
proof -
  obtain ds t where d: "take_digits s = (ds, t)" by fastforce
  note ds = take_digits_set [OF d]
  from assms(1) d have i: "ds \<noteq> []" "i = (if hd ds = CHR ''0'' then [hd ds] else ds)"
    by (auto simp: p_int_part_def split: if_splits)
  have "take_digits (i @ x) = (i, x)"
    by (rule take_digits_local) (use ds i assms(2) in \<open>auto simp: is_digit_def\<close>)
  with i show ?thesis by (auto simp: p_int_part_def)
qed

lemma p_frac_local:
  assumes "p_frac s = Some (f, r)" "no_digit x" "\<not> HasPrefix x ''.''"
  shows "p_frac (f @ x) = Some (f, x)"
proof (cases "\<exists>t. s = CHR ''.'' # t")
  case True
  then obtain t where t: "s = CHR ''.'' # t" by blast
  obtain ds u where d: "take_digits t = (ds, u)" by fastforce
  with assms(1) t have "f = CHR ''.'' # ds" "ds \<noteq> []" by (auto simp: p_frac_def split: if_splits)
  moreover have "take_digits (ds @ x) = (ds, x)"
    using take_digits_set [OF d] assms(2) by (intro take_digits_local) auto
  ultimately show ?thesis by (simp add: p_frac_def)
next
  case False
  with assms(1) have "f = []" by (auto simp: p_frac_def split: list.splits if_splits)
  with assms(3) show ?thesis by (cases x) (auto simp: p_frac_def HasPrefix_def)
qed

lemma p_sign_local:
  "p_sign signs s = (sg, t) \<Longrightarrow> (case x of [] \<Rightarrow> False | c # u \<Rightarrow> c \<notin> set signs) \<Longrightarrow> p_sign signs (sg @ x) = (sg, x)"
  by (auto simp: p_sign_def split: list.splits if_splits)

lemma p_exp_local:
  assumes "p_exp s = Some (e, r)" "stops x"
  shows "p_exp (e @ x) = Some (e, x)"
proof (cases "\<exists>c t. s = c # t \<and> (c = CHR ''e'' \<or> c = CHR ''E'')")
  case True
  then obtain c t where t: "s = c # t" "c = CHR ''e'' \<or> c = CHR ''E''" by blast
  obtain sg u where sg: "p_sign ''+-'' t = (sg, u)" by fastforce
  obtain ds w where d: "take_digits u = (ds, w)" by fastforce
  from assms(1) t sg d have e: "e = c # sg @ ds" "ds \<noteq> []" by (auto simp: p_exp_def Let_def split: if_splits)
  have dig: "\<forall>y \<in> set ds. is_digit y" using take_digits_set [OF d] by blast
  then have "take_digits (ds @ x) = (ds, x)"
    using stops_no_digit [OF assms(2)] by (rule take_digits_local)
  moreover have "p_sign ''+-'' (sg @ ds @ x) = (sg, ds @ x)"
    by (rule p_sign_local [OF sg]) (use e(2) dig in \<open>cases ds; auto simp: is_digit_def\<close>)
  ultimately show ?thesis using t e by (simp add: p_exp_def)
next
  case False
  with assms(1) have "e = []" by (auto simp: p_exp_def split: list.splits if_splits)
  with assms(2) show ?thesis by (cases x) (auto simp: p_exp_def stops_def)
qed

lemma p_int_part_hd: "p_int_part s = Some (i, r) \<Longrightarrow> i \<noteq> [] \<and> is_digit (hd i)"
proof -
  assume p: "p_int_part s = Some (i, r)"
  obtain ds t where d: "take_digits s = (ds, t)" by fastforce
  with p have "ds \<noteq> []" "i \<noteq> []" "hd i = hd ds" by (auto simp: p_int_part_def split: if_splits)
  with take_digits_set [OF d] show ?thesis by simp
qed

lemma p_number_local:
  assumes "p_number s = Some (lit, r)" "stops x"
  shows "p_number (lit @ x) = Some (lit, x)"
proof -
  obtain sg t where st: "p_sign ''-'' s = (sg, t)" by fastforce
  with assms(1) obtain i r0 f r1 e where parts: "p_int_part t = Some (i, r0)" "p_frac r0 = Some (f, r1)"
    "p_exp r1 = Some (e, r)" "lit = sg @ i @ f @ e"
    by (auto simp: p_number_def split: option.splits prod.splits)
  have e: "e = [] \<or> hd e = CHR ''e'' \<or> hd e = CHR ''E''"
    using parts(3) by (auto simp: p_exp_def Let_def split: list.splits if_splits prod.splits)
  have f: "f = [] \<or> hd f = CHR ''.''"
    using parts(2) by (auto simp: p_frac_def split: list.splits if_splits prod.splits)
  have ex: "no_digit (e @ x)" "\<not> HasPrefix (e @ x) ''.''"
    using e assms(2) by (cases e; cases x; auto simp: no_digit_def stops_def is_digit_def HasPrefix_def)+
  have fx: "no_digit (f @ e @ x)" using f ex(1) by (cases f) (auto simp: no_digit_def is_digit_def)
  have i: "i \<noteq> []" "is_digit (hd i)" using p_int_part_hd [OF parts(1)] by simp_all
  have "p_sign ''-'' (sg @ i @ f @ e @ x) = (sg, i @ f @ e @ x)"
    by (rule p_sign_local [OF st]) (use i in \<open>cases i; auto simp: is_digit_def\<close>)
  with p_int_part_local [OF parts(1) fx] p_frac_local [OF parts(2) ex] p_exp_local [OF parts(3) assms(2)] parts(4)
  show ?thesis by (simp add: p_number_def)
qed

lemma p_number_hd: "p_number s = Some (lit, r) \<Longrightarrow> hd lit = CHR ''-'' \<or> is_digit (hd lit)"
proof -
  assume p: "p_number s = Some (lit, r)"
  obtain sg t where st: "p_sign ''-'' s = (sg, t)" by fastforce
  with p obtain i r0 f e where parts: "p_int_part t = Some (i, r0)" "lit = sg @ i @ f @ e"
    by (auto simp: p_number_def split: option.splits prod.splits)
  have "i \<noteq> []" "is_digit (hd i)" using p_int_part_hd [OF parts(1)] by simp_all
  moreover have "sg = [] \<or> hd sg = CHR ''-''" using p_sign_split [OF st] by (cases sg) auto
  ultimately show ?thesis using parts(2) by (cases sg) auto
qed

lemma p_literal_local:
  assumes "p_literal s = Some (v, r)"
  obtains w where "s = w @ r" "w \<noteq> []" "\<forall>c \<in> set w. plain c" "\<And>x. stops x \<Longrightarrow> p_literal (w @ x) = Some (v, x)"
    "\<not> is_ws (hd w)"
proof -
  consider (word) w where "w \<in> {''true'', ''false'', ''null''}" "s = w @ r"
      "\<And>x. p_literal (w @ x) = Some (v, x)"
    | (number) lit where "p_number s = Some (lit, r)" "v = JNum lit"
    using assms by (auto simp: p_literal_def HasPrefix_iff split: if_splits)
  then show thesis
  proof cases
    case word
    then show ?thesis by (intro that [of w]) (auto simp: plain_def is_ws_def quote_def)
  next
    case number
    note sp = p_number_split [OF number(1)]
    have hd: "hd lit = CHR ''-'' \<or> is_digit (hd lit)" by (rule p_number_hd [OF number(1)])
    show ?thesis
    proof (rule that [of lit])
      show "p_literal (lit @ x) = Some (v, x)" if "stops x" for x
        using p_number_local [OF number(1) that] number(2) sp hd
        by (cases lit) (auto simp: p_literal_def HasPrefix_def is_digit_def)
    qed (use sp hd in \<open>auto simp: is_ws_def is_digit_def\<close>)
  qed
qed

subsection \<open>Building a parse\<close>

lemma skip_ws_split_Cons:
  assumes "skip_ws s = c # t"
  obtains w where "s = w @ c # t" "\<forall>x \<in> set w. is_ws x" "\<not> is_ws c"
proof -
  from skip_ws_split [of s] obtain w where "s = w @ skip_ws s" "\<forall>x \<in> set w. is_ws x" by blast
  moreover have "\<not> is_ws c" using assms unfolding skip_ws_def by (metis dropWhile_eq_Cons_conv)
  ultimately show thesis using that assms by simp
qed

lemma skip_ws_append: "\<forall>x \<in> set w. is_ws x \<Longrightarrow> \<not> is_ws c \<Longrightarrow> skip_ws (w @ c # t) = c # t"
  by (simp add: skip_ws_def)

lemma skip_ws_all: "\<forall>x \<in> set w. is_ws x \<Longrightarrow> skip_ws w = []"
  by (simp add: skip_ws_def)

lemma p_value_str:
  "skip_ws s = quote # t \<Longrightarrow> p_string t = Some (raw, r) \<Longrightarrow> p_value (Suc n) d s = Some (JStr (unquote_all raw), r)"
  by simp

lemma p_value_obj0:
  "skip_ws s = CHR ''{'' # t \<Longrightarrow> skip_ws t = CHR ''}'' # r \<Longrightarrow> d \<noteq> 0 \<Longrightarrow> p_value (Suc n) d s = Some (JObj [], r)"
  by simp

lemma p_value_arr0:
  "skip_ws s = CHR ''['' # t \<Longrightarrow> skip_ws t = CHR '']'' # r \<Longrightarrow> d \<noteq> 0 \<Longrightarrow> p_value (Suc n) d s = Some (JArr [], r)"
  by simp

lemma p_members_head: "p_members n d t = Some (ms, r) \<Longrightarrow> \<exists>u. skip_ws t = quote # u"
  by (cases n) (auto split: list.splits if_splits)

lemma p_value_obj:
  "skip_ws s = CHR ''{'' # t \<Longrightarrow> p_members n (d - 1) t = Some (ms, r) \<Longrightarrow> d \<noteq> 0 \<Longrightarrow>
   p_value (Suc n) d s = Some (JObj ms, r)"
  using p_members_head [of n "d - 1" t ms r] by auto

lemma p_value_head: "p_value n d t = Some (v, r) \<Longrightarrow> \<exists>c u. skip_ws t = c # u \<and> c \<noteq> CHR '']'' \<and> c \<noteq> CHR '',''  \<and> c \<noteq> CHR ''}''"
proof (cases n)
  case (Suc n')
  assume "p_value n d t = Some (v, r)"
  then show ?thesis unfolding Suc
  proof (cases rule: p_value_cases)
    case (lit c u)
    then obtain w where w: "c # u = w @ r" "w \<noteq> []" "\<forall>c \<in> set w. plain c" by (blast dest: p_literal_split)
    then have "plain c" by (cases w) auto
    with lit(1) show ?thesis by (auto simp: plain_def)
  qed auto
qed simp

lemma p_elems_head: "p_elems n d t = Some (vs, r) \<Longrightarrow> \<exists>c u. skip_ws t = c # u \<and> c \<noteq> CHR '']''"
  by (cases n) (auto split: option.splits dest: p_value_head)

lemma p_value_arr:
  "skip_ws s = CHR ''['' # t \<Longrightarrow> p_elems n (d - 1) t = Some (vs, r) \<Longrightarrow> d \<noteq> 0 \<Longrightarrow>
   p_value (Suc n) d s = Some (JArr vs, r)"
  using p_elems_head [of n "d - 1" t vs r] by auto

lemma p_value_lit:
  "skip_ws s = c # t \<Longrightarrow> p_literal (c # t) = Some (v, r) \<Longrightarrow> c \<noteq> quote \<Longrightarrow> c \<noteq> CHR ''{'' \<Longrightarrow> c \<noteq> CHR ''['' \<Longrightarrow>
   p_value (Suc n) d s = Some (v, r)"
  by simp

lemma p_elems_last:
  "p_value n d s = Some (v, r1) \<Longrightarrow> skip_ws r1 = CHR '']'' # r \<Longrightarrow> p_elems (Suc n) d s = Some ([v], r)"
  by simp

lemma p_elems_more:
  "p_value n d s = Some (v, r1) \<Longrightarrow> skip_ws r1 = CHR '','' # t \<Longrightarrow> p_elems n d t = Some (vs, r) \<Longrightarrow>
   p_elems (Suc n) d s = Some (v # vs, r)"
  by simp

lemma p_members_last:
  "skip_ws s = quote # t \<Longrightarrow> p_string t = Some (raw, r1) \<Longrightarrow> skip_ws r1 = CHR '':'' # r2 \<Longrightarrow>
   p_value n d r2 = Some (v, r3) \<Longrightarrow> skip_ws r3 = CHR ''}'' # r \<Longrightarrow>
   p_members (Suc n) d s = Some ([(unquote_all raw, v)], r)"
  by simp

lemma p_members_more:
  "skip_ws s = quote # t \<Longrightarrow> p_string t = Some (raw, r1) \<Longrightarrow> skip_ws r1 = CHR '':'' # r2 \<Longrightarrow>
   p_value n d r2 = Some (v, r3) \<Longrightarrow> skip_ws r3 = CHR '','' # u \<Longrightarrow> p_members n d u = Some (ms, r) \<Longrightarrow>
   p_members (Suc n) d s = Some ((unquote_all raw, v) # ms, r)"
  by simp

lemma p_string_local: "p_string s = Some (raw, rest) \<Longrightarrow> p_string (raw @ quote # x) = Some (raw, x)"
proof (induction s arbitrary: raw rule: length_induct)
  case (1 s0)
  then obtain c s where s0: "s0 = c # s" by (cases s0) auto
  have IH: "p_string (raw' @ quote # x) = Some (raw', x)"
    if "p_string t = Some (raw', rest)" "length t \<le> length s" for t raw'
    using 1(1) [rule_format, of t raw'] that by (simp add: s0)
  have p: "p_string (c # s) = Some (raw, rest)" using 1(2) by (simp only: s0)
  show ?case
  proof (cases "c = backslash")
    case bs: True
    with p obtain e t where s: "s = e # t" by (cases s) (auto split: if_splits)
    have ctrl: "\<not> code backslash < 32" by (simp add: code_def backslash_def)
    show ?thesis
    proof (cases "e = CHR ''u''")
      case True
      with p bs s obtain a b h y u raw' where t: "t = a # b # h # y # u"
        "is_hex a" "is_hex b" "is_hex h" "is_hex y" "p_string u = Some (raw', rest)"
        "raw = c # e # a # b # h # y # raw'"
        by (auto split: list.splits if_splits)
      from IH [OF t(6)] have "p_string (raw' @ quote # x) = Some (raw', x)" by (simp add: s t(1))
      with t(2-5,7) bs True ctrl show ?thesis by simp
    next
      case False
      with p bs s obtain raw' where r: "p_string t = Some (raw', rest)" "raw = c # e # raw'"
        "e \<in> set [quote, backslash, CHR ''/'', CHR ''b'', CHR ''f'', CHR ''n'', CHR ''r'', CHR ''t'']"
        by (auto split: if_splits)
      from IH [OF r(1)] have "p_string (raw' @ quote # x) = Some (raw', x)" by (simp add: s)
      with r(2,3) bs False ctrl show ?thesis by simp
    qed
  next
    case False
    with p IH [of s] show ?thesis by (auto split: if_splits)
  qed
qed

lemma stops_ws: "\<forall>x \<in> set w. is_ws x \<Longrightarrow> stops r \<Longrightarrow> stops (w @ r)"
  by (cases w) (auto simp: stops_def is_ws_def is_digit_def)

lemma stops_punct: "c \<in> {CHR '','', CHR '']'', CHR ''}''} \<Longrightarrow> stops (c # r)"
  by (auto simp: stops_def is_digit_def)


declare p_value.simps(2) [simp del] p_elems.simps(2) [simp del] p_members.simps(2) [simp del]

text \<open>
  The central lemma: a parse depends only on the bytes it consumes. With a fuel of at least their
  number, a depth at least as large, and any continuation that cannot extend a number, the same
  value is read.
\<close>

definition reads_value :: "nat \<Rightarrow> string \<Rightarrow> json \<Rightarrow> bool" where
  "reads_value d w v = (\<forall>m d' x. length w \<le> m \<longrightarrow> d \<le> d' \<longrightarrow> stops x \<longrightarrow> p_value m d' (w @ x) = Some (v, x))"

definition reads_elems :: "nat \<Rightarrow> string \<Rightarrow> json list \<Rightarrow> bool" where
  "reads_elems d w vs = (\<forall>m d' x. length w \<le> m \<longrightarrow> d \<le> d' \<longrightarrow> p_elems m d' (w @ x) = Some (vs, x))"

definition reads_members :: "nat \<Rightarrow> string \<Rightarrow> (string \<times> json) list \<Rightarrow> bool" where
  "reads_members d w ms = (\<forall>m d' x. length w \<le> m \<longrightarrow> d \<le> d' \<longrightarrow> p_members m d' (w @ x) = Some (ms, x))"

lemma reads_str:
  assumes "\<forall>c \<in> set w. is_ws c" "p_string t = Some (raw, r)"
  shows "reads_value d (w @ quote # raw @ [quote]) (JStr (unquote_all raw))"
  unfolding reads_value_def
proof (intro allI impI)
  fix m d' and x :: string
  assume "length (w @ quote # raw @ [quote]) \<le> m"
  then obtain m' where m: "m = Suc m'" by (cases m) auto
  have "skip_ws (w @ quote # raw @ quote # x) = quote # raw @ quote # x"
    by (rule skip_ws_append [OF assms(1)]) (simp add: is_ws_def quote_def)
  from p_value_str [OF this p_string_local [OF assms(2)]]
  show "p_value m d' ((w @ quote # raw @ [quote]) @ x) = Some (JStr (unquote_all raw), x)"
    by (simp add: m)
qed

lemma reads_lit:
  assumes "\<forall>c \<in> set w. is_ws c" "u \<noteq> []" "\<And>x. stops x \<Longrightarrow> p_literal (u @ x) = Some (v, x)"
    "\<not> is_ws (hd u)" "\<forall>c \<in> set u. plain c"
  shows "reads_value d (w @ u) v"
  unfolding reads_value_def
proof (intro allI impI)
  fix m d' and x :: string
  assume len: "length (w @ u) \<le> m" and st: "stops x"
  obtain c t where u: "u = c # t" using assms(2) by (cases u) auto
  from len u obtain m' where m: "m = Suc m'" by (cases m) auto
  have sk: "skip_ws (w @ c # t @ x) = c # t @ x"
    by (rule skip_ws_append [OF assms(1)]) (use assms(4) u in simp)
  have "p_value (Suc m') d' (w @ c # t @ x) = Some (v, x)"
    by (rule p_value_lit [OF sk]) (use assms(3) [OF st] assms(5) u in \<open>auto simp: plain_def\<close>)
  then show "p_value m d' ((w @ u) @ x) = Some (v, x)" by (simp add: m u)
qed

lemma reads_bracket:
  assumes "\<forall>c \<in> set w. is_ws c" "d \<noteq> 0"
    "(c = CHR ''{'' \<and> (\<exists>ms. reads_members (d - 1) u ms \<and> v = JObj ms)) \<or>
     (c = CHR ''['' \<and> (\<exists>vs. reads_elems (d - 1) u vs \<and> v = JArr vs))"
  shows "reads_value d (w @ c # u) v"
  unfolding reads_value_def
proof (intro allI impI)
  fix m d' and x :: string
  assume len: "length (w @ c # u) \<le> m" and d': "d \<le> d'"
  then obtain m' where m: "m = Suc m'" "length u \<le> m'" by (cases m) auto
  have sk: "skip_ws (w @ c # u @ x) = c # u @ x"
    by (rule skip_ws_append [OF assms(1)]) (use assms(3) in \<open>auto simp: is_ws_def\<close>)
  have d1: "d - 1 \<le> d' - 1" "d' \<noteq> 0" using assms(2) d' by auto
  from assms(3) have "p_value (Suc m') d' (w @ c # u @ x) = Some (v, x)"
  proof
    assume "c = CHR ''{'' \<and> (\<exists>ms. reads_members (d - 1) u ms \<and> v = JObj ms)"
    then obtain ms where "c = CHR ''{''" "reads_members (d - 1) u ms" "v = JObj ms" by blast
    with sk m(2) d1 show ?thesis
      by (auto simp: reads_members_def intro!: p_value_obj)
  next
    assume "c = CHR ''['' \<and> (\<exists>vs. reads_elems (d - 1) u vs \<and> v = JArr vs)"
    then obtain vs where "c = CHR ''[''" "reads_elems (d - 1) u vs" "v = JArr vs" by blast
    with sk m(2) d1 show ?thesis
      by (auto simp: reads_elems_def intro!: p_value_arr)
  qed
  then show "p_value m d' ((w @ c # u) @ x) = Some (v, x)" by (simp add: m)
qed

lemma reads_empty:
  assumes "\<forall>c \<in> set w. is_ws c" "\<forall>c \<in> set w1. is_ws c" "d \<noteq> 0"
    "(c, e, v) \<in> {(CHR ''{'', CHR ''}'', JObj []), (CHR ''['', CHR '']'', JArr [])}"
  shows "reads_value d (w @ c # w1 @ [e]) v"
  unfolding reads_value_def
proof (intro allI impI)
  fix m d' and x :: string
  assume len: "length (w @ c # w1 @ [e]) \<le> m" and d': "d \<le> d'"
  then obtain m' where m: "m = Suc m'" by (cases m) auto
  have sk: "skip_ws (w @ c # w1 @ e # x) = c # w1 @ e # x"
    by (rule skip_ws_append [OF assms(1)]) (use assms(4) in \<open>auto simp: is_ws_def\<close>)
  have sk1: "skip_ws (w1 @ e # x) = e # x"
    by (rule skip_ws_append [OF assms(2)]) (use assms(4) in \<open>auto simp: is_ws_def\<close>)
  from assms(4) sk sk1 assms(3) d' show "p_value m d' ((w @ c # w1 @ [e]) @ x) = Some (v, x)"
    by (auto simp: m intro!: p_value_obj0 p_value_arr0)
qed

lemma reads_valueD: "reads_value d w v \<Longrightarrow> length w \<le> m \<Longrightarrow> d \<le> d' \<Longrightarrow> stops x \<Longrightarrow> p_value m d' (w @ x) = Some (v, x)"
  by (simp add: reads_value_def)

lemma reads_elems_last:
  assumes "reads_value d wv v" "\<forall>c \<in> set ws. is_ws c"
  shows "reads_elems d (wv @ ws @ [CHR '']'']) [v]"
  unfolding reads_elems_def
proof (intro allI impI)
  fix m d' and x :: string
  assume len: "length (wv @ ws @ [CHR '']'']) \<le> m" and d': "d \<le> d'"
  then obtain m' where m: "m = Suc m'" "length wv \<le> m'" by (cases m) auto
  have "p_value m' d' (wv @ (ws @ CHR '']'' # x)) = Some (v, ws @ CHR '']'' # x)"
    by (rule reads_valueD [OF assms(1) m(2) d']) (intro stops_ws [OF assms(2)] stops_punct, simp)
  from p_elems_last [OF this skip_ws_append [OF assms(2)]]
  show "p_elems m d' ((wv @ ws @ [CHR '']'']) @ x) = Some ([v], x)" by (simp add: m is_ws_def)
qed

lemma reads_elems_more:
  assumes "reads_value d wv v" "\<forall>c \<in> set ws. is_ws c" "reads_elems d u vs"
  shows "reads_elems d (wv @ ws @ CHR '','' # u) (v # vs)"
  unfolding reads_elems_def
proof (intro allI impI)
  fix m d' and x :: string
  assume len: "length (wv @ ws @ CHR '','' # u) \<le> m" and d': "d \<le> d'"
  then obtain m' where m: "m = Suc m'" "length wv \<le> m'" "length u \<le> m'" by (cases m) auto
  have v: "p_value m' d' (wv @ (ws @ CHR '','' # u @ x)) = Some (v, ws @ CHR '','' # u @ x)"
    by (rule reads_valueD [OF assms(1) m(2) d']) (intro stops_ws [OF assms(2)] stops_punct, simp)
  have "p_elems m' d' (u @ x) = Some (vs, x)" using assms(3) m(3) d' by (simp add: reads_elems_def)
  from p_elems_more [OF v skip_ws_append [OF assms(2)] this]
  show "p_elems m d' ((wv @ ws @ CHR '','' # u) @ x) = Some (v # vs, x)" by (simp add: m is_ws_def)
qed

text \<open>The text of a member up to its value.\<close>

definition key_text :: "string \<Rightarrow> string \<Rightarrow> string \<Rightarrow> string" where
  "key_text w0 raw w1 = w0 @ quote # raw @ quote # w1 @ [CHR '':'']"

definition key_ok :: "string \<Rightarrow> string \<Rightarrow> string \<Rightarrow> bool" where
  "key_ok w0 raw w1 = ((\<forall>c \<in> set w0. is_ws c) \<and> (\<forall>c \<in> set w1. is_ws c) \<and> (\<exists>t r. p_string t = Some (raw, r)))"

lemma key_skips:
  assumes "key_ok w0 raw w1"
  shows "skip_ws (key_text w0 raw w1 @ y) = quote # raw @ quote # w1 @ CHR '':'' # y"
    "p_string (raw @ quote # w1 @ CHR '':'' # y) = Some (raw, w1 @ CHR '':'' # y)"
    "skip_ws (w1 @ CHR '':'' # y) = CHR '':'' # y"
proof -
  from assms obtain t r where ws: "\<forall>c \<in> set w0. is_ws c" "\<forall>c \<in> set w1. is_ws c" "p_string t = Some (raw, r)"
    by (auto simp: key_ok_def)
  show "skip_ws (key_text w0 raw w1 @ y) = quote # raw @ quote # w1 @ CHR '':'' # y"
    unfolding key_text_def using skip_ws_append [OF ws(1), of quote] by (simp add: is_ws_def quote_def)
  show "p_string (raw @ quote # w1 @ CHR '':'' # y) = Some (raw, w1 @ CHR '':'' # y)"
    by (rule p_string_local [OF ws(3)])
  show "skip_ws (w1 @ CHR '':'' # y) = CHR '':'' # y"
    by (rule skip_ws_append [OF ws(2)]) (simp add: is_ws_def)
qed

lemma reads_members_last:
  assumes k: "key_ok w0 raw w1" and v: "reads_value d wv v" and ws: "\<forall>c \<in> set ws. is_ws c"
  shows "reads_members d (key_text w0 raw w1 @ wv @ ws @ [CHR ''}'']) [(unquote_all raw, v)]"
  unfolding reads_members_def
proof (intro allI impI)
  fix m d' and x :: string
  assume len: "length (key_text w0 raw w1 @ wv @ ws @ [CHR ''}'']) \<le> m" and d': "d \<le> d'"
  then obtain m' where m: "m = Suc m'" "length wv \<le> m'" by (cases m) (auto simp: key_text_def)
  have "p_value m' d' (wv @ (ws @ CHR ''}'' # x)) = Some (v, ws @ CHR ''}'' # x)"
    by (rule reads_valueD [OF v m(2) d']) (intro stops_ws [OF ws] stops_punct, simp)
  from p_members_last [OF key_skips [OF k] this skip_ws_append [OF ws]]
  show "p_members m d' ((key_text w0 raw w1 @ wv @ ws @ [CHR ''}'']) @ x) = Some ([(unquote_all raw, v)], x)"
    by (simp add: m is_ws_def)
qed

lemma reads_members_more:
  assumes k: "key_ok w0 raw w1" and v: "reads_value d wv v" and ws: "\<forall>c \<in> set ws. is_ws c"
    and u: "reads_members d u ms"
  shows "reads_members d (key_text w0 raw w1 @ wv @ ws @ CHR '','' # u) ((unquote_all raw, v) # ms)"
  unfolding reads_members_def
proof (intro allI impI)
  fix m d' and x :: string
  assume len: "length (key_text w0 raw w1 @ wv @ ws @ CHR '','' # u) \<le> m" and d': "d \<le> d'"
  then obtain m' where m: "m = Suc m'" "length wv \<le> m'" "length u \<le> m'" by (cases m) (auto simp: key_text_def)
  have val: "p_value m' d' (wv @ (ws @ CHR '','' # u @ x)) = Some (v, ws @ CHR '','' # u @ x)"
    by (rule reads_valueD [OF v m(2) d']) (intro stops_ws [OF ws] stops_punct, simp)
  have "p_members m' d' (u @ x) = Some (ms, x)" using u m(3) d' by (simp add: reads_members_def)
  from p_members_more [OF key_skips [OF k] val skip_ws_append [OF ws] this]
  show "p_members m d' ((key_text w0 raw w1 @ wv @ ws @ CHR '','' # u) @ x) = Some ((unquote_all raw, v) # ms, x)"
    by (simp add: m is_ws_def)
qed

text \<open>The text before the value of the first member of a parsed sequence.\<close>

lemma member_key:
  assumes "skip_ws s = quote # t" "p_string t = Some (raw, r1)" "skip_ws r1 = CHR '':'' # r2"
  obtains w0 w1 where "s = key_text w0 raw w1 @ r2" "key_ok w0 raw w1"
proof -
  from assms(1) obtain w0 where w0: "s = w0 @ quote # t" "\<forall>x \<in> set w0. is_ws x" by (rule skip_ws_split_Cons)
  from assms(3) obtain w1 where w1: "r1 = w1 @ CHR '':'' # r2" "\<forall>x \<in> set w1. is_ws x" by (rule skip_ws_split_Cons)
  have "t = raw @ quote # r1" by (rule p_string_split [OF assms(2)])
  with w0 w1 assms(2) show thesis by (intro that [of w0 w1]) (auto simp: key_text_def key_ok_def)
qed

lemma parse_local:
  "(p_value n d s = Some (v, r) \<longrightarrow> (\<exists>w. s = w @ r \<and> reads_value d w v)) \<and>
   (p_elems n d s = Some (vs, r) \<longrightarrow> (\<exists>w. s = w @ r \<and> reads_elems d w vs)) \<and>
   (p_members n d s = Some (ms, r) \<longrightarrow> (\<exists>w. s = w @ r \<and> reads_members d w ms))"
proof (induction n arbitrary: d s v r vs ms)
  case (Suc n)
  note IHv = Suc.IH [THEN conjunct1, rule_format]
  note IHe = Suc.IH [THEN conjunct2, THEN conjunct1, rule_format]
  note IHm = Suc.IH [THEN conjunct2, THEN conjunct2, rule_format]
  have "\<exists>w. s = w @ r \<and> reads_value d w v" if "p_value (Suc n) d s = Some (v, r)"
    using that
  proof (cases rule: p_value_cases)
    case (str t raw)
    from str(1) obtain w where w: "s = w @ quote # t" "\<forall>x \<in> set w. is_ws x" by (rule skip_ws_split_Cons)
    from p_string_split [OF str(2)] w reads_str [OF w(2) str(2)] str(3) show ?thesis
      by (intro exI [of _ "w @ quote # raw @ [quote]"]) simp
  next
    case (obj0 t)
    from obj0(1) obtain w where w: "s = w @ CHR ''{'' # t" "\<forall>x \<in> set w. is_ws x" by (rule skip_ws_split_Cons)
    from obj0(2) obtain w1 where w1: "t = w1 @ CHR ''}'' # r" "\<forall>x \<in> set w1. is_ws x" by (rule skip_ws_split_Cons)
    from reads_empty [OF w(2) w1(2) obj0(4)] w(1) w1(1) obj0(3) show ?thesis
      by (intro exI [of _ "w @ CHR ''{'' # w1 @ [CHR ''}'']"]) simp
  next
    case (obj t ms')
    from obj(1) obtain w where w: "s = w @ CHR ''{'' # t" "\<forall>x \<in> set w. is_ws x" by (rule skip_ws_split_Cons)
    from IHm [OF obj(2)] obtain u where "t = u @ r" "reads_members (d - 1) u ms'" by blast
    with reads_bracket [OF w(2) obj(4), of "CHR ''{''" u v] w(1) obj(3) show ?thesis
      by (intro exI [of _ "w @ CHR ''{'' # u"]) auto
  next
    case (arr0 t)
    from arr0(1) obtain w where w: "s = w @ CHR ''['' # t" "\<forall>x \<in> set w. is_ws x" by (rule skip_ws_split_Cons)
    from arr0(2) obtain w1 where w1: "t = w1 @ CHR '']'' # r" "\<forall>x \<in> set w1. is_ws x" by (rule skip_ws_split_Cons)
    from reads_empty [OF w(2) w1(2) arr0(4)] w(1) w1(1) arr0(3) show ?thesis
      by (intro exI [of _ "w @ CHR ''['' # w1 @ [CHR '']'']"]) simp
  next
    case (arr t vs')
    from arr(1) obtain w where w: "s = w @ CHR ''['' # t" "\<forall>x \<in> set w. is_ws x" by (rule skip_ws_split_Cons)
    from IHe [OF arr(2)] obtain u where "t = u @ r" "reads_elems (d - 1) u vs'" by blast
    with reads_bracket [OF w(2) arr(4), of "CHR ''[''" u v] w(1) arr(3) show ?thesis
      by (intro exI [of _ "w @ CHR ''['' # u"]) auto
  next
    case (lit c t)
    from lit(1) obtain w where w: "s = w @ c # t" "\<forall>x \<in> set w. is_ws x" by (rule skip_ws_split_Cons)
    from lit(2) obtain u where "c # t = u @ r" "reads_value d (w @ u) v"
      by (rule p_literal_local) (metis reads_lit w(2))
    with w(1) show ?thesis by (intro exI [of _ "w @ u"]) simp
  qed
  moreover have "\<exists>w. s = w @ r \<and> reads_elems d w vs" if "p_elems (Suc n) d s = Some (vs, r)"
    using that
  proof (cases rule: p_elems_cases)
    case (last v r1)
    from IHv [OF last(1)] obtain wv where "s = wv @ r1" "reads_value d wv v" by blast
    moreover from last(2) obtain ws where "r1 = ws @ CHR '']'' # r" "\<forall>x \<in> set ws. is_ws x" by (rule skip_ws_split_Cons)
    ultimately show ?thesis using reads_elems_last [of d wv v ws] last(3)
      by (intro exI [of _ "wv @ ws @ [CHR '']'']"]) simp
  next
    case (more v r1 t vs')
    from IHv [OF more(1)] obtain wv where "s = wv @ r1" "reads_value d wv v" by blast
    moreover from more(2) obtain ws where "r1 = ws @ CHR '','' # t" "\<forall>x \<in> set ws. is_ws x" by (rule skip_ws_split_Cons)
    moreover from IHe [OF more(3)] obtain u where "t = u @ r" "reads_elems d u vs'" by blast
    ultimately show ?thesis using reads_elems_more [of d wv v ws u vs'] more(4)
      by (intro exI [of _ "wv @ ws @ CHR '','' # u"]) simp
  qed
  moreover have "\<exists>w. s = w @ r \<and> reads_members d w ms" if "p_members (Suc n) d s = Some (ms, r)"
    using that
  proof (cases rule: p_members_cases)
    case (last t raw r1 r2 v r3)
    from last(1-3) obtain w0 w1 where k: "s = key_text w0 raw w1 @ r2" "key_ok w0 raw w1" by (rule member_key)
    from IHv [OF last(4)] obtain wv where v: "r2 = wv @ r3" "reads_value d wv v" by blast
    from last(5) obtain ws where ws: "r3 = ws @ CHR ''}'' # r" "\<forall>x \<in> set ws. is_ws x" by (rule skip_ws_split_Cons)
    from reads_members_last [OF k(2) v(2) ws(2)] k(1) v(1) ws(1) last(6) show ?thesis
      by (intro exI [of _ "key_text w0 raw w1 @ wv @ ws @ [CHR ''}'']"]) simp
  next
    case (more t raw r1 r2 v r3 u ns)
    from more(1-3) obtain w0 w1 where k: "s = key_text w0 raw w1 @ r2" "key_ok w0 raw w1" by (rule member_key)
    from IHv [OF more(4)] obtain wv where v: "r2 = wv @ r3" "reads_value d wv v" by blast
    from more(5) obtain ws where ws: "r3 = ws @ CHR '','' # u" "\<forall>x \<in> set ws. is_ws x" by (rule skip_ws_split_Cons)
    from IHm [OF more(6)] obtain wu where u: "u = wu @ r" "reads_members d wu ns" by blast
    from reads_members_more [OF k(2) v(2) ws(2) u(2)] k(1) v(1) ws(1) u(1) more(7) show ?thesis
      by (intro exI [of _ "key_text w0 raw w1 @ wv @ ws @ CHR '','' # wu"]) simp
  qed
  ultimately show ?case by blast
qed simp

end
