(* ===== verification/InspectProofs.thy ===== *)
theory InspectProofs
  imports RequestProofs
begin

section \<open>Inspect and Rewrite on every body\<close>

text \<open>
  One turn of the loop of \<open>Inspect\<close> reads one member of the top-level object. From this follow the
  properties of the scanner: it never panics, it reads the model and the stream flag as a JSON
  parser does, and replacing the model changes that one member of the document and nothing else.
\<close>

subsection \<open>Indices\<close>

lemma byte_at_drop: "byte_at b i = Some c \<longleftrightarrow> (\<exists>t. drop i b = c # t)"
proof
  assume "byte_at b i = Some c"
  then show "\<exists>t. drop i b = c # t" by (auto simp: byte_at_Some Cons_nth_drop_Suc [symmetric])
next
  assume "\<exists>t. drop i b = c # t"
  then obtain t where t: "drop i b = c # t" by blast
  then have "i < length b" by (metis drop_eq_Nil list.distinct(1) not_le)
  moreover from this have "b ! i = c" using t by (metis Cons_nth_drop_Suc list.inject)
  ultimately show "byte_at b i = Some c" by (simp add: byte_at_Some)
qed

lemma drop_Cons: "drop i b = c # t \<Longrightarrow> i < length b \<and> drop (Suc i) b = t"
  by (metis Cons_nth_drop_Suc drop_eq_Nil list.distinct(1) list.inject not_le)

lemma slice_split: "lo \<le> hi \<Longrightarrow> hi \<le> length b \<Longrightarrow> slice b lo hi = Some raw \<longleftrightarrow> drop lo b = raw @ drop hi b"
proof -
  assume le: "lo \<le> hi" "hi \<le> length b"
  have "drop lo b = take (hi - lo) (drop lo b) @ drop hi b"
    using le by (metis append_take_drop_id drop_drop le_add_diff_inverse2)
  then show ?thesis using le by (auto simp: slice_def)
qed

lemma p_value_skip_ws: "p_value n d (skip_ws s) = p_value n d s"
  by (cases n) (simp_all add: p_value.simps(2))

lemma json_parse_reads:
  assumes "reads_value d w v" "d \<le> max_depth" "\<forall>c \<in> set ws. is_ws c"
  shows "json_parse (w @ ws) = Some v"
proof -
  have "stops ws" using stops_ws [OF assms(3), of "[]"] by (simp add: stops_def)
  then have "p_value (Suc (length (w @ ws))) max_depth (w @ ws) = Some (v, ws)"
    using assms(1,2) by (intro reads_valueD) simp_all
  with skip_ws_all [OF assms(3)] show ?thesis by (simp add: json_parse_def)
qed

subsection \<open>The end of a value\<close>

lemma value_position:
  assumes "p_value n d s = Some (v, r)" "drop i b = skip_ws s" "skip_ws r = e # u" "e = CHR '','' \<or> e = CHR ''}''"
  obtains j where "valueEnd b i = Some j" "j \<le> length b" "drop j b = r \<or> drop j b = skip_ws r"
proof -
  note found = that
  obtain n' where n: "n = Suc n'" using assms(1) by (cases n) auto
  have string: thesis if t: "skip_ws s = quote # t" "p_string t = Some (raw, r)" for t raw
  proof -
    have i: "i < length b" "drop (Suc i) b = t" using drop_Cons [of i b quote t] assms(2) t(1) by simp_all
    from drop_stringEnd [OF i(1)] have "drop (stringEnd b i) b = r" "stringEnd b i \<le> length b"
      using p_string_rest [OF t(2)] i(2) by simp_all
    moreover have "valueEnd b i = Some (stringEnd b i)"
      using assms(2) t(1) byte_at_drop [of b i quote] by (simp add: valueEnd_def)
    ultimately show thesis using found by blast
  qed
  have other: thesis if c: "skip_ws s = c # t" "c \<noteq> quote" "val_rest 0 (c # t) = r \<or> val_rest 0 (c # t) = skip_ws r" for c t
  proof -
    have "i < length b" using drop_Cons [of i b c t] assms(2) c(1) by simp
    then have "drop (value_loop b 0 i) b = val_rest 0 (c # t)" "value_loop b 0 i \<le> length b"
      using drop_value_loop [of i b 0] assms(2) c(1) by simp_all
    moreover have "valueEnd b i = Some (value_loop b 0 i)"
      using assms(2) c(1,2) byte_at_drop [of b i c] by (simp add: valueEnd_def)
    ultimately show thesis using found c(3) by metis
  qed
  from assms(1)[unfolded n] show thesis
  proof (cases rule: p_value_cases)
    case (str t raw)
    then show ?thesis by (intro string)
  next
    case (obj0 t)
    then show ?thesis by (intro other [of "CHR ''{''" t]) (simp_all add: val_rest_ws [OF obj0(2)])
  next
    case (obj t ms)
    from bracket_rest [of n' "d - 1" t, THEN conjunct2, THEN conjunct2, rule_format, OF obj(2), of 0]
    show ?thesis by (intro other [of "CHR ''{''" t]) (simp_all add: obj(1))
  next
    case (arr0 t)
    then show ?thesis by (intro other [of "CHR ''[''" t]) (simp_all add: val_rest_ws [OF arr0(2)])
  next
    case (arr t vs)
    from bracket_rest [of n' "d - 1" t, THEN conjunct2, THEN conjunct1, rule_format, OF arr(2), of 0]
    show ?thesis by (intro other [of "CHR ''[''" t]) (simp_all add: arr(1))
  next
    case (lit c t)
    from p_literal_split [OF lit(2)] obtain w where w: "c # t = w @ r" "\<forall>c \<in> set w. plain c" by blast
    have "val_rest 0 (c # t) = val_rest 0 (e # u)"
      unfolding w(1) val_rest_plain [OF w(2)] by (rule val_rest_ws [OF assms(3)])
    also have "\<dots> = e # u" using assms(4) by auto
    finally show ?thesis using lit(1,3) by (intro other [of c t]) (simp_all add: assms(3))
  qed
qed

subsection \<open>One turn of the loop\<close>

text \<open>Where the parts of a member stand: the key, the value with the white space before it, the separator.\<close>

definition member_at :: "nat \<Rightarrow> string \<Rightarrow> nat \<Rightarrow> string \<Rightarrow> json \<Rightarrow> string \<Rightarrow> nat \<Rightarrow> nat \<Rightarrow> char \<Rightarrow> string \<Rightarrow> bool" where
  "member_at d b i kraw v raw start j e tail =
     (\<exists>w0 w1 lead ws. key_ok w0 kraw w1 \<and> drop i b = key_text w0 kraw w1 @ lead @ raw @ drop j b \<and>
        start = i + length (key_text w0 kraw w1 @ lead) \<and> (\<forall>c \<in> set lead. is_ws c) \<and>
        j = start + length raw \<and> j \<le> length b \<and>
        (\<exists>rw rws. raw = rw @ rws \<and> reads_value d rw v \<and> (\<forall>c \<in> set rws. is_ws c)) \<and>
        drop j b = ws @ e # tail \<and> (\<forall>c \<in> set ws. is_ws c) \<and> \<not> is_ws e)"

lemma p_members_first:
  assumes "p_members (Suc n) d s = Some (ms, rest)"
  obtains t raw r1 r2 v r3 e tail where "skip_ws s = quote # t" "p_string t = Some (raw, r1)"
    "skip_ws r1 = CHR '':'' # r2" "p_value n d r2 = Some (v, r3)" "skip_ws r3 = e # tail"
    "(e = CHR ''}'' \<and> ms = [(unquote_all raw, v)] \<and> tail = rest) \<or>
     (e = CHR '','' \<and> (\<exists>ns. p_members n d tail = Some (ns, rest) \<and> ms = (unquote_all raw, v) # ns))"
  using assms by (rule p_members_cases) blast+

lemma member_positions:
  assumes "p_members (Suc n) d (drop i b) = Some (ms, rest)" "i \<le> length b" "d \<le> max_depth"
  obtains kraw v raw start j e tail where "member_at d b i kraw v raw start j e tail"
    "valueEnd b start = Some j" "space b i < length b" "b ! space b i = quote"
    "slice b (space b i) (stringEnd b (space b i)) = Some (quoted kraw)"
    "start = space b (space b (stringEnd b (space b i)) + 1)" "slice b start j = Some raw"
    "(e = CHR ''}'' \<and> ms = [(unquote_all kraw, v)] \<and> tail = rest) \<or>
     (e = CHR '','' \<and> (\<exists>ns. p_members n d tail = Some (ns, rest) \<and> ms = (unquote_all kraw, v) # ns))"
proof -
  from assms(1) obtain t raw r1 r2 v r3 e tail where
    m: "skip_ws (drop i b) = quote # t" "p_string t = Some (raw, r1)"
    "skip_ws r1 = CHR '':'' # r2" "p_value n d r2 = Some (v, r3)" "skip_ws r3 = e # tail"
    and alt: "(e = CHR ''}'' \<and> ms = [(unquote_all raw, v)] \<and> tail = rest) \<or>
     (e = CHR '','' \<and> (\<exists>ns. p_members n d tail = Some (ns, rest) \<and> ms = (unquote_all raw, v) # ns))"
    by (rule p_members_first)
  let ?i = "space b i" let ?k = "stringEnd b ?i" let ?c = "space b ?k" let ?s = "space b (?c + 1)"
  have i: "drop ?i b = quote # t" using drop_space [OF assms(2)] m(1) by simp
  have il: "?i < length b" "drop (Suc ?i) b = t" using drop_Cons [OF i] by simp_all
  have k: "drop ?k b = r1" "?k \<le> length b"
    using drop_stringEnd [OF il(1)] il(2) p_string_rest [OF m(2)] by simp_all
  have c: "drop ?c b = CHR '':'' # r2" using drop_space [OF k(2)] k(1) m(3) by simp
  have cl: "?c < length b" "drop (Suc ?c) b = r2" using drop_Cons [OF c] by simp_all
  have s: "drop ?s b = skip_ws r2" "?s \<le> length b" using drop_space [of "?c + 1" b] cl by simp_all
  from alt have ev: "e = CHR '','' \<or> e = CHR ''}''" by blast
  from m(4) s(1) m(5) ev obtain j where j: "valueEnd b ?s = Some j" "j \<le> length b"
    "drop j b = r3 \<or> drop j b = skip_ws r3"
    by (rule value_position)
  from parse_local [of n d "skip_ws r2", THEN conjunct1, rule_format, of v r3] m(4)
  obtain w where w: "skip_ws r2 = w @ r3" "reads_value d w v" by (auto simp: p_value_skip_ws)
  from m(5) obtain ws where ws: "r3 = ws @ e # tail" "\<forall>x \<in> set ws. is_ws x" "\<not> is_ws e"
    by (rule skip_ws_split_Cons)
  obtain wa wb where wab: "ws = wa @ wb" "drop j b = wb @ e # tail"
  proof (cases "drop j b = r3")
    case True
    with ws(1) show thesis by (intro that [of "[]" ws]) simp_all
  next
    case False
    with j(3) m(5) show thesis by (intro that [of ws "[]"]) simp_all
  qed
  let ?raw = "w @ wa"
  have val: "drop ?s b = ?raw @ drop j b" using s(1) w(1) ws(1) wab by simp
  have sj: "?s \<le> j" using valueEnd_ge [OF j(1)] .
  have len: "j = ?s + length ?raw"
  proof -
    have "length b - ?s = length ?raw + (length b - j)" using arg_cong [OF val, of length] by simp
    with sj j(2) show ?thesis by linarith
  qed
  have wsa: "\<forall>c \<in> set wa. is_ws c" "\<forall>c \<in> set wb. is_ws c" using ws(2) wab(1) by auto
  from m(1-3) obtain w0 w1 where key: "drop i b = key_text w0 raw w1 @ r2" "key_ok w0 raw w1"
    by (rule member_key)
  from skip_ws_split [of r2] obtain lead where lead: "r2 = lead @ skip_ws r2" "\<forall>c \<in> set lead. is_ws c" by blast
  have pre: "drop i b = key_text w0 raw w1 @ lead @ ?raw @ drop j b"
    using key(1) lead(1) s(1) val by simp
  have start: "?s = i + length (key_text w0 raw w1 @ lead)"
  proof -
    have "length b - i = length (key_text w0 raw w1 @ lead) + (length b - ?s)"
      using arg_cong [OF pre, of length] arg_cong [OF val, of length] by simp
    moreover have "i \<le> ?s"
      using space_ge [of i b] stringEnd_gt [of ?i b] space_ge [of ?k b] space_ge [of "?c + 1" b] by simp
    ultimately show ?thesis using s(2) assms(2) by linarith
  qed
  have at: "member_at d b i raw v ?raw ?s j e tail"
    unfolding member_at_def using key(2) pre start lead(2) len j(2) w(2) wab(2) wsa ws(3) by blast
  have keyslice: "slice b ?i ?k = Some (quoted raw)"
    using slice_split [of ?i ?k b "quoted raw"] k stringEnd_gt [of ?i b] i p_string_split [OF m(2)]
    by (simp add: quoted_def)
  have valslice: "slice b ?s j = Some ?raw" using slice_split [of ?s j b ?raw] sj j(2) val by simp
  show thesis
    by (rule that [OF at j(1) il(1) _ keyslice refl valslice alt])
      (use i il(1) byte_at_drop [of b ?i quote] in \<open>auto simp: byte_at_Some\<close>)
qed

lemma inspect_step:
  assumes "member_at d b i kraw v raw start j e tail"
    "valueEnd b start = Some j" "space b i < length b" "b ! space b i = quote"
    "slice b (space b i) (stringEnd b (space b i)) = Some (quoted kraw)"
    "start = space b (space b (stringEnd b (space b i)) + 1)" "slice b start j = Some raw"
  shows "drop (space b j) b = e # tail"
    and "inspect_loop b i st = (case member_case (routingKey (quoted kraw)) raw start j st of
      Inl out \<Rightarrow> out
    | Inr st' \<Rightarrow> inspect_loop b (if e = CHR '','' then space b j + 1 else space b j) st')"
proof -
  from assms(1) obtain ws where ws: "drop j b = ws @ e # tail" "\<forall>c \<in> set ws. is_ws c" "\<not> is_ws e" "j \<le> length b"
    by (auto simp: member_at_def)
  show k: "drop (space b j) b = e # tail"
    using drop_space [OF ws(4)] skip_ws_append [OF ws(2,3)] ws(1) by simp
  have ke: "byte_at b (space b j) = Some e" using k byte_at_drop by blast
  have start: "space b (Suc (space b (stringEnd b (space b i)))) = start" using assms(6) by simp
  have qe: "byte_at b (space b i) = Some quote" using assms(3,4) by (simp add: byte_at_Some)
  show "inspect_loop b i st = (case member_case (routingKey (quoted kraw)) raw start j st of
      Inl out \<Rightarrow> out
    | Inr st' \<Rightarrow> inspect_loop b (if e = CHR '','' then space b j + 1 else space b j) st')"
    unfolding inspect_loop.simps [of b i st] using ke qe assms(2,5,7) start
    by (cases "member_case (routingKey (quoted kraw)) raw start j st") (simp_all add: Let_def)
qed


subsection \<open>All members\<close>

text \<open>
  What the loop does with a list of members: the raw key, the raw value, where it starts and ends.
\<close>

type_synonym item = "string \<times> string \<times> nat \<times> nat"

fun run_items :: "item list \<Rightarrow> Request \<times> bool \<Rightarrow> inspected" where
  "run_items [] st = Inspected (fst st)"
| "run_items ((kraw, raw, start, j) # items) st =
     (case member_case (routingKey (quoted kraw)) raw start j st of
        Inl out \<Rightarrow> out | Inr st' \<Rightarrow> run_items items st')"

definition item_matches :: "item \<Rightarrow> string \<times> json \<Rightarrow> bool" where
  "item_matches it m =
     (case (it, m) of ((kraw, raw, start, j), (k, v)) \<Rightarrow>
        k = unquote_all kraw \<and> json_parse raw = Some v \<and> (\<exists>t r. p_string t = Some (kraw, r)))"

text \<open>Another value in the place of the member \<open>n\<close> gives the document with that one member changed.\<close>

definition replaceable :: "nat \<Rightarrow> string \<Rightarrow> nat \<Rightarrow> item list \<Rightarrow> (string \<times> json) list \<Rightarrow> string \<Rightarrow> bool" where
  "replaceable d b i items ms rest =
     (\<forall>n < length items. \<forall>w' v'. reads_value d w' v' \<longrightarrow>
        (case items ! n of (kraw, raw, start, j) \<Rightarrow>
           i \<le> start \<and> start \<le> j \<and> j \<le> length b \<and>
           (\<exists>u'. drop i (take start b) @ w' @ drop j b = u' @ rest \<and>
              reads_members d u' (ms[n := (fst (ms ! n), v')]))))"

lemma reads_value_lead:
  assumes "reads_value d w v" "\<forall>c \<in> set lead. is_ws c"
  shows "reads_value d (lead @ w) v"
  unfolding reads_value_def
proof (intro allI impI)
  fix m d' and x :: string
  assume "length (lead @ w) \<le> m" "d \<le> d'" "stops x"
  then have "p_value m d' (w @ x) = Some (v, x)" using assms(1) by (intro reads_valueD) simp_all
  moreover have "skip_ws (lead @ w @ x) = skip_ws (w @ x)"
    using assms(2) by (simp add: skip_ws_def dropWhile_append2)
  ultimately show "p_value m d' ((lead @ w) @ x) = Some (v, x)"
    using p_value_skip_ws [of m d' "lead @ w @ x"] p_value_skip_ws [of m d' "w @ x"] by simp
qed

lemma take_drop_pre: "drop i b = p @ drop k b \<Longrightarrow> k = i + length p \<Longrightarrow> drop i (take k b) = p"
  by (simp add: drop_take)

lemma drop_take_split:
  assumes "drop i b = p @ drop k b" "k = i + length p" "k \<le> s"
  shows "drop i (take s b) = p @ drop k (take s b)"
proof -
  have "drop i (take s b) = take (s - i) (p @ drop k b)" using assms(1) by (simp add: drop_take)
  also have "\<dots> = p @ take (s - k) (drop k b)" using assms(2,3) by simp
  finally show ?thesis by (simp add: drop_take)
qed

lemma member_parts:
  assumes "member_at d b i kraw v raw start j e tail"
  obtains w0 w1 lead ws rw rws where "key_ok w0 kraw w1"
    "drop i b = key_text w0 kraw w1 @ lead @ raw @ drop j b" "drop i (take start b) = key_text w0 kraw w1 @ lead"
    "start = i + length (key_text w0 kraw w1 @ lead)" "\<forall>c \<in> set lead. is_ws c"
    "j = start + length raw" "j \<le> length b" "raw = rw @ rws" "reads_value d rw v" "\<forall>c \<in> set rws. is_ws c"
    "drop j b = ws @ e # tail" "\<forall>c \<in> set ws. is_ws c"
  using assms unfolding member_at_def by (auto simp: drop_take)

lemma inspect_end:
  assumes "skip_ws (drop k b) = CHR ''}'' # rest" "k \<le> length b"
  shows "inspect_loop b k st = Inspected (fst st)"
proof -
  have "drop (space b k) b = CHR ''}'' # rest" using drop_space [OF assms(2)] assms(1) by simp
  then have "byte_at b (space b k) = Some (CHR ''}'')" using byte_at_drop by blast
  then show ?thesis by (simp add: inspect_loop.simps [of b k])
qed

lemma replaceable_last:
  assumes at: "member_at d b i kraw v raw start j (CHR ''}'') rest"
  shows "replaceable d b i [(kraw, raw, start, j)] [(unquote_all kraw, v)] rest"
  using at
proof (rule member_parts)
  fix w0 w1 lead ws rw rws
  assume m: "key_ok w0 kraw w1" "drop i (take start b) = key_text w0 kraw w1 @ lead"
    "start = i + length (key_text w0 kraw w1 @ lead)" "\<forall>c \<in> set lead. is_ws c"
    "j = start + length raw" "j \<le> length b" "drop j b = ws @ CHR ''}'' # rest" "\<forall>c \<in> set ws. is_ws c"
  have "\<exists>u'. drop i (take start b) @ w' @ drop j b = u' @ rest \<and> reads_members d u' [(unquote_all kraw, v')]"
    if rv: "reads_value d w' v'" for w' v'
  proof -
    have "drop i (take start b) @ w' @ drop j b = (key_text w0 kraw w1 @ (lead @ w') @ ws @ [CHR ''}'']) @ rest"
      using m(2,7) by simp
    with reads_members_last [OF m(1) reads_value_lead [OF rv m(4)] m(8)] show ?thesis by blast
  qed
  with m(3,5,6) show ?thesis by (auto simp: replaceable_def)
qed

lemma replaceable_more:
  assumes at: "member_at d b i kraw v raw start j (CHR '','') tail" and k: "drop k b = tail" "k \<le> length b"
    and ns: "p_members n d tail = Some (ns, rest)" and rep: "replaceable d b k items ns rest"
  shows "replaceable d b i ((kraw, raw, start, j) # items) ((unquote_all kraw, v) # ns) rest"
  using at
proof (rule member_parts)
  fix w0 w1 lead ws rw rws
  assume m: "key_ok w0 kraw w1" "drop i b = key_text w0 kraw w1 @ lead @ raw @ drop j b"
    "drop i (take start b) = key_text w0 kraw w1 @ lead"
    "start = i + length (key_text w0 kraw w1 @ lead)" "\<forall>c \<in> set lead. is_ws c"
    "j = start + length raw" "j \<le> length b" "raw = rw @ rws" "reads_value d rw v" "\<forall>c \<in> set rws. is_ws c"
    "drop j b = ws @ CHR '','' # tail" "\<forall>c \<in> set ws. is_ws c"
  from parse_local [THEN conjunct2, THEN conjunct2, rule_format, OF ns]
  obtain wu where wu: "tail = wu @ rest" "reads_members d wu ns" by blast
  let ?P = "key_text w0 kraw w1 @ (lead @ rw) @ (rws @ ws) @ [CHR '','']"
  have P: "drop i b = ?P @ drop k b" using m(2,8,11) k(1) by simp
  have kP: "k = i + length ?P"
  proof -
    have "length b - i = length ?P + (length b - k)" using arg_cong [OF P, of length] by simp
    moreover have "i \<le> length b" using m(4,6,7) by simp
    ultimately show ?thesis using k(2) by (cases "k \<le> length b") simp_all
  qed
  have first: "\<exists>u'. drop i (take start b) @ w' @ drop j b = u' @ rest \<and>
      reads_members d u' ((unquote_all kraw, v') # ns)" if rv: "reads_value d w' v'" for w' v'
  proof -
    have "drop i (take start b) @ w' @ drop j b = (key_text w0 kraw w1 @ (lead @ w') @ ws @ CHR '','' # wu) @ rest"
      using m(3,11) wu(1) by simp
    with reads_members_more [OF m(1) reads_value_lead [OF rv m(5)] m(12) wu(2)] show ?thesis by blast
  qed
  have later: "i \<le> s' \<and> s' \<le> j' \<and> j' \<le> length b \<and> (\<exists>u'. drop i (take s' b) @ w' @ drop j' b = u' @ rest \<and>
      reads_members d u' ((unquote_all kraw, v) # ns[q := (fst (ns ! q), v')]))"
    if q: "q < length items" "items ! q = (kr', raw', s', j')" and rv: "reads_value d w' v'" for q kr' raw' s' j' w' v'
  proof -
    from rep q rv obtain u' where u': "k \<le> s'" "s' \<le> j'" "j' \<le> length b"
      "drop k (take s' b) @ w' @ drop j' b = u' @ rest" "reads_members d u' (ns[q := (fst (ns ! q), v')])"
      unfolding replaceable_def by fastforce
    have "drop i (take s' b) @ w' @ drop j' b = (?P @ u') @ rest"
      using drop_take_split [OF P kP u'(1)] u'(4) by simp
    moreover have "reads_members d (?P @ u') ((unquote_all kraw, v) # ns[q := (fst (ns ! q), v')])"
      using reads_members_more [OF m(1) reads_value_lead [OF m(9,5)] _ u'(5), of "rws @ ws"] m(10,12) by auto
    ultimately show ?thesis using u'(1-3) kP by (metis le_add1 le_trans)
  qed
  show ?thesis
    unfolding replaceable_def
  proof (intro allI impI)
    fix q w' v' assume q: "q < length ((kraw, raw, start, j) # items)" and rv: "reads_value d w' v'"
    show "case ((kraw, raw, start, j) # items) ! q of (kr', raw', s', j') \<Rightarrow>
        i \<le> s' \<and> s' \<le> j' \<and> j' \<le> length b \<and>
        (\<exists>u'. drop i (take s' b) @ w' @ drop j' b = u' @ rest \<and>
          reads_members d u' (((unquote_all kraw, v) # ns)[q := (fst (((unquote_all kraw, v) # ns) ! q), v')]))"
    proof (cases q)
      case 0
      with first [OF rv] m(4,6,7) show ?thesis by simp
    next
      case (Suc q')
      obtain kr' raw' s' j' where it: "items ! q' = (kr', raw', s', j')" by (cases "items ! q'")
      from later [OF _ it rv] q Suc it show ?thesis by simp
    qed
  qed
qed

lemma loop_items:
  "p_members n d (drop i b) = Some (ms, rest) \<Longrightarrow> i \<le> length b \<Longrightarrow> d \<le> max_depth \<Longrightarrow>
   \<exists>items. (\<forall>st. inspect_loop b i st = run_items items st) \<and> list_all2 item_matches items ms \<and>
     replaceable d b i items ms rest"
proof (induction n arbitrary: i ms)
  case (Suc n)
  from Suc.prems obtain kraw v raw start j e tail where at: "member_at d b i kraw v raw start j e tail"
    and pos: "valueEnd b start = Some j" "space b i < length b" "b ! space b i = quote"
      "slice b (space b i) (stringEnd b (space b i)) = Some (quoted kraw)"
      "start = space b (space b (stringEnd b (space b i)) + 1)" "slice b start j = Some raw"
    and alt: "(e = CHR ''}'' \<and> ms = [(unquote_all kraw, v)] \<and> tail = rest) \<or>
     (e = CHR '','' \<and> (\<exists>ns. p_members n d tail = Some (ns, rest) \<and> ms = (unquote_all kraw, v) # ns))"
    by (rule member_positions)
  note step = inspect_step [OF at pos]
  have item: "item_matches (kraw, raw, start, j) (unquote_all kraw, v)"
    using at by (rule member_parts)
      (use json_parse_reads [OF _ Suc.prems(3)] in \<open>auto simp: item_matches_def key_ok_def\<close>)
  from alt show ?case
  proof
    assume last: "e = CHR ''}'' \<and> ms = [(unquote_all kraw, v)] \<and> tail = rest"
    have "skip_ws (CHR ''}'' # rest) = CHR ''}'' # rest" by (simp add: skip_ws_def is_ws_def)
    then have "inspect_loop b (space b j) st' = Inspected (fst st')" for st'
      using inspect_end [of "space b j" b rest] drop_Cons [OF step(1)] step(1) last by simp
    then have "inspect_loop b i st = run_items [(kraw, raw, start, j)] st" for st
      using step(2) [of st] last by (simp split: sum.split)
    with item last replaceable_last [of d b i kraw v raw start j rest] at show ?thesis
      by (intro exI [of _ "[(kraw, raw, start, j)]"]) simp
  next
    assume "e = CHR '','' \<and> (\<exists>ns. p_members n d tail = Some (ns, rest) \<and> ms = (unquote_all kraw, v) # ns)"
    then obtain ns where e: "e = CHR '',''" and ns: "p_members n d tail = Some (ns, rest)"
      and ms: "ms = (unquote_all kraw, v) # ns" by blast
    let ?k = "space b j + 1"
    have k: "drop ?k b = tail" "?k \<le> length b" using drop_Cons [OF step(1)] by simp_all
    from Suc.IH [of ?k ns] ns k Suc.prems(3) obtain items where
      IH: "\<forall>st. inspect_loop b ?k st = run_items items st" "list_all2 item_matches items ns"
        "replaceable d b ?k items ns rest" by auto
    have run: "inspect_loop b i st = run_items ((kraw, raw, start, j) # items) st" for st
      using step(2) [of st] e IH(1) by (simp split: sum.split)
    have "replaceable d b i ((kraw, raw, start, j) # items) ms rest"
      unfolding ms by (rule replaceable_more [OF at [unfolded e] k ns IH(3)])
    with run item IH(2) ms show ?thesis by (intro exI [of _ "(kraw, raw, start, j) # items"]) simp
  qed
qed simp


subsection \<open>The whole body\<close>

lemma json_parse_object:
  assumes "reads_members (max_depth - 1) u ms" "\<forall>c \<in> set w. is_ws c" "\<forall>c \<in> set ws. is_ws c"
  shows "json_parse (w @ CHR ''{'' # u @ ws) = Some (JObj ms)"
proof -
  have "reads_value max_depth (w @ CHR ''{'' # u) (JObj ms)"
    by (rule reads_bracket [OF assms(2)]) (use assms(1) in \<open>auto simp: max_depth_def\<close>)
  from json_parse_reads [OF this le_refl assms(3)] show ?thesis by simp
qed

definition document_replaceable :: "string \<Rightarrow> item list \<Rightarrow> (string \<times> json) list \<Rightarrow> bool" where
  "document_replaceable b items ms =
     (\<forall>n < length items. \<forall>w' v'. reads_value (max_depth - 1) w' v' \<longrightarrow>
        (case items ! n of (kraw, raw, start, j) \<Rightarrow>
           json_parse (take start b @ w' @ drop j b) = Some (JObj (ms[n := (fst (ms ! n), v')]))))"

lemma replaceable_document:
  assumes "replaceable (max_depth - 1) b i items ms rest" "take i b = w @ [CHR ''{'']"
    "\<forall>c \<in> set w. is_ws c" "\<forall>c \<in> set rest. is_ws c" "i \<le> length b"
  shows "document_replaceable b items ms"
  unfolding document_replaceable_def
proof (intro allI impI)
  fix n w' v' assume n: "n < length items" and rv: "reads_value (max_depth - 1) w' v'"
  obtain kraw raw start j where it: "items ! n = (kraw, raw, start, j)" by (cases "items ! n")
  from assms(1) n rv it obtain u' where u': "i \<le> start" "drop i (take start b) @ w' @ drop j b = u' @ rest"
    "reads_members (max_depth - 1) u' (ms[n := (fst (ms ! n), v')])"
    unfolding replaceable_def by fastforce
  have "take start b = take i b @ drop i (take start b)"
    using u'(1) by (metis append_take_drop_id min.absorb1 take_take)
  then have "take start b @ w' @ drop j b = take i b @ (drop i (take start b) @ w' @ drop j b)"
    by (metis append_assoc)
  then have "take start b @ w' @ drop j b = w @ CHR ''{'' # u' @ rest"
    unfolding u'(2) assms(2) by simp
  with json_parse_object [OF u'(3) assms(3,4)] it
  show "case items ! n of (kraw, raw, start, j) \<Rightarrow>
      json_parse (take start b @ w' @ drop j b) = Some (JObj (ms[n := (fst (ms ! n), v')]))" by simp
qed

lemma inspect_object:
  assumes "json_parse b = Some (JObj ms)"
  obtains items where "Inspect b = run_items items (new_Request, False)" "list_all2 item_matches items ms"
    "document_replaceable b items ms"
proof -
  from assms obtain r where p: "p_value (Suc (length b)) max_depth b = Some (JObj ms, r)" "skip_ws r = []"
    by (auto simp: json_parse_def split: option.splits if_splits)
  have rest: "\<forall>c \<in> set r. is_ws c" using p(2) by (simp add: skip_ws_def dropWhile_eq_Nil_conv)
  have valid: "json_Valid b" using assms by (simp add: json_Valid_def)
  from p(1) obtain t where t: "skip_ws b = CHR ''{'' # t"
    and body: "(skip_ws t = CHR ''}'' # r \<and> ms = []) \<or> p_members (length b) (max_depth - 1) t = Some (ms, r)"
    by (rule p_value_cases) (auto elim: p_literal_local simp: p_literal_def split: if_splits)
  have d: "drop (space b 0) b = CHR ''{'' # t" using drop_space [of 0 b] t by simp
  have i: "drop (space b 0 + 1) b = t" "space b 0 + 1 \<le> length b" using drop_Cons [OF d] by simp_all
  have ins: "Inspect b = inspect_loop b (space b 0 + 1) (new_Request, False)"
    using valid d byte_at_drop [of b "space b 0"] by (auto simp: Inspect_def Let_def)
  from t obtain w where w: "b = w @ CHR ''{'' # t" "\<forall>x \<in> set w. is_ws x" by (rule skip_ws_split_Cons)
  have "space b 0 = length w"
    using arg_cong [OF d, of length] arg_cong [OF w(1), of length] i(2) by simp
  then have pre: "take (space b 0 + 1) b = w @ [CHR ''{'']" using w(1) by simp
  from body show thesis
  proof
    assume empty: "skip_ws t = CHR ''}'' # r \<and> ms = []"
    then have "Inspect b = run_items [] (new_Request, False)"
      using inspect_end [of "space b 0 + 1" b r] i ins by simp
    with that [of "[]"] empty show thesis by (simp add: document_replaceable_def)
  next
    assume m: "p_members (length b) (max_depth - 1) t = Some (ms, r)"
    from loop_items [of "length b" "max_depth - 1" "space b 0 + 1" b ms r] m i
    obtain items where items: "\<forall>st. inspect_loop b (space b 0 + 1) st = run_items items st"
      "list_all2 item_matches items ms" "replaceable (max_depth - 1) b (space b 0 + 1) items ms r"
      by (auto simp del: drop_drop)
    from that [OF _ items(2) replaceable_document [OF items(3) pre w(2) rest i(2)]] items(1) ins
    show thesis by simp
  qed
qed

lemma inspect_not_object:
  assumes "json_parse b = Some v" "\<And>ms. v \<noteq> JObj ms"
  shows "Inspect b = Failed ''request must be an object''"
proof -
  from assms obtain r where p: "p_value (Suc (length b)) max_depth b = Some (v, r)"
    by (auto simp: json_parse_def split: option.splits if_splits)
  have "\<not> (\<exists>t. skip_ws b = CHR ''{'' # t)"
    using p by (rule p_value_cases) (use assms(2) in auto)
  then have "byte_at b (space b 0) \<noteq> Some (CHR ''{'')"
    using drop_space [of 0 b] by (auto simp: byte_at_drop)
  with assms(1) show ?thesis by (simp add: Inspect_def json_Valid_def)
qed

end
