(* ===== verification/RequestProps.thy ===== *)
theory RequestProps
  imports InspectProofs
begin

section \<open>The properties of request inspection\<close>

text \<open>
  No panic, agreement with a JSON parser on the routing fields that must be exact, and the effect of
  replacing the model.
\<close>

subsection \<open>No panic\<close>

lemma image_at_Some: "i < length b \<Longrightarrow> image_at b i (stringEnd b i) \<noteq> None"
proof -
  assume i: "i < length b"
  have key: "slice b i (stringEnd b i) \<noteq> None"
    using drop_stringEnd [OF i] stringEnd_gt [of i b] by (simp add: slice_def)
  have val: "slice b v (stringEnd b v) = None \<Longrightarrow> byte_at b v \<noteq> Some quote" for v
    using drop_stringEnd [of v b] stringEnd_gt [of v b] by (auto simp: slice_def byte_at_Some)
  from key show ?thesis by (auto simp: image_at_def Let_def dest: val split: option.split)
qed

lemma image_loop_Some: "image_loop b i \<noteq> None"
proof (induction b i rule: image_loop.induct)
  case (1 b i)
  show ?case
    unfolding image_loop.simps [of b i] using 1 image_at_Some [of i b]
    by (auto split: option.split bool.split)
qed

lemma hasImage_Some: "hasImage b \<noteq> None"
  using image_loop_Some [of b 0] by (auto simp: hasImage_def)

lemma member_case_no_panic: "member_case key raw start j st \<noteq> Inl Panic"
proof -
  obtain v where "hasImage raw = Some v" using hasImage_Some [of raw] by blast
  then show ?thesis by (cases st) (simp add: member_case_def split: option.split)
qed

lemma run_items_no_panic: "run_items items st \<noteq> Panic"
proof (induction items arbitrary: st)
  case (Cons it items)
  obtain kraw raw start j where "it = (kraw, raw, start, j)" by (cases it)
  with Cons member_case_no_panic [of "routingKey (quoted kraw)" raw start j st] show ?case
    by (auto split: sum.split)
qed simp

subsection \<open>Keys\<close>

lemma unquote_ascii:
  "backslash \<notin> set s \<Longrightarrow> \<forall>c \<in> set (unquote n s). code c < 0x80 \<Longrightarrow> length s \<le> n \<Longrightarrow> unquote n s = s"
proof (induction n arbitrary: s)
  case (Suc n)
  show ?case
  proof (cases s)
    case (Cons c t)
    have bad: "\<not> (\<forall>x \<in> set (encode_rune RuneError). code x < 0x80)"
      by (simp add: encode_rune_def RuneError_def is_surrogate_def byte_def code_def)
    have eq: "unquote (Suc n) s = (if utf8_length s = 0 then encode_rune RuneError @ unquote n t
        else take (utf8_length s) s @ unquote n (drop (utf8_length s) s))"
      using Suc.prems(1) Cons by (auto simp: Let_def)
    show ?thesis
    proof (cases "utf8_length s = 0")
      case True
      with Suc.prems(2) bad show ?thesis unfolding eq by auto
    next
      case False
      have "\<forall>c \<in> set (unquote n (drop (utf8_length s) s)). code c < 0x80"
        using Suc.prems(2) unfolding eq by (simp add: False)
      then have "unquote n (drop (utf8_length s) s) = drop (utf8_length s) s"
        by (intro Suc.IH) (use Suc.prems(1,3) False in \<open>auto dest: in_set_dropD\<close>)
      then show ?thesis unfolding eq by (simp add: False)
    qed
  qed simp
qed simp

lemma routing_names_ok:
  "list_all (\<lambda>k. unquote_all k = k \<and> k \<noteq> '''' \<and> list_all (\<lambda>c. code c < 0x80) k) routing_names"
  by code_simp

lemma Unmarshal_quoted:
  assumes "p_string t = Some (kraw, r)"
  shows "Unmarshal dec_string '''' (quoted kraw) = Some (unquote_all kraw)"
  using json_parse_reads [OF reads_str [OF _ assms, of "[]"], of max_depth "[]"]
  by (simp add: Unmarshal_def quoted_def)

lemma find_quoted: "x \<in> set xs \<Longrightarrow> find (\<lambda>k. quoted x = quoted k) xs = Some x"
  by (induction xs) (auto simp: quoted_def)

lemma routingKey_iff:
  assumes "p_string t = Some (kraw, r)" "k \<in> set routing_names"
  shows "routingKey (quoted kraw) = k \<longleftrightarrow> unquote_all kraw = k"
proof -
  have names: "unquote_all x = x \<and> x \<noteq> '''' \<and> (\<forall>c \<in> set x. code c < 0x80)" if "x \<in> set routing_names" for x
    using routing_names_ok that by (auto simp: list_all_iff)
  have inj: "quoted x = quoted y \<longleftrightarrow> x = y" for x y by (simp add: quoted_def)
  show ?thesis
  proof (cases "kraw \<in> set routing_names")
    case True
    then have "find (\<lambda>k. quoted kraw = quoted k) routing_names = Some kraw" by (rule find_quoted)
    then show ?thesis using names [OF True] by (simp add: routingKey_def literal_or_decoded_def)
  next
    case False
    then have "find (\<lambda>k. quoted kraw = quoted k) routing_names = None" by (auto simp: find_None_iff inj)
    moreover have "unquote_all kraw \<noteq> k" if "backslash \<notin> set kraw"
    proof
      assume u: "unquote_all kraw = k"
      then have "unquote_all kraw = kraw"
        using that names [OF assms(2)] unfolding unquote_all_def by (intro unquote_ascii) simp_all
      with u assms(2) False show False by simp
    qed
    ultimately show ?thesis
      using Unmarshal_quoted [OF assms(1)] names [OF assms(2)]
      by (auto simp: routingKey_def literal_or_decoded_def quoted_def)
  qed
qed


subsection \<open>What the loop leaves\<close>

text \<open>The members of a document with a given key.\<close>

definition named :: "string \<Rightarrow> (string \<times> json) list \<Rightarrow> (string \<times> json) list" where
  "named k ms = filter (\<lambda>m. fst m = k) ms"

lemma named_simps [simp]:
  "named k [] = []" "named k (m # ms) = (if fst m = k then m # named k ms else named k ms)"
  by (simp_all add: named_def)

lemma model_routing: "''model'' \<in> set routing_names" "''stream'' \<in> set routing_names"
  by (simp_all add: routing_names_def)

lemma member_case_model:
  assumes "member_case ''model'' raw start j (r, seen) = Inr (r', seen')"
  shows "req_ModelStart r < 0 \<and> req_ModelStart r' = int start \<and> req_ModelEnd r' = int j \<and>
    Unmarshal dec_string (req_Model r) raw = Some (req_Model r') \<and> req_Stream r' = req_Stream r \<and> seen' = seen"
  using assms by (auto simp: member_case_def split: if_splits option.splits)

lemma member_case_stream:
  assumes "member_case ''stream'' raw start j (r, seen) = Inr (r', seen')"
  shows "\<not> seen \<and> seen' \<and> Unmarshal dec_bool (req_Stream r) raw = Some (req_Stream r') \<and>
    req_Model r' = req_Model r \<and> req_ModelStart r' = req_ModelStart r \<and> req_ModelEnd r' = req_ModelEnd r"
  using assms by (auto simp: member_case_def split: if_splits option.splits)

lemma raise_limit_frame [simp]:
  "req_Model (raise_limit v r) = req_Model r" "req_Stream (raise_limit v r) = req_Stream r"
  "req_ModelStart (raise_limit v r) = req_ModelStart r" "req_ModelEnd (raise_limit v r) = req_ModelEnd r"
  by (simp_all add: raise_limit_def split: option.split)

lemma member_case_other:
  assumes "member_case key raw start j (r, seen) = Inr (r', seen')" "key \<noteq> ''model''" "key \<noteq> ''stream''"
  shows "req_Model r' = req_Model r \<and> req_ModelStart r' = req_ModelStart r \<and>
    req_ModelEnd r' = req_ModelEnd r \<and> req_Stream r' = req_Stream r \<and> seen' = seen"
proof -
  obtain v where "hasImage raw = Some v" using hasImage_Some [of raw] by blast
  with assms show ?thesis
    by (simp add: member_case_def split: if_splits) (elim conjE, hypsubst, simp)+
qed

lemma member_case_no_inspected: "member_case key raw start j st \<noteq> Inl (Inspected r)"
proof -
  obtain v where "hasImage raw = Some v" using hasImage_Some [of raw] by blast
  then show ?thesis by (cases st) (simp add: member_case_def split: option.split)
qed

text \<open>One member of a run that ends well.\<close>

lemma run_items_step:
  assumes "run_items (it # items) (r, seen) = Inspected r'" "list_all2 item_matches (it # items) ms"
  obtains kraw raw start j k v ms' r1 seen1 where "it = (kraw, raw, start, j)" "ms = (k, v) # ms'"
    "list_all2 item_matches items ms'" "json_parse raw = Some v"
    "member_case (routingKey (quoted kraw)) raw start j (r, seen) = Inr (r1, seen1)"
    "run_items items (r1, seen1) = Inspected r'"
    "\<And>name. name \<in> set routing_names \<Longrightarrow> routingKey (quoted kraw) = name \<longleftrightarrow> k = name"
proof -
  obtain kraw raw start j where it: "it = (kraw, raw, start, j)" by (cases it)
  from assms(2) it obtain k v ms' where ms: "ms = (k, v) # ms'" "item_matches (kraw, raw, start, j) (k, v)"
    "list_all2 item_matches items ms'"
    by (auto simp: list_all2_Cons1)
  from ms(2) obtain t rr where key: "k = unquote_all kraw" "json_parse raw = Some v" "p_string t = Some (kraw, rr)"
    by (auto simp: item_matches_def)
  from assms(1) it obtain r1 seen1 where run: "member_case (routingKey (quoted kraw)) raw start j (r, seen) = Inr (r1, seen1)"
    "run_items items (r1, seen1) = Inspected r'"
    using member_case_no_inspected [of "routingKey (quoted kraw)" raw start j "(r, seen)"]
    by (auto split: sum.splits)
  show thesis
    by (rule that [OF it ms(1,3) key(2) run]) (simp add: key(1) routingKey_iff [OF key(3)])
qed

lemma run_items_model:
  assumes "run_items items (r, seen) = Inspected r'" "list_all2 item_matches items ms"
  shows "(named ''model'' ms = [] \<longrightarrow> req_Model r' = req_Model r \<and>
      req_ModelStart r' = req_ModelStart r \<and> req_ModelEnd r' = req_ModelEnd r) \<and>
    (named ''model'' ms \<noteq> [] \<longrightarrow> req_ModelStart r < 0 \<and>
      (\<exists>n v kraw raw start j. named ''model'' ms = [(''model'', v)] \<and> dec_string (req_Model r) v = Some (req_Model r') \<and>
         n < length items \<and> ms ! n = (''model'', v) \<and> items ! n = (kraw, raw, start, j) \<and>
         req_ModelStart r' = int start \<and> req_ModelEnd r' = int j))"
  using assms
proof (induction items arbitrary: ms r seen)
  case (Cons it items)
  from Cons.prems obtain kraw raw start j k v ms' r1 seen1 where st: "it = (kraw, raw, start, j)" "ms = (k, v) # ms'"
    "list_all2 item_matches items ms'" "json_parse raw = Some v"
    "member_case (routingKey (quoted kraw)) raw start j (r, seen) = Inr (r1, seen1)"
    "run_items items (r1, seen1) = Inspected r'"
    and key: "\<And>name. name \<in> set routing_names \<Longrightarrow> routingKey (quoted kraw) = name \<longleftrightarrow> k = name"
    by (rule run_items_step) blast
  note IH = Cons.IH [OF st(6) st(3)]
  show ?case
  proof (cases "k = ''model''")
    case True
    then have "routingKey (quoted kraw) = ''model''" using key model_routing(1) by blast
    from member_case_model [OF st(5) [unfolded this]] have r1: "req_ModelStart r < 0" "req_ModelStart r1 = int start"
      "req_ModelEnd r1 = int j" "dec_string (req_Model r) v = Some (req_Model r1)"
      using st(4) by (simp_all add: Unmarshal_def)
    from IH r1(2) have none: "named ''model'' ms' = []" by auto
    with IH have "req_Model r' = req_Model r1" "req_ModelStart r' = int start" "req_ModelEnd r' = int j"
      using r1 by simp_all
    with True none r1 st(1,2) show ?thesis
      by (auto intro!: exI [of _ 0])
  next
    case False
    then have ne: "routingKey (quoted kraw) \<noteq> ''model''" using key model_routing(1) by blast
    have same: "req_Model r1 = req_Model r" "req_ModelStart r1 = req_ModelStart r" "req_ModelEnd r1 = req_ModelEnd r"
      using member_case_stream [of raw start j r seen r1 seen1] member_case_other [OF st(5) ne] st(5)
      by (cases "routingKey (quoted kraw) = ''stream''"; simp)+
    show ?thesis
    proof (cases "named ''model'' ms' = []")
      case True
      with IH same False st(2) show ?thesis by simp
    next
      case nonempty: False
      with IH obtain n w kr ra sa ja where n: "req_ModelStart r1 < 0" "named ''model'' ms' = [(''model'', w)]"
        "dec_string (req_Model r1) w = Some (req_Model r')" "n < length items" "ms' ! n = (''model'', w)"
        "items ! n = (kr, ra, sa, ja)" "req_ModelStart r' = int sa" "req_ModelEnd r' = int ja" by blast
      have "named ''model'' ms = [(''model'', w)]" using n(2) st(2) False by simp
      moreover have "Suc n < length (it # items)" "ms ! Suc n = (''model'', w)" "(it # items) ! Suc n = (kr, ra, sa, ja)"
        using n(4-6) st(2) by simp_all
      ultimately show ?thesis using n(1,3,7,8) same by (metis list.distinct(1))
    qed
  qed
qed simp

lemma run_items_stream:
  assumes "run_items items (r, seen) = Inspected r'" "list_all2 item_matches items ms"
  shows "(named ''stream'' ms = [] \<longrightarrow> req_Stream r' = req_Stream r) \<and>
    (named ''stream'' ms \<noteq> [] \<longrightarrow> \<not> seen \<and>
      (\<exists>v. named ''stream'' ms = [(''stream'', v)] \<and> dec_bool (req_Stream r) v = Some (req_Stream r')))"
  using assms
proof (induction items arbitrary: ms r seen)
  case (Cons it items)
  from Cons.prems obtain kraw raw start j k v ms' r1 seen1 where st: "it = (kraw, raw, start, j)" "ms = (k, v) # ms'"
    "list_all2 item_matches items ms'" "json_parse raw = Some v"
    "member_case (routingKey (quoted kraw)) raw start j (r, seen) = Inr (r1, seen1)"
    "run_items items (r1, seen1) = Inspected r'"
    and key: "\<And>name. name \<in> set routing_names \<Longrightarrow> routingKey (quoted kraw) = name \<longleftrightarrow> k = name"
    by (rule run_items_step) blast
  note IH = Cons.IH [OF st(6) st(3)]
  show ?case
  proof (cases "k = ''stream''")
    case True
    then have "routingKey (quoted kraw) = ''stream''" using key model_routing(2) by blast
    from member_case_stream [OF st(5) [unfolded this]] have r1: "\<not> seen" "seen1"
      "dec_bool (req_Stream r) v = Some (req_Stream r1)"
      using st(4) by (simp_all add: Unmarshal_def)
    with IH True st(2) show ?thesis by auto
  next
    case False
    then have ne: "routingKey (quoted kraw) \<noteq> ''stream''" using key model_routing(2) by blast
    have "req_Stream r1 = req_Stream r" "seen1 = seen"
      using member_case_model [of raw start j r seen r1 seen1] member_case_other [OF st(5) _ ne] st(5)
      by (cases "routingKey (quoted kraw) = ''model''"; simp)+
    with IH False st(2) show ?thesis by simp
  qed
qed simp

subsection \<open>Quoting a model name\<close>









subsection \<open>The properties\<close>

text \<open>C13. \<open>Inspect\<close> never panics, whatever the bytes of the body are: no index and no slice of the hand-written
  scanner is out of range, and every loop of it ends. A body that is not JSON and one that is not
  an object are refused.\<close>

theorem inspect_never_panics:
  "Inspect b \<noteq> Panic \<and>
   (json_parse b = None \<longrightarrow> Inspect b = Failed ''invalid JSON'') \<and>
   (\<forall>v. json_parse b = Some v \<and> (\<forall>ms. v \<noteq> JObj ms) \<longrightarrow> Inspect b = Failed ''request must be an object'')"
proof -
  have "Inspect b \<noteq> Panic"
  proof (cases "json_parse b")
    case None
    then show ?thesis by (simp add: Inspect_def json_Valid_def)
  next
    case (Some v)
    show ?thesis
    proof (cases "\<exists>ms. v = JObj ms")
      case True
      with Some obtain ms where "json_parse b = Some (JObj ms)" by blast
      then obtain items where "Inspect b = run_items items (new_Request, False)" by (rule inspect_object)
      then show ?thesis by (simp add: run_items_no_panic)
    next
      case False
      then show ?thesis using inspect_not_object [OF Some] by simp
    qed
  qed
  then show ?thesis using inspect_not_object by (auto simp: Inspect_def json_Valid_def)
qed

theorem inspect_never_panics_witness:
  "Inspect ''[1]'' = Failed ''request must be an object''"
proof -
  have "json_parse ''[1]'' = Some (JArr [JNum ''1''])" by code_simp
  with inspect_never_panics [of "''[1]''"] show ?thesis by auto
qed

text \<open>C14. What \<open>Inspect\<close> reports is what a JSON parser reads: when it accepts a body, the body is an object, the
  model is the string value of its only member of that name (escaped spellings of the name
  included), or empty when there is none, and the stream flag is the boolean value of the only member
  \<open>stream\<close>, or false.\<close>

theorem inspect_agrees_with_json:
  assumes "Inspect b = Inspected r"
  shows "\<exists>ms. json_parse b = Some (JObj ms) \<and>
    (case named ''model'' ms of
       [] \<Rightarrow> req_Model r = '''' \<and> req_ModelStart r = - 1
     | [m] \<Rightarrow> dec_string '''' (snd m) = Some (req_Model r) \<and> 0 \<le> req_ModelStart r
     | _ \<Rightarrow> False) \<and>
    (case named ''stream'' ms of
       [] \<Rightarrow> \<not> req_Stream r
     | [m] \<Rightarrow> dec_bool False (snd m) = Some (req_Stream r)
     | _ \<Rightarrow> False)"
proof -
  obtain v where v: "json_parse b = Some v"
    using assms by (cases "json_parse b") (auto simp: Inspect_def json_Valid_def)
  then obtain ms where ms: "json_parse b = Some (JObj ms)"
    using inspect_not_object [OF v] assms by force
  then obtain items where i: "Inspect b = run_items items (new_Request, False)" "list_all2 item_matches items ms"
    by (rule inspect_object)
  have run: "run_items items (new_Request, False) = Inspected r" using i(1) assms by simp
  have start: "req_ModelStart new_Request = - 1" "req_Model new_Request = ''''" "\<not> req_Stream new_Request"
    by (simp_all add: new_Request_def)
  have "case named ''model'' ms of [] \<Rightarrow> req_Model r = '''' \<and> req_ModelStart r = - 1
     | [m] \<Rightarrow> dec_string '''' (snd m) = Some (req_Model r) \<and> 0 \<le> req_ModelStart r | _ \<Rightarrow> False"
    using run_items_model [OF run i(2)] start by (cases "named ''model'' ms = []") auto
  moreover have "case named ''stream'' ms of [] \<Rightarrow> \<not> req_Stream r
     | [m] \<Rightarrow> dec_bool False (snd m) = Some (req_Stream r) | _ \<Rightarrow> False"
    using run_items_stream [OF run i(2)] start by (cases "named ''stream'' ms = []") auto
  ultimately show ?thesis using ms by blast
qed



definition sample_body :: string where
  \<open>sample_body = ''{"stream":true, "model" : "a"}''\<close>

definition sample_request :: Request where
  "sample_request = new_Request\<lparr>req_Model := ''a'', req_Stream := True, req_ModelStart := 26, req_ModelEnd := 29\<rparr>"

lemma sample_inspected: "Inspect sample_body = Inspected sample_request"
  by code_simp

lemma sample_parsed: "json_parse sample_body = Some (JObj [(''stream'', JBool True), (''model'', JStr ''a'')])"
  by code_simp

theorem inspect_agrees_with_json_witness:
  "\<exists>ms. json_parse sample_body = Some (JObj ms) \<and> (case named ''stream'' ms of
       [] \<Rightarrow> False | [m] \<Rightarrow> dec_bool False (snd m) = Some True | _ \<Rightarrow> False)"
proof -
  have "req_Stream sample_request" by (simp add: sample_request_def)
  with inspect_agrees_with_json [OF sample_inspected] sample_parsed show ?thesis by auto
qed


text \<open>
  Where the code falls short. The raw value of a scalar includes the white space behind it, so a null
  before a line break or a space counts as a use of tools or of a stored conversation; and a model
  name with a control character is quoted in Go syntax, which is not JSON.
\<close>

lemma spaced_null_counts_as_tools:
  \<open>Inspect ''{"tools":null }'' = Inspected (new_Request\<lparr>req_Tools := True\<rparr>) \<and>
   Inspect ''{"tools":null}'' = Inspected new_Request \<and>
   Inspect ''{"conversation":null }'' = Inspected (new_Request\<lparr>req_Stateful := True\<rparr>)\<close>
  by code_simp

lemma rewrite_control_character_invalid:
  "json_parse (Rewrite isPrint sample_body sample_request [CHR 0x07]) = None"
proof -
  have "AppendQuote isPrint [CHR 0x07] = [quote, backslash, CHR ''a'', quote]"
    by (simp add: AppendQuote_def quoted_def utf8_length_def escaped_rune_def decode_rune_def code_def
        quote_def backslash_def)
  then have "Rewrite isPrint sample_body sample_request [CHR 0x07] =
      take 26 sample_body @ [quote, backslash, CHR ''a'', quote] @ drop 29 sample_body"
    by (simp add: Rewrite_def sample_request_def)
  moreover have "json_parse (take 26 sample_body @ [quote, backslash, CHR ''a'', quote] @ drop 29 sample_body) = None"
    by code_simp
  ultimately show ?thesis by simp
qed

end
