(* ===== verification/Attempts.thy ===== *)
theory Attempts
  imports RouterPolicy
begin

section \<open>Attempts: when a request is tried on another source\<close>

text \<open>
  \<open>internal/api/attempts.go\<close>: a request that an upstream refused before it generated anything may be sent
  to another source. The loop of \<open>acquireResponse\<close> alternates between the router and the upstream; while
  it waits for either, other requests go on. It is therefore a step relation over the local variables
  of the loop and the router, in which the steps of everybody else are interleaved.

  What the upstream client returns is an input: a response with its status and the duration that its
  \<open>Retry-After\<close> header asks for, a transport error with its \<open>BeforeSubmission\<close> flag, or another error.
\<close>

fun attempt_groups :: "string \<Rightarrow> Group list \<Rightarrow> int" where
  "attempt_groups gid [] = 1"
| "attempt_groups gid (g # gs) =
     (if group_ID g \<noteq> gid \<or> group_Type g = ''select'' then attempt_groups gid gs
      else if group_MaxAttempts g > 0 then group_MaxAttempts g
      else if group_Type g = ''fallback'' then max 1 (min 8 (int (length (group_Sources g))))
      else attempt_groups gid gs)"

definition attemptLimit :: "Config \<Rightarrow> Query \<Rightarrow> int" where
  "attemptLimit c q =
     (if q_Stateful q then 1
      else attempt_groups (if HasPrefix (q_Model q) ''auto/'' then ''auto'' else q_Model q) (cfg_Groups c))"

definition rejectedBeforeGeneration :: "Source \<Rightarrow> int \<Rightarrow> bool" where
  "rejectedBeforeGeneration src status =
     (source_Adapter src \<in> set [''openai'', ''anthropic'', ''gemini''] \<and>
      source_SourceKind src \<in> set [''vendor_api'', ''cloud_api'', ''aggregator_api'', ''custom_api'', ''local_model''] \<and>
      (status = 401 \<or> status = 403 \<or> status = 429))"

datatype do_result =
    DoResponse (res_status: int) (res_cooldown: time)
  | DoTransport (res_before: bool)
  | DoError

definition lease_src :: "Config \<Rightarrow> Lease \<Rightarrow> Source" where
  "lease_src c l = cfg_Sources c ! target_Source (l_Target l)"

definition safe_retry :: "Config \<Rightarrow> Lease \<Rightarrow> do_result \<Rightarrow> bool" where
  "safe_retry c l res =
     (case res of
        DoResponse status cooldown \<Rightarrow> rejectedBeforeGeneration (lease_src c l) status
      | DoTransport before \<Rightarrow> before
      | DoError \<Rightarrow> False)"

definition release_status :: "do_result \<Rightarrow> int \<times> time" where
  "release_status res = (case res of DoResponse status cooldown \<Rightarrow> (status, cooldown) | _ \<Rightarrow> (502, 0))"

text \<open>\<open>EstimatedRequestCost\<close> of the lease, added when a response proves that the request arrived.\<close>

definition next_query :: "Config \<Rightarrow> Lease \<Rightarrow> do_result \<Rightarrow> Query \<Rightarrow> Query" where
  "next_query c l res q =
     (let spent =
        (case res of
           DoResponse status cooldown \<Rightarrow>
             (case estimatedRequestCost (target_Model (l_Target l)) q of (cost, known) \<Rightarrow>
                if known then fadd (q_SpentUSD q) cost else q_SpentUSD q)
         | _ \<Rightarrow> q_SpentUSD q)
      in q\<lparr>q_SpentUSD := spent, q_ExcludedSources := q_ExcludedSources q @ [source_ID (lease_src c l)]\<rparr>)"

subsection \<open>The loop\<close>

datatype phase = Selecting | Queued nat | Calling nat | Returned "nat option"

record attempts =
  at_number :: nat
  at_limit :: int
  at_query :: Query
  at_phase :: phase
  at_tried :: "(nat \<times> do_result) list"

definition start_attempts :: "Config \<Rightarrow> Query \<Rightarrow> attempts" where
  "start_attempts c q = \<lparr>at_number = 0, at_limit = attemptLimit c q, at_query = q, at_phase = Selecting, at_tried = []\<rparr>"

fun acquired_phase :: "acquired \<Rightarrow> phase" where
  "acquired_phase (Granted n) = Calling n"
| "acquired_phase (Failed e) = Returned None"
| "acquired_phase (Blocked i) = Queued i"

definition retried :: "Config \<Rightarrow> nat \<Rightarrow> Lease \<Rightarrow> do_result \<Rightarrow> attempts \<Rightarrow> attempts" where
  "retried c n l res a = a\<lparr>at_number := at_number a + 1, at_query := next_query c l res (at_query a),
     at_phase := Selecting, at_tried := at_tried a @ [(n, res)]\<rparr>"

inductive attempt_step :: "Config \<Rightarrow> nat \<Rightarrow> attempts \<times> sys \<Rightarrow> attempts \<times> sys \<Rightarrow> bool" for c g where
  select: "at_phase a = Selecting \<Longrightarrow> g < length (sys_routers s) \<Longrightarrow> sys_now s \<le> now \<Longrightarrow>
    Acquire_start g (at_query a) e now s = (s', out) \<Longrightarrow>
    attempt_step c g (a, s) (a\<lparr>at_phase := acquired_phase out\<rparr>, tick now s')"
| wake: "at_phase a = Queued i \<Longrightarrow> g < length (sys_routers s) \<Longrightarrow> sys_now s \<le> now \<Longrightarrow>
    w \<in> set (r_queue (sys_routers s ! g)) \<Longrightarrow> w_id w = i \<Longrightarrow> w_query w = at_query a \<Longrightarrow>
    Acquire_resume g w consume now s = (s', out) \<Longrightarrow>
    attempt_step c g (a, s) (a\<lparr>at_phase := acquired_phase out\<rparr>, tick now s')"
| finish: "at_phase a = Calling n \<Longrightarrow>
    \<not> safe_retry c (sys_leases s ! n) res \<or> at_limit a \<le> int (at_number a) + 1 \<or> ctxErr \<Longrightarrow>
    attempt_step c g (a, s) (a\<lparr>at_phase := Returned (Some n)\<rparr>, s)"
| retry: "at_phase a = Calling n \<Longrightarrow> safe_retry c (sys_leases s ! n) res \<Longrightarrow>
    int (at_number a) + 1 < at_limit a \<Longrightarrow> sys_now s \<le> now \<Longrightarrow>
    attempt_step c g (a, s)
      (retried c n (sys_leases s ! n) res a,
       tick now (Release n (fst (release_status res)) (snd (release_status res)) now s))"
| others: "step s s' \<Longrightarrow>
    (\<And>n. at_phase a = Calling n \<Longrightarrow> l_once (sys_leases s' ! n) = l_once (sys_leases s ! n)) \<Longrightarrow>
    attempt_step c g (a, s) (a, s')"

inductive attempting :: "Config \<Rightarrow> nat \<Rightarrow> Query \<Rightarrow> attempts \<times> sys \<Rightarrow> bool" for c g q where
  start: "reachable s \<Longrightarrow> g < length (sys_routers s) \<Longrightarrow> r_cfg (sys_routers s ! g) = c \<Longrightarrow>
    attempting c g q (start_attempts c q, s)"
| continue: "attempting c g q x \<Longrightarrow> attempt_step c g x y \<Longrightarrow> attempting c g q y"

subsection \<open>What steps keep\<close>

definition keeps :: "sys \<Rightarrow> sys \<Rightarrow> bool" where
  "keeps s s' =
     (length (sys_leases s) \<le> length (sys_leases s') \<and>
      (\<forall>i < length (sys_leases s). lease_keep (sys_leases s ! i) (sys_leases s' ! i)) \<and>
      length (sys_routers s) \<le> length (sys_routers s') \<and>
      (\<forall>g < length (sys_routers s). r_cfg (sys_routers s' ! g) = r_cfg (sys_routers s ! g)))"

lemma keeps_refl [simp]: "keeps s s"
  by (simp add: keeps_def)

lemma keeps_trans: "keeps a b \<Longrightarrow> keeps b c \<Longrightarrow> keeps a c"
  by (auto simp: keeps_def intro: lease_keep_trans)

lemma keeps_evolves: "evolves s s' \<Longrightarrow> keeps s s'"
  by (auto simp: keeps_def evolves_def frame_def routers_eq_def static_eq_def)

lemma turn_now: "acquire_turn g q e queued now s = (s', out) \<Longrightarrow> sys_now s' = sys_now s"
  by (cases rule: acquire_turn_cases [of s g q e queued now]) (auto simp: grant_def Let_def split: prod.splits)

lemma resume_now: "sys_now (fst (Acquire_resume g w consume now s)) = sys_now s"
  by (auto simp: Acquire_resume_def Let_def dest!: turn_now split: prod.split acquired.split)

lemma step_keeps:
  assumes "reachable s" "step s s'"
  shows "keeps s s'"
proof (cases "\<exists>c now s''. cfg_wf c \<and> Adopt c now s = Some s'' \<and> s' = tick now s''")
  case True
  then obtain c now s'' where ad: "cfg_wf c" "Adopt c now s = Some s''" "s' = tick now s''" by blast
  obtain nx cap h where "s'' = signal (length (sys_routers s)) now (adopted c nx cap h s)"
    using Adopt_adopted [OF acct.always [OF assms(1)] ad(1)] ad(2) by (metis option.inject)
  moreover have "keeps s (adopted c nx cap h s)"
    using adopted_router(1) [of _ s c nx cap h] by (auto simp: keeps_def static_eq_def) (simp_all add: adopted_def)
  moreover have "keeps t (signal k now t)" for t k by (rule keeps_evolves [OF evolves_signal])
  moreover have "keeps t (tick now t)" for t by (simp add: keeps_def)
  ultimately show ?thesis unfolding ad(3) by (blast intro: keeps_trans)
next
  case False
  from assms(2) have "evolves s s'"
  proof (cases rule: step.cases)
    case (acquire g now q e)
    have "sys_now (fst (acquire_turn g q e None now s)) = sys_now s" by (metis turn_now prod.collapse)
    with acquire show ?thesis
      by (simp add: Acquire_start_def evolves_trans [OF evolves_acquire_turn evolves_tick])
  next
    case (resume g w now consume)
    then show ?thesis by (simp add: resume_now evolves_trans [OF evolves_resume evolves_tick])
  qed (use False in \<open>auto intro: evolves_trans [OF _ evolves_tick] evolves_cancel evolves_Release evolves_resume
        evolves_RecordExecution evolves_FirstOutput evolves_SetEnabled\<close>)
  then show ?thesis by (rule keeps_evolves)
qed

subsection \<open>Grants\<close>

lemma turn_granted:
  assumes "acquire_turn g q e queued now s = (s', Granted n)"
  shows "n = length (sys_leases s) \<and>
    (\<exists>l. sys_leases s' = sys_leases s @ [l] \<and> \<not> l_once l \<and>
       source_ID (lease_src (r_cfg (sys_routers s ! g)) l) \<notin> set (q_ExcludedSources q))"
proof -
  let ?r = "sys_routers s ! g"
  obtain idx el where ch: "router_choose ?r (sys_cap s) (sys_heap s) q now = (Some idx, el)"
    and s': "s' = grant g idx q now s" "n = length (sys_leases s)"
    using assms by (auto elim!: acquire_turn_Granted)
  have "eligible_reason ?r (sys_heap s) (r_targets ?r ! idx) q = None"
    using router_choose_sound [OF ch] by (simp add: free_target_def)
  then have "eligible_target ?r (sys_heap s) (r_targets ?r ! idx) q = None"
    by (auto simp: eligible_reason_def split: option.splits if_splits)
  then have "source_ID (source_of ?r (target_Source (r_targets ?r ! idx))) \<notin> set (q_ExcludedSources q)"
    unfolding eligible_target_def Let_def first_error_None by auto
  then have "\<not> l_once (new_lease g ?r idx q now) \<and>
    source_ID (lease_src (r_cfg ?r) (new_lease g ?r idx q now)) \<notin> set (q_ExcludedSources q)"
    by (simp add: lease_src_def new_lease_def Let_def source_of_def)
  with s' show ?thesis by (auto simp: grant_def Let_def split: prod.split)
qed

lemma resume_granted:
  assumes "Acquire_resume g w consume now s = (s', Granted n)" "g < length (sys_routers s)"
  shows "n = length (sys_leases s) \<and>
    (\<exists>l. sys_leases s' = sys_leases s @ [l] \<and> \<not> l_once l \<and>
       source_ID (lease_src (r_cfg (sys_routers s ! g)) l) \<notin> set (q_ExcludedSources (w_query w)))"
proof -
  define s1 where "s1 = (if consume then set_router g ((sys_routers s ! g)\<lparr>r_queue :=
      map (\<lambda>x. if w_id x = w_id w then x\<lparr>w_ready := False\<rparr> else x) (r_queue (sys_routers s ! g))\<rparr>) s else s)"
  obtain s2 out where s2: "acquire_turn g (w_query w) (w_ctxErr w) (Some (w_id w)) now s1 = (s2, out)" by fastforce
  have out: "out = Granted n" "sys_leases s' = sys_leases s2"
    using assms(1) s2 by (auto simp: Acquire_resume_def Let_def s1_def [symmetric] split: acquired.splits)
  have s1: "sys_leases s1 = sys_leases s" "r_cfg (sys_routers s1 ! g) = r_cfg (sys_routers s ! g)"
    using assms(2) by (simp_all add: s1_def)
  from turn_granted [OF s2 [unfolded out(1)]] show ?thesis by (simp add: s1 out(2))
qed

subsection \<open>The invariant of the loop\<close>

definition lease_id :: "Config \<Rightarrow> sys \<Rightarrow> nat \<Rightarrow> string" where
  "lease_id c s n = source_ID (lease_src c (sys_leases s ! n))"

definition tried_ids :: "Config \<Rightarrow> attempts \<Rightarrow> sys \<Rightarrow> string list" where
  "tried_ids c a s = map (lease_id c s \<circ> fst) (at_tried a)"

fun held :: "phase \<Rightarrow> nat list" where
  "held (Calling n) = [n]"
| "held (Returned (Some n)) = [n]"
| "held p = []"

definition attempt_ok :: "Config \<Rightarrow> nat \<Rightarrow> Query \<Rightarrow> attempts \<times> sys \<Rightarrow> bool" where
  "attempt_ok c g q x =
     (case x of (a, s) \<Rightarrow>
        reachable s \<and> g < length (sys_routers s) \<and> r_cfg (sys_routers s ! g) = c \<and>
        at_limit a = attemptLimit c q \<and> at_number a = length (at_tried a) \<and>
        int (length (at_tried a)) < max 1 (at_limit a) \<and>
        q_ExcludedSources (at_query a) = q_ExcludedSources q @ tried_ids c a s \<and>
        distinct (tried_ids c a s @ map (lease_id c s) (held (at_phase a))) \<and>
        (\<forall>(n, res) \<in> set (at_tried a). n < length (sys_leases s) \<and> l_once (sys_leases s ! n) \<and>
           safe_retry c (sys_leases s ! n) res) \<and>
        (\<forall>n \<in> set (held (at_phase a)). n < length (sys_leases s) \<and>
           (at_phase a = Calling n \<longrightarrow> \<not> l_once (sys_leases s ! n))))"

lemma lease_id_keeps: "keeps s s' \<Longrightarrow> n < length (sys_leases s) \<Longrightarrow> lease_id c s' n = lease_id c s n"
  by (simp add: keeps_def lease_id_def lease_src_def lease_keep_def)

lemma tried_ids_keeps:
  assumes "keeps s s'" "\<forall>(n, res) \<in> set (at_tried a). n < length (sys_leases s)"
  shows "tried_ids c a s' = tried_ids c a s"
  using assms lease_id_keeps [OF assms(1)] by (auto simp: tried_ids_def)

lemma safe_retry_keep: "lease_keep l l' \<Longrightarrow> safe_retry c l' res = safe_retry c l res"
  by (simp add: safe_retry_def lease_src_def lease_keep_def split: do_result.split)

text \<open>Steps of others, and the router's part of the own steps.\<close>

lemma attempt_ok_keeps:
  assumes ok: "attempt_ok c g q (a, s)" and k: "keeps s s'" and r: "reachable s'"
    and once: "\<And>n. at_phase a = Calling n \<Longrightarrow> l_once (sys_leases s' ! n) = l_once (sys_leases s ! n)"
  shows "attempt_ok c g q (a, s')"
proof -
  have tried: "\<forall>(n, res) \<in> set (at_tried a). n < length (sys_leases s) \<and> l_once (sys_leases s ! n) \<and>
      safe_retry c (sys_leases s ! n) res"
    and held: "\<forall>n \<in> set (held (at_phase a)). n < length (sys_leases s) \<and> (at_phase a = Calling n \<longrightarrow> \<not> l_once (sys_leases s ! n))"
    using ok unfolding attempt_ok_def by auto
  have ids: "tried_ids c a s' = tried_ids c a s" using tried by (intro tried_ids_keeps [OF k]) auto
  have hids: "map (lease_id c s') (held (at_phase a)) = map (lease_id c s) (held (at_phase a))"
    using held lease_id_keeps [OF k] by auto
  have "\<forall>(n, res) \<in> set (at_tried a). n < length (sys_leases s') \<and> l_once (sys_leases s' ! n) \<and>
      safe_retry c (sys_leases s' ! n) res"
  proof clarify
    fix n res assume "(n, res) \<in> set (at_tried a)"
    with tried have n: "n < length (sys_leases s)" "l_once (sys_leases s ! n)" "safe_retry c (sys_leases s ! n) res" by auto
    with k have lk: "lease_keep (sys_leases s ! n) (sys_leases s' ! n)" and len: "n < length (sys_leases s')"
      by (auto simp: keeps_def)
    have "l_once (sys_leases s' ! n)" using lk n(2) by (simp add: lease_keep_def)
    with len n(3) safe_retry_keep [OF lk]
    show "n < length (sys_leases s') \<and> l_once (sys_leases s' ! n) \<and> safe_retry c (sys_leases s' ! n) res" by blast
  qed
  moreover have "\<forall>n \<in> set (held (at_phase a)). n < length (sys_leases s') \<and> (at_phase a = Calling n \<longrightarrow> \<not> l_once (sys_leases s' ! n))"
  proof
    fix n assume "n \<in> set (held (at_phase a))"
    with held have n: "n < length (sys_leases s)" "at_phase a = Calling n \<longrightarrow> \<not> l_once (sys_leases s ! n)" by auto
    with k have "n < length (sys_leases s')" by (auto simp: keeps_def)
    with n once show "n < length (sys_leases s') \<and> (at_phase a = Calling n \<longrightarrow> \<not> l_once (sys_leases s' ! n))" by blast
  qed
  moreover have "g < length (sys_routers s')" "r_cfg (sys_routers s' ! g) = c"
    using ok k by (auto simp: attempt_ok_def keeps_def)
  ultimately show ?thesis
    using ok r unfolding attempt_ok_def prod.case ids hids by blast
qed

lemma attempt_ok_phase:
  assumes "attempt_ok c g q (a, s)" "held p = [] \<or> (held p = held (at_phase a) \<and> (\<forall>n. p \<noteq> Calling n))"
  shows "attempt_ok c g q (a\<lparr>at_phase := p\<rparr>, s)"
proof -
  have "tried_ids c (a\<lparr>at_phase := p\<rparr>) s = tried_ids c a s" by (simp add: tried_ids_def)
  moreover have "p \<noteq> Calling n" if "held p = []" for n using that by auto
  ultimately show ?thesis using assms unfolding attempt_ok_def by auto
qed

lemma attempt_ok_grant:
  assumes ok: "attempt_ok c g q (a, s)" and "held (at_phase a) = []" "n < length (sys_leases s)" "\<not> l_once (sys_leases s ! n)"
    "lease_id c s n \<notin> set (q_ExcludedSources (at_query a))"
  shows "attempt_ok c g q (a\<lparr>at_phase := Calling n\<rparr>, s)"
proof -
  have ids: "tried_ids c (a\<lparr>at_phase := Calling n\<rparr>) s = tried_ids c a s" by (simp add: tried_ids_def)
  have "q_ExcludedSources (at_query a) = q_ExcludedSources q @ tried_ids c a s" "distinct (tried_ids c a s)"
    using ok assms(2) unfolding attempt_ok_def by auto
  with assms(5) have "distinct (tried_ids c a s @ map (lease_id c s) (held (Calling n)))" by simp
  with ok assms(3,4) show ?thesis unfolding attempt_ok_def prod.case ids by auto
qed

lemma Release_once: "n < length (sys_leases s) \<Longrightarrow> l_once (sys_leases (Release n status ra now s) ! n)"
  by (simp add: Release_def Let_def split: prod.split)

lemma attempt_ok_acquired:
  assumes ok: "attempt_ok c g q (a, s)" and h: "held (at_phase a) = []" and st: "step s (tick now s')"
    and gr: "\<And>n. out = Granted n \<Longrightarrow> n = length (sys_leases s) \<and>
      (\<exists>l. sys_leases s' = sys_leases s @ [l] \<and> \<not> l_once l \<and>
         source_ID (lease_src (r_cfg (sys_routers s ! g)) l) \<notin> set (q_ExcludedSources (at_query a)))"
  shows "attempt_ok c g q (a\<lparr>at_phase := acquired_phase out\<rparr>, tick now s')"
proof -
  have r: "reachable s" and c: "r_cfg (sys_routers s ! g) = c" using ok by (auto simp: attempt_ok_def)
  have "at_phase a \<noteq> Calling n" for n using h by auto
  then have ok': "attempt_ok c g q (a, tick now s')"
    using attempt_ok_keeps [OF ok step_keeps [OF r st] reachable.step [OF r st]] by blast
  show ?thesis
  proof (cases out)
    case (Granted n)
    from gr [OF this] obtain l where "n = length (sys_leases s)" "sys_leases s' = sys_leases s @ [l]" "\<not> l_once l"
      "source_ID (lease_src c l) \<notin> set (q_ExcludedSources (at_query a))" by (auto simp: c)
    then show ?thesis using attempt_ok_grant [OF ok' h, of n] Granted by (simp add: lease_id_def)
  qed (use attempt_ok_phase [OF ok'] in simp_all)
qed

lemma attempt_ok_retried:
  assumes ok: "attempt_ok c g q (a, s)" and ph: "at_phase a = Calling n"
    and safe: "safe_retry c (sys_leases s ! n) res" and lim: "int (at_number a) + 1 < at_limit a" and now: "sys_now s \<le> now"
  shows "attempt_ok c g q (retried c n (sys_leases s ! n) res a, tick now (Release n status ra now s))"
proof -
  let ?s = "tick now (Release n status ra now s)" and ?a = "retried c n (sys_leases s ! n) res a"
  have r: "reachable s" and n: "n < length (sys_leases s)" using ok ph by (auto simp: attempt_ok_def)
  have st: "step s ?s" by (rule step.release [OF n now])
  note k = step_keeps [OF r st]
  have "attempt_ok c g q (a\<lparr>at_phase := Returned (Some n)\<rparr>, s)"
    using attempt_ok_phase [OF ok, of "Returned (Some n)"] ph by simp
  then have ok': "attempt_ok c g q (a\<lparr>at_phase := Returned (Some n)\<rparr>, ?s)" (is "attempt_ok c g q (?b, ?s)")
    by (rule attempt_ok_keeps [OF _ k reachable.step [OF r st]]) simp
  have ids: "tried_ids c ?a ?s = tried_ids c ?b ?s @ [lease_id c ?s n]" by (simp add: tried_ids_def retried_def)
  have id: "source_ID (lease_src c (sys_leases s ! n)) = lease_id c ?s n"
    using lease_id_keeps [OF k n, of c] by (simp add: lease_id_def)
  have once: "l_once (sys_leases ?s ! n)" using Release_once [OF n] by simp
  have safe': "safe_retry c (sys_leases ?s ! n) res"
    using safe safe_retry_keep [of "sys_leases s ! n" "sys_leases ?s ! n"] k n by (auto simp: keeps_def)
  show ?thesis
    using ok' lim once safe' id n unfolding attempt_ok_def prod.case ids
    by (auto simp: retried_def next_query_def Let_def)
qed

lemma attempt_ok_step:
  assumes "attempt_step c g x y" "attempt_ok c g q x"
  shows "attempt_ok c g q y"
  using assms
proof (cases rule: attempt_step.cases)
  case (select a s now e s' out)
  have "step s (tick now s')"
    using step.acquire [OF select(4,5), of "at_query a" e] select(6) by simp
  then show ?thesis
    using attempt_ok_acquired [of c g q a s now s' out] turn_granted [of g "at_query a" e None now s s'] assms(2) select
    by (simp add: Acquire_start_def)
next
  case (wake a i s now w consume s' out)
  have "step s (tick now s')" using step.resume [OF wake(4,6,5), of consume] wake(9) by simp
  moreover have "n = length (sys_leases s) \<and>
      (\<exists>l. sys_leases s' = sys_leases s @ [l] \<and> \<not> l_once l \<and>
         source_ID (lease_src (r_cfg (sys_routers s ! g)) l) \<notin> set (q_ExcludedSources (at_query a)))"
    if "out = Granted n" for n
    using resume_granted [of g w consume now s s' n] wake that by simp
  ultimately show ?thesis
    using attempt_ok_acquired [of c g q a s now s' out] assms(2) wake by simp
next
  case (finish a n s res ctxErr)
  then show ?thesis using attempt_ok_phase [of c g q a s "Returned (Some n)"] assms(2) by simp
next
  case (retry a n s res now)
  then show ?thesis using attempt_ok_retried [of c g q a s n res now] assms(2) by simp
next
  case (others s s' a)
  have "reachable s" using assms(2) others by (simp add: attempt_ok_def)
  then show ?thesis
    using attempt_ok_keeps [of c g q a s s'] step_keeps reachable.step assms(2) others by simp
qed

lemma attempting_ok: "attempting c g q x \<Longrightarrow> attempt_ok c g q x"
proof (induction rule: attempting.induct)
  case (start s)
  then show ?case by (simp add: attempt_ok_def start_attempts_def tried_ids_def)
qed (rule attempt_ok_step)

subsection \<open>The property of the loop\<close>

text \<open>C27. However the requests of a process interleave, a request is sent to at most \<open>attemptLimit\<close> sources,
  once to each: every attempt is on a source it has not tried. Before another source is selected the
  lease of the last one is given back, so that a request never holds two slots, and a source is given
  up only after a failure that happened before it generated anything: a refusal with status 401, 403
  or 429 of a native API, or a transport error before the request was submitted.\<close>

theorem attempts_bounded_and_distinct:
  assumes "attempting c g q (a, s)"
  shows "int (length (at_tried a) + length (held (at_phase a))) \<le> max 1 (attemptLimit c q) \<and>
    distinct (map (lease_id c s) (map fst (at_tried a) @ held (at_phase a))) \<and>
    (\<forall>(n, res) \<in> set (at_tried a). l_once (sys_leases s ! n) \<and>
       (res = DoTransport True \<or>
        (\<exists>status cooldown. res = DoResponse status cooldown \<and> status \<in> {401, 403, 429} \<and>
           source_Adapter (lease_src c (sys_leases s ! n)) \<in> {''openai'', ''anthropic'', ''gemini''})))"
proof -
  note ok = attempting_ok [OF assms]
  have len: "length (held p) \<le> 1" for p by (cases p rule: held.cases) simp_all
  have "int (length (at_tried a)) < max 1 (attemptLimit c q)" using ok by (auto simp: attempt_ok_def)
  with len [of "at_phase a"] have 1: "int (length (at_tried a) + length (held (at_phase a))) \<le> max 1 (attemptLimit c q)"
    by linarith
  have "distinct (tried_ids c a s @ map (lease_id c s) (held (at_phase a)))"
    using ok unfolding attempt_ok_def prod.case by blast
  then have 2: "distinct (map (lease_id c s) (map fst (at_tried a) @ held (at_phase a)))"
    by (simp only: tried_ids_def map_append map_map)
  have "l_once (sys_leases s ! n) \<and>
       (res = DoTransport True \<or>
        (\<exists>status cooldown. res = DoResponse status cooldown \<and> status \<in> {401, 403, 429} \<and>
           source_Adapter (lease_src c (sys_leases s ! n)) \<in> {''openai'', ''anthropic'', ''gemini''}))"
    if "(n, res) \<in> set (at_tried a)" for n res
  proof -
    have "l_once (sys_leases s ! n)" "safe_retry c (sys_leases s ! n) res"
      using ok that unfolding attempt_ok_def prod.case by auto
    then show ?thesis
      by (cases res) (auto simp: safe_retry_def rejectedBeforeGeneration_def)
  qed
  with 1 2 show ?thesis by blast
qed

text \<open>A request whose first attempt failed before submission and whose second one is running.\<close>

definition sample_tried :: "attempts \<times> sys" where
  "sample_tried =
     (let s1 = tick 5 (fst (Acquire_start 0 sample_query None 5 sample_sys));
          a1 = (start_attempts sample_config sample_query)\<lparr>at_phase := Calling 0\<rparr>
      in (retried sample_config 0 (sys_leases s1 ! 0) (DoTransport True) a1, tick 6 (Release 0 502 0 6 s1)))"

lemma sample_attempting: "attempting sample_config 0 sample_query sample_tried"
proof -
  have r: "0 < length (sys_routers sample_sys)" "r_cfg (sys_routers sample_sys ! 0) = sample_config" "sys_now sample_sys \<le> 5"
    by code_simp+
  have ph: "at_phase (start_attempts sample_config sample_query) = Selecting"
    "at_query (start_attempts sample_config sample_query) = sample_query" by (simp_all add: start_attempts_def)
  have sel: "Acquire_start 0 (at_query (start_attempts sample_config sample_query)) None 5 sample_sys =
    (fst (Acquire_start 0 sample_query None 5 sample_sys), Granted 0)"
    unfolding ph(2) by (rule sample_first_grant)
  note s1 = attempting.continue [OF attempting.start [OF sample_reachable(1) r(1,2)]
      attempt_step.select [OF ph(1) r(1,3) sel]]
  have lim: "1 < attemptLimit sample_config sample_query" by code_simp
  show ?thesis
    unfolding sample_tried_def Let_def
    using attempting.continue [OF s1 attempt_step.retry [where n = 0 and res = "DoTransport True" and now = 6]] lim
    by (simp add: safe_retry_def start_attempts_def release_status_def)
qed

theorem attempts_bounded_and_distinct_witness:
  "attempting sample_config 0 sample_query (fst sample_tried, snd sample_tried) \<and>
   at_tried (fst sample_tried) \<noteq> [] \<and>
   int (length (at_tried (fst sample_tried)) + length (held (at_phase (fst sample_tried)))) \<le>
     max 1 (attemptLimit sample_config sample_query)"
proof -
  have a: "attempting sample_config 0 sample_query (fst sample_tried, snd sample_tried)"
    using sample_attempting by simp
  have "at_tried (fst sample_tried) \<noteq> []" by (simp add: sample_tried_def Let_def retried_def)
  with a attempts_bounded_and_distinct [OF a] show ?thesis by blast
qed

end
