(* ===== verification/SSE.thy ===== *)
theory SSE
  imports GoJson
begin

section \<open>Server-sent events\<close>

text \<open>
  \<open>internal/protocol/sse.go\<close>: the reader that cuts the bytes of a response into events, and the
  extraction of the data of an event. The reader sits on a \<open>bufio.Reader\<close> with a buffer of 8192 bytes,
  whose \<open>ReadSlice\<close> hands out a longer line in pieces. The state of the reader is the rest of the
  input; \<open>eof\<close> says whether the input ends regularly or with an error of the transport.
\<close>

definition LF :: char where "LF = CHR 0x0A"
definition CR :: char where "CR = CHR 0x0D"

definition buffer_size :: nat where "buffer_size = 8192"

subsection \<open>ReadSlice\<close>

datatype read_error = NoError | ErrBufferFull | EOF | TransportError

text \<open>
  The bytes up to and including the next newline, at most as many as the buffer holds: the bytes,
  whether a newline was found, and the rest.
\<close>

fun read_line :: "nat \<Rightarrow> string \<Rightarrow> string \<times> bool \<times> string" where
  "read_line n [] = ([], False, [])"
| "read_line n (c # s) =
     (if buffer_size \<le> n then ([], False, c # s)
      else if c = LF then ([c], True, s)
      else (case read_line (Suc n) s of (p, found, rest) \<Rightarrow> (c # p, found, rest)))"

definition ReadSlice :: "bool \<Rightarrow> string \<Rightarrow> string \<times> read_error \<times> string" where
  "ReadSlice eof s =
     (case read_line 0 s of (p, found, rest) \<Rightarrow>
        if found then (p, NoError, rest)
        else if length p = buffer_size then (p, ErrBufferFull, rest)
        else (p, if eof then EOF else TransportError, rest))"

lemma read_line_split: "read_line n s = (p, found, rest) \<Longrightarrow> s = p @ rest"
  by (induction n s arbitrary: p rule: read_line.induct) (auto split: if_splits prod.splits)

lemma read_line_found:
  "read_line n s = (p, True, rest) \<Longrightarrow> \<exists>q. p = q @ [LF] \<and> LF \<notin> set q"
  by (induction n s arbitrary: p rule: read_line.induct) (auto split: if_splits prod.splits)

lemma read_line_not_found:
  "read_line n s = (p, False, rest) \<Longrightarrow> n \<le> buffer_size \<Longrightarrow>
   LF \<notin> set p \<and> n + length p \<le> buffer_size \<and> (n + length p < buffer_size \<longrightarrow> rest = [])"
  by (induction n s arbitrary: p rule: read_line.induct) (auto split: if_splits prod.splits)

text \<open>The four outcomes of a read.\<close>

lemma ReadSlice_cases:
  assumes "ReadSlice eof s = (line, e, rest)"
  obtains (line) q where "e = NoError" "line = q @ [LF]" "LF \<notin> set q" "s = line @ rest"
  | (part) "e = ErrBufferFull" "LF \<notin> set line" "line \<noteq> []" "length line = buffer_size" "s = line @ rest"
  | (final) "e = (if eof then EOF else TransportError)" "LF \<notin> set line" "rest = []" "s = line"
proof -
  obtain p found r where rl: "read_line 0 s = (p, found, r)" by (cases "read_line 0 s")
  note sp = read_line_split [OF rl]
  show thesis
  proof (cases found)
    case True
    with rl read_line_found [of 0 s p r] assms sp show ?thesis by (auto simp: ReadSlice_def intro: line)
  next
    case False
    with rl read_line_not_found [of 0 s p r] have nf: "LF \<notin> set p" "length p < buffer_size \<longrightarrow> r = []" by simp_all
    show ?thesis
    proof (cases "length p = buffer_size")
      case True
      with False rl assms sp nf show ?thesis
        by (intro part) (auto simp: ReadSlice_def buffer_size_def)
    next
      case neq: False
      with rl \<open>\<not> found\<close> read_line_not_found [of 0 s p r] have "r = []" by simp
      with False neq rl assms sp nf show ?thesis by (intro final) (auto simp: ReadSlice_def)
    qed
  qed
qed

lemma ReadSlice_shorter0:
  assumes "ReadSlice eof s = (line, e, rest)" "e = ErrBufferFull \<or> e = NoError"
  shows "length rest < length s"
  using assms(1) by (cases rule: ReadSlice_cases) (use assms(2) in \<open>auto simp: buffer_size_def split: if_splits\<close>)

lemma Cut_shorter: "(a, b, found) = Cut sep s \<Longrightarrow> s \<noteq> [] \<Longrightarrow> length b < length s"
  using Cut_append [of sep s a b found] Cut_not_found [of sep s a b] by (cases found) auto

lemma ReadSlice_shorter:
  "(line, e, rest) = ReadSlice eof s \<Longrightarrow> e = ErrBufferFull \<or> e = NoError \<Longrightarrow> length rest < length s"
  "(line, ErrBufferFull, rest) = ReadSlice eof s \<Longrightarrow> length rest < length s"
  "(line, NoError, rest) = ReadSlice eof s \<Longrightarrow> length rest < length s"
  by (metis ReadSlice_shorter0)+

subsection \<open>Next\<close>

datatype next_result = Frame string | NextEOF | NextError string

text \<open>
  The loop of \<open>Next\<close>: the frame so far and the bytes of the current line so far. Every read that does
  not end the loop consumes at least one byte.
\<close>

function next_loop :: "int \<Rightarrow> bool \<Rightarrow> string \<Rightarrow> nat \<Rightarrow> string \<Rightarrow> next_result \<times> string" where
  "next_loop limit eof frame lineBytes s =
     (case ReadSlice eof s of (line, e, rest) \<Rightarrow>
        if int (length frame + length line) > limit then (NextError ''SSE event exceeds byte limit'', rest)
        else
          (let frame' = frame @ line; lineBytes' = lineBytes + length line in
           if e = ErrBufferFull then next_loop limit eof frame' lineBytes' rest
           else if e \<noteq> NoError then
             (if e = EOF \<and> frame' = [] then (NextEOF, rest) else (NextError ''truncated SSE event'', rest))
           else if lineBytes' = 1 \<or> (lineBytes' = 2 \<and> length line = 2 \<and> hd line = CR)
           then (Frame frame', rest)
           else next_loop limit eof frame' 0 rest))"
  by pat_completeness auto
termination
  by (relation "measure (\<lambda>(limit, eof, frame, lineBytes, s). length s)") (auto dest: ReadSlice_shorter)

declare next_loop.simps [simp del]

definition sse_Next :: "int \<Rightarrow> bool \<Rightarrow> string \<Rightarrow> next_result \<times> string" where
  "sse_Next limit eof s = next_loop limit eof [] 0 s"

subsection \<open>SSEData\<close>

text \<open>\<open>None\<close> is the nil slice: the event has no data field.\<close>

function SSEData_loop :: "string option \<Rightarrow> string \<Rightarrow> string option" where
  "SSEData_loop data frame =
     (if frame = [] then data
      else
        (case Cut LF frame of (line0, rest, found) \<Rightarrow>
           (let line = TrimSuffix line0 [CR] in
            if HasPrefix line ''data:'' then
              (let v = TrimPrefix (drop 5 line) '' '' in
               SSEData_loop (case data of None \<Rightarrow> Some v | Some d \<Rightarrow> Some (d @ [LF] @ v)) rest)
            else SSEData_loop data rest)))"
  by pat_completeness auto
termination
  by (relation "measure (\<lambda>(data, frame). length frame)") (auto dest: Cut_shorter)

declare SSEData_loop.simps [simp del]

definition SSEData :: "string \<Rightarrow> string option" where
  "SSEData frame = SSEData_loop None frame"


subsection \<open>Events, without a buffer\<close>

text \<open>
  The specification: an event is the shortest sequence of complete lines that ends in an empty line,
  one that is a newline alone or after a carriage return.
\<close>

definition blank :: "string \<Rightarrow> bool" where
  "blank line = (line = [LF] \<or> line = [CR, LF])"

fun first_line :: "string \<Rightarrow> (string \<times> string) option" where
  "first_line [] = None"
| "first_line (c # s) =
     (if c = LF then Some ([c], s) else map_option (\<lambda>(l, r). (c # l, r)) (first_line s))"

lemma first_line_split: "first_line s = Some (l, r) \<Longrightarrow> s = l @ r \<and> l \<noteq> []"
  by (induction s arbitrary: l) (auto split: if_splits)

lemma first_line_None: "first_line s = None \<longleftrightarrow> LF \<notin> set s"
  by (induction s) auto

lemma first_line_append: "LF \<notin> set q \<Longrightarrow> first_line (q @ LF # r) = Some (q @ [LF], r)"
  by (induction q) auto

lemma first_line_long: "LF \<notin> set q \<Longrightarrow> first_line (q @ s) = Some (l, r) \<Longrightarrow> length q < length l"
  by (induction q arbitrary: l) (auto dest: first_line_split)

function first_event :: "string \<Rightarrow> (string \<times> string) option" where
  "first_event s =
     (case first_line s of
        None \<Rightarrow> None
      | Some (l, r) \<Rightarrow>
          if blank l then Some (l, r) else map_option (\<lambda>(f, r'). (l @ f, r')) (first_event r))"
  by pat_completeness auto
termination
  by (relation "measure length") (auto dest!: first_line_split)

declare first_event.simps [simp del]

lemma first_event_split: "first_event s = Some (f, r) \<Longrightarrow> s = f @ r \<and> f \<noteq> []"
proof (induction s arbitrary: f rule: first_event.induct)
  case (1 s)
  then show ?case
    by (subst (asm) (2) first_event.simps)
      (auto split: option.splits if_splits prod.splits dest!: first_line_split)
qed

text \<open>
  Reading a line in pieces: \<open>p\<close> is the part of the current line that was already read, \<open>frame\<close> holds
  it at its end.
\<close>

definition next_spec :: "int \<Rightarrow> bool \<Rightarrow> string \<Rightarrow> string \<Rightarrow> next_result \<times> string \<Rightarrow> bool" where
  "next_spec limit eof base full out =
     (case first_event full of
        Some (f, r) \<Rightarrow>
          if int (length base + length f) \<le> limit then out = (Frame (base @ f), r)
          else fst out = NextError ''SSE event exceeds byte limit''
      | None \<Rightarrow>
          if base @ full = [] \<and> eof \<and> 0 \<le> limit then out = (NextEOF, [])
          else fst out \<in> {NextError ''SSE event exceeds byte limit'', NextError ''truncated SSE event''})"

lemma first_event_line:
  "first_line s = Some (l, r) \<Longrightarrow>
   first_event s = (if blank l then Some (l, r) else map_option (\<lambda>(f, r'). (l @ f, r')) (first_event r))"
  by (simp add: first_event.simps [of s])

lemma next_spec_over:
  assumes "first_line full = None \<longrightarrow> full \<noteq> [] \<or> limit < 0"
    "\<And>l r. first_line full = Some (l, r) \<Longrightarrow> n \<le> length l" "int (length base + n) > limit"
  shows "next_spec limit eof base full (NextError ''SSE event exceeds byte limit'', rest)"
proof (cases "first_line full")
  case None
  then show ?thesis using assms(1) by (auto simp: next_spec_def first_event.simps [of full])
next
  case (Some lr)
  obtain l r where lr: "lr = (l, r)" by (cases lr)
  have full: "full \<noteq> []" using Some by auto
  have "int (length base + length f) > limit" if "first_event full = Some (f, r')" for f r'
  proof -
    have "length l \<le> length f" using that first_event_line [OF Some [unfolded lr]] by (auto split: if_splits)
    with assms(2) [of l r] Some lr assms(3) show ?thesis by simp
  qed
  then show ?thesis using full by (auto simp: next_spec_def split: option.split)
qed

lemma next_loop_event:
  assumes "LF \<notin> set p" "p = [] \<or> 3 \<le> length p"
  shows "next_spec limit eof base (p @ s) (next_loop limit eof (base @ p) (length p) s)"
  using assms
proof (induction "length s" arbitrary: base p s rule: less_induct)
  case less
  obtain line e rest where rs: "ReadSlice eof s = (line, e, rest)" by (cases "ReadSlice eof s")
  note loop = next_loop.simps [of limit eof "base @ p" "length p" s, unfolded rs]
  from rs show ?case
  proof (cases rule: ReadSlice_cases)
    case (line q)
    let ?l = "p @ q @ [LF]"
    have fl: "first_line (p @ s) = Some (?l, rest)"
      using first_line_append [of "p @ q" rest] less.prems(1) line by simp
    have short: "length rest < length s" using line by simp
    have bl: "(length p + length line = 1 \<or> (length p + length line = 2 \<and> length line = 2 \<and> hd line = CR)) = blank ?l"
      using less.prems(2) line(2) by (cases p; cases q) (auto simp: blank_def)
    show ?thesis
    proof (cases "int (length (base @ p) + length line) > limit")
      case True
      then have "next_loop limit eof (base @ p) (length p) s = (NextError ''SSE event exceeds byte limit'', rest)"
        using loop by simp
      with next_spec_over [where full = "p @ s" and n = "length ?l" and limit = limit and base = base] fl True line(2) show ?thesis by simp
    next
      case fits: False
      show ?thesis
      proof (cases "blank ?l")
        case True
        with loop fits line bl first_event_line [OF fl] show ?thesis by (simp add: next_spec_def Let_def)
      next
        case False
        have "next_spec limit eof (base @ ?l) ([] @ rest) (next_loop limit eof ((base @ ?l) @ []) (length ([] :: string)) rest)"
          by (rule less.hyps [OF short]) simp_all
        with False loop fits line bl first_event_line [OF fl] show ?thesis
          by (auto simp: next_spec_def Let_def split: option.splits if_splits)
      qed
    qed
  next
    case part
    have no: "LF \<notin> set (p @ line)" using less.prems(1) part by simp
    have long: "3 \<le> length (p @ line)" using part by (simp add: buffer_size_def)
    have short: "length rest < length s" using part by (simp add: buffer_size_def)
    show ?thesis
    proof (cases "int (length (base @ p) + length line) > limit")
      case True
      have "n \<le> length l" if "n = length (p @ line)" "first_line (p @ s) = Some (l, r)" for n l r
        using that no part first_line_long [of "p @ line" rest l r] by simp
      with True loop part next_spec_over [where full = "p @ s" and n = "length (p @ line)" and limit = limit and base = base] show ?thesis
        by auto
    next
      case False
      have "next_spec limit eof base ((p @ line) @ rest) (next_loop limit eof (base @ (p @ line)) (length (p @ line)) rest)"
        by (rule less.hyps [OF short no]) (use long in simp)
      with False loop part show ?thesis by (simp add: Let_def)
    qed
  next
    case final
    have "first_event (p @ s) = None"
      using less.prems(1) final first_line_None [of "p @ line"]
      by (simp add: first_event.simps [of "p @ line"])
    with loop final show ?thesis by (auto simp: next_spec_def Let_def)
  qed
qed


lemma sse_Next_Frame:
  assumes "sse_Next limit eof s = (Frame f, rest)"
  shows "first_event s = Some (f, rest)" "s = f @ rest" "f \<noteq> []" "int (length f) \<le> limit"
proof -
  have "first_event s = Some (f, rest) \<and> int (length f) \<le> limit"
    using next_loop_event [of "[]" limit eof "[]" s] assms
    by (auto simp: next_spec_def sse_Next_def split: option.splits if_splits)
  then show "first_event s = Some (f, rest)" "s = f @ rest" "f \<noteq> []" "int (length f) \<le> limit"
    using first_event_split [of s f rest] by auto
qed

lemma sse_Next_EOF:
  assumes "sse_Next limit eof s = (NextEOF, rest)"
  shows "s = []"
  using next_loop_event [of "[]" limit eof "[]" s] assms
  by (auto simp: next_spec_def sse_Next_def split: option.splits if_splits)


subsection \<open>Data fields, line by line\<close>

fun join_lines :: "string list \<Rightarrow> string" where
  "join_lines [] = []"
| "join_lines [v] = v"
| "join_lines (v # vs) = v @ [LF] @ join_lines vs"

definition data_field :: "string \<Rightarrow> string option" where
  "data_field line0 =
     (let line = TrimSuffix line0 [CR] in
      if HasPrefix line ''data:'' then Some (TrimPrefix (drop 5 line) '' '') else None)"

definition data_values :: "string \<Rightarrow> string list" where
  "data_values frame = List.map_filter data_field (Split LF frame)"

definition extend_data :: "string option \<Rightarrow> string list \<Rightarrow> string option" where
  "extend_data data vs =
     (case data of
        None \<Rightarrow> if vs = [] then None else Some (join_lines vs)
      | Some d \<Rightarrow> Some (join_lines (d # vs)))"

lemma Split_Cut:
  "Split sep s = (case Cut sep s of (a, b, found) \<Rightarrow> if found then a # Split sep b else [a])"
proof (induction s)
  case (Cons c s)
  obtain a b found where "Cut sep s = (a, b, found)" by (cases "Cut sep s")
  with Cons show ?case by simp
qed simp

lemma join_lines_Cons2: "join_lines ((d @ [LF] @ v) # vs) = d @ [LF] @ join_lines (v # vs)"
  by (cases vs) simp_all

lemma SSEData_loop_eq: "SSEData_loop data frame = extend_data data (data_values frame)"
proof (induction data frame rule: SSEData_loop.induct)
  case (1 data frame)
  show ?case
  proof (cases "frame = []")
    case True
    have "data_field [] = None" by (simp add: data_field_def TrimSuffix_def HasSuffix_def HasPrefix_def)
    with True show ?thesis
      by (simp add: SSEData_loop.simps data_values_def extend_data_def map_filter_simps split: option.split)
  next
    case False
    obtain line rest found where cut: "Cut LF frame = (line, rest, found)" by (cases "Cut LF frame")
    have empty: "data_values [] = []"
      by (simp add: data_values_def map_filter_simps data_field_def TrimSuffix_def HasSuffix_def HasPrefix_def)
    have vals: "data_values frame = (case data_field line of None \<Rightarrow> [] | Some v \<Rightarrow> [v]) @ data_values rest"
      using Split_Cut [of LF frame] cut Cut_not_found [of LF frame line rest] empty
      by (cases found) (auto simp: data_values_def map_filter_simps split: option.split)
    let ?line = "TrimSuffix line [CR]"
    show ?thesis
    proof (cases "HasPrefix ?line ''data:''")
      case True
      let ?v = "TrimPrefix (drop 5 ?line) '' ''"
      have "SSEData_loop data frame = SSEData_loop (case data of None \<Rightarrow> Some ?v | Some d \<Rightarrow> Some (d @ [LF] @ ?v)) rest"
        using False cut True by (simp add: SSEData_loop.simps [of data frame] Let_def)
      also have "\<dots> = extend_data (case data of None \<Rightarrow> Some ?v | Some d \<Rightarrow> Some (d @ [LF] @ ?v)) (data_values rest)"
        using 1(1) False cut True by simp
      also have "\<dots> = extend_data data (data_values frame)"
        using vals True join_lines_Cons2 [of _ ?v "data_values rest"]
        by (simp add: extend_data_def data_field_def split: option.split)
      finally show ?thesis .
    next
      case no: False
      have "SSEData_loop data frame = SSEData_loop data rest"
        using False cut no by (simp add: SSEData_loop.simps [of data frame] Let_def)
      with 1(2) False cut no vals show ?thesis by (simp add: data_field_def)
    qed
  qed
qed

subsection \<open>The properties of the event reader\<close>

text \<open>C22. The reader returns exactly the events of the byte stream, however its lines fall into the 8192-byte
  pieces of the buffer: \<open>Next\<close> returns the first event, up to and including its empty line, and
  leaves the bytes behind it, whenever the event fits the limit, and an error when it does not; an
  input that ends without an event gives the regular end only when nothing was left, and an error
  otherwise.\<close>

theorem sse_reader_exact:
  "case first_event s of
     Some (f, r) \<Rightarrow> s = f @ r \<and>
       (if int (length f) \<le> limit then sse_Next limit eof s = (Frame f, r)
        else fst (sse_Next limit eof s) = NextError ''SSE event exceeds byte limit'')
   | None \<Rightarrow>
       (if s = [] \<and> eof \<and> 0 \<le> limit then sse_Next limit eof s = (NextEOF, [])
        else fst (sse_Next limit eof s) \<in> {NextError ''SSE event exceeds byte limit'', NextError ''truncated SSE event''})"
  using next_loop_event [of "[]" limit eof "[]" s] first_event_split [of s]
  by (auto simp: next_spec_def sse_Next_def split: option.splits)

text \<open>\<open>SSEData\<close> is the concatenation that the event-stream format prescribes: the values of the \<open>data\<close>
  lines, each without its carriage return and one leading space, joined by newlines, and nil exactly
  when there is no such line.\<close>

lemma sse_data_joins_lines:
  "SSEData frame = (if data_values frame = [] then None else Some (join_lines (data_values frame)))"
  by (simp add: SSEData_def SSEData_loop_eq extend_data_def)

end
