(* ===== verification/Observer.thy ===== *)
theory Observer
  imports SSE ExecutionResult "HOL-Library.AList"
begin

section \<open>The completion observer\<close>

text \<open>
  \<open>CompletionObserver\<close> of \<open>internal/protocol/execution.go\<close>: it looks at every event of a streamed
  answer and keeps whether output was seen, whether the answer is complete, the usage the upstream
  declared, and the first kind of failure. The structs the code decodes into are records with one
  decoder each; a \<open>json.RawMessage\<close> is the value its bytes hold, \<open>None\<close> when the member is absent.
\<close>

record CompletionObserver =
  co_InputTokens :: int
  co_OutputTokens :: int
  co_TotalTokens :: int
  co_UsageSeen :: bool
  co_Protocol :: string
  co_Complete :: bool
  co_Terminal :: bool
  co_SawOutput :: bool
  co_Error :: string
  co_choices :: "(int \<times> bool) list"
  co_inputSeen :: bool
  co_outputSeen :: bool
  co_totalSeen :: bool

definition new_observer :: "string \<Rightarrow> CompletionObserver" where
  "new_observer proto = \<lparr>co_InputTokens = 0, co_OutputTokens = 0, co_TotalTokens = 0,
     co_UsageSeen = False, co_Protocol = proto, co_Complete = False, co_Terminal = False,
     co_SawOutput = False, co_Error = '''', co_choices = [], co_inputSeen = False,
     co_outputSeen = False, co_totalSeen = False\<rparr>"

subsection \<open>The decoded event\<close>

record chat_delta =
  cd_Content :: string
  cd_Refusal :: string
  cd_ToolCalls :: "json option slice"
  cd_FunctionCall :: "json option"

record chat_choice =
  cc_Index :: int
  cc_FinishReason :: "string option"
  cc_Delta :: chat_delta

record gemini_part =
  gp_Text :: string
  gp_FunctionCall :: "json option"

record gemini_content =
  gc_Parts :: "gemini_part slice"

record gemini_candidate =
  gd_Index :: int
  gd_FinishReason :: string
  gd_Content :: gemini_content

record prompt_feedback =
  pf_BlockReason :: string

record stream_event =
  ev_Type :: string
  ev_Error :: "json option"
  ev_Delta :: "json option"
  ev_Choices :: "chat_choice slice"
  ev_Candidates :: "gemini_candidate slice"
  ev_PromptFeedback :: prompt_feedback

text \<open>A decoder of one field of a struct, from the decoder of its type.\<close>

definition field :: "('r \<Rightarrow> 'a) \<Rightarrow> (('a \<Rightarrow> 'a) \<Rightarrow> 'r \<Rightarrow> 'r) \<Rightarrow> 'a decoder \<Rightarrow> 'r decoder" where
  "field get upd f r v = map_option (\<lambda>x. upd (\<lambda>_. x) r) (f (get r) v)"

definition zero_chat_delta :: chat_delta where
  "zero_chat_delta = \<lparr>cd_Content = '''', cd_Refusal = '''', cd_ToolCalls = ([], 0), cd_FunctionCall = None\<rparr>"

definition dec_chat_delta :: "chat_delta decoder" where
  "dec_chat_delta = dec_struct
     [(''content'', field cd_Content cd_Content_update dec_string),
      (''refusal'', field cd_Refusal cd_Refusal_update dec_string),
      (''tool_calls'', field cd_ToolCalls cd_ToolCalls_update (dec_slice dec_raw None)),
      (''function_call'', field cd_FunctionCall cd_FunctionCall_update dec_raw)]"

definition zero_chat_choice :: chat_choice where
  "zero_chat_choice = \<lparr>cc_Index = 0, cc_FinishReason = None, cc_Delta = zero_chat_delta\<rparr>"

definition dec_chat_choice :: "chat_choice decoder" where
  "dec_chat_choice = dec_struct
     [(''index'', field cc_Index cc_Index_update dec_int),
      (''finish_reason'', field cc_FinishReason cc_FinishReason_update dec_string_ptr),
      (''delta'', field cc_Delta cc_Delta_update dec_chat_delta)]"

definition zero_gemini_part :: gemini_part where
  "zero_gemini_part = \<lparr>gp_Text = '''', gp_FunctionCall = None\<rparr>"

definition dec_gemini_part :: "gemini_part decoder" where
  "dec_gemini_part = dec_struct
     [(''text'', field gp_Text gp_Text_update dec_string),
      (''functionCall'', field gp_FunctionCall gp_FunctionCall_update dec_raw)]"

definition dec_gemini_content :: "gemini_content decoder" where
  "dec_gemini_content = dec_struct
     [(''parts'', field gc_Parts gc_Parts_update (dec_slice dec_gemini_part zero_gemini_part))]"

definition zero_gemini_candidate :: gemini_candidate where
  "zero_gemini_candidate = \<lparr>gd_Index = 0, gd_FinishReason = '''', gd_Content = \<lparr>gc_Parts = ([], 0)\<rparr>\<rparr>"

definition dec_gemini_candidate :: "gemini_candidate decoder" where
  "dec_gemini_candidate = dec_struct
     [(''index'', field gd_Index gd_Index_update dec_int),
      (''finishReason'', field gd_FinishReason gd_FinishReason_update dec_string),
      (''content'', field gd_Content gd_Content_update dec_gemini_content)]"

definition dec_prompt_feedback :: "prompt_feedback decoder" where
  "dec_prompt_feedback = dec_struct
     [(''blockReason'', field pf_BlockReason pf_BlockReason_update dec_string)]"

definition zero_stream_event :: stream_event where
  "zero_stream_event = \<lparr>ev_Type = '''', ev_Error = None, ev_Delta = None, ev_Choices = ([], 0),
     ev_Candidates = ([], 0), ev_PromptFeedback = \<lparr>pf_BlockReason = ''''\<rparr>\<rparr>"

definition dec_stream_event :: "stream_event decoder" where
  "dec_stream_event = dec_struct
     [(''type'', field ev_Type ev_Type_update dec_string),
      (''error'', field ev_Error ev_Error_update dec_raw),
      (''delta'', field ev_Delta ev_Delta_update dec_raw),
      (''choices'', field ev_Choices ev_Choices_update (dec_slice dec_chat_choice zero_chat_choice)),
      (''candidates'', field ev_Candidates ev_Candidates_update (dec_slice dec_gemini_candidate zero_gemini_candidate)),
      (''promptFeedback'', field ev_PromptFeedback ev_PromptFeedback_update dec_prompt_feedback)]"

subsection \<open>Usage\<close>

record usageValue =
  uv_input :: int
  uv_output :: int
  uv_total :: int
  uv_inputSet :: bool
  uv_outputSet :: bool
  uv_totalSet :: bool

definition zero_usageValue :: usageValue where
  "zero_usageValue = \<lparr>uv_input = 0, uv_output = 0, uv_total = 0, uv_inputSet = False,
     uv_outputSet = False, uv_totalSet = False\<rparr>"

text \<open>The first of the names with a non-negative integer; JSON \<open>null\<close> leaves the zero value.\<close>

fun usageField :: "(string \<times> json) list \<Rightarrow> string list \<Rightarrow> int \<times> bool" where
  "usageField fs [] = (0, False)"
| "usageField fs (name # names) =
     (case map_of fs name of
        None \<Rightarrow> usageField fs names
      | Some raw \<Rightarrow>
          (case dec_int 0 raw of
             Some v \<Rightarrow> if 0 \<le> v then (v, True) else usageField fs names
           | None \<Rightarrow> usageField fs names))"

definition parseUsageValue :: "json \<Rightarrow> usageValue" where
  "parseUsageValue raw =
     (if raw = JNull then zero_usageValue
      else
        (case dec_raw_map raw of
           None \<Rightarrow> zero_usageValue
         | Some fs \<Rightarrow>
             (let (i, iset) = usageField fs [''prompt_tokens'', ''promptTokens'', ''input_tokens'', ''inputTokens'', ''promptTokenCount''];
                  (q, oset) = usageField fs [''completion_tokens'', ''completionTokens'', ''output_tokens'', ''outputTokens'', ''candidatesTokenCount''];
                  (t, tset) = usageField fs [''total_tokens'', ''totalTokens'', ''totalTokenCount'']
              in \<lparr>uv_input = i, uv_output = q, uv_total = t, uv_inputSet = iset, uv_outputSet = oset,
                  uv_totalSet = tset\<rparr>)))"

definition mergeUsage :: "usageValue \<Rightarrow> CompletionObserver \<Rightarrow> CompletionObserver" where
  "mergeUsage u ob =
     (if \<not> uv_inputSet u \<and> \<not> uv_outputSet u \<and> \<not> uv_totalSet u then ob
      else
        (let ob0 = ob\<lparr>co_UsageSeen := True\<rparr>;
             ob1 = (if uv_inputSet u then ob0\<lparr>co_InputTokens := uv_input u, co_inputSeen := True\<rparr> else ob0);
             ob2 = (if uv_outputSet u then ob1\<lparr>co_OutputTokens := uv_output u, co_outputSeen := True\<rparr> else ob1);
             ob3 = (if uv_totalSet u then ob2\<lparr>co_TotalTokens := uv_total u, co_totalSeen := True\<rparr> else ob2)
         in if \<not> co_totalSeen ob3 \<and> co_inputSeen ob3 \<and> co_outputSeen ob3
            then ob3\<lparr>co_TotalTokens := wrap64 (co_InputTokens ob3 + co_OutputTokens ob3)\<rparr>
            else ob3))"

definition usage_keys :: "string list" where
  "usage_keys = [''usage'', ''usageMetadata'', ''usage_metadata'']"

definition merge_keys :: "(string \<times> json) list \<Rightarrow> CompletionObserver \<Rightarrow> CompletionObserver" where
  "merge_keys env =
     fold (\<lambda>key ob. case map_of env key of None \<Rightarrow> ob | Some raw \<Rightarrow> mergeUsage (parseUsageValue raw) ob) usage_keys"

definition observeUsage :: "string \<Rightarrow> CompletionObserver \<Rightarrow> CompletionObserver" where
  "observeUsage data ob =
     (case Unmarshal (\<lambda>_. dec_raw_map) [] data of
        None \<Rightarrow> ob
      | Some env \<Rightarrow>
          (let ob1 = merge_keys env ob in
           case map_of env ''message'' of
             None \<Rightarrow> ob1
           | Some raw \<Rightarrow> (case dec_raw_map raw of None \<Rightarrow> ob1 | Some nested \<Rightarrow> merge_keys nested ob1)))"

definition ObserveJSON :: "string \<Rightarrow> CompletionObserver \<Rightarrow> CompletionObserver" where
  "ObserveJSON data ob = observeUsage (TrimSpace data) ob"

subsection \<open>Choices\<close>

definition choice :: "int \<Rightarrow> bool \<Rightarrow> CompletionObserver \<Rightarrow> CompletionObserver" where
  "choice index finished ob =
     (if index < 0 \<or> index > 1024 then ob\<lparr>co_Error := ''invalid_choice_index''\<rparr>
      else
        (let cs = AList.update index ((map_of (co_choices ob) index = Some True) \<or> finished) (co_choices ob) in
         ob\<lparr>co_choices := cs, co_Complete := (0 < length cs \<and> (\<forall>c \<in> set cs. snd c))\<rparr>))"

subsection \<open>Observe\<close>

definition frame_event :: "string \<Rightarrow> string" where
  "frame_event frame =
     fold (\<lambda>line e. if HasPrefix line ''event:'' then TrimSpace (drop 6 line) else e) (Split LF frame) ''''"

definition observe_choice :: "chat_choice \<Rightarrow> CompletionObserver \<Rightarrow> CompletionObserver" where
  "observe_choice c ob =
     (let ob1 = choice (cc_Index c) (case cc_FinishReason c of None \<Rightarrow> False | Some r \<Rightarrow> r \<noteq> '''') ob; d = cc_Delta c in
      if cd_Content d \<noteq> '''' \<or> cd_Refusal d \<noteq> '''' \<or> slice_elems (cd_ToolCalls d) \<noteq> [] \<or> cd_FunctionCall d \<noteq> None
      then ob1\<lparr>co_SawOutput := True\<rparr> else ob1)"

definition observe_candidate :: "gemini_candidate \<Rightarrow> CompletionObserver \<Rightarrow> CompletionObserver" where
  "observe_candidate c ob =
     fold (\<lambda>p ob. if gp_Text p \<noteq> '''' \<or> gp_FunctionCall p \<noteq> None then ob\<lparr>co_SawOutput := True\<rparr> else ob)
       (slice_elems (gc_Parts (gd_Content c)))
       (choice (gd_Index c) (gd_FinishReason c \<noteq> '''') ob)"

record text_delta =
  td_Text :: string
  td_PartialJSON :: string

definition dec_text_delta :: "text_delta decoder" where
  "dec_text_delta = dec_struct
     [(''text'', field td_Text td_Text_update dec_string),
      (''partial_json'', field td_PartialJSON td_PartialJSON_update dec_string)]"

definition observe_messages :: "string \<Rightarrow> stream_event \<Rightarrow> CompletionObserver \<Rightarrow> CompletionObserver" where
  "observe_messages event v ob =
     (let ob1 = (if event = ''message_stop'' then ob\<lparr>co_Complete := True, co_Terminal := True\<rparr> else ob) in
      if event = ''content_block_delta'' \<and>
         (case ev_Delta v of
            None \<Rightarrow> False
          | Some raw \<Rightarrow>
              (case dec_text_delta \<lparr>td_Text = '''', td_PartialJSON = ''''\<rparr> raw of
                 None \<Rightarrow> False
               | Some d \<Rightarrow> td_Text d \<noteq> '''' \<or> td_PartialJSON d \<noteq> ''''))
      then ob1\<lparr>co_SawOutput := True\<rparr> else ob1)"

definition delta_events :: "string list" where
  "delta_events = [''response.output_text.delta'', ''response.function_call_arguments.delta'', ''response.refusal.delta'']"

definition observe_responses :: "string \<Rightarrow> stream_event \<Rightarrow> CompletionObserver \<Rightarrow> CompletionObserver" where
  "observe_responses event v ob =
     (let ob1 = (if event = ''response.completed'' then ob\<lparr>co_Complete := True, co_Terminal := True\<rparr> else ob) in
      if event \<in> set delta_events \<and>
         (case ev_Delta v of
            None \<Rightarrow> False
          | Some raw \<Rightarrow> (case dec_string '''' raw of None \<Rightarrow> False | Some d \<Rightarrow> d \<noteq> ''''))
      then ob1\<lparr>co_SawOutput := True\<rparr> else ob1)"

text \<open>The switch over the protocol.\<close>

definition observe_event :: "string \<Rightarrow> stream_event \<Rightarrow> CompletionObserver \<Rightarrow> CompletionObserver" where
  "observe_event event v ob =
     (if co_Protocol ob = ''chat'' then fold observe_choice (slice_elems (ev_Choices v)) ob
      else if co_Protocol ob = ''messages'' then observe_messages event v ob
      else if co_Protocol ob = ''responses'' then observe_responses event v ob
      else if co_Protocol ob = ''gemini'' then
        (if pf_BlockReason (ev_PromptFeedback v) \<noteq> '''' then ob\<lparr>co_Error := ''upstream_blocked''\<rparr>
         else fold observe_candidate (slice_elems (ev_Candidates v)) ob)
      else ob\<lparr>co_Error := ''unknown_stream_protocol''\<rparr>)"

definition Observe :: "string \<Rightarrow> CompletionObserver \<Rightarrow> CompletionObserver" where
  "Observe frame ob =
     (let event0 = frame_event frame;
          data = TrimSpace (case SSEData frame of None \<Rightarrow> [] | Some d \<Rightarrow> d)
      in if event0 = ''error'' then ob\<lparr>co_Error := ''upstream_error''\<rparr>
         else if data = [] then ob
         else if data = ''[DONE]'' then
           (if co_Protocol ob \<noteq> ''chat'' then ob\<lparr>co_Error := ''unexpected_completion_marker''\<rparr>
            else ob\<lparr>co_Complete := True, co_Terminal := True\<rparr>)
         else
           (case Unmarshal dec_stream_event zero_stream_event data of
              None \<Rightarrow> ob\<lparr>co_Error := ''invalid_sse_json''\<rparr>
            | Some v \<Rightarrow>
                if ev_Error v \<noteq> None \<and> ev_Error v \<noteq> Some JNull then ob\<lparr>co_Error := ''upstream_error''\<rparr>
                else
                  (let event = (if ev_Type v \<noteq> '''' then ev_Type v else event0); ob1 = observeUsage data ob in
                   if event \<in> set [''error'', ''response.failed'', ''response.incomplete'']
                   then ob1\<lparr>co_Error := ''upstream_incomplete''\<rparr>
                   else observe_event event v ob1)))"

subsection \<open>Relations that every observation keeps\<close>

text \<open>
  \<open>Observe\<close> is a composition of a few updates. A reflexive and transitive relation that each of them
  keeps relates the observer before an event to the observer after it.
\<close>

locale observer_relation =
  fixes R :: "CompletionObserver \<Rightarrow> CompletionObserver \<Rightarrow> bool"
  assumes refl: "R a a"
    and trans: "R a b \<Longrightarrow> R b c \<Longrightarrow> R a c"
    and fails: "e \<in> set gateway_errors \<Longrightarrow> e \<noteq> '''' \<Longrightarrow> R a (a\<lparr>co_Error := e\<rparr>)"
    and outputs: "R a (a\<lparr>co_SawOutput := True\<rparr>)"
    and ends: "R a (a\<lparr>co_Complete := True, co_Terminal := True\<rparr>)"
    and merges: "R a (mergeUsage (parseUsageValue raw) a)"
    and chooses: "R a (choice i finished a)"
begin

lemma folds: "(\<And>x a. R a (f x a)) \<Longrightarrow> R a (fold f xs a)"
  by (induction xs arbitrary: a) (auto intro: refl trans)

lemma if_outputs: "R a b \<Longrightarrow> R a (if c then b\<lparr>co_SawOutput := True\<rparr> else b)"
  by (auto intro: trans outputs)

lemma keys: "R a (merge_keys env a)"
  unfolding merge_keys_def by (rule folds) (auto intro: refl merges split: option.split)

lemma usage: "R a (observeUsage data a)"
  by (auto simp: observeUsage_def Let_def intro: refl keys trans [OF keys keys] split: option.split)

lemma observe_choice: "R a (observe_choice c a)"
  by (simp add: observe_choice_def Let_def chooses trans [OF chooses outputs])

lemma observe_candidate: "R a (observe_candidate c a)"
  unfolding observe_candidate_def by (rule trans [OF chooses]) (rule folds, auto intro: refl outputs)

lemma observe_messages: "R a (observe_messages event v a)"
  unfolding observe_messages_def Let_def by (rule if_outputs) (simp add: refl ends)

lemma observe_responses: "R a (observe_responses event v a)"
  unfolding observe_responses_def Let_def by (rule if_outputs) (simp add: refl ends)

lemma observe_event: "R a (observe_event event v a)"
  by (auto simp: observe_event_def gateway_errors_def
      intro!: folds observe_choice observe_candidate observe_messages observe_responses fails)

lemma observed: "R a (Observe frame a)"
proof -
  have err: "R a (b\<lparr>co_Error := e\<rparr>)" if "e \<in> set gateway_errors" "e \<noteq> ''''" "R a b" for b e
    using that by (blast intro: trans fails)
  have errors: "R a (a\<lparr>co_Error := ''upstream_error''\<rparr>)" "R a (a\<lparr>co_Error := ''unexpected_completion_marker''\<rparr>)"
    "R a (a\<lparr>co_Error := ''invalid_sse_json''\<rparr>)" "R a ((observeUsage d a)\<lparr>co_Error := ''upstream_incomplete''\<rparr>)" for d
    by (rule err; simp add: gateway_errors_def refl usage)+
  show ?thesis
    unfolding Observe_def Let_def
    by (simp add: errors refl ends trans [OF usage observe_event] del: list.set split: option.split)
qed

lemma observed_all: "R a (fold Observe frames a)"
  by (rule folds) (rule observed)

end

subsection \<open>What an observer holds\<close>

lemma Atoi_range: "Atoi s = Some v \<Longrightarrow> - (2 ^ 63) \<le> v \<and> v < 2 ^ 63"
  by (auto simp: Atoi_def Let_def split: if_splits prod.splits)

lemma usageField_range: "usageField fs names = (v, ok) \<Longrightarrow> 0 \<le> v \<and> v < 2 ^ 63 \<and> (\<not> ok \<longrightarrow> v = 0)"
proof (induction fs names rule: usageField.induct)
  case (2 fs name names)
  have "v < 2 ^ 63" if "dec_int 0 raw = Some v" for raw
    using that Atoi_range by (cases raw) auto
  with 2 show ?case by (auto split: option.splits if_splits)
qed simp

lemma usageField_fst: "0 \<le> fst (usageField fs names)" "fst (usageField fs names) < 2 ^ 63"
  using usageField_range [of fs names "fst (usageField fs names)" "snd (usageField fs names)"] by simp_all

declare usageField.simps [simp del]

definition usage_ok :: "CompletionObserver \<Rightarrow> bool" where
  "usage_ok ob =
     (0 \<le> co_InputTokens ob \<and> co_InputTokens ob < 2 ^ 63 \<and>
      0 \<le> co_OutputTokens ob \<and> co_OutputTokens ob < 2 ^ 63 \<and>
      (co_inputSeen ob \<or> co_InputTokens ob = 0) \<and> (co_outputSeen ob \<or> co_OutputTokens ob = 0) \<and>
      (if co_totalSeen ob then 0 \<le> co_TotalTokens ob \<and> co_TotalTokens ob < 2 ^ 63
       else co_TotalTokens ob =
         (if co_inputSeen ob \<and> co_outputSeen ob then wrap64 (co_InputTokens ob + co_OutputTokens ob) else 0)) \<and>
      co_UsageSeen ob = (co_inputSeen ob \<or> co_outputSeen ob \<or> co_totalSeen ob))"

definition choices_ok :: "CompletionObserver \<Rightarrow> bool" where
  "choices_ok ob = (distinct (map fst (co_choices ob)) \<and> fst ` set (co_choices ob) \<subseteq> {0..1024})"

lemma mergeUsage_ok:
  assumes "usage_ok ob"
  shows "usage_ok (mergeUsage (parseUsageValue raw) ob)"
proof -
  define u where "u = parseUsageValue raw"
  have u: "0 \<le> uv_input u" "uv_input u < 2 ^ 63" "0 \<le> uv_output u" "uv_output u < 2 ^ 63"
    "0 \<le> uv_total u" "uv_total u < 2 ^ 63"
    unfolding u_def parseUsageValue_def
    using usageField_fst by (auto simp: zero_usageValue_def Let_def case_prod_beta split: option.split)
  show ?thesis
    unfolding u_def [symmetric]
    using assms u by (cases "uv_inputSet u"; cases "uv_outputSet u"; cases "uv_totalSet u")
      (auto simp: usage_ok_def mergeUsage_def Let_def split: if_splits)
qed

lemma choice_ok: "choices_ok ob \<Longrightarrow> choices_ok (choice i finished ob)"
  by (auto simp: choices_ok_def choice_def Let_def distinct_update dom_update)

definition observer_ok :: "CompletionObserver \<Rightarrow> bool" where
  "observer_ok ob = (usage_ok ob \<and> choices_ok ob \<and> co_Error ob \<in> set gateway_errors)"

text \<open>The updates of the other parts leave each part alone.\<close>

lemma mergeUsage_frame [simp]:
  "co_Error (mergeUsage u ob) = co_Error ob" "co_choices (mergeUsage u ob) = co_choices ob"
  "co_Complete (mergeUsage u ob) = co_Complete ob" "co_Terminal (mergeUsage u ob) = co_Terminal ob"
  "co_Protocol (mergeUsage u ob) = co_Protocol ob" "co_SawOutput (mergeUsage u ob) = co_SawOutput ob"
  by (simp_all add: mergeUsage_def Let_def)

lemma choice_frame [simp]:
  "usage_ok (choice i finished ob) = usage_ok ob" "co_Terminal (choice i finished ob) = co_Terminal ob"
  "co_Protocol (choice i finished ob) = co_Protocol ob" "co_SawOutput (choice i finished ob) = co_SawOutput ob"
  "co_UsageSeen (choice i finished ob) = co_UsageSeen ob"
  by (simp_all add: choice_def usage_ok_def Let_def)

lemma choice_Error: "co_Error (choice i finished ob) \<in> {co_Error ob, ''invalid_choice_index''}"
  by (simp add: choice_def Let_def)

lemma ok_frame [simp]:
  "usage_ok (ob\<lparr>co_Error := e\<rparr>) = usage_ok ob" "choices_ok (ob\<lparr>co_Error := e\<rparr>) = choices_ok ob"
  "usage_ok (ob\<lparr>co_SawOutput := b\<rparr>) = usage_ok ob" "choices_ok (ob\<lparr>co_SawOutput := b\<rparr>) = choices_ok ob"
  "usage_ok (ob\<lparr>co_Complete := b, co_Terminal := b'\<rparr>) = usage_ok ob"
  "choices_ok (ob\<lparr>co_Complete := b, co_Terminal := b'\<rparr>) = choices_ok ob"
  "choices_ok (mergeUsage u ob) = choices_ok ob"
  by (simp_all add: usage_ok_def choices_ok_def)

interpretation keeps_ok: observer_relation "\<lambda>a b. observer_ok a \<longrightarrow> observer_ok b"
proof
  fix a :: CompletionObserver and i finished
  show "observer_ok a \<longrightarrow> observer_ok (choice i finished a)"
    using choice_Error [of i finished a] choice_ok [of a i finished]
    by (auto simp: observer_ok_def gateway_errors_def)
qed (auto simp: observer_ok_def mergeUsage_ok)

text \<open>
  Nothing that was seen is forgotten: an observer never returns to the state without an error, without
  output, without usage or before its end, and its protocol does not change.
\<close>

definition observer_grows :: "CompletionObserver \<Rightarrow> CompletionObserver \<Rightarrow> bool" where
  "observer_grows a b =
     ((co_Error a \<noteq> '''' \<longrightarrow> co_Error b \<noteq> '''') \<and> (co_SawOutput a \<longrightarrow> co_SawOutput b) \<and>
      (co_UsageSeen a \<longrightarrow> co_UsageSeen b) \<and> (co_Terminal a \<longrightarrow> co_Terminal b) \<and>
      co_Protocol b = co_Protocol a)"

interpretation grows: observer_relation observer_grows
proof
  fix a :: CompletionObserver and i finished raw
  show "observer_grows a (choice i finished a)"
    using choice_Error [of i finished a] by (auto simp: observer_grows_def)
  show "observer_grows a (mergeUsage (parseUsageValue raw) a)"
    by (simp add: observer_grows_def) (simp add: mergeUsage_def Let_def)
qed (auto simp: observer_grows_def)

lemma Error_sticky: "co_Error (Observe frame ob) = '''' \<Longrightarrow> co_Error ob = ''''"
  using grows.observed [of ob frame] by (auto simp: observer_grows_def)

lemma Protocol_Observe [simp]: "co_Protocol (Observe frame ob) = co_Protocol ob"
  using grows.observed [of ob frame] by (simp add: observer_grows_def)

lemma Protocol_observed [simp]: "co_Protocol (fold Observe frames ob) = co_Protocol ob"
  using grows.observed_all [of ob frames] by (simp add: observer_grows_def)

lemma new_observer_ok: "observer_ok (new_observer proto)"
  by (simp add: observer_ok_def usage_ok_def choices_ok_def new_observer_def gateway_errors_def)

lemma new_observer_simps [simp]:
  "co_Protocol (new_observer proto) = proto" "co_Error (new_observer proto) = ''''"
  "co_choices (new_observer proto) = []" "co_Complete (new_observer proto) = False"
  "co_Terminal (new_observer proto) = False" "co_SawOutput (new_observer proto) = False"
  by (simp_all add: new_observer_def)

lemma choices_bounded: "choices_ok ob \<Longrightarrow> length (co_choices ob) \<le> 1025"
proof -
  assume ok: "choices_ok ob"
  then have "length (co_choices ob) = card (fst ` set (co_choices ob))"
    unfolding choices_ok_def by (metis distinct_card length_map list.set_map)
  also have "\<dots> \<le> card {0..1024 :: int}" using ok by (intro card_mono) (auto simp: choices_ok_def)
  finally show ?thesis by simp
qed

subsection \<open>When an answer is complete\<close>

text \<open>
  The specification reads the marks off the events: the indices of their choices or candidates, each
  with whether it is finished there.
\<close>

definition frame_data :: "string \<Rightarrow> string" where
  "frame_data frame = TrimSpace (case SSEData frame of None \<Rightarrow> [] | Some d \<Rightarrow> d)"

definition marks :: "string \<Rightarrow> string \<Rightarrow> (int \<times> bool) list" where
  "marks proto frame =
     (case Unmarshal dec_stream_event zero_stream_event (frame_data frame) of
        None \<Rightarrow> []
      | Some v \<Rightarrow>
          if proto = ''chat''
          then map (\<lambda>c. (cc_Index c, case cc_FinishReason c of None \<Rightarrow> False | Some r \<Rightarrow> r \<noteq> '''')) (slice_elems (ev_Choices v))
          else if proto = ''gemini''
          then map (\<lambda>c. (gd_Index c, gd_FinishReason c \<noteq> '''')) (slice_elems (ev_Candidates v))
          else [])"

text \<open>The event that ends a stream.\<close>

definition ends_stream :: "string \<Rightarrow> string \<Rightarrow> bool" where
  "ends_stream proto frame =
     (if proto = ''chat'' then frame_data frame = ''[DONE]''
      else
        (case Unmarshal dec_stream_event zero_stream_event (frame_data frame) of
           None \<Rightarrow> False
         | Some v \<Rightarrow>
             (if ev_Type v \<noteq> '''' then ev_Type v else frame_event frame) =
             (if proto = ''messages'' then ''message_stop'' else ''response.completed'') \<and>
             (proto = ''messages'' \<or> proto = ''responses'')))"

definition all_finished :: "(int \<times> bool) list \<Rightarrow> bool" where
  "all_finished ms = (ms \<noteq> [] \<and> (\<forall>m \<in> set ms. (fst m, True) \<in> set ms))"

text \<open>The choices of an observer that saw the marks \<open>ms\<close>.\<close>

definition saw_marks :: "(int \<times> bool) list \<Rightarrow> CompletionObserver \<Rightarrow> bool" where
  "saw_marks ms ob =
     (distinct (map fst (co_choices ob)) \<and>
      map_of (co_choices ob) = (\<lambda>i. if i \<in> fst ` set ms then Some ((i, True) \<in> set ms) else None) \<and>
      (co_Terminal ob \<or> co_Complete ob = all_finished ms))"

lemma all_finished_alist:
  assumes "distinct (map fst cs)"
    "map_of cs = (\<lambda>i. if i \<in> fst ` set ms then Some ((i, True) \<in> set ms) else None)"
  shows "(0 < length cs \<and> (\<forall>c \<in> set cs. snd c)) = all_finished ms"
proof -
  have "set cs = (\<lambda>m. (fst m, (fst m, True) \<in> set ms)) ` set ms"
  proof (rule set_eqI)
    fix c :: "int \<times> bool"
    have "c \<in> set cs \<longleftrightarrow> map_of cs (fst c) = Some (snd c)" using assms(1) by simp
    then show "c \<in> set cs \<longleftrightarrow> c \<in> (\<lambda>m. (fst m, (fst m, True) \<in> set ms)) ` set ms"
      unfolding assms(2) by (cases c) (auto simp: image_iff)
  qed
  moreover from this have "cs = [] \<longleftrightarrow> ms = []" by (metis image_is_empty set_empty)
  ultimately show ?thesis by (simp add: all_finished_def)
qed

lemma choice_marks:
  assumes "saw_marks ms ob" "co_Error (choice i finished ob) = ''''"
  shows "saw_marks (ms @ [(i, finished)]) (choice i finished ob)"
proof -
  define cs where "cs = AList.update i ((map_of (co_choices ob) i = Some True) \<or> finished) (co_choices ob)"
  have ob': "choice i finished ob = ob\<lparr>co_choices := cs, co_Complete := (0 < length cs \<and> (\<forall>c \<in> set cs. snd c))\<rparr>"
    using assms(2) by (auto simp: choice_def Let_def cs_def split: if_splits)
  have d: "distinct (map fst cs)"
    using assms(1) by (simp add: cs_def saw_marks_def distinct_update)
  have m: "map_of cs = (\<lambda>j. if j \<in> fst ` set (ms @ [(i, finished)]) then Some ((j, True) \<in> set (ms @ [(i, finished)])) else None)"
    using assms(1) by (auto simp: cs_def saw_marks_def update_conv' fun_eq_iff image_iff)
  show ?thesis
    unfolding ob' using d m all_finished_alist [OF d m] by (simp add: saw_marks_def)
qed

lemma saw_marks_output [simp]: "saw_marks ms (ob\<lparr>co_SawOutput := b\<rparr>) = saw_marks ms ob"
  by (simp add: saw_marks_def)

lemma merge_keys_frame [simp]:
  "co_Error (merge_keys env ob) = co_Error ob" "co_choices (merge_keys env ob) = co_choices ob"
  "co_Complete (merge_keys env ob) = co_Complete ob" "co_Terminal (merge_keys env ob) = co_Terminal ob"
  "co_Protocol (merge_keys env ob) = co_Protocol ob" "co_SawOutput (merge_keys env ob) = co_SawOutput ob"
  by (simp_all add: merge_keys_def usage_keys_def split: option.split)

lemma observeUsage_frame [simp]:
  "co_Error (observeUsage data ob) = co_Error ob" "co_choices (observeUsage data ob) = co_choices ob"
  "co_Complete (observeUsage data ob) = co_Complete ob" "co_Terminal (observeUsage data ob) = co_Terminal ob"
  "co_Protocol (observeUsage data ob) = co_Protocol ob" "co_SawOutput (observeUsage data ob) = co_SawOutput ob"
  by (simp_all add: observeUsage_def Let_def split: option.split)

lemma saw_marks_usage [simp]: "saw_marks ms (observeUsage data ob) = saw_marks ms ob"
  by (simp add: saw_marks_def)

lemma observe_choice_marks:
  assumes "saw_marks ms ob" "co_Error (observe_choice c ob) = ''''"
  shows "saw_marks (ms @ [(cc_Index c, case cc_FinishReason c of None \<Rightarrow> False | Some r \<Rightarrow> r \<noteq> '''')]) (observe_choice c ob)"
proof -
  have "co_Error (choice (cc_Index c) (case cc_FinishReason c of None \<Rightarrow> False | Some r \<Rightarrow> r \<noteq> '''') ob) = ''''"
    using assms(2) by (simp add: observe_choice_def Let_def split: if_splits)
  from choice_marks [OF assms(1) this] show ?thesis by (simp add: observe_choice_def Let_def)
qed

lemma parts_frame:
  "\<exists>b. fold (\<lambda>p ob. if gp_Text p \<noteq> '''' \<or> gp_FunctionCall p \<noteq> None then ob\<lparr>co_SawOutput := True\<rparr> else ob) ps ob
     = ob\<lparr>co_SawOutput := b\<rparr>"
proof (induction ps arbitrary: ob)
  case Nil
  show ?case by (rule exI [of _ "co_SawOutput ob"]) simp
next
  case (Cons p ps)
  obtain b where "(if gp_Text p \<noteq> '''' \<or> gp_FunctionCall p \<noteq> None then ob\<lparr>co_SawOutput := True\<rparr> else ob) = ob\<lparr>co_SawOutput := b\<rparr>"
    by (cases "gp_Text p \<noteq> '''' \<or> gp_FunctionCall p \<noteq> None") (auto intro: that [of "co_SawOutput ob"])
  with Cons [of "ob\<lparr>co_SawOutput := b\<rparr>"] show ?case by simp
qed

lemma observe_candidate_eq:
  "\<exists>b. observe_candidate c ob = (choice (gd_Index c) (gd_FinishReason c \<noteq> '''') ob)\<lparr>co_SawOutput := b\<rparr>"
  unfolding observe_candidate_def by (rule parts_frame)

lemma observe_candidate_marks:
  assumes "saw_marks ms ob" "co_Error (observe_candidate c ob) = ''''"
  shows "saw_marks (ms @ [(gd_Index c, gd_FinishReason c \<noteq> '''')]) (observe_candidate c ob)"
proof -
  obtain b where eq: "observe_candidate c ob = (choice (gd_Index c) (gd_FinishReason c \<noteq> '''') ob)\<lparr>co_SawOutput := b\<rparr>"
    using observe_candidate_eq by blast
  with assms(2) have "co_Error (choice (gd_Index c) (gd_FinishReason c \<noteq> '''') ob) = ''''" by simp
  from choice_marks [OF assms(1) this] show ?thesis by (simp add: eq)
qed

lemma fold_marks:
  assumes "saw_marks ms ob" "co_Error (fold f xs ob) = ''''"
    and step: "\<And>x ms ob. saw_marks ms ob \<Longrightarrow> co_Error (f x ob) = '''' \<Longrightarrow> saw_marks (ms @ [mark x]) (f x ob)"
    and grow: "\<And>x ob. observer_grows ob (f x ob)"
  shows "saw_marks (ms @ map mark xs) (fold f xs ob)"
  using assms(1,2)
proof (induction xs arbitrary: ms ob)
  case (Cons x xs)
  have "observer_grows (f x ob) (fold f xs (f x ob))" by (rule grows.folds) (rule grow)
  with Cons.prems(2) have "co_Error (f x ob) = ''''" by (auto simp: observer_grows_def)
  from Cons.IH [OF step [OF Cons.prems(1) this]] Cons.prems(2) show ?case by simp
qed simp

lemma no_value: "Unmarshal f x [] = None" "Unmarshal f x ''[DONE]'' = None"
proof -
  have "json_parse [] = None" "json_parse ''[DONE]'' = None" by code_simp+
  then show "Unmarshal f x [] = None" "Unmarshal f x ''[DONE]'' = None" by (simp_all add: Unmarshal_def)
qed

lemma saw_marks_Terminal: "saw_marks ms ob \<Longrightarrow> saw_marks ms (ob\<lparr>co_Complete := True, co_Terminal := True\<rparr>)"
  by (simp add: saw_marks_def)

lemma observe_event_marks:
  assumes "saw_marks ms ob" "co_Error (observe_event event v ob) = ''''"
    "Unmarshal dec_stream_event zero_stream_event (frame_data frame) = Some v"
  shows "saw_marks (ms @ marks (co_Protocol ob) frame) (observe_event event v ob)"
proof (cases "co_Protocol ob = ''chat''")
  case True
  then have ev: "observe_event event v ob = fold observe_choice (slice_elems (ev_Choices v)) ob"
    by (simp add: observe_event_def)
  have "saw_marks (ms @ map (\<lambda>c. (cc_Index c, case cc_FinishReason c of None \<Rightarrow> False | Some r \<Rightarrow> r \<noteq> ''''))
      (slice_elems (ev_Choices v))) (fold observe_choice (slice_elems (ev_Choices v)) ob)"
    by (rule fold_marks [OF assms(1) assms(2) [unfolded ev] observe_choice_marks grows.observe_choice])
  with True assms(3) show ?thesis by (simp add: ev marks_def)
next
  case nochat: False
  show ?thesis
  proof (cases "co_Protocol ob = ''gemini''")
    case True
    then have ev: "observe_event event v ob = fold observe_candidate (slice_elems (ev_Candidates v)) ob"
      using assms(2) by (simp add: observe_event_def split: if_splits)
    have "saw_marks (ms @ map (\<lambda>c. (gd_Index c, gd_FinishReason c \<noteq> '''')) (slice_elems (ev_Candidates v)))
        (fold observe_candidate (slice_elems (ev_Candidates v)) ob)"
      by (rule fold_marks [OF assms(1) assms(2) [unfolded ev] observe_candidate_marks grows.observe_candidate])
    with True assms(3) show ?thesis by (simp add: ev marks_def)
  next
    case False
    then have "marks (co_Protocol ob) frame = []"
      using nochat assms(3) by (simp add: marks_def)
    with False nochat assms(1,2) saw_marks_Terminal [OF assms(1)] show ?thesis
      by (simp add: observe_event_def observe_messages_def observe_responses_def Let_def split: if_splits)
  qed
qed

lemma Observe_marks:
  assumes "saw_marks ms ob" "co_Error (Observe frame ob) = ''''"
  shows "saw_marks (ms @ marks (co_Protocol ob) frame) (Observe frame ob)"
proof (cases "Unmarshal dec_stream_event zero_stream_event (frame_data frame)")
  case None
  then have "marks (co_Protocol ob) frame = []" by (simp add: marks_def)
  with None assms saw_marks_Terminal [OF assms(1)] show ?thesis
    unfolding Observe_def frame_data_def [symmetric] Let_def by (simp split: if_splits)
next
  case (Some v)
  then have data: "frame_data frame \<noteq> []" "frame_data frame \<noteq> ''[DONE]''"
    using no_value by (metis option.distinct(1))+
  define event where "event = (if ev_Type v \<noteq> '''' then ev_Type v else frame_event frame)"
  have eq: "Observe frame ob = observe_event event v (observeUsage (frame_data frame) ob)"
    using assms(2) data Some unfolding Observe_def frame_data_def [symmetric] Let_def event_def
    by (auto split: if_splits)
  from assms(1) have "saw_marks ms (observeUsage (frame_data frame) ob)" by simp
  from observe_event_marks [OF this assms(2) [unfolded eq] Some] show ?thesis by (simp add: eq)
qed

lemma fold_keeps: "(\<And>x a. g (f x a) = g a) \<Longrightarrow> g (fold f xs a) = g a"
  by (induction xs arbitrary: a) simp_all

lemma fold_Terminal [simp]:
  "co_Terminal (fold observe_choice cs ob) = co_Terminal ob"
  "co_Terminal (fold observe_candidate ds ob) = co_Terminal ob"
proof -
  show "co_Terminal (fold observe_choice cs ob) = co_Terminal ob"
    by (rule fold_keeps) (simp add: observe_choice_def Let_def)
  show "co_Terminal (fold observe_candidate ds ob) = co_Terminal ob"
  proof (rule fold_keeps)
    fix c a
    show "co_Terminal (observe_candidate c a) = co_Terminal a"
      using observe_candidate_eq [of c a] by auto
  qed
qed

lemma Observe_ends:
  assumes "co_Error (Observe frame ob) = ''''"
  shows "co_Terminal (Observe frame ob) = (co_Terminal ob \<or> ends_stream (co_Protocol ob) frame) \<and>
    (ends_stream (co_Protocol ob) frame \<longrightarrow> co_Complete (Observe frame ob))"
proof (cases "Unmarshal dec_stream_event zero_stream_event (frame_data frame)")
  case None
  with assms show ?thesis
    unfolding Observe_def frame_data_def [symmetric] Let_def by (auto simp: ends_stream_def split: if_splits)
next
  case (Some v)
  then have data: "frame_data frame \<noteq> []" "frame_data frame \<noteq> ''[DONE]''"
    using no_value by (metis option.distinct(1))+
  define event where "event = (if ev_Type v \<noteq> '''' then ev_Type v else frame_event frame)"
  have eq: "Observe frame ob = observe_event event v (observeUsage (frame_data frame) ob)"
    using assms data Some unfolding Observe_def frame_data_def [symmetric] Let_def event_def
    by (auto split: if_splits)
  have ends: "ends_stream (co_Protocol ob) frame =
    (co_Protocol ob = ''messages'' \<and> event = ''message_stop'' \<or> co_Protocol ob = ''responses'' \<and> event = ''response.completed'')"
    using Some data by (auto simp: ends_stream_def event_def)
  show ?thesis
    unfolding ends using assms [unfolded eq] unfolding eq
    by (auto simp: observe_event_def observe_messages_def observe_responses_def delta_events_def Let_def split: if_splits)
qed

lemma observed_frames:
  assumes "co_Error (fold Observe frames ob) = ''''" "saw_marks ms ob"
  shows "saw_marks (ms @ concat (map (marks (co_Protocol ob)) frames)) (fold Observe frames ob) \<and>
    co_Terminal (fold Observe frames ob) = (co_Terminal ob \<or> list_ex (ends_stream (co_Protocol ob)) frames)"
  using assms
proof (induction frames arbitrary: ob ms)
  case (Cons frame frames)
  have ok: "co_Error (Observe frame ob) = ''''"
    using grows.observed_all [of "Observe frame ob" frames] Cons.prems(1) by (auto simp: observer_grows_def)
  from Cons.IH [OF _ Observe_marks [OF Cons.prems(2) ok]] Cons.prems(1) Observe_ends [OF ok]
  show ?case by simp
qed simp

lemma saw_no_marks: "saw_marks [] (new_observer proto)"
  by (simp add: saw_marks_def all_finished_def)

subsection \<open>The properties of the observer\<close>

text \<open>C28. Whatever events an upstream sends, the observer stays well formed: the token counts are non-negative
  64-bit numbers, the total is the declared one or the 64-bit sum of the two others and zero while one
  of them is missing, usage counts as seen exactly when one of the three was declared, at most 1025
  distinct choice indices from 0 to 1024 are remembered, and the error is one of those that redaction
  lets through.\<close>

theorem observer_always_ok:
  "observer_ok (fold Observe frames (new_observer proto)) \<and>
   length (co_choices (fold Observe frames (new_observer proto))) \<le> 1025"
proof -
  have "observer_ok (fold Observe frames (new_observer proto))"
    using keeps_ok.observed_all new_observer_ok by blast
  then show ?thesis using choices_bounded by (auto simp: observer_ok_def)
qed

text \<open>C29. What completion means: as long as no error occurred, the stream counts as ended exactly when an event
  with the end marker of its protocol was seen (\<open>[DONE]\<close> for chat, \<open>message_stop\<close>,
  \<open>response.completed\<close>), and before that it counts as complete exactly when at least one choice was
  seen and every choice that was seen was finished in some event.\<close>

theorem observer_completion:
  assumes "co_Error (fold Observe frames (new_observer proto)) = ''''"
  shows "co_Terminal (fold Observe frames (new_observer proto)) = list_ex (ends_stream proto) frames \<and>
    (co_Terminal (fold Observe frames (new_observer proto)) \<or>
     co_Complete (fold Observe frames (new_observer proto)) = all_finished (concat (map (marks proto) frames)))"
  using observed_frames [OF assms saw_no_marks] by (auto simp: saw_marks_def)

definition sample_frames :: "string list" where
  \<open>sample_frames =
     [''data: {"choices":[{"index":0}]}'' @ [LF, LF],
      ''data:{"choices":[{"finish_reason":"x"}]}'' @ [LF, LF]]\<close>

lemma sample_frames_clean: "co_Error (fold Observe sample_frames (new_observer ''chat'')) = ''''"
  by code_simp

theorem observer_completion_witness:
  "co_Error (fold Observe sample_frames (new_observer ''chat'')) = '''' \<and>
   co_Terminal (fold Observe sample_frames (new_observer ''chat'')) = list_ex (ends_stream ''chat'') sample_frames \<and>
   (co_Terminal (fold Observe sample_frames (new_observer ''chat'')) \<or>
    co_Complete (fold Observe sample_frames (new_observer ''chat'')) =
      all_finished (concat (map (marks ''chat'') sample_frames)))"
  using observer_completion [OF sample_frames_clean] sample_frames_clean by blast

subsection \<open>Three corners\<close>

text \<open>
  A member \<open>function_call\<close> with the value \<open>null\<close> counts as output, since the raw message holds the four
  bytes of \<open>null\<close>: a first event that carries no content marks the first output.
\<close>

lemma null_function_call_is_output:
  \<open>co_SawOutput (Observe (''data:{"choices":[{"delta":{"function_call":null}}]}'' @ [LF, LF])
     (new_observer ''chat''))\<close>
  by code_simp

text \<open>The sum of two declared counts wraps around when no total is declared.\<close>

lemma usage_sum_wraps:
  \<open>co_TotalTokens (ObserveJSON ''{"usage":{"input_tokens":9223372036854775807,"output_tokens":1}}''
     (new_observer ''chat'')) < 0\<close>
  by code_simp

text \<open>Usage nested under the final response object is not looked at, only that under \<open>message\<close>.\<close>

lemma response_usage_ignored:
  \<open>\<not> co_UsageSeen (ObserveJSON ''{"response":{"usage":{"input_tokens":1}}}'' (new_observer ''responses''))\<close>
  by code_simp

end
