(* ===== verification/StreamResponse.thy ===== *)
theory StreamResponse
  imports Observer Samples
begin

section \<open>Streaming an answer to the client\<close>

text \<open>
  \<open>streamResponse\<close> of \<open>internal/api/stream.go\<close>, which composes the event reader, the completion observer
  and the lease: every event is read whole, counted against the output limit, observed, and only then
  written to the client. What the surroundings decide is in \<open>stream_env\<close>: how the body of the upstream
  ends, whether the context of the request is done when a read fails, the result of the \<open>k\<close>-th write
  (bytes accepted, failed) and flush, and the clock. Write deadlines act only through failing writes.
\<close>

record stream_env =
  se_eof :: bool
  se_ctxErr :: bool
  se_write :: "nat \<Rightarrow> nat \<times> bool"
  se_flush :: "nat \<Rightarrow> bool"
  se_clock :: "nat \<Rightarrow> time"

text \<open>The local variables, the counter of the server, the router, and the events handed to \<open>w.Write\<close>.\<close>

record stream_state =
  ss_observer :: CompletionObserver
  ss_sent :: bool
  ss_observedOutput :: bool
  ss_total :: int
  ss_outputBytes :: "64 word"
  ss_sys :: sys
  ss_wire :: "string list"

definition recordUsage :: "CompletionObserver \<Rightarrow> ExecutionResult \<Rightarrow> ExecutionResult" where
  "recordUsage ob r = r\<lparr>er_InputTokens := co_InputTokens ob, er_OutputTokens := co_OutputTokens ob,
     er_TotalTokens := co_TotalTokens ob, er_UsageKnown := co_UsageSeen ob\<rparr>"

definition failed_with :: "string \<Rightarrow> CompletionObserver \<Rightarrow> ExecutionResult" where
  "failed_with e ob = recordUsage ob (zero_ExecutionResult\<lparr>er_UpstreamError := e\<rparr>)"

definition client_gone :: "CompletionObserver \<Rightarrow> ExecutionResult" where
  "client_gone ob = recordUsage ob (zero_ExecutionResult\<lparr>er_ClientCanceled := True\<rparr>)"

definition ended :: "CompletionObserver \<Rightarrow> ExecutionResult" where
  "ended ob = recordUsage ob (zero_ExecutionResult\<lparr>er_TransportOK := True, er_ProtocolComplete := co_Complete ob\<rparr>)"

definition frame_limit :: "Config \<Rightarrow> int" where
  "frame_limit c = min (rt_MaxOutputBytes (cfg_Runtime c)) (2 ^ 20)"

text \<open>The observation of a frame and the first output.\<close>

definition mark_output :: "stream_env \<Rightarrow> nat \<Rightarrow> stream_state \<Rightarrow> stream_state" where
  "mark_output env n st =
     (if co_SawOutput (ss_observer st) \<and> \<not> ss_observedOutput st
      then (let now = se_clock env (length (ss_wire st)) in
            st\<lparr>ss_sys := tick now (FirstOutput n now (ss_sys st)), ss_observedOutput := True\<rparr>)
      else st)"

definition write_frame :: "stream_env \<Rightarrow> string \<Rightarrow> stream_state \<Rightarrow> stream_state" where
  "write_frame env f st =
     st\<lparr>ss_sent := True, ss_outputBytes := ss_outputBytes st + of_nat (fst (se_write env (length (ss_wire st)))),
        ss_wire := ss_wire st @ [f]\<rparr>"

lemma sse_Next_shorter: "(Frame f, rest) = sse_Next limit eof s \<Longrightarrow> length rest < length s"
  using sse_Next_Frame(2,3) [of limit eof s f rest] by simp

function stream_loop :: "Config \<Rightarrow> stream_env \<Rightarrow> nat \<Rightarrow> stream_state \<Rightarrow> string \<Rightarrow> ExecutionResult \<times> stream_state" where
  "stream_loop c env n st s =
     (case sse_Next (frame_limit c) (se_eof env) s of (out, rest) \<Rightarrow>
        (case out of
           NextEOF \<Rightarrow>
             ((ended (ss_observer st))\<lparr>er_UpstreamError :=
                if co_Complete (ss_observer st) then '''' else ''missing_completion''\<rparr>, st)
         | NextError e \<Rightarrow> ((failed_with ''truncated_stream'' (ss_observer st))\<lparr>er_ClientCanceled := se_ctxErr env\<rparr>, st)
         | Frame f \<Rightarrow>
             (let total = wrap64 (ss_total st + int (length f)); st1 = st\<lparr>ss_total := total\<rparr> in
              if total > rt_MaxOutputBytes (cfg_Runtime c) then (failed_with ''output_limit'' (ss_observer st), st1)
              else
                (let ob = Observe f (ss_observer st); st2 = st1\<lparr>ss_observer := ob\<rparr> in
                 if co_Error ob \<noteq> '''' then (failed_with (co_Error ob) ob, st2)
                 else
                   (let k = length (ss_wire st); st3 = write_frame env f (mark_output env n st2) in
                    if snd (se_write env k) then (client_gone ob, st3)
                    else if se_flush env k then (client_gone ob, st3)
                    else if co_Terminal ob then (ended ob, st3)
                    else stream_loop c env n st3 rest)))))"
  by pat_completeness auto
termination
  by (relation "measure (\<lambda>(c, env, n, st, s). length s)") (auto dest: sse_Next_shorter)

declare stream_loop.simps [simp del]

definition new_stream :: "string \<Rightarrow> 64 word \<Rightarrow> sys \<Rightarrow> stream_state" where
  "new_stream proto sentBytes s = \<lparr>ss_observer = new_observer proto, ss_sent = False,
     ss_observedOutput = False, ss_total = 0, ss_outputBytes = sentBytes, ss_sys = s, ss_wire = []\<rparr>"

definition streamResponse ::
  "Config \<Rightarrow> stream_env \<Rightarrow> string \<Rightarrow> nat \<Rightarrow> string \<Rightarrow> 64 word \<Rightarrow> sys \<Rightarrow> ExecutionResult \<times> stream_state" where
  "streamResponse c env proto n body sentBytes s = stream_loop c env n (new_stream proto sentBytes s) body"

subsection \<open>The events of a body\<close>

function events :: "string \<Rightarrow> string list" where
  "events s = (case first_event s of None \<Rightarrow> [] | Some (f, r) \<Rightarrow> f # events r)"
  by pat_completeness auto
termination
  by (relation "measure length") (auto dest!: first_event_split)

declare events.simps [simp del]

text \<open>
  What holds whenever the loop reads the next event: everything before \<open>s\<close> was observed without error
  and written.
\<close>

definition streaming :: "Config \<Rightarrow> string \<Rightarrow> string \<Rightarrow> stream_state \<Rightarrow> string \<Rightarrow> bool" where
  "streaming c proto body st s =
     (ss_observer st = fold Observe (ss_wire st) (new_observer proto) \<and>
      co_Error (ss_observer st) = '''' \<and> \<not> co_Terminal (ss_observer st) \<and>
      body = concat (ss_wire st) @ s \<and> events body = ss_wire st @ events s \<and>
      ss_total st = int (length (concat (ss_wire st))) \<and>
      ss_total st \<le> max 0 (rt_MaxOutputBytes (cfg_Runtime c)) \<and>
      ss_sent st = (ss_wire st \<noteq> []) \<and> ss_observedOutput st = co_SawOutput (ss_observer st))"

text \<open>What holds of its result.\<close>

definition stream_done :: "Config \<Rightarrow> string \<Rightarrow> string \<Rightarrow> ExecutionResult \<Rightarrow> stream_state \<Rightarrow> bool" where
  "stream_done c proto body r st =
     (prefix (ss_wire st) (events body) \<and>
      int (length (concat (ss_wire st))) \<le> max 0 (rt_MaxOutputBytes (cfg_Runtime c)) \<and>
      ss_sent st = (ss_wire st \<noteq> []) \<and>
      ss_observedOutput st = co_SawOutput (fold Observe (ss_wire st) (new_observer proto)) \<and>
      er_UpstreamError r \<in> set gateway_errors \<and>
      (Successful r \<longrightarrow>
         co_Error (fold Observe (ss_wire st) (new_observer proto)) = '''' \<and>
         co_Complete (fold Observe (ss_wire st) (new_observer proto)) \<and>
         (list_ex (ends_stream proto) (ss_wire st) \<or> concat (ss_wire st) = body)))"

lemma events_Frame: "sse_Next limit eof s = (Frame f, rest) \<Longrightarrow> events s = f # events rest"
  using sse_Next_Frame(1) [of limit eof s f rest] by (simp add: events.simps [of s])

lemma result_simps [simp]:
  "er_UpstreamError (failed_with e ob) = e" "er_UpstreamError (client_gone ob) = ''''"
  "er_UpstreamError (ended ob) = ''''" "Successful (failed_with e ob) = False"
  "Successful ((failed_with e ob)\<lparr>er_ClientCanceled := b\<rparr>) = False"
  "Successful (client_gone ob) = False" "Successful (ended ob) = co_Complete ob"
  "Successful ((ended ob)\<lparr>er_UpstreamError := e\<rparr>) = (co_Complete ob \<and> e = '''')"
  by (simp_all add: failed_with_def client_gone_def ended_def recordUsage_def zero_ExecutionResult_def Successful_def)

lemma stream_stop:
  assumes "streaming c proto body st s" "ss_wire st' = ss_wire st" "ss_sent st' = ss_sent st"
    "ss_observedOutput st' = ss_observedOutput st" "er_UpstreamError r \<in> set gateway_errors"
    "Successful r \<longrightarrow> co_Complete (ss_observer st) \<and> s = []"
  shows "stream_done c proto body r st'"
  using assms by (auto simp: streaming_def stream_done_def prefix_def)

lemma mark_output_simps [simp]:
  "ss_observer (mark_output env n st) = ss_observer st" "ss_wire (mark_output env n st) = ss_wire st"
  "ss_total (mark_output env n st) = ss_total st" "ss_sent (mark_output env n st) = ss_sent st"
  "ss_observedOutput (mark_output env n st) = (ss_observedOutput st \<or> co_SawOutput (ss_observer st))"
  by (auto simp: mark_output_def Let_def)

text \<open>A frame that was written: its observer saw everything on the wire, the new frame included.\<close>

definition after_frame :: "stream_env \<Rightarrow> nat \<Rightarrow> string \<Rightarrow> stream_state \<Rightarrow> stream_state" where
  "after_frame env n f st =
     write_frame env f (mark_output env n
       (st\<lparr>ss_total := wrap64 (ss_total st + int (length f)), ss_observer := Observe f (ss_observer st)\<rparr>))"

lemma after_frame_simps [simp]:
  "ss_observer (after_frame env n f st) = Observe f (ss_observer st)"
  "ss_wire (after_frame env n f st) = ss_wire st @ [f]" "ss_sent (after_frame env n f st) = True"
  "ss_total (after_frame env n f st) = wrap64 (ss_total st + int (length f))"
  "ss_observedOutput (after_frame env n f st) = (ss_observedOutput st \<or> co_SawOutput (Observe f (ss_observer st)))"
  by (simp_all add: after_frame_def write_frame_def)

lemma SawOutput_sticky: "co_SawOutput ob \<Longrightarrow> co_SawOutput (Observe f ob)"
  using grows.observed [of ob f] by (simp add: observer_grows_def)

lemma after_frame_streaming:
  assumes st: "streaming c proto body st s" and f: "sse_Next (frame_limit c) (se_eof env) s = (Frame f, rest)"
    and bound: "int (length body) < 2 ^ 63"
    and fits: "wrap64 (ss_total st + int (length f)) \<le> rt_MaxOutputBytes (cfg_Runtime c)"
    and ok: "co_Error (Observe f (ss_observer st)) = ''''"
  shows "prefix (ss_wire st @ [f]) (events body)"
    "int (length (concat (ss_wire st @ [f]))) \<le> max 0 (rt_MaxOutputBytes (cfg_Runtime c))"
    "\<not> co_Terminal (Observe f (ss_observer st)) \<Longrightarrow> streaming c proto body (after_frame env n f st) rest"
    "co_Terminal (Observe f (ss_observer st)) \<Longrightarrow> ends_stream proto f \<and> co_Complete (Observe f (ss_observer st))"
proof -
  note split = sse_Next_Frame(2) [OF f] and ev = events_Frame [OF f]
  have "body = concat (ss_wire st) @ s" "events body = ss_wire st @ events s" using st unfolding streaming_def by blast+
  then have body: "body = concat (ss_wire st) @ f @ rest" "events body = ss_wire st @ f # events rest"
    unfolding ev by (simp_all only: split)
  have total: "wrap64 (ss_total st + int (length f)) = int (length (concat (ss_wire st @ [f])))"
  proof -
    have "ss_total st = int (length (concat (ss_wire st)))" using st unfolding streaming_def by blast
    moreover have "int (length body) = int (length (concat (ss_wire st))) + int (length f) + int (length rest)"
      unfolding body(1) by simp
    ultimately show ?thesis using bound by (subst wrap64_id) simp_all
  qed
  show "prefix (ss_wire st @ [f]) (events body)" by (simp add: body(2) prefix_def)
  show "int (length (concat (ss_wire st @ [f]))) \<le> max 0 (rt_MaxOutputBytes (cfg_Runtime c))"
    using total fits by simp
  show "streaming c proto body (after_frame env n f st) rest" if "\<not> co_Terminal (Observe f (ss_observer st))"
    using that st ok body total fits SawOutput_sticky by (auto simp: streaming_def)
  show "ends_stream proto f \<and> co_Complete (Observe f (ss_observer st))" if "co_Terminal (Observe f (ss_observer st))"
  proof -
    have "\<not> co_Terminal (ss_observer st)" using st unfolding streaming_def by blast
    moreover have "co_Protocol (ss_observer st) = proto" using st by (auto simp: streaming_def)
    ultimately show ?thesis using that Observe_ends [OF ok] by simp
  qed
qed

lemma observed_Error: "co_Error (fold Observe frames (new_observer proto)) \<in> set gateway_errors"
  using keeps_ok.observed_all [of "new_observer proto" frames] new_observer_ok [of proto]
  by (simp add: observer_ok_def)

lemma stream_loop_Frame:
  assumes "sse_Next (frame_limit c) (se_eof env) s = (Frame f, rest)"
    "wrap64 (ss_total st + int (length f)) \<le> rt_MaxOutputBytes (cfg_Runtime c)"
    "co_Error (Observe f (ss_observer st)) = ''''"
  shows "stream_loop c env n st s =
    (if snd (se_write env (length (ss_wire st))) \<or> se_flush env (length (ss_wire st))
     then (client_gone (Observe f (ss_observer st)), after_frame env n f st)
     else if co_Terminal (Observe f (ss_observer st)) then (ended (Observe f (ss_observer st)), after_frame env n f st)
     else stream_loop c env n (after_frame env n f st) rest)"
  using assms by (simp add: stream_loop.simps [of c env n st s] after_frame_def Let_def)

lemma stream_loop_done:
  assumes "streaming c proto body st s" "int (length body) < 2 ^ 63"
  shows "case stream_loop c env n st s of (r, st') \<Rightarrow> stream_done c proto body r st'"
  using assms(1)
proof (induction "length s" arbitrary: st s rule: less_induct)
  case less
  note st = less.prems
  have ob: "ss_observer st = fold Observe (ss_wire st) (new_observer proto)" using st by (simp add: streaming_def)
  obtain out rest where rd: "sse_Next (frame_limit c) (se_eof env) s = (out, rest)"
    by (cases "sse_Next (frame_limit c) (se_eof env) s")
  show ?case
  proof (cases out)
    case NextEOF
    with rd sse_Next_EOF [of "frame_limit c" "se_eof env" s rest] have "s = []" by simp
    moreover have "stream_loop c env n st s = ((ended (ss_observer st))\<lparr>er_UpstreamError :=
        if co_Complete (ss_observer st) then '''' else ''missing_completion''\<rparr>, st)"
      using rd NextEOF by (simp add: stream_loop.simps [of c env n st s])
    ultimately show ?thesis by (auto simp: gateway_errors_def intro!: stream_stop [OF st])
  next
    case (NextError e)
    with rd show ?thesis
      by (auto simp: stream_loop.simps [of c env n st s] gateway_errors_def intro!: stream_stop [OF st])
  next
    case (Frame f)
    note f = rd [unfolded Frame]
    let ?total = "wrap64 (ss_total st + int (length f))" and ?ob = "Observe f (ss_observer st)"
    consider (over) "?total > rt_MaxOutputBytes (cfg_Runtime c)"
      | (bad) "?total \<le> rt_MaxOutputBytes (cfg_Runtime c)" "co_Error ?ob \<noteq> ''''"
      | (good) "?total \<le> rt_MaxOutputBytes (cfg_Runtime c)" "co_Error ?ob = ''''" by linarith
    then show ?thesis
    proof cases
      case over
      with f show ?thesis
        by (auto simp: stream_loop.simps [of c env n st s] gateway_errors_def Let_def intro!: stream_stop [OF st])
    next
      case bad
      with f observed_Error [of "ss_wire st @ [f]" proto] show ?thesis
        by (auto simp: stream_loop.simps [of c env n st s] Let_def ob intro!: stream_stop [OF st])
    next
      case good
      note fr = after_frame_streaming [OF st f assms(2) good]
      have sent: "ss_observedOutput st \<or> co_SawOutput ?ob \<longleftrightarrow> co_SawOutput ?ob"
        using st SawOutput_sticky by (auto simp: streaming_def)
      have stop: "stream_done c proto body r (after_frame env n f st)"
        if "er_UpstreamError r = ''''" "Successful r \<longrightarrow> co_Terminal ?ob" for r
        using that fr(1,2,4) good(2) sent by (auto simp: stream_done_def ob gateway_errors_def)
      show ?thesis
        using less.hyps [OF sse_Next_shorter [OF f [symmetric]] fr(3)]
        unfolding stream_loop_Frame [OF f good] by (auto intro!: stop)
    qed
  qed
qed

lemma new_stream_streaming: "streaming c proto body (new_stream proto b s) body"
  by (simp add: streaming_def new_stream_def)

subsection \<open>The router under a stream\<close>

lemma after_frame_sys:
  "ss_sys (after_frame env n f st) =
     (if co_SawOutput (Observe f (ss_observer st)) \<and> \<not> ss_observedOutput st
      then tick (se_clock env (length (ss_wire st))) (FirstOutput n (se_clock env (length (ss_wire st))) (ss_sys st))
      else ss_sys st)"
  by (simp add: after_frame_def write_frame_def mark_output_def Let_def)

text \<open>The router changes at most once, by the \<open>FirstOutput\<close> of this lease.\<close>

definition sys_follows :: "stream_env \<Rightarrow> nat \<Rightarrow> stream_state \<Rightarrow> stream_state \<Rightarrow> bool" where
  "sys_follows env n st st' =
     (if ss_observedOutput st = ss_observedOutput st' then ss_sys st' = ss_sys st
      else ss_observedOutput st' \<and>
        (\<exists>k < length (ss_wire st'). ss_sys st' = tick (se_clock env k) (FirstOutput n (se_clock env k) (ss_sys st))))"

lemma after_frame_follows: "sys_follows env n st (after_frame env n f st)"
  by (auto simp: sys_follows_def after_frame_sys)

lemma sys_follows_trans:
  "sys_follows env n a b \<Longrightarrow> sys_follows env n b c \<Longrightarrow> prefix (ss_wire b) (ss_wire c) \<Longrightarrow> sys_follows env n a c"
  by (auto simp: sys_follows_def split: if_splits dest!: prefix_length_le intro: less_le_trans)

lemma stream_loop_follows:
  "case stream_loop c env n st s of (r, st') \<Rightarrow> prefix (ss_wire st) (ss_wire st') \<and> sys_follows env n st st'"
proof (induction "length s" arbitrary: st s rule: less_induct)
  case less
  obtain out rest where rd: "sse_Next (frame_limit c) (se_eof env) s = (out, rest)"
    by (cases "sse_Next (frame_limit c) (se_eof env) s")
  show ?case
  proof (cases out)
    case (Frame f)
    note f = rd [unfolded Frame]
    show ?thesis
    proof (cases "wrap64 (ss_total st + int (length f)) \<le> rt_MaxOutputBytes (cfg_Runtime c) \<and> co_Error (Observe f (ss_observer st)) = ''''")
      case True
      obtain r st' where lp: "stream_loop c env n (after_frame env n f st) rest = (r, st')"
        by (cases "stream_loop c env n (after_frame env n f st) rest")
      with less.hyps [OF sse_Next_shorter [OF f [symmetric]], of "after_frame env n f st"]
      have "prefix (ss_wire st) (ss_wire st')" "sys_follows env n st st'"
        using sys_follows_trans [OF after_frame_follows] by (auto intro: append_prefixD)
      with True lp show ?thesis
        unfolding stream_loop_Frame [OF f conjunct1 [OF True] conjunct2 [OF True]]
        by (simp add: after_frame_follows)
    next
      case False
      with f show ?thesis by (auto simp: stream_loop.simps [of c env n st s] Let_def sys_follows_def)
    qed
  qed (use rd in \<open>simp_all add: stream_loop.simps [of c env n st s] sys_follows_def\<close>)
qed

subsection \<open>The properties of a stream\<close>

text \<open>C25. What a client gets is whole events of the upstream's answer, in order and without gaps, at most
  \<open>MaxOutputBytes\<close> bytes of them; the answer counts as sent exactly when one was written; the error is
  one that redaction lets through; and a result is successful only if every event written was free of
  errors, the observer found the answer complete, and either the last event was the end marker or the
  client received the whole body.\<close>

theorem stream_forwards_events:
  assumes "int (length body) < 2 ^ 63"
  shows "case streamResponse c env proto n body b s of (r, st) \<Rightarrow>
    prefix (ss_wire st) (events body) \<and>
    int (length (concat (ss_wire st))) \<le> max 0 (rt_MaxOutputBytes (cfg_Runtime c)) \<and>
    ss_sent st = (ss_wire st \<noteq> []) \<and> er_UpstreamError r \<in> set gateway_errors \<and>
    (Successful r \<longrightarrow>
       co_Error (fold Observe (ss_wire st) (new_observer proto)) = '''' \<and>
       co_Complete (fold Observe (ss_wire st) (new_observer proto)) \<and>
       (list_ex (ends_stream proto) (ss_wire st) \<or> concat (ss_wire st) = body))"
  using stream_loop_done [OF new_stream_streaming [of c proto body b s] assms, of env n]
  by (auto simp: streamResponse_def stream_done_def split: prod.splits)

definition sample_env :: stream_env where
  "sample_env = \<lparr>se_eof = True, se_ctxErr = False, se_write = (\<lambda>k. (7, False)), se_flush = (\<lambda>k. False),
     se_clock = (\<lambda>k. 7)\<rparr>"

definition sample_body :: string where
  "sample_body = ''data:[DONE]'' @ [LF, LF]"

definition sample_stream :: "ExecutionResult \<times> stream_state" where
  "sample_stream = streamResponse sample_config sample_env ''chat'' 0 sample_body 0 sample_busy"

lemma sample_stream_success: "Successful (fst sample_stream) \<and> ss_wire (snd sample_stream) = [sample_body]"
proof -
  have "Successful (fst (streamResponse sample_config sample_env ''chat'' 0 sample_body 0 s)) \<and>
    ss_wire (snd (streamResponse sample_config sample_env ''chat'' 0 sample_body 0 s)) = [sample_body]" for s
    by code_simp
  then show ?thesis by (simp add: sample_stream_def)
qed

theorem stream_forwards_events_witness:
  "int (length sample_body) < 2 ^ 63 \<and> Successful (fst sample_stream) \<and>
   ss_wire (snd sample_stream) = [sample_body] \<and> prefix (ss_wire (snd sample_stream)) (events sample_body) \<and>
   (list_ex (ends_stream ''chat'') (ss_wire (snd sample_stream)) \<or> concat (ss_wire (snd sample_stream)) = sample_body)"
  using stream_forwards_events [where body = sample_body and c = sample_config and env = sample_env and
      proto = "''chat''" and n = 0 and b = 0 and s = sample_busy] sample_stream_success
  by (auto simp: sample_stream_def sample_body_def split: prod.splits)

text \<open>C26. A stream touches the router only through the first output of its lease: when an event that was
  written carried output, the first output was recorded once, at the time of one of these events, and
  otherwise nothing changed; the router stays in a reachable state either way.\<close>

theorem stream_first_output:
  assumes "reachable s" "n < length (sys_leases s)" "\<And>k. sys_now s \<le> se_clock env k" "int (length body) < 2 ^ 63"
  shows "case streamResponse c env proto n body b s of (r, st) \<Rightarrow>
    reachable (ss_sys st) \<and>
    (if co_SawOutput (fold Observe (ss_wire st) (new_observer proto))
     then \<exists>k < length (ss_wire st). ss_sys st = tick (se_clock env k) (FirstOutput n (se_clock env k) s)
     else ss_sys st = s)"
proof -
  obtain r st where lp: "stream_loop c env n (new_stream proto b s) body = (r, st)"
    by (cases "stream_loop c env n (new_stream proto b s) body")
  with stream_loop_done [OF new_stream_streaming [of c proto body b s] assms(4), of env n]
  have saw: "ss_observedOutput st = co_SawOutput (fold Observe (ss_wire st) (new_observer proto))"
    by (auto simp: stream_done_def split: prod.splits)
  have "sys_follows env n (new_stream proto b s) st"
    using stream_loop_follows [where c = c and env = env and n = n and st = "new_stream proto b s" and s = body] lp by simp
  then have fo: "if ss_observedOutput st
     then \<exists>k < length (ss_wire st). ss_sys st = tick (se_clock env k) (FirstOutput n (se_clock env k) s)
     else ss_sys st = s"
    by (auto simp: sys_follows_def new_stream_def split: if_splits)
  then have "reachable (ss_sys st)"
    using assms(1) reachable.step [OF assms(1) step.first_output [OF assms(2,3)]] by (auto split: if_splits)
  with fo show ?thesis by (simp add: streamResponse_def lp saw)
qed

theorem stream_first_output_witness:
  "reachable sample_busy \<and> 0 < length (sys_leases sample_busy) \<and> reachable (ss_sys (snd sample_stream)) \<and>
   (if co_SawOutput (fold Observe (ss_wire (snd sample_stream)) (new_observer ''chat''))
    then \<exists>k < length (ss_wire (snd sample_stream)).
      ss_sys (snd sample_stream) = tick (se_clock sample_env k) (FirstOutput 0 (se_clock sample_env k) sample_busy)
    else ss_sys (snd sample_stream) = sample_busy)"
proof -
  have n: "0 < length (sys_leases sample_busy)" by code_simp
  have now: "sys_now sample_busy \<le> se_clock sample_env k" for k
    by (simp add: sample_busy_def sample_env_def)
  show ?thesis
    using stream_first_output [OF sample_reachable(2) n now, where body = sample_body and c = sample_config and
      proto = "''chat''" and b = 0] sample_reachable(2) n
    by (simp add: sample_stream_def sample_body_def split: prod.splits)
qed

end
