(* ===== verification/Generate.thy ===== *)
theory Generate
  imports StreamResponse RequestScan
begin

section \<open>The request handler\<close>

text \<open>
  \<open>generate\<close> of \<open>internal/api/server.go\<close> with \<open>endpoint\<close>, \<open>reserve\<close>, \<open>readIngressBody\<close> and
  \<open>statusToClient\<close>. The handler runs concurrently with all others and shares with them the counters of
  the server; what it does to them is a log of effects in program order, with the deferred functions
  at the places where they run, after an abort too. The values it reads from the surroundings are
  inputs: the counter that the \<open>k\<close>-th reservation saw, the results of reads and writes, the response
  of \<open>acquireResponse\<close> to the query, and whether the context was done. Deadlines act only through
  failing reads and writes; the text that \<open>fail\<close> sends is the one before \<open>publicError\<close> cleans it.
\<close>

datatype effect =
    Requests | Rejected | StreamErrors
  | EnterIngress | LeaveIngress
  | Buffered int
  | SetHeader string string
  | Respond int string
  | WriteHeader int
  | Wrote nat
  | Record ExecutionResult
  | ReleaseLease int time
  | Abort

subsection \<open>Endpoints\<close>

definition gemini_endpoint :: "string \<Rightarrow> string \<times> string \<times> bool" where
  "gemini_endpoint v =
     (if HasSuffix v '':generateContent'' then (''gemini'', TrimSuffix v '':generateContent'', False)
      else if HasSuffix v '':streamGenerateContent'' then (''gemini'', TrimSuffix v '':streamGenerateContent'', True)
      else ('''', '''', False))"

definition endpoint :: "string \<Rightarrow> string \<times> string \<times> bool" where
  "endpoint path =
     (if path = ''/v1/chat/completions'' then (''chat'', '''', False)
      else if path = ''/v1/responses'' then (''responses'', '''', False)
      else if path = ''/v1/messages'' then (''messages'', '''', False)
      else if HasPrefix path ''/v1beta/models/'' then gemini_endpoint (TrimPrefix path ''/v1beta/models/'')
      else ('''', '''', False))"

text \<open>\<open>reserve\<close> when the counter it finally replaced held \<open>v\<close>.\<close>

definition reserve :: "Config \<Rightarrow> int \<Rightarrow> int \<Rightarrow> bool" where
  "reserve c v n = (\<not> n > rt_MaxBufferedBytes (cfg_Runtime c) - v)"

subsection \<open>Reading the body\<close>

datatype ingress_error = ReadOK | ReadEOF | ReadUnexpectedEOF | ReadNoProgress | ReadFailed

text \<open>The \<open>k\<close>-th call of \<open>Read\<close> with room for so many bytes: the bytes and the error.\<close>

type_synonym reader = "nat \<Rightarrow> nat \<Rightarrow> string \<times> ingress_error"

text \<open>
  The loop over a chunked body: the body so far, its capacity and the number of empty reads in a row.
  \<open>None\<close> would be a loop that never ends.
\<close>

partial_function (option) chunk_loop ::
  "reader \<Rightarrow> nat \<Rightarrow> nat \<Rightarrow> string \<Rightarrow> nat \<Rightarrow> nat \<Rightarrow> (string \<times> nat \<times> ingress_error) option" where
  "chunk_loop read limit k body capacity emptyReads =
     (if length body < limit then
        (let cap' = (if length body = capacity then min (capacity * 2) limit else capacity) in
         case read k (cap' - length body) of (bs, err) \<Rightarrow>
           (let body' = body @ bs in
            if err = ReadEOF then Some (body', cap', ReadOK)
            else if err \<noteq> ReadOK then Some (body', cap', err)
            else if bs = [] then
              (if emptyReads + 1 = 100 then Some (body', cap', ReadNoProgress)
               else chunk_loop read limit (k + 1) body' cap' (emptyReads + 1))
            else chunk_loop read limit (k + 1) body' cap' 0))
      else Some (body, capacity, ReadOK))"

text \<open>\<open>io.ReadFull\<close> over \<open>io.LimitReader\<close>, both for \<open>want\<close> bytes.\<close>

partial_function (option) read_full ::
  "reader \<Rightarrow> nat \<Rightarrow> nat \<Rightarrow> string \<Rightarrow> (string \<times> ingress_error) option" where
  "read_full read want k body =
     (if want \<le> length body then Some (body, ReadOK)
      else
        (case read k (want - length body) of (bs, err) \<Rightarrow>
           if err = ReadOK then read_full read want (k + 1) (body @ bs)
           else if want \<le> length (body @ bs) then Some (body @ bs, ReadOK)
           else if body @ bs \<noteq> [] \<and> err = ReadEOF then Some (body @ bs, ReadUnexpectedEOF)
           else Some (body @ bs, err)))"

definition readIngressBody :: "reader \<Rightarrow> int \<Rightarrow> bool \<Rightarrow> (string \<times> nat \<times> ingress_error) option" where
  "readIngressBody read sz chunked =
     (let limit = nat (sz + 1) in
      if chunked then chunk_loop read limit 0 [] (min 4096 limit) 0
      else map_option (\<lambda>(body, e). (body, limit, e)) (read_full read limit 0 []))"


subsection \<open>The inputs of a request\<close>

text \<open>
  A response of the upstream: \<open>rs_reads\<close> are the results of reading its body, after which the reader is
  at its end; a streamed body is given as its bytes, with what \<open>streamResponse\<close> needs beside them.
\<close>

record response =
  rs_status :: int
  rs_cooldown :: time
  rs_header :: "string \<Rightarrow> string"
  rs_reads :: "(string \<times> ingress_error) list"
  rs_write :: "nat \<Rightarrow> nat \<times> bool"
  rs_body :: string
  rs_env :: stream_env
  rs_lease :: nat
  rs_sys :: sys

datatype acquired_response =
    NoLease string
  | Leased nat "(int option, response) sum"

record request_env =
  rq_ingressFree :: bool
  rq_ContentLength :: int
  rq_read :: reader
  rq_buffered :: "nat \<Rightarrow> int"
  rq_session :: string
  rq_affinity :: string
  rq_acquire :: "Query \<Rightarrow> bool \<Rightarrow> acquired_response"
  rq_ctxAtError :: bool
  rq_ctxAtEnd :: bool

subsection \<open>The deferred record and release\<close>

record usage_capture =
  uc_bytes :: string
  uc_complete :: bool
  uc_reserved :: int

definition no_capture :: usage_capture where
  "no_capture = \<lparr>uc_bytes = [], uc_complete = True, uc_reserved = 0\<rparr>"

definition final_result :: "request_env \<Rightarrow> string \<Rightarrow> int \<Rightarrow> bool \<Rightarrow> usage_capture \<Rightarrow> ExecutionResult" where
  "final_result env proto status errored cap =
     (let r0 = zero_ExecutionResult\<lparr>er_UpstreamStatus := status\<rparr>;
          r1 = (if rq_ctxAtEnd env then r0\<lparr>er_ClientCanceled := True, er_UpstreamError := ''client_canceled''\<rparr>
                else if errored then r0\<lparr>er_UpstreamError := ''transport_or_adapter_error''\<rparr>
                else if status < 200 \<or> status \<ge> 300 then r0\<lparr>er_UpstreamError := ''upstream_rejected''\<rparr>
                else r0\<lparr>er_TransportOK := True, er_ProtocolComplete := True\<rparr>)
      in if uc_complete cap \<and> uc_bytes cap \<noteq> [] then recordUsage (ObserveJSON (uc_bytes cap) (new_observer proto)) r1 else r1)"

definition deferred :: "request_env \<Rightarrow> string \<Rightarrow> bool \<Rightarrow> int \<Rightarrow> time \<Rightarrow> bool \<Rightarrow> usage_capture \<Rightarrow> effect list" where
  "deferred env proto recorded status cooldown errored cap =
     (if recorded then [] else [Record (final_result env proto status errored cap)]) @
     (if uc_reserved cap > 0 then [Buffered (- uc_reserved cap)] else []) @
     [ReleaseLease status cooldown]"

subsection \<open>Copying a plain answer\<close>

record copied =
  cp_log :: "effect list"
  cp_status :: int
  cp_capture :: usage_capture

definition capture_chunk :: "Config \<Rightarrow> request_env \<Rightarrow> nat \<Rightarrow> string \<Rightarrow> usage_capture \<Rightarrow> effect list \<times> usage_capture" where
  "capture_chunk c env k bs cap =
     (if uc_complete cap then
        (if int (length (uc_bytes cap)) + int (length bs) > min (rt_MaxOutputBytes (cfg_Runtime c)) (2 ^ 20) \<or>
            \<not> reserve c (rq_buffered env k) (int (length bs))
         then ([], cap\<lparr>uc_complete := False\<rparr>)
         else ([Buffered (int (length bs))],
               cap\<lparr>uc_bytes := uc_bytes cap @ bs, uc_reserved := uc_reserved cap + int (length bs)\<rparr>))
      else ([], cap))"

text \<open>The loop: \<open>k\<close> counts the reads that returned bytes.\<close>

fun copy_loop ::
  "Config \<Rightarrow> request_env \<Rightarrow> response \<Rightarrow> (string \<times> ingress_error) list \<Rightarrow> nat \<Rightarrow> int \<Rightarrow> int \<Rightarrow> usage_capture \<Rightarrow> copied" where
  "copy_loop c env rs [] k sofar status cap = \<lparr>cp_log = [], cp_status = status, cp_capture = cap\<rparr>"
| "copy_loop c env rs ((bs, err) # reads) k sofar status cap =
     (let total' = wrap64 (sofar + int (length bs)) in
      if bs \<noteq> [] \<and> total' > rt_MaxOutputBytes (cfg_Runtime c)
      then \<lparr>cp_log = [StreamErrors, Abort], cp_status = 502, cp_capture = cap\<rparr>
      else
        (let (effs, cap', k') =
           (if bs = [] then ([], cap, k)
            else (case capture_chunk c env (k + 2) bs cap of (l, cp) \<Rightarrow> (Wrote (fst (rs_write rs k)) # l, cp, k + 1)))
         in if bs \<noteq> [] \<and> snd (rs_write rs k) then \<lparr>cp_log = effs, cp_status = 499, cp_capture = cap'\<rparr>
            else if err = ReadOK then
              (let r = copy_loop c env rs reads k' total' status cap' in r\<lparr>cp_log := effs @ cp_log r\<rparr>)
            else if err \<noteq> ReadEOF then \<lparr>cp_log = effs @ [StreamErrors, Abort], cp_status = 502, cp_capture = cap'\<rparr>
            else \<lparr>cp_log = effs, cp_status = status, cp_capture = cap'\<rparr>))"

subsection \<open>The handler\<close>




definition respond_plain :: "Config \<Rightarrow> request_env \<Rightarrow> string \<Rightarrow> response \<Rightarrow> effect list" where
  "respond_plain c env proto rs =
     (let r = copy_loop c env rs (rs_reads rs) 0 0 (rs_status rs) no_capture in
      WriteHeader (rs_status rs) # cp_log r @
      deferred env proto False (cp_status r) (rs_cooldown rs) False (cp_capture r))"











subsection \<open>Reading ends\<close>

text \<open>What \<open>io.Reader\<close> documents: a read returns at most as many bytes as there is room.\<close>

definition reader_ok :: "reader \<Rightarrow> bool" where
  "reader_ok read = (\<forall>k room. length (fst (read k room)) \<le> room)"

lemma chunk_loop_ends:
  assumes "reader_ok read" "emptyReads < 100" "length body \<le> capacity" "capacity \<le> limit" "0 < capacity"
  shows "\<exists>b cp e. chunk_loop read limit k body capacity emptyReads = Some (b, cp, e) \<and>
    length b \<le> cp \<and> cp \<le> limit \<and> prefix body b"
  using assms(2-)
proof (induction "100 * (limit - length body) + (100 - emptyReads)" arbitrary: k body capacity emptyReads rule: less_induct)
  case less
  define cp where "cp = (if length body = capacity then min (capacity * 2) limit else capacity)"
  obtain bs err where rd: "read k (cp - length body) = (bs, err)" by (cases "read k (cp - length body)")
  note loop = chunk_loop.simps [of read limit k body capacity emptyReads, folded cp_def, unfolded Let_def rd prod.case]
  show ?case
  proof (cases "length body < limit")
    case True
    have cp: "length body \<le> cp" "cp \<le> limit" "0 < cp" using less.prems True by (auto simp: cp_def)
    have bs: "length (body @ bs) \<le> cp"
      using assms(1) rd cp(1) unfolding reader_ok_def by (metis fst_conv length_append le_diff_conv2 add.commute)
    have IH: "\<exists>b cp' e. chunk_loop read limit (k + 1) (body @ bs) cp em = Some (b, cp', e) \<and>
        length b \<le> cp' \<and> cp' \<le> limit \<and> prefix (body @ bs) b"
      if "em < 100" "100 * (limit - length (body @ bs)) + (100 - em) < 100 * (limit - length body) + (100 - emptyReads)" for em
      by (rule less.hyps [OF that(2,1) bs cp(2,3)])
    have progress: "100 * (limit - length (body @ bs)) + (100 - 0) < 100 * (limit - length body) + (100 - emptyReads)"
      if "bs \<noteq> []"
      using that True less.prems(1) by (cases bs) auto
    show ?thesis
      using True IH [of "emptyReads + 1"] IH [OF _ progress] bs cp less.prems(1)
      by (auto simp: loop split: if_splits intro: append_prefixD)
  next
    case False
    with less.prems show ?thesis by (simp add: loop)
  qed
qed

lemma read_full_bounded:
  assumes "read_full read want k body = Some r" "reader_ok read" "length body \<le> want"
  shows "length (fst r) \<le> want"
proof -
  have "reader_ok read \<longrightarrow> length body \<le> want \<longrightarrow> length (fst r) \<le> want"
  proof (rule read_full.raw_induct [OF _ assms(1),
        where P = "\<lambda>read want k body r. reader_ok read \<longrightarrow> length body \<le> want \<longrightarrow> length (fst r) \<le> want"], intro impI)
    fix full read want k body r
    assume IH: "\<And>read want k body r. full read want k body = Some r \<Longrightarrow>
        reader_ok read \<longrightarrow> length body \<le> want \<longrightarrow> length (fst r) \<le> want"
      and eq: "(if want \<le> length body then Some (body, ReadOK)
          else case read k (want - length body) of (bs, err) \<Rightarrow>
             if err = ReadOK then full read want (k + 1) (body @ bs)
             else if want \<le> length (body @ bs) then Some (body @ bs, ReadOK)
             else if body @ bs \<noteq> [] \<and> err = ReadEOF then Some (body @ bs, ReadUnexpectedEOF)
             else Some (body @ bs, err)) = Some r"
      and ok: "reader_ok read" "length body \<le> want"
    obtain bs err where rd: "read k (want - length body) = (bs, err)" by (cases "read k (want - length body)")
    have "length (body @ bs) \<le> want"
      using ok rd unfolding reader_ok_def by (metis fst_conv length_append le_diff_conv2 add.commute)
    with eq IH [of read want "k + 1" "body @ bs" r] ok show "length (fst r) \<le> want"
      by (auto simp: rd split: if_splits)
  qed
  with assms show ?thesis by blast
qed

lemma ingress_body_fits:
  assumes "reader_ok read" "0 \<le> sz" "readIngressBody read sz chunked = Some (body, capacity, e)"
  shows "int capacity + int (length body) \<le> 2 * (sz + 1)"
proof -
  have limit: "0 < nat (sz + 1)" using assms(2) by simp
  have "length body \<le> capacity \<and> capacity \<le> nat (sz + 1)"
  proof (cases chunked)
    case True
    then show ?thesis
      using chunk_loop_ends [OF assms(1), of 0 "[]" "min 4096 (nat (sz + 1))" "nat (sz + 1)" 0] assms(3) limit
      by (auto simp: readIngressBody_def Let_def)
  next
    case False
    then show ?thesis
      using read_full_bounded [OF _ assms(1), of "nat (sz + 1)" 0 "[]"] assms(3) by (auto simp: readIngressBody_def Let_def)
  qed
  then have "int (length body) \<le> int capacity" "int capacity \<le> sz + 1" using assms(2) by (simp_all add: le_nat_iff)
  then show ?thesis by simp
qed

subsection \<open>Effects\<close>

fun delta :: "effect \<Rightarrow> int" where
  "delta (Buffered n) = n"
| "delta e = 0"

definition net :: "effect list \<Rightarrow> int" where
  "net effs = sum_list (map delta effs)"

fun stays_nonneg :: "int \<Rightarrow> effect list \<Rightarrow> bool" where
  "stays_nonneg v [] = (0 \<le> v)"
| "stays_nonneg v (e # es) = (0 \<le> v \<and> stays_nonneg (v + delta e) es)"

fun lease_effect :: "effect \<Rightarrow> bool" where
  "lease_effect (Record r) = True"
| "lease_effect (ReleaseLease st cd) = True"
| "lease_effect e = False"

fun ingress_effect :: "effect \<Rightarrow> bool" where
  "ingress_effect EnterIngress = True"
| "ingress_effect LeaveIngress = True"
| "ingress_effect e = False"


definition granted_reserves :: "Config \<Rightarrow> request_env \<Rightarrow> effect list \<Rightarrow> bool" where
  "granted_reserves c env effs =
     (\<forall>n. Buffered n \<in> set effs \<and> 0 < n \<longrightarrow> (\<exists>k. rq_buffered env k + n \<le> rt_MaxBufferedBytes (cfg_Runtime c)))"

text \<open>From a reservation \<open>v\<close> to a reservation \<open>v'\<close>.\<close>

definition settles :: "Config \<Rightarrow> request_env \<Rightarrow> int \<Rightarrow> effect list \<Rightarrow> int \<Rightarrow> bool" where
  "settles c env v effs v' =
     (stays_nonneg v effs \<and> v + net effs = v' \<and> granted_reserves c env effs \<and> filter ingress_effect effs = [])"

lemma net_simps [simp]: "net [] = 0" "net (e # es) = delta e + net es" "net (xs @ ys) = net xs + net ys"
  by (simp_all add: net_def)




lemma settles_Nil [simp]: "settles c env v [] v' = (0 \<le> v \<and> v' = v)"
  by (auto simp: settles_def granted_reserves_def)




subsection \<open>Every part settles\<close>


lemma no_capture_simps [simp]: "uc_reserved no_capture = 0"
  by (simp add: no_capture_def)









lemma deferred_lease [simp]:
  "filter lease_effect (deferred env proto recorded status cooldown errored cap) =
     (if recorded then [] else [Record (final_result env proto status errored cap)]) @ [ReleaseLease status cooldown]"
  by (simp add: deferred_def)














subsection \<open>The properties of the handler\<close>

text \<open>C24. A chunked upload cannot hold the handler in its read loop: whatever sequence of reads it answers,
  also one that never delivers a byte and never ends, the loop returns, with at most one byte more than
  the limit, and the memory it then holds is within what was reserved for it.\<close>

theorem chunked_upload_ends:
  assumes "reader_ok read" "0 \<le> sz"
  shows "\<exists>body capacity e. readIngressBody read sz True = Some (body, capacity, e) \<and>
    int (length body) \<le> sz + 1 \<and> int capacity + int (length body) + 8192 \<le> 2 * (sz + 1) + 8192"
proof -
  have "0 < nat (sz + 1)" using assms(2) by simp
  then obtain body capacity e where r: "readIngressBody read sz True = Some (body, capacity, e)"
    "length body \<le> capacity" "capacity \<le> nat (sz + 1)"
    using chunk_loop_ends [OF assms(1), of 0 "[]" "min 4096 (nat (sz + 1))" "nat (sz + 1)" 0]
    by (auto simp: readIngressBody_def Let_def)
  then have "int (length body) \<le> sz + 1" using assms(2) by linarith
  with r(1) ingress_body_fits [OF assms r(1)] show ?thesis by auto
qed

theorem chunked_upload_ends_witness:
  "reader_ok (\<lambda>k room. ([], ReadOK)) \<and>
   (\<exists>body capacity e. readIngressBody (\<lambda>k room. ([], ReadOK)) 9 True = Some (body, capacity, e) \<and> int (length body) \<le> 10)"
proof -
  have ok: "reader_ok (\<lambda>k room. ([], ReadOK))" by (simp add: reader_ok_def)
  with chunked_upload_ends [OF ok, of 9] show ?thesis by auto
qed









subsection \<open>How a canceled request is recorded\<close>

text \<open>
  A request whose context is done is recorded with an error that the redaction does not know and
  replaces by \<open>upstream_error\<close>.
\<close>

lemma canceled_recorded_as_upstream_error:
  assumes "rq_ctxAtEnd env"
  shows "er_UpstreamError (final_result env proto status errored cap) = ''client_canceled'' \<and>
    er_UpstreamError (Redacted (final_result env proto status errored cap)) = ''upstream_error''"
  using assms
  by (simp add: final_result_def Let_def recordUsage_def Redacted_def gateway_errors_def zero_ExecutionResult_def)

text \<open>
  A client that goes away while a plain answer is copied, before its context is done, is recorded as a
  rejection by the upstream; the same event in a stream is recorded as canceled by the client.
\<close>

lemma plain_disconnect_recorded_as_rejection:
  assumes "\<not> rq_ctxAtEnd env" "rs_reads rs = (bs, e) # reads" "bs \<noteq> []" "snd (rs_write rs 0)"
    "int (length bs) \<le> rt_MaxOutputBytes (cfg_Runtime c)" "int (length bs) < 2 ^ 63"
  shows "\<exists>r. Record r \<in> set (respond_plain c env proto rs) \<and>
    er_UpstreamError r = ''upstream_rejected'' \<and> \<not> er_ClientCanceled r"
proof -
  define cp where "cp = copy_loop c env rs (rs_reads rs) 0 0 (rs_status rs) no_capture"
  have st: "cp_status cp = 499"
    using assms by (simp add: cp_def wrap64_id split: prod.split)
  have "Record (final_result env proto 499 False (cp_capture cp)) \<in> set (respond_plain c env proto rs)"
    by (simp add: respond_plain_def Let_def cp_def [symmetric] deferred_def st)
  moreover have "er_UpstreamError (final_result env proto 499 False (cp_capture cp)) = ''upstream_rejected'' \<and>
      \<not> er_ClientCanceled (final_result env proto 499 False (cp_capture cp))"
    using assms(1) by (simp add: final_result_def Let_def recordUsage_def zero_ExecutionResult_def)
  ultimately show ?thesis by blast
qed

end
