(* ===== verification/FileStore.thy ===== *)
theory FileStore
  imports ConfigService
begin

section \<open>Stores that live in memory and in one file\<close>

text \<open>
  The configuration journal, the evidence history, the credential vault and the browser sessions all
  replace their file the same way: create the directory, write a temporary file beside the target,
  sync and close it, rename it over the target, and remove the temporary name whatever happened. The
  functions differ in their error texts and in whether a failing \<open>Chmod\<close> counts. \<open>replace_file\<close> is that
  sequence of system calls with those two points as arguments. The outcome of every system call is an
  input (\<open>io\<close>), and the states the file system passes through are the result, the last one first.

  Two locales state what the stores rely on. \<open>file_replacement\<close> is the contract of the write:
  at every moment the file has its old or its new content, and the error says which.
  \<open>durable_store\<close> adds a codec and shows that memory and file agree after every update, failed or not.
\<close>

record write_errors =
  we_Mkdir :: string
  we_Temp :: string
  we_Write :: string
  we_Commit :: string

definition replace_file :: "write_errors \<Rightarrow> bool \<Rightarrow> string \<Rightarrow> string \<Rightarrow> io \<Rightarrow> fs \<Rightarrow> check \<times> fs list" where
  "replace_file we chmod_counts path b os fs0 =
     (if \<not> io_MkdirAll os then (Some (we_Mkdir we), [fs0])
      else (case io_CreateTemp os of
              None \<Rightarrow> (Some (we_Temp we), [fs0])
            | Some name \<Rightarrow>
                (let writes = (io_Chmod os \<or> \<not> chmod_counts);
                     fs1 = fs0(name \<mapsto> '''');
                     fs2 = (if writes
                            then fs1(name \<mapsto> (case io_Copy os of None \<Rightarrow> b | Some n \<Rightarrow> take n b)) else fs1);
                     err = (\<not> writes \<or> io_Copy os \<noteq> None \<or> \<not> io_Sync os)
                 in if err \<or> \<not> io_Close os
                    then (Some (we_Write we), [fs2(name := None), fs2, fs1, fs0])
                    else if \<not> io_Rename os
                    then (Some (we_Commit we), [fs2(name := None), fs2, fs1, fs0])
                    else (let fs3 = (fs2(name := None))(path \<mapsto> b)
                          in (None, [fs3(name := None), fs3, fs2, fs1, fs0])))))"

text \<open>
  A store encodes its next contents, replaces its file, and takes the contents over in memory only
  when the file was replaced. The encoder includes the limits the store puts on the encoded size.
\<close>

definition persist :: "(string \<Rightarrow> io \<Rightarrow> fs \<Rightarrow> check \<times> fs list) \<Rightarrow> ('m \<Rightarrow> string result) \<Rightarrow> io \<Rightarrow> fs \<Rightarrow> 'm \<Rightarrow> 'm
    \<Rightarrow> check \<times> 'm \<times> fs list" where
  "persist wr enc os fs old new =
     (case enc new of
        Inl e \<Rightarrow> (Some e, old, [fs])
      | Inr b \<Rightarrow> (case wr b os fs of
                    (Some e, trace) \<Rightarrow> (Some e, old, trace)
                  | (None, trace) \<Rightarrow> (None, new, trace)))"

subsection \<open>The contract of the write\<close>

locale file_replacement =
  fixes wr :: "string \<Rightarrow> string \<Rightarrow> io \<Rightarrow> fs \<Rightarrow> check \<times> fs list"
  assumes write_states: "io_CreateTemp os \<noteq> Some path \<Longrightarrow> wr path b os fs = (err, trace) \<Longrightarrow>
      trace \<noteq> [] \<and> (\<forall>f \<in> set trace. f path = fs path \<or> f path = Some b) \<and>
      hd trace path = (if err = None then Some b else fs path)"
    and write_frame: "wr path b os fs = (err, trace) \<Longrightarrow> q \<noteq> path \<Longrightarrow> io_CreateTemp os \<noteq> Some q \<Longrightarrow>
      (\<forall>f \<in> set trace. f q = fs q)"
    and write_good: "io_good os \<Longrightarrow> fst (wr path b os fs) = None"
begin

lemma persist_states:
  assumes "io_CreateTemp os \<noteq> Some path" "persist (wr path) enc os fs old new = (err, m, trace)"
  shows "trace \<noteq> [] \<and>
    (if err = None then m = new \<and> (\<exists>b. enc new = Inr b \<and> hd trace path = Some b)
     else m = old \<and> hd trace path = fs path) \<and>
    (\<forall>f \<in> set trace. f path = fs path \<or> (\<exists>b. enc new = Inr b \<and> f path = Some b))"
proof (cases "enc new")
  case (Inl e)
  then show ?thesis using assms(2) by (auto simp: persist_def)
next
  case (Inr b)
  obtain e tr where w: "wr path b os fs = (e, tr)" by fastforce
  have "m = (if e = None then new else old)" "err = e" "trace = tr"
    using assms(2) Inr w by (auto simp: persist_def split: option.splits)
  with write_states [OF assms(1) w] Inr show ?thesis by (cases e) auto
qed

lemma persist_frame:
  assumes "persist (wr path) enc os fs old new = (err, m, trace)" "q \<noteq> path" "io_CreateTemp os \<noteq> Some q"
  shows "\<forall>f \<in> set trace. f q = fs q"
proof (cases "enc new")
  case (Inl e)
  then show ?thesis using assms(1) by (auto simp: persist_def)
next
  case (Inr b)
  obtain e tr where w: "wr path b os fs = (e, tr)" by fastforce
  moreover have "trace = tr" using assms(1) Inr w by (auto simp: persist_def split: option.splits)
  ultimately show ?thesis using write_frame [OF w assms(2,3)] by simp
qed

lemma persist_good:
  assumes "io_good os" "enc new = Inr b"
  shows "\<exists>trace. persist (wr path) enc os fs old new = (None, new, trace)"
proof -
  obtain tr where "wr path b os fs = (None, tr)" using write_good [OF assms(1)] by (metis prod.collapse)
  then show ?thesis by (simp add: persist_def assms(2))
qed

end

lemma replace_file_contract: "file_replacement (replace_file we c)"
proof
  fix os path b fs err trace
  assume temp: "io_CreateTemp os \<noteq> Some path" and w: "replace_file we c path b os fs = (err, trace)"
  show "trace \<noteq> [] \<and> (\<forall>f \<in> set trace. f path = fs path \<or> f path = Some b) \<and>
      hd trace path = (if err = None then Some b else fs path)"
  proof (cases "io_CreateTemp os")
    case None
    then show ?thesis using w by (auto simp: replace_file_def split: if_splits)
  next
    case (Some name)
    then have "name \<noteq> path" using temp by auto
    then show ?thesis using w Some by (auto simp: replace_file_def Let_def split: if_splits)
  qed
next
  fix path b os fs err trace q
  assume w: "replace_file we c path b os fs = (err, trace)" and "q \<noteq> path" "io_CreateTemp os \<noteq> Some q"
  then show "\<forall>f \<in> set trace. f q = fs q"
    by (cases "io_CreateTemp os") (auto simp: replace_file_def Let_def split: if_splits)
next
  fix os path b fs
  assume "io_good os"
  then show "fst (replace_file we c path b os fs) = None"
    by (auto simp: io_good_def replace_file_def Let_def)
qed

text \<open>The journal of the configuration service is written by the same sequence of calls.\<close>

definition config_errors :: write_errors where
  "config_errors = \<lparr>we_Mkdir = ''cannot create configuration directory'',
     we_Temp = ''cannot start configuration transaction'',
     we_Write = ''cannot write configuration transaction'',
     we_Commit = ''cannot commit configuration transaction''\<rparr>"

lemma atomicWrite_replaces: "atomicWrite = replace_file config_errors True"
  unfolding atomicWrite_def replace_file_def config_errors_def write_errors.simps by (simp add: fun_eq_iff Let_def split: option.split)

interpretation config_file: file_replacement atomicWrite
  unfolding atomicWrite_replaces by (rule replace_file_contract)

subsection \<open>Stores with a codec\<close>

text \<open>
  \<open>blank\<close> is what a store holds without a file. The encoder may refuse; what it produces is read back as
  contents that are the same as far as the store is concerned (\<open>same\<close>): equal, equal as a map, or equal
  up to what is kept in memory only.
\<close>

definition read_back :: "(string \<Rightarrow> 'm result) \<Rightarrow> 'm \<Rightarrow> string \<Rightarrow> fs \<Rightarrow> 'm result" where
  "read_back dec blank path fs = (case fs path of None \<Rightarrow> Inr blank | Some b \<Rightarrow> dec b)"

definition on_disk :: "(string \<Rightarrow> 'm result) \<Rightarrow> 'm \<Rightarrow> ('m \<Rightarrow> 'm \<Rightarrow> bool) \<Rightarrow> string \<Rightarrow> fs \<Rightarrow> 'm \<Rightarrow> bool" where
  "on_disk dec blank same path fs m \<longleftrightarrow> (\<exists>m'. read_back dec blank path fs = Inr m' \<and> same m' m)"

locale durable_store = file_replacement wr
  for wr :: "string \<Rightarrow> string \<Rightarrow> io \<Rightarrow> fs \<Rightarrow> check \<times> fs list" +
  fixes enc :: "'m \<Rightarrow> string result" and dec :: "string \<Rightarrow> 'm result" and ok :: "'m \<Rightarrow> bool"
    and same :: "'m \<Rightarrow> 'm \<Rightarrow> bool"
  assumes codec: "ok m \<Longrightarrow> enc m = Inr b \<Longrightarrow> \<exists>m'. dec b = Inr m' \<and> same m' m"
begin

lemma persist_agrees:
  assumes "on_disk dec blank same path fs old" "ok new" "io_CreateTemp os \<noteq> Some path"
    "persist (wr path) enc os fs old new = (err, m, trace)"
  shows "on_disk dec blank same path (hd trace) m \<and>
    (\<forall>f \<in> set trace. on_disk dec blank same path f old \<or> on_disk dec blank same path f new)"
proof -
  note st = persist_states [OF assms(3,4)]
  have new: "on_disk dec blank same path f new" if "enc new = Inr b" "f path = Some b" for f b
    using that codec [OF assms(2)] by (simp add: on_disk_def read_back_def)
  have old: "on_disk dec blank same path f old" if "f path = fs path" for f
    using that assms(1) by (simp add: on_disk_def read_back_def)
  show ?thesis using st new old by (auto split: if_splits)
qed

end

end
