(* ===== verification/Vault.thy ===== *)
theory Vault
  imports FileStore
begin

section \<open>The credential vault\<close>

text \<open>
  \<open>internal/credentials/store.go\<close>, \<open>oauth.go\<close> and \<open>external.go\<close>, and the ownership operations of
  \<open>accounts.go\<close>: the encrypted map from references to records, with versions, tombstones, the refresh of
  OAuth grants and references to external managers.

  The records are an association list (the code ranges over the map). The functions of
  \<open>encoding/json\<close> and the platform's protection are the fields of \<open>vault_codec\<close>. Operations that give
  the lock away in the middle are modelled as the parts between: \<open>refresh_begin\<close> and
  \<open>refresh_finish\<close> around the request to the token endpoint, \<open>resolve_begin\<close>, \<open>resolve_external\<close> and
  \<open>resolve_end\<close> around the call of an external manager, so every interleaving of other operations fits
  in between. The answers of the token endpoint and of the manager are arguments.
\<close>

subsection \<open>Records\<close>

record ExternalReference =
  xr_Manager :: string
  xr_Reference :: string
  xr_Field :: string

record OAuthGrant =
  og_AccessToken :: string
  og_RefreshToken :: string
  og_TokenURL :: string
  og_ClientID :: string
  og_ClientSecret :: string
  og_ExpiresAt :: time
  og_Scope :: string
  og_AccountID :: string

record OAuthMetadata =
  om_ExpiresAt :: time
  om_Scope :: string
  om_AccountID :: string
  om_AutomaticRefresh :: bool

record Metadata =
  md_External :: "ExternalReference option"
  md_OAuthInfo :: "OAuthMetadata option"
  md_State :: string
  md_Version :: u64
  md_ID :: string
  md_Kind :: string
  md_Source :: string
  md_Domain :: string
  md_CreatedAt :: time
  md_UpdatedAt :: time
  md_LastUsedAt :: "time option"

record vault_record =
  vr_Metadata :: Metadata
  vr_Revoked :: bool
  vr_Value :: string
  vr_OAuth :: "OAuthGrant option"
  vr_ImportURL :: string

record AccountOwner =
  ow_Account :: string
  ow_Provider :: string

record accountBundle =
  ab_Provider :: string
  ab_Materials :: "(string \<times> vault_record) list"

record accountDocument =
  ad_Format :: int
  ad_Accounts :: "(string \<times> accountBundle) list"

type_synonym records = "(string \<times> vault_record) list"
type_synonym owners = "string \<Rightarrow> AccountOwner list"

record vault =
  va_accountOwners :: "owners option"
  va_refreshes :: "string \<Rightarrow> bool"
  va_refreshBackoff :: "string \<Rightarrow> time"
  va_path :: string
  va_records :: records
  va_lastUsed :: "string \<Rightarrow> time option"

record vault_codec =
  vj_Marshal :: "records \<Rightarrow> string result"
  vj_Unmarshal :: "string \<Rightarrow> records option"
  vj_MarshalDoc :: "accountDocument \<Rightarrow> string result"
  vj_UnmarshalDoc :: "string \<Rightarrow> accountDocument option"
  vj_Login :: "string \<Rightarrow> (string \<times> string) option"
  vc_protect :: "string \<Rightarrow> string result"
  vc_unprotect :: "string \<Rightarrow> string result"

definition zero_Metadata :: Metadata where
  "zero_Metadata = \<lparr>md_External = None, md_OAuthInfo = None, md_State = '''', md_Version = 0, md_ID = '''',
     md_Kind = '''', md_Source = '''', md_Domain = '''', md_CreatedAt = 0, md_UpdatedAt = 0,
     md_LastUsedAt = None\<rparr>"

definition rec_Version :: "vault_record \<Rightarrow> u64" where
  "rec_Version r = md_Version (vr_Metadata r)"

subsection \<open>Opening and saving\<close>

definition vault_decode :: "vault_codec \<Rightarrow> string \<Rightarrow> records result" where
  "vault_decode C b =
     (if length b > 16 * 2 ^ 20 then Inl ''credential vault exceeds size limit''
      else (case vc_unprotect C b of
              Inl e \<Rightarrow> Inl ''cannot unlock credential vault''
            | Inr plain \<Rightarrow> (case vj_Unmarshal C plain of
                              None \<Rightarrow> Inl ''invalid credential vault'' | Some m \<Rightarrow> Inr m)))"

definition vault_open :: "vault_codec \<Rightarrow> string \<Rightarrow> bool \<Rightarrow> fs \<Rightarrow> vault result" where
  "vault_open C path readable fs =
     (let s = \<lparr>va_accountOwners = None, va_refreshes = (\<lambda>i. False), va_refreshBackoff = (\<lambda>i. 0),
               va_path = path, va_records = [], va_lastUsed = Map.empty\<rparr> in
      case fs path of
        None \<Rightarrow> Inr s
      | Some b \<Rightarrow> if \<not> readable then Inl ''cannot read credential vault''
                  else result_bind (vault_decode C b) (\<lambda>m. Inr (s\<lparr>va_records := m\<rparr>)))"

definition ValidKind :: "string \<Rightarrow> bool" where
  "ValidKind kind = (kind \<in> set [''api_key'', ''oauth'', ''browser_session'', ''cookie'', ''username_password'',
     ''cli_session'', ''device_session'', ''browser_profile''])"

text \<open>
  The document of an account-owned vault: every live record under each of its owners. Revoked records
  are skipped.
\<close>

definition add_material :: "string \<Rightarrow> vault_record \<Rightarrow> AccountOwner \<Rightarrow> accountDocument \<Rightarrow> accountDocument result" where
  "add_material ref r owner doc =
     (if ow_Account owner = '''' \<or> ow_Provider owner = '''' then Inl ''invalid account material owner''
      else (let bundle = (case map_of (ad_Accounts doc) (ow_Account owner) of
                            None \<Rightarrow> \<lparr>ab_Provider = '''', ab_Materials = []\<rparr> | Some b \<Rightarrow> b) in
            if ab_Provider bundle \<noteq> '''' \<and> ab_Provider bundle \<noteq> ow_Provider owner
            then Inl ''account material provider conflict''
            else (let bundle = (if map_of (ad_Accounts doc) (ow_Account owner) = None
                                then \<lparr>ab_Provider = ow_Provider owner, ab_Materials = []\<rparr> else bundle) in
                  Inr (doc\<lparr>ad_Accounts := AList.update (ow_Account owner)
                    (bundle\<lparr>ab_Materials := AList.update ref r (ab_Materials bundle)\<rparr>) (ad_Accounts doc)\<rparr>))))"

fun add_owners :: "string \<Rightarrow> vault_record \<Rightarrow> AccountOwner list \<Rightarrow> accountDocument \<Rightarrow> accountDocument result" where
  "add_owners ref r [] doc = Inr doc"
| "add_owners ref r (owner # os) doc = result_bind (add_material ref r owner doc) (add_owners ref r os)"

fun group_loop :: "owners \<Rightarrow> records \<Rightarrow> accountDocument \<Rightarrow> accountDocument result" where
  "group_loop owners [] doc = Inr doc"
| "group_loop owners ((ref, r) # rs) doc =
     (if vr_Revoked r then group_loop owners rs doc
      else if owners ref = [] then Inl ''material must belong to a provider account''
      else result_bind (add_owners ref r (owners ref) doc) (group_loop owners rs))"

definition groupAccountRecords :: "records \<Rightarrow> owners \<Rightarrow> accountDocument result" where
  "groupAccountRecords records owners = group_loop owners records \<lparr>ad_Format = 1, ad_Accounts = []\<rparr>"

definition vault_errors :: write_errors where
  "vault_errors = \<lparr>we_Mkdir = ''cannot create credential directory'',
     we_Temp = ''cannot create vault transaction'',
     we_Write = ''cannot write credential vault'',
     we_Commit = ''cannot commit credential vault''\<rparr>"

definition vault_encode :: "vault_codec \<Rightarrow> owners option \<Rightarrow> records \<Rightarrow> string result" where
  "vault_encode C owners next =
     result_bind
       (case owners of
          None \<Rightarrow> Inr (vj_Marshal C next)
        | Some ow \<Rightarrow> result_bind (groupAccountRecords next ow) (\<lambda>grouped. Inr (vj_MarshalDoc C grouped)))
       (\<lambda>marshalled.
          case marshalled of
            Inl e \<Rightarrow> Inl ''cannot encode credential vault''
          | Inr plain \<Rightarrow> if length plain > 8 * 2 ^ 20 then Inl ''credential vault capacity exceeded''
                          else vc_protect C plain)"

definition vault_save :: "vault_codec \<Rightarrow> records \<Rightarrow> io \<Rightarrow> fs \<Rightarrow> vault \<Rightarrow> check \<times> vault \<times> fs list" where
  "vault_save C next os fs s =
     (case persist (replace_file vault_errors True (va_path s)) (vault_encode C (va_accountOwners s)) os fs
             (va_records s) next of
        (err, m, trace) \<Rightarrow> (err, s\<lparr>va_records := m\<rparr>, trace))"

subsection \<open>Listing and resolving\<close>

definition public_state :: "time \<Rightarrow> vault \<Rightarrow> vault_record \<Rightarrow> string" where
  "public_state now s r =
     (let md = vr_Metadata r;
          s1 = (if md_External md \<noteq> None then ''external_authorization_required'' else ''ready'') in
      case md_OAuthInfo md of
        None \<Rightarrow> s1
      | Some info \<Rightarrow>
          (let s2 = (if om_ExpiresAt info \<noteq> 0 \<and> om_ExpiresAt info < now then ''expired'' else s1);
               s3 = (if va_refreshes s (md_ID md) then ''refreshing'' else s2)
           in if now < va_refreshBackoff s (md_ID md) then ''needs_reauthorization'' else s3))"

definition public_metadata :: "time \<Rightarrow> vault \<Rightarrow> vault_record \<Rightarrow> Metadata" where
  "public_metadata now s r =
     (let md = (vr_Metadata r)\<lparr>md_State := public_state now s r\<rparr> in
      case va_lastUsed s (md_ID md) of None \<Rightarrow> md | Some used \<Rightarrow> md\<lparr>md_LastUsedAt := Some used\<rparr>)"

definition vault_List :: "time \<Rightarrow> vault \<Rightarrow> Metadata list" where
  "vault_List now s =
     sort_key md_ID (map (public_metadata now s) (filter (\<lambda>r. \<not> vr_Revoked r) (map snd (va_records s))))"

datatype resolve_plan = ReadsExternal ExternalReference u64 | Refreshes | Returns

definition resolve_begin :: "string \<Rightarrow> time \<Rightarrow> vault \<Rightarrow> resolve_plan result" where
  "resolve_begin ref now s =
     (case map_of (va_records s) ref of
        None \<Rightarrow> Inl ''credential is missing or revoked''
      | Some r \<Rightarrow>
          if vr_Revoked r then Inl ''credential is missing or revoked''
          else (case md_External (vr_Metadata r) of
                  Some x \<Rightarrow> Inr (ReadsExternal x (rec_Version r))
                | None \<Rightarrow>
                    (case vr_OAuth r of
                       None \<Rightarrow> Inr Returns
                     | Some g \<Rightarrow> if og_ExpiresAt g \<noteq> 0 \<and> og_ExpiresAt g < now + 30 * Second
                                 then Inr Refreshes else Inr Returns)))"

definition resolve_external :: "string \<Rightarrow> u64 \<Rightarrow> string result \<Rightarrow> vault \<Rightarrow> string result" where
  "resolve_external ref version val s =
     (case map_of (va_records s) ref of
        None \<Rightarrow> Inl ''external credential result is stale''
      | Some cur \<Rightarrow> if vr_Revoked cur \<or> rec_Version cur \<noteq> version
                    then Inl ''external credential result is stale'' else val)"

definition resolve_end :: "string \<Rightarrow> time \<Rightarrow> vault \<Rightarrow> string result \<times> vault" where
  "resolve_end ref now s =
     (case map_of (va_records s) ref of
        None \<Rightarrow> (Inl ''credential is revoked'', s)
      | Some r \<Rightarrow>
          if vr_Revoked r then (Inl ''credential is revoked'', s)
          else (Inr (vr_Value r),
                s\<lparr>va_lastUsed := (va_lastUsed s)(ref \<mapsto> now),
                  va_records := AList.update ref
                    (r\<lparr>vr_Metadata := (vr_Metadata r)\<lparr>md_LastUsedAt := Some now\<rparr>\<rparr>) (va_records s)\<rparr>))"

text \<open>
  \<open>between\<close> is what other goroutines did while the lock was free, \<open>read\<close> the answer of the manager and
  \<open>refresh\<close> the whole refresh.
\<close>

definition ResolveContext :: "(ExternalReference \<Rightarrow> string result) \<Rightarrow> (string \<Rightarrow> vault \<Rightarrow> check \<times> vault)
    \<Rightarrow> (vault \<Rightarrow> vault) \<Rightarrow> time \<Rightarrow> time \<Rightarrow> string \<Rightarrow> vault \<Rightarrow> string result \<times> vault" where
  "ResolveContext read refresh between now1 now2 ref s =
     (case resolve_begin ref now1 s of
        Inl e \<Rightarrow> (Inl e, s)
      | Inr (ReadsExternal x version) \<Rightarrow> (let s' = between s in (resolve_external ref version (read x) s', s'))
      | Inr Refreshes \<Rightarrow> (case refresh ref s of
                            (Some e, s') \<Rightarrow> (Inl e, s')
                          | (None, s') \<Rightarrow> resolve_end ref now2 (between s'))
      | Inr Returns \<Rightarrow> resolve_end ref now2 (between s))"

subsection \<open>Storing and deleting\<close>

definition validateValue :: "vault_codec \<Rightarrow> string \<Rightarrow> string \<Rightarrow> check" where
  "validateValue C kind val =
     (if kind \<noteq> ''username_password'' then None
      else (case vj_Login C val of
              None \<Rightarrow> Some ''username_password credential must be JSON with non-empty username and password''
            | Some (username, password) \<Rightarrow>
                fail_if (username = '''' \<or> password = '''' \<or> length username > 1024 \<or> length password > 64 * 2 ^ 10)
                  ''username_password credential must be JSON with non-empty username and password''))"

definition oauth_metadata :: "OAuthGrant \<Rightarrow> OAuthMetadata" where
  "oauth_metadata g = \<lparr>om_ExpiresAt = og_ExpiresAt g, om_Scope = og_Scope g, om_AccountID = og_AccountID g,
     om_AutomaticRefresh = (og_RefreshToken g \<noteq> '''')\<rparr>"

definition new_record :: "string \<Rightarrow> string \<Rightarrow> string \<Rightarrow> string \<Rightarrow> ExternalReference option \<Rightarrow> OAuthGrant option
    \<Rightarrow> u64 \<Rightarrow> time \<Rightarrow> time \<Rightarrow> vault_record option \<Rightarrow> vault_record" where
  "new_record ref kind source val external oauth version created now prior =
     (let r = \<lparr>vr_Metadata = zero_Metadata\<lparr>md_Version := version, md_ID := ref, md_Kind := kind, md_Source := source,
                 md_CreatedAt := created, md_UpdatedAt := now, md_External := external\<rparr>,
               vr_Revoked = False, vr_Value = val, vr_OAuth = oauth, vr_ImportURL = ''''\<rparr>;
          r1 = (case prior of
                  None \<Rightarrow> r
                | Some p \<Rightarrow>
                    if md_Kind (vr_Metadata p) = ''username_password'' \<and> kind = md_Kind (vr_Metadata p)
                    then r\<lparr>vr_Metadata := (vr_Metadata r)\<lparr>md_Domain := md_Domain (vr_Metadata p)\<rparr>,
                           vr_ImportURL := vr_ImportURL p\<rparr>
                    else r)
      in case oauth of
           None \<Rightarrow> r1
         | Some g \<Rightarrow> r1\<lparr>vr_Metadata := (vr_Metadata r1)\<lparr>md_OAuthInfo := Some (oauth_metadata g)\<rparr>\<rparr>)"

definition forget_use :: "string \<Rightarrow> vault \<Rightarrow> vault" where
  "forget_use ref s = s\<lparr>va_lastUsed := (va_lastUsed s)(ref := None)\<rparr>"

definition forget_backoff :: "string \<Rightarrow> vault \<Rightarrow> vault" where
  "forget_backoff ref s = s\<lparr>va_refreshBackoff := (va_refreshBackoff s)(ref := 0)\<rparr>"

definition putRecord :: "vault_codec \<Rightarrow> string \<Rightarrow> string \<Rightarrow> string \<Rightarrow> string \<Rightarrow> ExternalReference option
    \<Rightarrow> OAuthGrant option \<Rightarrow> time \<Rightarrow> io \<Rightarrow> fs \<Rightarrow> vault \<Rightarrow> check \<times> vault \<times> fs list" where
  "putRecord C ref kind source val external oauth now os fs s =
     (if ref = '''' \<or> \<not> ValidCredentialRef ref \<or> \<not> ValidKind kind \<or> (val = '''' \<and> external = None) \<or>
         length val > 2 ^ 20 \<or> length source > 256
      then (Some ''invalid credential reference, type or size'', s, [fs])
      else (case validateValue C kind val of
              Some e \<Rightarrow> (Some e, s, [fs])
            | None \<Rightarrow>
                (let old = map_of (va_records s) ref;
                     revoked = (case old of None \<Rightarrow> False | Some r \<Rightarrow> vr_Revoked r);
                     created = (case old of None \<Rightarrow> now | Some r \<Rightarrow> md_CreatedAt (vr_Metadata r));
                     version = (case old of None \<Rightarrow> 1 | Some r \<Rightarrow> rec_Version r + 1) in
                 if revoked then (Some ''credential reference is revoked; create a new reference'', s, [fs])
                 else if old \<noteq> None \<and> version = 0 then (Some ''credential version exhausted'', s, [fs])
                 else (case vault_save C (AList.update ref
                              (new_record ref kind source val external oauth version created now old) (va_records s))
                              os fs s of
                         (Some e, s', trace) \<Rightarrow> (Some e, s', trace)
                       | (None, s', trace) \<Rightarrow> (None, forget_backoff ref (forget_use ref s'), trace)))))"

definition vault_Put :: "vault_codec \<Rightarrow> string \<Rightarrow> string \<Rightarrow> string \<Rightarrow> string \<Rightarrow> time \<Rightarrow> io \<Rightarrow> fs \<Rightarrow> vault
    \<Rightarrow> check \<times> vault \<times> fs list" where
  "vault_Put C ref kind source val now os fs s = putRecord C ref kind source val None None now os fs s"

definition tombstone :: "string \<Rightarrow> u64 \<Rightarrow> time \<Rightarrow> vault_record" where
  "tombstone ref version now =
     \<lparr>vr_Metadata = zero_Metadata\<lparr>md_ID := ref, md_Version := version, md_UpdatedAt := now\<rparr>,
      vr_Revoked = True, vr_Value = '''', vr_OAuth = None, vr_ImportURL = ''''\<rparr>"

definition vault_Delete :: "vault_codec \<Rightarrow> string \<Rightarrow> time \<Rightarrow> io \<Rightarrow> fs \<Rightarrow> vault \<Rightarrow> check \<times> vault \<times> fs list" where
  "vault_Delete C ref now os fs s =
     (case map_of (va_records s) ref of
        None \<Rightarrow> (Some ''unknown credential'', s, [fs])
      | Some old \<Rightarrow>
          if vr_Revoked old then (Some ''unknown credential'', s, [fs])
          else (case vault_save C (AList.update ref (tombstone ref (rec_Version old) now) (va_records s)) os fs s of
                  (Some e, s', trace) \<Rightarrow> (Some e, s', trace)
                | (None, s', trace) \<Rightarrow> (None, forget_use ref s', trace)))"

subsection \<open>External references and OAuth grants\<close>

definition hex_run :: "nat \<Rightarrow> string \<Rightarrow> bool" where
  "hex_run n s \<longleftrightarrow> length s = n \<and>
     (\<forall>c \<in> set s. is_digit c \<or> c \<in> set ''abcdefABCDEF'')"

definition managerItemID_MatchString :: "string \<Rightarrow> bool" where
  "managerItemID_MatchString s =
     (case Split (CHR ''-'') s of
        [a, b, c, d, e] \<Rightarrow> hex_run 8 a \<and> hex_run 4 b \<and> hex_run 4 c \<and> hex_run 4 d \<and> hex_run 12 e
      | _ \<Rightarrow> False)"

definition ExternalReference_Validate :: "ExternalReference \<Rightarrow> check" where
  "ExternalReference_Validate x =
     (let general = Some ''select an op:// vault/item/field or a Bitwarden item UUID and password/username field'' in
      if length (xr_Reference x) > 1024 \<or> ContainsAny (xr_Reference x) [CHR 0x0D, CHR 0x0A, CHR 0x00]
      then Some ''invalid external reference''
      else if xr_Manager x = ''1password''
      then (let parts = Split (CHR ''/'') (TrimPrefix (xr_Reference x) ''op://'') in
            if \<not> HasPrefix (xr_Reference x) ''op://'' \<or> (length parts \<noteq> 3 \<and> length parts \<noteq> 4) \<or> xr_Field x \<noteq> ''''
            then general
            else if \<exists>part \<in> set parts. part = '''' \<or> ContainsAny part ''?#'' then Some ''invalid selected 1Password field''
            else None)
      else if xr_Manager x = ''bitwarden''
      then (if managerItemID_MatchString (xr_Reference x) \<and> (xr_Field x = ''password'' \<or> xr_Field x = ''username'')
            then None else general)
      else general)"

definition PutExternal :: "vault_codec \<Rightarrow> string \<Rightarrow> string \<Rightarrow> ExternalReference \<Rightarrow> time \<Rightarrow> io \<Rightarrow> fs \<Rightarrow> vault
    \<Rightarrow> check \<times> vault \<times> fs list" where
  "PutExternal C ref kind x now os fs s =
     (case ExternalReference_Validate x of
        Some e \<Rightarrow> (Some e, s, [fs])
      | None \<Rightarrow>
          if kind \<noteq> ''api_key'' \<and> kind \<noteq> ''oauth'' \<and> kind \<noteq> ''cookie''
          then (Some ''external references require an invocation credential type'', s, [fs])
          else putRecord C ref kind (''external:'' @ xr_Manager x) '''' (Some x) None now os fs s)"

definition validTokenURL :: "string \<Rightarrow> bool" where
  "validTokenURL endpoint =
     (case url_Parse endpoint of
        None \<Rightarrow> False
      | Some u \<Rightarrow> Hostname u \<noteq> '''' \<and> bare_url u \<and>
                  (url_Scheme u = ''https'' \<or> (url_Scheme u = ''http'' \<and> loopback_ip (Hostname u))))"

definition OAuthGrant_validate :: "OAuthGrant \<Rightarrow> check" where
  "OAuthGrant_validate g = first_error
     [fail_if (og_AccessToken g = '''' \<or> length (og_AccessToken g) > 64 * 2 ^ 10 \<or>
               length (og_RefreshToken g) > 64 * 2 ^ 10 \<or> length (og_ClientSecret g) > 64 * 2 ^ 10 \<or>
               length (og_ClientID g) > 1024 \<or> length (og_Scope g) > 2048 \<or> length (og_AccountID g) > 256 \<or>
               ContainsAny (og_AccessToken g) [CHR 0x0D, CHR 0x0A, CHR 0x00])
        ''invalid OAuth grant'',
      fail_if (og_TokenURL g \<noteq> '''' \<and> \<not> validTokenURL (og_TokenURL g))
        ''OAuth token endpoint must use HTTPS outside explicit loopback'',
      fail_if (og_RefreshToken g \<noteq> '''' \<and> (og_TokenURL g = '''' \<or> og_ClientID g = ''''))
        ''refresh token requires an explicit token endpoint and client ID'']"

definition PutOAuth :: "vault_codec \<Rightarrow> string \<Rightarrow> string \<Rightarrow> OAuthGrant \<Rightarrow> time \<Rightarrow> io \<Rightarrow> fs \<Rightarrow> vault
    \<Rightarrow> check \<times> vault \<times> fs list" where
  "PutOAuth C ref source g now os fs s =
     (case OAuthGrant_validate g of
        Some e \<Rightarrow> (Some e, s, [fs])
      | None \<Rightarrow> putRecord C ref ''oauth'' source (og_AccessToken g) None (Some g) now os fs s)"

subsection \<open>Refreshing a grant\<close>

datatype refresh_plan = RefreshDone check | JoinsFlight | Flies OAuthGrant u64

definition refresh_begin :: "string \<Rightarrow> bool \<Rightarrow> time \<Rightarrow> vault \<Rightarrow> refresh_plan \<times> vault" where
  "refresh_begin ref force now s =
     (case map_of (va_records s) ref of
        None \<Rightarrow> (RefreshDone (Some ''credential has no OAuth lifecycle''), s)
      | Some r \<Rightarrow>
          if vr_Revoked r then (RefreshDone (Some ''credential has no OAuth lifecycle''), s)
          else (case vr_OAuth r of
                  None \<Rightarrow> (RefreshDone (Some ''credential has no OAuth lifecycle''), s)
                | Some g \<Rightarrow>
                    if \<not> force \<and> og_ExpiresAt g \<noteq> 0 \<and> now + 30 * Second < og_ExpiresAt g then (RefreshDone None, s)
                    else if va_refreshes s ref then (JoinsFlight, s)
                    else if now < va_refreshBackoff s ref
                    then (RefreshDone (Some ''OAuth reauthorization required or refresh is cooling down''), s)
                    else if og_RefreshToken g = '''' \<or> og_TokenURL g = '''' \<or> og_ClientID g = ''''
                    then (RefreshDone (Some ''OAuth requires reauthorization''), s)
                    else (Flies g (rec_Version r), s\<lparr>va_refreshes := (va_refreshes s)(ref := True)\<rparr>)))"

text \<open>The answer of the token endpoint: what the request returned and how the body decodes.\<close>

record token_wire =
  tw_AccessToken :: string
  tw_RefreshToken :: string
  tw_ExpiresIn :: int
  tw_Scope :: string
  tw_TokenType :: string

datatype token_answer =
    BadRequest
  | Unavailable
  | Answer (ta_status: int) (ta_readable: bool) (ta_length: nat) (ta_wire: "token_wire option")

definition EqualFold_Bearer :: "string \<Rightarrow> bool" where
  "EqualFold_Bearer s = (map to_lower s = ''bearer'')"

definition refreshGrant :: "token_answer \<Rightarrow> time \<Rightarrow> OAuthGrant \<Rightarrow> OAuthGrant result" where
  "refreshGrant answer now g =
     (case answer of
        BadRequest \<Rightarrow> Inl ''invalid OAuth refresh request''
      | Unavailable \<Rightarrow> Inl ''OAuth refresh unavailable''
      | Answer status readable len wire \<Rightarrow>
          if \<not> readable \<or> len > 2 ^ 20 \<or> status \<noteq> 200 then Inl ''OAuth refresh rejected; reauthorize the account''
          else (case wire of
                  None \<Rightarrow> Inl ''invalid OAuth refresh response''
                | Some w \<Rightarrow>
                    if tw_AccessToken w = '''' \<or> tw_ExpiresIn w \<le> 0 \<or> tw_ExpiresIn w > 365 * 24 * 3600 \<or>
                       (tw_TokenType w \<noteq> '''' \<and> \<not> EqualFold_Bearer (tw_TokenType w))
                    then Inl ''invalid OAuth refresh response''
                    else (let g1 = g\<lparr>og_AccessToken := tw_AccessToken w\<rparr>;
                              g2 = (if tw_RefreshToken w \<noteq> '''' then g1\<lparr>og_RefreshToken := tw_RefreshToken w\<rparr> else g1);
                              g3 = (if tw_Scope w \<noteq> '''' then g2\<lparr>og_Scope := tw_Scope w\<rparr> else g2);
                              g4 = g3\<lparr>og_ExpiresAt := now + tw_ExpiresIn w * Second\<rparr>
                          in case OAuthGrant_validate g4 of Some e \<Rightarrow> Inl e | None \<Rightarrow> Inr g4)))"

definition refreshed_record :: "OAuthGrant \<Rightarrow> time \<Rightarrow> vault_record \<Rightarrow> vault_record" where
  "refreshed_record next now r =
     r\<lparr>vr_Value := og_AccessToken next, vr_OAuth := Some next,
       vr_Metadata := (vr_Metadata r)\<lparr>md_Version := rec_Version r + 1, md_UpdatedAt := now,
         md_OAuthInfo := Some (oauth_metadata next)\<rparr>\<rparr>"

definition end_flight :: "string \<Rightarrow> vault \<Rightarrow> vault" where
  "end_flight ref s = s\<lparr>va_refreshes := (va_refreshes s)(ref := False)\<rparr>"

definition refresh_finish :: "vault_codec \<Rightarrow> string \<Rightarrow> u64 \<Rightarrow> OAuthGrant result \<Rightarrow> time \<Rightarrow> io \<Rightarrow> fs \<Rightarrow> vault
    \<Rightarrow> check \<times> vault \<times> fs list" where
  "refresh_finish C ref version answer now os fs s =
     (let stale = (Some ''OAuth refresh result is stale'', end_flight ref s, [fs]) in
      case map_of (va_records s) ref of
        None \<Rightarrow> stale
      | Some cur \<Rightarrow>
          if vr_Revoked cur \<or> rec_Version cur \<noteq> version then stale
          else (case answer of
                  Inl e \<Rightarrow> (Some e, end_flight ref (s\<lparr>va_refreshBackoff := (va_refreshBackoff s)(ref := now + 60 * Second)\<rparr>), [fs])
                | Inr next \<Rightarrow>
                    if rec_Version cur + 1 = 0 then (Some ''credential version exhausted'', end_flight ref s, [fs])
                    else (case vault_save C (AList.update ref (refreshed_record next now cur) (va_records s)) os fs s of
                            (err, s', trace) \<Rightarrow>
                              (err, end_flight ref (forget_backoff ref (forget_use ref s')), trace))))"

subsection \<open>Owners\<close>

definition PutAccount :: "vault_codec \<Rightarrow> AccountOwner \<Rightarrow> string \<Rightarrow> string \<Rightarrow> string \<Rightarrow> time \<Rightarrow> io \<Rightarrow> fs \<Rightarrow> vault
    \<Rightarrow> check \<times> vault \<times> fs list" where
  "PutAccount C owner ref kind val now os fs s =
     (case va_accountOwners s of
        None \<Rightarrow> vault_Put C ref kind ''provider-account'' val now os fs s
      | Some ow \<Rightarrow>
          if ow ref \<noteq> [] \<and> ow ref \<noteq> [owner] then (Some ''account material belongs to another owner'', s, [fs])
          else vault_Put C ref kind ''provider-account'' val now os fs
                 (s\<lparr>va_accountOwners := Some (ow(ref := [owner]))\<rparr>))"

definition AdoptAccount :: "AccountOwner \<Rightarrow> string \<Rightarrow> vault \<Rightarrow> check \<times> vault" where
  "AdoptAccount owner ref s =
     (case va_accountOwners s of
        None \<Rightarrow> (None, s)
      | Some ow \<Rightarrow>
          if ow ref \<noteq> [] then (Some ''account material already has an owner'', s)
          else (None, s\<lparr>va_accountOwners := Some (ow(ref := [owner]))\<rparr>))"

definition SetAccountDomain :: "vault_codec \<Rightarrow> string \<Rightarrow> string \<Rightarrow> io \<Rightarrow> fs \<Rightarrow> vault \<Rightarrow> check \<times> vault \<times> fs list" where
  "SetAccountDomain C ref domain os fs s =
     (case map_of (va_records s) ref of
        None \<Rightarrow> (Some ''unknown account material'', s, [fs])
      | Some r \<Rightarrow> vault_save C (AList.update ref
          (r\<lparr>vr_Metadata := (vr_Metadata r)\<lparr>md_Domain := domain\<rparr>\<rparr>) (va_records s)) os fs s)"

definition CreateAccountMaterial :: "vault_codec \<Rightarrow> string \<Rightarrow> AccountOwner \<Rightarrow> string \<Rightarrow> string \<Rightarrow> time \<Rightarrow> io \<Rightarrow> fs \<Rightarrow> vault
    \<Rightarrow> Metadata result \<times> vault \<times> fs list" where
  "CreateAccountMaterial C random owner kind val now os fs s =
     (let ref = ''cred://account-'' @ random in
      case PutAccount C owner ref kind val now os fs s of
        (Some e, s', trace) \<Rightarrow> (Inl e, s', trace)
      | (None, s', trace) \<Rightarrow>
          (Inr (case map_of (va_records s') ref of None \<Rightarrow> zero_Metadata | Some r \<Rightarrow> vr_Metadata r), s', trace))"

text \<open>Importing a token from the export of a command-line tool; \<open>decode\<close> gives its two token fields.\<close>

definition ParseCLIAccessToken :: "(string \<Rightarrow> (string \<times> string) option) \<Rightarrow> string \<Rightarrow> string \<Rightarrow> string result" where
  "ParseCLIAccessToken decode format data =
     (if data = '''' \<or> length data > 2 ^ 20 then Inl ''CLI export must be between 1 byte and 1 MiB''
      else (case decode data of
              None \<Rightarrow> Inl ''invalid CLI export JSON''
            | Some (access, nested) \<Rightarrow>
                if format \<noteq> ''codex'' \<and> format \<noteq> ''gemini-cli'' \<and> format \<noteq> ''oauth'' then Inl ''unsupported CLI export format''
                else (let val = (if format = ''codex'' then nested else access) in
                      if val = '''' \<or> length val > 64 * 2 ^ 10 \<or> ContainsAny val [CHR 0x0D, CHR 0x0A, CHR 0x00]
                      then Inl ''CLI export has no usable access token'' else Inr val)))"

definition vault_Create :: "vault_codec \<Rightarrow> string option \<Rightarrow> string \<Rightarrow> string \<Rightarrow> string \<Rightarrow> time \<Rightarrow> io \<Rightarrow> fs \<Rightarrow> vault
    \<Rightarrow> Metadata result \<times> vault \<times> fs list" where
  "vault_Create C random_hex kind source val now os fs s =
     (case random_hex of
        None \<Rightarrow> (Inl ''cannot allocate credential reference'', s, [fs])
      | Some h \<Rightarrow>
          (let ref = ''cred://import-'' @ h in
           case vault_Put C ref kind source val now os fs s of
             (Some e, s', trace) \<Rightarrow> (Inl e, s', trace)
           | (None, s', trace) \<Rightarrow>
               (Inr (case map_of (va_records s') ref of None \<Rightarrow> zero_Metadata | Some r \<Rightarrow> vr_Metadata r), s', trace)))"

definition owned_by :: "owners \<Rightarrow> string \<Rightarrow> string \<Rightarrow> string \<Rightarrow> bool" where
  "owned_by ow ref account provider =
     (ref = '''' \<or> list_ex (\<lambda>o'. ow_Account o' = account \<and> ow_Provider o' = provider) (ow ref))"

definition ValidateAccountOwners :: "Config \<Rightarrow> vault \<Rightarrow> check" where
  "ValidateAccountOwners c s =
     (case va_accountOwners s of
        None \<Rightarrow> None
      | Some ow \<Rightarrow>
          if list_ex (\<lambda>a. \<not> owned_by ow (account_LoginCredentialRef a) (account_ID a) (account_ProviderID a) \<or>
                           \<not> owned_by ow (account_CredentialRef a) (account_ID a) (account_ProviderID a)) (cfg_Accounts c)
          then Some ''material ownership does not match provider account''
          else fail_if (list_ex (\<lambda>x. \<not> owned_by ow (source_CredentialRef x) (source_AccountID x) (source_Provider x))
                 (cfg_Sources c)) ''source material must belong to its provider account'')"

definition LoginOrigin :: "string \<Rightarrow> vault \<Rightarrow> string" where
  "LoginOrigin ref s =
     (case url_Parse (case map_of (va_records s) ref of None \<Rightarrow> '''' | Some r \<Rightarrow> vr_ImportURL r) of
        None \<Rightarrow> ''''
      | Some u \<Rightarrow> if url_Scheme u \<noteq> ''https'' \<or> Hostname u = '''' \<or> url_User u then ''''
                  else url_Scheme u @ ''://'' @ url_Host u)"

end
