(* ===== verification/VaultProps.thy ===== *)
theory VaultProps
  imports Vault
begin

section \<open>The credential vault over time\<close>

text \<open>
  Everything that can happen to a vault as a step relation on the vault and the file system, and the
  order on records that every step respects. A temporary file never has the name of the vault: that is
  what \<open>os.CreateTemp\<close> promises. Whether system calls fail, which answers come back and when are
  arguments of the steps, so a run of steps is an arbitrary interleaving of operations.
\<close>

inductive vault_step :: "vault_codec \<Rightarrow> vault \<times> fs \<Rightarrow> vault \<times> fs \<Rightarrow> bool" for C where
  put: "putRecord C ref kind source val external oauth now os fs s = (err, s', trace) \<Longrightarrow>
    io_CreateTemp os \<noteq> Some (va_path s) \<Longrightarrow> vault_step C (s, fs) (s', hd trace)"
| delete: "vault_Delete C ref now os fs s = (err, s', trace) \<Longrightarrow>
    io_CreateTemp os \<noteq> Some (va_path s) \<Longrightarrow> vault_step C (s, fs) (s', hd trace)"
| set_domain: "SetAccountDomain C ref domain os fs s = (err, s', trace) \<Longrightarrow>
    io_CreateTemp os \<noteq> Some (va_path s) \<Longrightarrow> vault_step C (s, fs) (s', hd trace)"
| put_account: "PutAccount C owner ref kind val now os fs s = (err, s', trace) \<Longrightarrow>
    io_CreateTemp os \<noteq> Some (va_path s) \<Longrightarrow> vault_step C (s, fs) (s', hd trace)"
| adopt_account: "AdoptAccount owner ref s = (err, s') \<Longrightarrow> vault_step C (s, fs) (s', fs)"
| resolve: "resolve_end ref now s = (answer, s') \<Longrightarrow> vault_step C (s, fs) (s', fs)"
| refresh_starts: "refresh_begin ref force now s = (plan, s') \<Longrightarrow> vault_step C (s, fs) (s', fs)"
| refresh_ends: "refresh_finish C ref version grant now os fs s = (err, s', trace) \<Longrightarrow>
    io_CreateTemp os \<noteq> Some (va_path s) \<Longrightarrow> vault_step C (s, fs) (s', hd trace)"

subsection \<open>Saving\<close>

interpretation vault_file: file_replacement "replace_file vault_errors True"
  by (rule replace_file_contract)

lemma vault_save_effect:
  assumes "io_CreateTemp os \<noteq> Some (va_path s)" "vault_save C next os fs s = (err, s', trace)"
  shows "s' = s\<lparr>va_records := (if err = None then next else va_records s)\<rparr> \<and> trace \<noteq> [] \<and>
    (\<forall>f \<in> set trace. f (va_path s) = fs (va_path s) \<or>
       (\<exists>b. vault_encode C (va_accountOwners s) next = Inr b \<and> f (va_path s) = Some b)) \<and>
    (if err = None then \<exists>b. vault_encode C (va_accountOwners s) next = Inr b \<and> hd trace (va_path s) = Some b
     else hd trace (va_path s) = fs (va_path s))"
proof -
  obtain m where p: "persist (replace_file vault_errors True (va_path s)) (vault_encode C (va_accountOwners s)) os fs
      (va_records s) next = (err, m, trace)" and s': "s' = s\<lparr>va_records := m\<rparr>"
    using assms(2) by (auto simp: vault_save_def split: prod.splits)
  from vault_file.persist_states [OF assms(1) p] show ?thesis by (auto simp: s' split: if_splits)
qed

text \<open>
  What one step does to the records: nothing, a new listing with one changed record that was saved, or a
  new time of last use that is only in memory.
\<close>

definition changes_to :: "vault_codec \<Rightarrow> vault \<Rightarrow> string \<Rightarrow> vault_record \<Rightarrow> fs \<Rightarrow> vault \<Rightarrow> fs \<Rightarrow> bool" where
  "changes_to C s ref r fs s' fs' \<longleftrightarrow>
     va_records s' = AList.update ref r (va_records s) \<and>
     (\<exists>b. vault_encode C (va_accountOwners s') (va_records s') = Inr b \<and> fs' (va_path s) = Some b)"

inductive record_change :: "vault_record option \<Rightarrow> string \<Rightarrow> vault_record \<Rightarrow> bool" where
  created: "record_change None ref (new_record ref kind source val x g 1 created now None)"
| replaced: "\<not> vr_Revoked old \<Longrightarrow> rec_Version old + 1 \<noteq> 0 \<Longrightarrow>
    record_change (Some old) ref (new_record ref kind source val x g (rec_Version old + 1) created now (Some old))"
| buried: "\<not> vr_Revoked old \<Longrightarrow> record_change (Some old) ref (tombstone ref (rec_Version old) now)"
| domain_set: "record_change (Some old) ref (old\<lparr>vr_Metadata := (vr_Metadata old)\<lparr>md_Domain := d\<rparr>\<rparr>)"
| refreshed: "\<not> vr_Revoked old \<Longrightarrow> rec_Version old + 1 \<noteq> 0 \<Longrightarrow>
    record_change (Some old) ref (refreshed_record g now old)"

lemma putRecord_effect:
  assumes "putRecord C ref kind source val x g now os fs s = (err, s', trace)" "io_CreateTemp os \<noteq> Some (va_path s)"
  shows "va_path s' = va_path s \<and> va_accountOwners s' = va_accountOwners s \<and> trace \<noteq> [] \<and>
    (if err = None
     then \<exists>r. record_change (map_of (va_records s) ref) ref r \<and> changes_to C s ref r fs s' (hd trace)
     else s' = s \<and> hd trace (va_path s) = fs (va_path s))"
proof -
  let ?old = "map_of (va_records s) ref"
  let ?version = "case ?old of None \<Rightarrow> 1 | Some r \<Rightarrow> rec_Version r + 1"
  let ?created = "case ?old of None \<Rightarrow> now | Some r \<Rightarrow> md_CreatedAt (vr_Metadata r)"
  let ?r = "new_record ref kind source val x g ?version ?created now ?old"
  consider (early) "err \<noteq> None" "s' = s" "trace = [fs]"
    | (save) e s1 where "vault_save C (AList.update ref ?r (va_records s)) os fs s = (e, s1, trace)"
        "err = e" "s' = (if e = None then forget_backoff ref (forget_use ref s1) else s1)"
        "record_change ?old ref ?r"
  proof (cases "err \<noteq> None \<and> s' = s \<and> trace = [fs]")
    case False
    have nr: "case ?old of None \<Rightarrow> True | Some r \<Rightarrow> \<not> vr_Revoked r \<and> rec_Version r + 1 \<noteq> 0"
      using False assms(1) by (auto simp: putRecord_def Let_def split: if_splits option.splits)
    have "record_change ?old ref ?r"
      using nr by (cases ?old) (auto intro: record_change.created record_change.replaced)
    moreover obtain e s1 tr where sv: "vault_save C (AList.update ref ?r (va_records s)) os fs s = (e, s1, tr)"
      by (cases "vault_save C (AList.update ref ?r (va_records s)) os fs s") auto
    moreover have "err = e \<and> trace = tr \<and> s' = (if e = None then forget_backoff ref (forget_use ref s1) else s1)"
      using False assms(1) nr sv
      by (cases e) (auto simp: putRecord_def Let_def split: if_splits option.splits)
    ultimately show ?thesis using save by blast
  qed (use early in blast)
  then show ?thesis
  proof cases
    case save
    from vault_save_effect [OF assms(2) save(1)] save show ?thesis
      by (auto simp: changes_to_def forget_use_def forget_backoff_def split: if_splits)
  qed auto
qed

text \<open>The three ways a step ends.\<close>

definition used_at :: "time \<Rightarrow> vault_record \<Rightarrow> vault_record" where
  "used_at now r = r\<lparr>vr_Metadata := (vr_Metadata r)\<lparr>md_LastUsedAt := Some now\<rparr>\<rparr>"

definition quiet :: "vault \<Rightarrow> fs \<Rightarrow> vault \<Rightarrow> fs \<Rightarrow> bool" where
  "quiet s fs s' fs' \<longleftrightarrow> va_records s' = va_records s \<and> fs' (va_path s) = fs (va_path s)"

definition writes :: "vault_codec \<Rightarrow> vault \<Rightarrow> fs \<Rightarrow> vault \<Rightarrow> fs \<Rightarrow> bool" where
  "writes C s fs s' fs' \<longleftrightarrow>
     (\<exists>ref r. record_change (map_of (va_records s) ref) ref r \<and> changes_to C s ref r fs s' fs')"

definition uses :: "vault \<Rightarrow> fs \<Rightarrow> vault \<Rightarrow> fs \<Rightarrow> bool" where
  "uses s fs s' fs' \<longleftrightarrow> (\<exists>ref r now. map_of (va_records s) ref = Some r \<and> \<not> vr_Revoked r \<and>
     va_records s' = AList.update ref (used_at now r) (va_records s) \<and> fs' (va_path s) = fs (va_path s))"

lemma saved_change:
  assumes "vault_save C (AList.update ref r (va_records s)) os fs s = (err, s1, trace)"
    "io_CreateTemp os \<noteq> Some (va_path s)" "record_change (map_of (va_records s) ref) ref r"
    "va_records s' = va_records s1" "va_path s' = va_path s1" "va_accountOwners s' = va_accountOwners s1"
  shows "va_path s' = va_path s \<and> va_accountOwners s' = va_accountOwners s \<and>
    (if err = None then writes C s fs s' (hd trace) else quiet s fs s' (hd trace))"
  using vault_save_effect [OF assms(2,1)] assms(3-6)
  by (auto simp: writes_def quiet_def changes_to_def split: if_splits)

lemma putRecord_step:
  assumes "putRecord C ref kind source val x g now os fs s = (err, s', trace)" "io_CreateTemp os \<noteq> Some (va_path s)"
  shows "va_path s' = va_path s \<and> va_accountOwners s' = va_accountOwners s \<and>
    (if err = None then writes C s fs s' (hd trace) else quiet s fs s' (hd trace))"
  using putRecord_effect [OF assms] by (auto simp: writes_def quiet_def split: if_splits)

lemma Delete_step:
  assumes "vault_Delete C ref now os fs s = (err, s', trace)" "io_CreateTemp os \<noteq> Some (va_path s)"
  shows "va_path s' = va_path s \<and> va_accountOwners s' = va_accountOwners s \<and>
    (if err = None then writes C s fs s' (hd trace) else quiet s fs s' (hd trace))"
proof (cases "\<exists>old. map_of (va_records s) ref = Some old \<and> \<not> vr_Revoked old")
  case False
  then show ?thesis using assms(1) by (auto simp: vault_Delete_def quiet_def split: option.splits)
next
  case True
  then obtain old where old: "map_of (va_records s) ref = Some old" "\<not> vr_Revoked old" by blast
  obtain e s1 tr where sv: "vault_save C (AList.update ref (tombstone ref (rec_Version old) now) (va_records s)) os fs s
      = (e, s1, tr)" by (cases "vault_save C (AList.update ref (tombstone ref (rec_Version old) now) (va_records s)) os fs s") auto
  have r: "err = e \<and> trace = tr \<and> s' = (if e = None then forget_use ref s1 else s1)"
    using assms(1) old sv by (cases e) (auto simp: vault_Delete_def)
  show ?thesis
    using saved_change [OF sv assms(2), of s'] record_change.buried [OF old(2)] old(1) r
    by (cases e) (simp_all add: forget_use_def)
qed

lemma SetAccountDomain_step:
  assumes "SetAccountDomain C ref d os fs s = (err, s', trace)" "io_CreateTemp os \<noteq> Some (va_path s)"
  shows "va_path s' = va_path s \<and> va_accountOwners s' = va_accountOwners s \<and>
    (if err = None then writes C s fs s' (hd trace) else quiet s fs s' (hd trace))"
proof (cases "map_of (va_records s) ref")
  case None
  then show ?thesis using assms(1) by (auto simp: SetAccountDomain_def quiet_def)
next
  case (Some r)
  with assms(1) have sv: "vault_save C (AList.update ref (r\<lparr>vr_Metadata := (vr_Metadata r)\<lparr>md_Domain := d\<rparr>\<rparr>)
      (va_records s)) os fs s = (err, s', trace)" by (simp add: SetAccountDomain_def)
  show ?thesis by (rule saved_change [OF sv assms(2)]) (simp_all add: Some record_change.domain_set)
qed

lemma refresh_finish_step:
  assumes "refresh_finish C ref version grant now os fs s = (err, s', trace)" "io_CreateTemp os \<noteq> Some (va_path s)"
  shows "va_path s' = va_path s \<and> va_accountOwners s' = va_accountOwners s \<and>
    (if err = None then writes C s fs s' (hd trace) else quiet s fs s' (hd trace))"
proof (cases "\<exists>cur next. map_of (va_records s) ref = Some cur \<and> \<not> vr_Revoked cur \<and> rec_Version cur = version \<and>
    grant = Inr next \<and> rec_Version cur + 1 \<noteq> 0")
  case False
  then show ?thesis using assms(1)
    by (auto simp: refresh_finish_def Let_def quiet_def end_flight_def split: option.splits if_splits sum.splits)
next
  case True
  then obtain cur "next" where cur: "map_of (va_records s) ref = Some cur" "\<not> vr_Revoked cur"
    "rec_Version cur = version" "grant = Inr next" "rec_Version cur + 1 \<noteq> 0" by blast
  let ?m = "AList.update ref (refreshed_record next now cur) (va_records s)"
  obtain e s1 tr where sv: "vault_save C ?m os fs s = (e, s1, tr)" by (cases "vault_save C ?m os fs s") auto
  have r: "err = e \<and> trace = tr \<and> s' = end_flight ref (forget_backoff ref (forget_use ref s1))"
    using assms(1) cur sv by (auto simp: refresh_finish_def Let_def)
  show ?thesis
    using saved_change [OF sv assms(2), of s'] record_change.refreshed [OF cur(2,5)] cur(1) r
    by (cases e) (simp_all add: forget_use_def forget_backoff_def end_flight_def)
qed

lemma PutAccount_step:
  assumes "PutAccount C owner ref kind val now os fs s = (err, s', trace)" "io_CreateTemp os \<noteq> Some (va_path s)"
  shows "va_path s' = va_path s \<and> (va_accountOwners s' = None \<longleftrightarrow> va_accountOwners s = None) \<and>
    (if err = None then writes C s fs s' (hd trace) else quiet s fs s' (hd trace))"
proof -
  have put: ?thesis if "putRecord C ref kind source val x g now os fs t = (err, s', trace)"
      "va_records t = va_records s" "va_path t = va_path s"
      "va_accountOwners t = None \<longleftrightarrow> va_accountOwners s = None" for source x g t
  proof -
    have "writes C t fs s' (hd trace) = writes C s fs s' (hd trace)" "quiet t fs s' (hd trace) = quiet s fs s' (hd trace)"
      using that(2,3) by (simp_all add: writes_def quiet_def changes_to_def)
    with putRecord_step [OF that(1)] that(3,4) assms(2) show ?thesis by (cases err) simp_all
  qed
  show ?thesis
  proof (cases "va_accountOwners s")
    case None
    with assms(1) show ?thesis by (intro put) (auto simp: PutAccount_def vault_Put_def)
  next
    case (Some ow)
    show ?thesis
    proof (cases "ow ref \<noteq> [] \<and> ow ref \<noteq> [owner]")
      case True
      with assms(1) Some show ?thesis by (auto simp: PutAccount_def quiet_def)
    next
      case False
      with assms(1) Some show ?thesis
        by (intro put [of _ _ _ "s\<lparr>va_accountOwners := Some (ow(ref := [owner]))\<rparr>"])
          (auto simp: PutAccount_def vault_Put_def)
    qed
  qed
qed

lemma vault_step_cases:
  assumes "vault_step C (s, fs) (s', fs')"
  shows "va_path s' = va_path s \<and> (va_accountOwners s' = None \<longleftrightarrow> va_accountOwners s = None) \<and>
    (quiet s fs s' fs' \<or> writes C s fs s' fs' \<or> uses s fs s' fs')"
  using assms
proof cases
  case put
  then show ?thesis using putRecord_step by (metis (full_types))
next
  case delete
  then show ?thesis using Delete_step by (metis (full_types))
next
  case set_domain
  then show ?thesis using SetAccountDomain_step by (metis (full_types))
next
  case put_account
  then show ?thesis using PutAccount_step by (metis (full_types))
next
  case adopt_account
  then show ?thesis by (auto simp: AdoptAccount_def quiet_def split: option.splits if_splits)
next
  case (resolve ref now answer)
  show ?thesis
  proof (cases "\<exists>r. map_of (va_records s) ref = Some r \<and> \<not> vr_Revoked r")
    case True
    then obtain r where r: "map_of (va_records s) ref = Some r" "\<not> vr_Revoked r" by blast
    with resolve have "va_records s' = AList.update ref (used_at now r) (va_records s)" "va_path s' = va_path s"
      "va_accountOwners s' = va_accountOwners s" "fs' = fs"
      by (auto simp: resolve_end_def used_at_def)
    moreover from r this have "uses s fs s' fs'" unfolding uses_def by metis
    ultimately show ?thesis by simp
  next
    case False
    with resolve show ?thesis by (auto simp: resolve_end_def quiet_def split: option.splits)
  qed
next
  case refresh_starts
  then show ?thesis by (auto simp: refresh_begin_def quiet_def split: option.splits if_splits)
next
  case refresh_ends
  then show ?thesis using refresh_finish_step by (metis (full_types))
qed

subsection \<open>The order on records\<close>

text \<open>
  A record only moves forward: its version never falls, a change of its secret raises the version, and a
  revoked record stays revoked with what it holds.
\<close>

definition secrets :: "vault_record \<Rightarrow> string \<times> OAuthGrant option \<times> ExternalReference option" where
  "secrets r = (vr_Value r, vr_OAuth r, md_External (vr_Metadata r))"

definition record_le :: "vault_record \<Rightarrow> vault_record \<Rightarrow> bool" where
  "record_le r r' \<longleftrightarrow> rec_Version r \<le> rec_Version r' \<and> (vr_Revoked r \<longrightarrow> vr_Revoked r' \<and> secrets r' = secrets r) \<and>
     (rec_Version r' = rec_Version r \<and> \<not> vr_Revoked r' \<longrightarrow> secrets r' = secrets r)"

definition records_le :: "records \<Rightarrow> records \<Rightarrow> bool" where
  "records_le m m' \<longleftrightarrow> (\<forall>k r. map_of m k = Some r \<longrightarrow> (\<exists>r'. map_of m' k = Some r' \<and> record_le r r'))"

lemma record_le_refl: "record_le r r"
  by (simp add: record_le_def)

lemma record_le_trans: "record_le a b \<Longrightarrow> record_le b c \<Longrightarrow> record_le a c"
  unfolding record_le_def by (metis order.trans order.antisym)

lemma records_le_trans: "records_le a b \<Longrightarrow> records_le b c \<Longrightarrow> records_le a c"
  unfolding records_le_def by (metis record_le_trans)

lemma records_le_update:
  assumes "\<And>r. map_of m k = Some r \<Longrightarrow> record_le r r'"
  shows "records_le m (AList.update k r' m)"
  using assms by (auto simp: records_le_def record_le_refl)

lemma new_record_fields:
  "rec_Version (new_record ref kind source val x g v c now p) = v"
  "\<not> vr_Revoked (new_record ref kind source val x g v c now p)"
  "md_ID (vr_Metadata (new_record ref kind source val x g v c now p)) = ref"
  by (simp_all add: new_record_def rec_Version_def Let_def split: option.split)

lemma u64_inc_less: "(x :: u64) + 1 \<noteq> 0 \<Longrightarrow> x < x + 1"
  by (rule u64_less_inc) auto

lemma record_change_le: "record_change (Some old) ref r \<Longrightarrow> record_le old r"
proof (induction "Some old" ref r rule: record_change.induct)
  case (replaced ref kind source val x g created now)
  then show ?case
    using u64_inc_less [of "rec_Version old"] by (auto simp: record_le_def new_record_fields)
next
  case (buried ref now)
  then show ?case by (simp add: record_le_def tombstone_def rec_Version_def)
next
  case (domain_set ref d)
  then show ?case by (simp add: record_le_def secrets_def rec_Version_def)
next
  case (refreshed ref g now)
  then show ?case
    using u64_inc_less [of "rec_Version old"]
    by (auto simp: record_le_def refreshed_record_def rec_Version_def)
qed

lemma vault_step_le:
  assumes "vault_step C (s, fs) (s', fs')"
  shows "records_le (va_records s) (va_records s')"
proof -
  consider "quiet s fs s' fs'" | "writes C s fs s' fs'" | "uses s fs s' fs'"
    using vault_step_cases [OF assms] by blast
  then show ?thesis
  proof cases
    case 1
    then show ?thesis by (simp add: quiet_def records_le_def record_le_refl)
  next
    case 2
    then obtain ref r where "record_change (map_of (va_records s) ref) ref r"
      "va_records s' = AList.update ref r (va_records s)"
      by (auto simp: writes_def changes_to_def)
    then show ?thesis using records_le_update record_change_le by metis
  next
    case 3
    then obtain ref r now where "map_of (va_records s) ref = Some r"
      "va_records s' = AList.update ref (used_at now r) (va_records s)"
      by (auto simp: uses_def)
    then show ?thesis
      using records_le_update [of "va_records s" ref "used_at now r"]
      by (simp add: record_le_def used_at_def secrets_def rec_Version_def)
  qed
qed

lemma vault_run_le:
  "(vault_step C)\<^sup>*\<^sup>* x y \<Longrightarrow> records_le (va_records (fst x)) (va_records (fst y))"
proof (induction rule: rtranclp_induct)
  case base
  then show ?case by (simp add: records_le_def record_le_refl)
next
  case (step y z)
  then show ?case using vault_step_le [of C "fst y" "snd y" "fst z" "snd z"] records_le_trans by simp
qed

subsection \<open>Well-formed vaults\<close>

definition vault_ok :: "vault \<Rightarrow> bool" where
  "vault_ok s \<longleftrightarrow> distinct (map fst (va_records s)) \<and> (\<forall>(k, r) \<in> set (va_records s). md_ID (vr_Metadata r) = k)"

lemma vault_ok_map_of: "vault_ok s \<Longrightarrow> map_of (va_records s) k = Some r \<Longrightarrow> md_ID (vr_Metadata r) = k"
  unfolding vault_ok_def by (fastforce dest: map_of_SomeD)

lemma vault_ok_update:
  assumes "vault_ok s" "va_records s' = AList.update k r (va_records s)" "md_ID (vr_Metadata r) = k"
  shows "vault_ok s'"
  unfolding vault_ok_def
proof (intro conjI ballI)
  show d: "distinct (map fst (va_records s'))"
    using assms(1,2) by (simp add: vault_ok_def distinct_update)
  fix p
  assume "p \<in> set (va_records s')"
  then have "map_of (va_records s') (fst p) = Some (snd p)" using d by simp
  then show "case p of (k, r) \<Rightarrow> md_ID (vr_Metadata r) = k"
    using assms(2,3) vault_ok_map_of [OF assms(1)] by (auto split: if_splits)
qed

lemma record_change_ID:
  "record_change old ref r \<Longrightarrow> (\<And>r. old = Some r \<Longrightarrow> md_ID (vr_Metadata r) = ref) \<Longrightarrow> md_ID (vr_Metadata r) = ref"
  by (induction rule: record_change.induct) (simp_all add: new_record_fields tombstone_def refreshed_record_def)

lemma vault_step_ok:
  assumes "vault_step C (s, fs) (s', fs')" "vault_ok s"
  shows "vault_ok s'"
proof -
  consider "quiet s fs s' fs'" | "writes C s fs s' fs'" | "uses s fs s' fs'"
    using vault_step_cases [OF assms(1)] by blast
  then show ?thesis
  proof cases
    case 1
    then show ?thesis using assms(2) by (simp add: quiet_def vault_ok_def)
  next
    case 2
    then obtain ref r where c: "record_change (map_of (va_records s) ref) ref r"
      "va_records s' = AList.update ref r (va_records s)"
      by (auto simp: writes_def changes_to_def)
    show ?thesis
      by (rule vault_ok_update [OF assms(2) c(2)]) (rule record_change_ID [OF c(1) vault_ok_map_of [OF assms(2)]])
  next
    case 3
    then obtain ref r now where "map_of (va_records s) ref = Some r"
      "va_records s' = AList.update ref (used_at now r) (va_records s)"
      by (auto simp: uses_def)
    with vault_ok_map_of [OF assms(2)] vault_ok_update [OF assms(2)] show ?thesis by (simp add: used_at_def)
  qed
qed

lemma vault_run_ok: "(vault_step C)\<^sup>*\<^sup>* x y \<Longrightarrow> vault_ok (fst x) \<Longrightarrow> vault_ok (fst y)"
proof (induction rule: rtranclp_induct)
  case (step y z)
  then show ?case using vault_step_ok [of C "fst y" "snd y" "fst z" "snd z"] by simp
qed simp

lemma List_metadata:
  assumes "vault_ok s" "m \<in> set (vault_List now s)"
  shows "\<exists>r. map_of (va_records s) (md_ID m) = Some r \<and> \<not> vr_Revoked r"
proof -
  obtain k r where r: "(k, r) \<in> set (va_records s)" "\<not> vr_Revoked r" "m = public_metadata now s r"
    using assms(2) by (auto simp: vault_List_def)
  have "map_of (va_records s) k = Some r" using assms(1) r(1) by (simp add: vault_ok_def)
  moreover have "md_ID m = k"
    using vault_ok_map_of [OF assms(1) calculation] by (simp add: r(3) public_metadata_def Let_def split: option.split)
  ultimately show ?thesis using r(2) by simp
qed

subsection \<open>Deleted references\<close>

lemma Delete_success:
  assumes "vault_Delete C ref now os fs s = (None, s', trace)" "io_CreateTemp os \<noteq> Some (va_path s)"
  shows "\<exists>old. map_of (va_records s) ref = Some old \<and> \<not> vr_Revoked old \<and>
    va_records s' = AList.update ref (tombstone ref (rec_Version old) now) (va_records s)"
proof -
  obtain old where old: "map_of (va_records s) ref = Some old" "\<not> vr_Revoked old"
    using assms(1) by (auto simp: vault_Delete_def split: option.splits if_splits)
  obtain e s1 tr where sv: "vault_save C (AList.update ref (tombstone ref (rec_Version old) now) (va_records s)) os fs s
      = (e, s1, tr)" by (cases "vault_save C (AList.update ref (tombstone ref (rec_Version old) now) (va_records s)) os fs s") auto
  have "e = None" "s' = forget_use ref s1" using assms(1) old sv by (auto simp: vault_Delete_def split: option.splits)
  with vault_save_effect [OF assms(2) sv] old show ?thesis by (simp add: forget_use_def)
qed

text \<open>C31. A deleted credential stays deleted while the vault is open. After a successful deletion, whatever
  runs afterwards and however it is interleaved, including refreshes and reads from an external manager
  that were in flight: the reference does not resolve, the answer of a manager asked before is stale,
  the reference is not listed, cannot be stored again, and nothing secret is kept under it.\<close>

theorem deleted_stays_deleted:
  assumes "vault_ok s" and "vault_Delete C ref now os fs s = (None, s1, trace)"
    and "io_CreateTemp os \<noteq> Some (va_path s)" and "(vault_step C)\<^sup>*\<^sup>* (s1, hd trace) (s2, fs2)"
  shows "resolve_begin ref t s2 = Inl ''credential is missing or revoked'' \<and>
    resolve_end ref t s2 = (Inl ''credential is revoked'', s2) \<and>
    resolve_external ref version answer s2 = Inl ''external credential result is stale'' \<and>
    ref \<notin> md_ID ` set (vault_List t s2) \<and>
    fst (putRecord C ref kind source val x g t os2 fs2 s2) \<noteq> None \<and>
    (\<exists>r. map_of (va_records s2) ref = Some r \<and> secrets r = ('''', None, None))"
proof -
  obtain old where "va_records s1 = AList.update ref (tombstone ref (rec_Version old) now) (va_records s)"
    using Delete_success [OF assms(2,3)] by blast
  then have "map_of (va_records s1) ref = Some (tombstone ref (rec_Version old) now)" by simp
  then obtain r where r: "map_of (va_records s2) ref = Some r" "record_le (tombstone ref (rec_Version old) now) r"
    using vault_run_le [OF assms(4)] unfolding records_le_def by fastforce
  then have rev: "vr_Revoked r" "secrets r = ('''', None, None)"
    by (simp_all add: record_le_def tombstone_def secrets_def zero_Metadata_def)
  have "vault_ok s1" using vault_step.delete [OF assms(2,3)] vault_step_ok assms(1) by blast
  then have "vault_ok s2" using vault_run_ok [OF assms(4)] by simp
  then have "ref \<notin> md_ID ` set (vault_List t s2)" using List_metadata r(1) rev(1) by fastforce
  moreover have "fst (putRecord C ref kind source val x g t os2 fs2 s2) \<noteq> None"
    using r(1) rev(1) by (auto simp: putRecord_def Let_def split: option.splits)
  ultimately show ?thesis using r(1) rev by (simp add: resolve_begin_def resolve_end_def resolve_external_def)
qed

text \<open>C32. A refresh never overwrites newer material. A refresh that started from a grant and ends after any
  run of other operations stores its result only onto the grant it started from; if the reference was
  replaced, refreshed or deleted meanwhile, even back to the same token, its result is dropped as stale
  and neither memory nor file changes.\<close>

theorem refresh_never_overwrites:
  assumes "refresh_begin ref force now s = (Flies g version, s1)" and "(vault_step C)\<^sup>*\<^sup>* (s1, fs1) (s2, fs2)"
    and "io_CreateTemp os \<noteq> Some (va_path s2)"
    and "refresh_finish C ref version answer now2 os fs2 s2 = (err, s3, trace)"
  shows "(err = None \<longrightarrow> (\<exists>r next. map_of (va_records s2) ref = Some r \<and> \<not> vr_Revoked r \<and> vr_OAuth r = Some g \<and>
      rec_Version r = version \<and> answer = Inr next \<and>
      map_of (va_records s3) ref = Some (refreshed_record next now2 r))) \<and>
    (\<forall>r. map_of (va_records s2) ref = Some r \<longrightarrow> vr_Revoked r \<or> vr_OAuth r \<noteq> Some g \<or> rec_Version r \<noteq> version \<longrightarrow>
      err = Some ''OAuth refresh result is stale'' \<and> va_records s3 = va_records s2 \<and> trace = [fs2])"
proof -
  obtain r0 where r0: "map_of (va_records s1) ref = Some r0" "\<not> vr_Revoked r0" "vr_OAuth r0 = Some g"
      "rec_Version r0 = version"
    using assms(1) by (auto simp: refresh_begin_def split: option.splits if_splits)
  then obtain r where r: "map_of (va_records s2) ref = Some r" "record_le r0 r"
    using vault_run_le [OF assms(2)] unfolding records_le_def by fastforce
  show ?thesis
  proof (cases "vr_Revoked r \<or> rec_Version r \<noteq> version")
    case True
    with assms(4) r(1) show ?thesis by (auto simp: refresh_finish_def Let_def end_flight_def)
  next
    case False
    then have g: "vr_OAuth r = Some g" using r(2) r0 by (simp add: record_le_def secrets_def)
    have "\<exists>next. answer = Inr next \<and> map_of (va_records s3) ref = Some (refreshed_record next now2 r)" if "err = None"
    proof (cases answer)
      case (Inr "next")
      let ?m = "AList.update ref (refreshed_record next now2 r) (va_records s2)"
      obtain e s' tr where sv: "vault_save C ?m os fs2 s2 = (e, s', tr)" by (cases "vault_save C ?m os fs2 s2") auto
      have "rec_Version r + 1 \<noteq> 0" using assms(4) False r(1) Inr that by (auto simp: refresh_finish_def Let_def)
      then have "e = None" "va_records s3 = va_records s'"
        using assms(4) False r(1) Inr that sv
        by (auto simp: refresh_finish_def Let_def end_flight_def forget_use_def forget_backoff_def)
      with vault_save_effect [OF assms(3) sv] Inr show ?thesis by simp
    qed (use assms(4) False r(1) that in \<open>simp add: refresh_finish_def Let_def\<close>)
    with False r(1) g show ?thesis by auto
  qed
qed

lemma external_answer_current:
  assumes "resolve_begin ref now s = Inr (ReadsExternal x version)" "(vault_step C)\<^sup>*\<^sup>* (s, fs) (s2, fs2)"
    "resolve_external ref version (Inr val) s2 = Inr val"
  shows "\<exists>r. map_of (va_records s2) ref = Some r \<and> \<not> vr_Revoked r \<and> md_External (vr_Metadata r) = Some x"
proof -
  obtain r0 where r0: "map_of (va_records s) ref = Some r0" "md_External (vr_Metadata r0) = Some x"
      "rec_Version r0 = version"
    using assms(1) by (auto simp: resolve_begin_def split: option.splits if_splits)
  then obtain r where "map_of (va_records s2) ref = Some r" "record_le r0 r"
    using vault_run_le [OF assms(2)] unfolding records_le_def by fastforce
  with assms(3) r0 show ?thesis
    by (auto simp: resolve_external_def record_le_def secrets_def split: if_splits)
qed

subsection \<open>Witnesses\<close>

definition sample_grant :: OAuthGrant where
  "sample_grant = \<lparr>og_AccessToken = ''a'', og_RefreshToken = ''r'', og_TokenURL = ''https://t'', og_ClientID = ''c'',
     og_ClientSecret = '''', og_ExpiresAt = 5, og_Scope = '''', og_AccountID = ''''\<rparr>"

definition sample_secret :: vault_record where
  "sample_secret = new_record ''cred://k'' ''oauth'' ''user'' ''a'' None (Some sample_grant) 1 3 3 None"

definition sample_vault :: vault where
  "sample_vault = \<lparr>va_accountOwners = None, va_refreshes = (\<lambda>i. False), va_refreshBackoff = (\<lambda>i. 0),
     va_path = ''v'', va_records = [(''cred://k'', sample_secret)], va_lastUsed = Map.empty\<rparr>"

definition sample_vault_codec :: vault_codec where
  "sample_vault_codec = \<lparr>vj_Marshal = (\<lambda>m. Inr ''m''), vj_Unmarshal = (\<lambda>b. None), vj_MarshalDoc = (\<lambda>d. Inr ''d''),
     vj_UnmarshalDoc = (\<lambda>b. None), vj_Login = (\<lambda>v. None), vc_protect = Inr, vc_unprotect = Inr\<rparr>"

lemma sample_vault_ok: "vault_ok sample_vault"
  by (simp add: vault_ok_def sample_vault_def sample_secret_def new_record_fields)

lemma sample_delete:
  "\<exists>s1 trace. vault_Delete sample_vault_codec ''cred://k'' 9 sample_io Map.empty sample_vault = (None, s1, trace)"
  by (simp add: vault_Delete_def sample_vault_def sample_secret_def new_record_fields vault_save_def persist_def
      vault_encode_def sample_vault_codec_def replace_file_def sample_io_def Let_def)

lemma sample_temp: "io_CreateTemp sample_io \<noteq> Some (va_path sample_vault)"
  by (simp add: sample_io_def sample_vault_def)

theorem deleted_stays_deleted_witness:
  "\<exists>s1 trace. vault_Delete sample_vault_codec ''cred://k'' 9 sample_io Map.empty sample_vault = (None, s1, trace) \<and>
    ''cred://k'' \<notin> md_ID ` set (vault_List 10 s1) \<and>
    resolve_begin ''cred://k'' 10 s1 = Inl ''credential is missing or revoked'' \<and>
    resolve_external ''cred://k'' 2 (Inr ''secret'') s1 = Inl ''external credential result is stale''"
proof -
  obtain s1 trace where d: "vault_Delete sample_vault_codec ''cred://k'' 9 sample_io Map.empty sample_vault
      = (None, s1, trace)" using sample_delete by blast
  have "(vault_step sample_vault_codec)\<^sup>*\<^sup>* (s1, hd trace) (s1, hd trace)" by simp
  from deleted_stays_deleted [OF sample_vault_ok d sample_temp this, of 10] d show ?thesis by blast
qed

text \<open>A refresh starts, the credential is deleted, and the answer comes too late.\<close>

theorem refresh_never_overwrites_witness:
  "\<exists>s1 s2 trace s3 tr. refresh_begin ''cred://k'' True 8 sample_vault = (Flies sample_grant 1, s1) \<and>
    vault_Delete sample_vault_codec ''cred://k'' 9 sample_io Map.empty s1 = (None, s2, trace) \<and>
    refresh_finish sample_vault_codec ''cred://k'' 1 (Inr sample_grant) 10 sample_io (hd trace) s2
      = (Some ''OAuth refresh result is stale'', s3, tr) \<and> va_records s3 = va_records s2"
proof -
  let ?k = "''cred://k''"
  define s1 where "s1 = sample_vault\<lparr>va_refreshes := (va_refreshes sample_vault)(?k := True)\<rparr>"
  have rec: "map_of (va_records s1) ?k = Some sample_secret" "vr_OAuth sample_secret = Some sample_grant"
    by (simp_all add: s1_def sample_vault_def sample_secret_def new_record_def Let_def)
  have b: "refresh_begin ?k True 8 sample_vault = (Flies sample_grant 1, s1)"
    by (simp add: refresh_begin_def s1_def sample_vault_def sample_secret_def new_record_fields rec(2) [unfolded sample_secret_def])
      (simp add: sample_grant_def)
  have "\<exists>s2 trace. vault_Delete sample_vault_codec ?k 9 sample_io Map.empty s1 = (None, s2, trace)"
    using rec(1) by (simp add: vault_Delete_def sample_secret_def new_record_fields vault_save_def persist_def s1_def
        sample_vault_def vault_encode_def sample_vault_codec_def replace_file_def sample_io_def Let_def)
  then obtain s2 trace where d: "vault_Delete sample_vault_codec ?k 9 sample_io Map.empty s1 = (None, s2, trace)" by blast
  have temp: "io_CreateTemp sample_io \<noteq> Some (va_path s1)" using sample_temp by (simp add: s1_def)
  have run: "(vault_step sample_vault_codec)\<^sup>*\<^sup>* (s1, Map.empty) (s2, hd trace)"
    using vault_step.delete [OF d temp] by simp
  have temp2: "io_CreateTemp sample_io \<noteq> Some (va_path s2)" using Delete_step [OF d temp] temp by simp
  obtain old where "va_records s2 = AList.update ?k (tombstone ?k (rec_Version old) 9) (va_records s1)"
    using Delete_success [OF d temp] by blast
  then have r: "map_of (va_records s2) ?k = Some (tombstone ?k (rec_Version old) 9)" by simp
  obtain err s3 tr where f: "refresh_finish sample_vault_codec ?k 1 (Inr sample_grant) 10 sample_io (hd trace) s2
      = (err, s3, tr)" by (metis prod_cases3)
  have "vr_Revoked (tombstone ?k (rec_Version old) 9)" by (simp add: tombstone_def)
  with refresh_never_overwrites [OF b run temp2 f] r have "err = Some ''OAuth refresh result is stale''" "va_records s3 = va_records s2"
    by blast+
  with b d f show ?thesis by blast
qed

end
