(* ===== verification/VaultAccounts.thy ===== *)
theory VaultAccounts
  imports VaultProps
begin

section \<open>The vault of provider accounts\<close>

text \<open>
  \<open>internal/credentials/accounts.go\<close>: the encrypted document keyed by accounts, how it is read back, and
  the migration of the older vault file. The document and the two paths are as in the code; the JSON
  encoding of the document and the protection are fields of \<open>vault_codec\<close>.

  The lemmas show that reading the document gives back exactly the live records and their owners, and
  that memory and file agree after every step of every run, in both formats. The document has no place
  for tombstones: what follows from that is proved at the end.
\<close>

subsection \<open>Reading the document\<close>

fun load_materials :: "AccountOwner \<Rightarrow> records \<Rightarrow> records \<times> owners \<Rightarrow> (records \<times> owners) result" where
  "load_materials owner [] st = Inr st"
| "load_materials owner ((ref, r) # ms) (recs, ow) =
     (if (case map_of recs ref of None \<Rightarrow> False | Some old \<Rightarrow> old \<noteq> r)
      then Inl ''conflicting shared account material''
      else load_materials owner ms (AList.update ref r recs, ow(ref := ow ref @ [owner])))"

fun load_accounts :: "(string \<times> accountBundle) list \<Rightarrow> records \<times> owners \<Rightarrow> (records \<times> owners) result" where
  "load_accounts [] st = Inr st"
| "load_accounts ((account, bundle) # as) st =
     result_bind (load_materials \<lparr>ow_Account = account, ow_Provider = ab_Provider bundle\<rparr> (ab_Materials bundle) st)
       (load_accounts as)"

definition accounts_decode :: "vault_codec \<Rightarrow> string \<Rightarrow> (records \<times> owners) result" where
  "accounts_decode C b =
     (if length b > 16 * 2 ^ 20 then Inl ''account material storage exceeds limit''
      else (case vc_unprotect C b of
              Inl e \<Rightarrow> Inl ''cannot unlock provider account data''
            | Inr plain \<Rightarrow>
                (case vj_UnmarshalDoc C plain of
                   None \<Rightarrow> Inl ''invalid provider account data''
                 | Some doc \<Rightarrow> if ad_Format doc \<noteq> 1 then Inl ''invalid provider account data''
                               else load_accounts (ad_Accounts doc) ([], \<lambda>k. []))))"

definition account_store :: "string \<Rightarrow> records \<times> owners \<Rightarrow> vault" where
  "account_store path st = \<lparr>va_accountOwners = Some (snd st), va_refreshes = (\<lambda>i. False),
     va_refreshBackoff = (\<lambda>i. 0), va_path = path, va_records = fst st, va_lastUsed = Map.empty\<rparr>"

subsection \<open>Migration\<close>

definition account_refs :: "Config \<Rightarrow> (string \<times> AccountOwner) list" where
  "account_refs c = filter (\<lambda>(ref, ow). ref \<noteq> '''')
     (concat (map (\<lambda>a. [(account_LoginCredentialRef a, \<lparr>ow_Account = account_ID a, ow_Provider = account_ProviderID a\<rparr>),
                         (account_CredentialRef a, \<lparr>ow_Account = account_ID a, ow_Provider = account_ProviderID a\<rparr>)])
        (cfg_Accounts c)))"

definition source_refs :: "Config \<Rightarrow> (string \<times> AccountOwner) list" where
  "source_refs c =
     map (\<lambda>x. (source_CredentialRef x, \<lparr>ow_Account = source_AccountID x, ow_Provider = source_Provider x\<rparr>))
       (filter (\<lambda>x. source_CredentialRef x \<noteq> '''') (cfg_Sources c))"

definition migration_owners :: "Config \<Rightarrow> (string \<times> AccountOwner) list result" where
  "migration_owners c =
     (if list_ex (\<lambda>x. source_CredentialRef x \<noteq> '''' \<and> source_AccountID x = '''') (cfg_Sources c)
      then Inl ''bind source credentials to a provider account before migrating''
      else Inr (account_refs c @ source_refs c))"

definition owners_of :: "(string \<times> AccountOwner) list \<Rightarrow> owners" where
  "owners_of pairs ref = map snd (filter (\<lambda>p. fst p = ref) pairs)"

fun kept_records :: "records \<Rightarrow> string list \<Rightarrow> records result" where
  "kept_records recs [] = Inr []"
| "kept_records recs (ref # refs) =
     (case map_of recs ref of
        None \<Rightarrow> Inl ''account references missing legacy material''
      | Some r \<Rightarrow> if vr_Revoked r then Inl ''account references missing legacy material''
                  else result_bind (kept_records recs refs) (\<lambda>m. Inr ((ref, r) # m)))"

definition same_map :: "records \<Rightarrow> records \<Rightarrow> bool" where
  "same_map m m' = list_all (\<lambda>k. map_of m k = map_of m' k) (map fst m @ map fst m')"

text \<open>
  \<open>sys\<close> collects the outcomes of the calls that are not part of the write: whether the new and the old
  file can be read, whether \<open>Stat\<close> of the old one works, and whether its archive can be renamed.
\<close>

record migration_io =
  mi_read :: bool
  mi_read_legacy :: bool
  mi_read_again :: bool
  mi_stat :: bool
  mi_archive :: bool

definition read_accounts :: "vault_codec \<Rightarrow> string \<Rightarrow> bool \<Rightarrow> fs \<Rightarrow> vault result" where
  "read_accounts C path readable fs =
     (case fs path of
        None \<Rightarrow> Inl ''file does not exist''
      | Some b \<Rightarrow> if \<not> readable then Inl ''read failed''
                  else result_bind (accounts_decode C b) (\<lambda>st. Inr (account_store path st)))"

definition verify_and_archive :: "vault_codec \<Rightarrow> string \<Rightarrow> string \<Rightarrow> string \<Rightarrow> migration_io \<Rightarrow> records \<Rightarrow> fs list
    \<Rightarrow> (vault \<times> string) result \<times> fs list" where
  "verify_and_archive C path legacy stamp sys kept trace =
     (case read_accounts C path (mi_read_again sys) (hd trace) of
        Inl e \<Rightarrow> (Inl e, trace)
      | Inr verified \<Rightarrow>
          if \<not> same_map (va_records verified) kept then (Inl ''account migration verification failed'', trace)
          else (case hd trace legacy of
                  None \<Rightarrow> (Inr (verified, ''''), trace)
                | Some b \<Rightarrow>
                    (let backup = legacy @ ''.legacy-backup-'' @ stamp in
                     if \<not> mi_stat sys then (Inl ''stat failed'', trace)
                     else if \<not> mi_archive sys
                     then (Inl ''account data migrated but legacy archive failed'', trace)
                     else (Inr (verified, backup), ((hd trace)(legacy := None, backup \<mapsto> b)) # trace))))"

definition migrate :: "vault_codec \<Rightarrow> string \<Rightarrow> string \<Rightarrow> string \<Rightarrow> migration_io \<Rightarrow> io \<Rightarrow> fs \<Rightarrow> vault
    \<Rightarrow> (string \<times> AccountOwner) list \<Rightarrow> (vault \<times> string) result \<times> fs list" where
  "migrate C path legacy stamp sys os fs s pairs =
     (case kept_records (va_records s) (remdups (map fst pairs)) of
        Inl e \<Rightarrow> (Inl e, [fs])
      | Inr kept \<Rightarrow>
          (case vault_save C kept os fs (s\<lparr>va_path := path, va_accountOwners := Some (owners_of pairs)\<rparr>) of
             (Some e, s', trace) \<Rightarrow> (Inl e, trace)
           | (None, s', trace) \<Rightarrow> verify_and_archive C path legacy stamp sys kept trace))"

definition OpenProviderAccounts :: "vault_codec \<Rightarrow> string \<Rightarrow> string \<Rightarrow> string \<Rightarrow> Config \<Rightarrow> migration_io \<Rightarrow> io \<Rightarrow> fs
    \<Rightarrow> (vault \<times> string) result \<times> fs list" where
  "OpenProviderAccounts C path legacy stamp c sys os fs =
     (if fs path \<noteq> None
      then (result_bind (read_accounts C path (mi_read sys) fs) (\<lambda>s. Inr (s, '''')), [fs])
      else (case vault_open C legacy (mi_read_legacy sys) fs of
              Inl e \<Rightarrow> (Inl e, [fs])
            | Inr s \<Rightarrow> (case migration_owners c of
                          Inl e \<Rightarrow> (Inl e, [fs])
                        | Inr pairs \<Rightarrow> migrate C path legacy stamp sys os fs s pairs)))"

subsection \<open>Grouping and reading back\<close>

definition live :: "records \<Rightarrow> string \<Rightarrow> vault_record option" where
  "live m k = (case map_of m k of None \<Rightarrow> None | Some r \<Rightarrow> if vr_Revoked r then None else Some r)"

definition doc_ok :: "accountDocument \<Rightarrow> bool" where
  "doc_ok doc \<longleftrightarrow> distinct (map fst (ad_Accounts doc)) \<and>
     (\<forall>(a, b) \<in> set (ad_Accounts doc). ab_Provider b \<noteq> '''' \<and> distinct (map fst (ab_Materials b)))"

definition material :: "accountDocument \<Rightarrow> string \<Rightarrow> string \<Rightarrow> string \<Rightarrow> vault_record \<Rightarrow> bool" where
  "material doc a p k r \<longleftrightarrow> (\<exists>b. map_of (ad_Accounts doc) a = Some b \<and> ab_Provider b = p \<and> map_of (ab_Materials b) k = Some r)"

lemma doc_ok_bundle:
  "doc_ok doc \<Longrightarrow> map_of (ad_Accounts doc) a = Some b \<Longrightarrow> ab_Provider b \<noteq> '''' \<and> distinct (map fst (ab_Materials b))"
  unfolding doc_ok_def by (auto dest!: map_of_SomeD)

lemma add_material_effect:
  assumes "doc_ok doc" "add_material ref r owner doc = Inr doc'"
  shows "doc_ok doc' \<and> ad_Format doc' = ad_Format doc \<and>
    (\<forall>a p k x. material doc' a p k x \<longleftrightarrow>
       (a = ow_Account owner \<and> p = ow_Provider owner \<and> k = ref \<and> x = r) \<or>
       (material doc a p k x \<and> \<not> (a = ow_Account owner \<and> k = ref))) \<and>
    (\<forall>p k x. material doc (ow_Account owner) p k x \<longrightarrow> p = ow_Provider owner)"
proof -
  let ?a = "ow_Account owner"
  define b where "b = (case map_of (ad_Accounts doc) ?a of
     None \<Rightarrow> \<lparr>ab_Provider = ow_Provider owner, ab_Materials = []\<rparr> | Some b \<Rightarrow> b)"
  let ?new = "b\<lparr>ab_Materials := AList.update ref r (ab_Materials b)\<rparr>"
  have doc': "doc' = doc\<lparr>ad_Accounts := AList.update ?a ?new (ad_Accounts doc)\<rparr>"
    using assms(2) by (auto simp: add_material_def Let_def b_def split: if_splits option.splits)
  have prov: "ow_Provider owner \<noteq> ''''" using assms(2) by (auto simp: add_material_def split: if_splits)
  have b: "ab_Provider b = ow_Provider owner" "distinct (map fst (ab_Materials b))"
    using assms doc_ok_bundle [OF assms(1)] prov
    by (auto simp: add_material_def Let_def b_def split: if_splits option.splits)
  have "doc_ok doc'"
  proof (unfold doc_ok_def, intro conjI ballI)
    show d: "distinct (map fst (ad_Accounts doc'))"
      using assms(1) by (simp add: doc_ok_def doc' distinct_update)
    fix p
    assume "p \<in> set (ad_Accounts doc')"
    then have "map_of (ad_Accounts doc') (fst p) = Some (snd p)" using d by simp
    then show "case p of (a, b) \<Rightarrow> ab_Provider b \<noteq> '''' \<and> distinct (map fst (ab_Materials b))"
      using b prov doc_ok_bundle [OF assms(1)] by (auto simp: doc' distinct_update split: if_splits)
  qed
  moreover have "map_of (ab_Materials b) k = Some x \<longleftrightarrow> material doc ?a (ow_Provider owner) k x" for k x
    using b(1) by (auto simp: b_def material_def split: option.splits)
  then have "material doc' a p k x \<longleftrightarrow>
       (a = ?a \<and> p = ow_Provider owner \<and> k = ref \<and> x = r) \<or> (material doc a p k x \<and> \<not> (a = ?a \<and> k = ref))" for a p k x
    using b(1) by (cases "a = ?a") (auto simp: material_def doc' b_def split: option.splits)
  moreover have "material doc ?a p k x \<Longrightarrow> p = ow_Provider owner" for p k x
    using b(1) by (auto simp: material_def b_def)
  ultimately show ?thesis by (simp add: doc')
qed

lemma add_owners_effect:
  assumes "doc_ok doc" "add_owners ref r os doc = Inr doc'" "\<And>a p x. material doc a p ref x \<Longrightarrow> x = r"
  shows "doc_ok doc' \<and> ad_Format doc' = ad_Format doc \<and>
    (\<forall>a p k x. material doc' a p k x \<longleftrightarrow>
       material doc a p k x \<or> (k = ref \<and> x = r \<and> \<lparr>ow_Account = a, ow_Provider = p\<rparr> \<in> set os))"
  using assms
proof (induction os arbitrary: doc)
  case (Cons owner os)
  then obtain d where d: "add_material ref r owner doc = Inr d" "add_owners ref r os d = Inr doc'"
    by (auto simp: result_bind_Inr_iff)
  note eff = add_material_effect [OF Cons.prems(1) d(1)]
  have owner: "owner = \<lparr>ow_Account = a, ow_Provider = p\<rparr> \<longleftrightarrow> ow_Account owner = a \<and> ow_Provider owner = p" for a p
    by (cases owner) auto
  have step: "material d a p k x \<longleftrightarrow> material doc a p k x \<or> (k = ref \<and> x = r \<and> owner = \<lparr>ow_Account = a, ow_Provider = p\<rparr>)"
    for a p k x
  proof -
    have m: "material d a p k x \<longleftrightarrow> (a = ow_Account owner \<and> p = ow_Provider owner \<and> k = ref \<and> x = r) \<or>
        (material doc a p k x \<and> \<not> (a = ow_Account owner \<and> k = ref))"
      and prov: "material doc (ow_Account owner) p k x \<Longrightarrow> p = ow_Provider owner"
      using eff by blast+
    show ?thesis unfolding m owner using prov Cons.prems(3) by (cases "a = ow_Account owner \<and> k = ref") auto
  qed
  have "doc_ok d" "ad_Format d = ad_Format doc" using eff by simp_all
  moreover have "material d a p ref x \<Longrightarrow> x = r" for a p x using step Cons.prems(3) by blast
  ultimately show ?case using Cons.IH [OF _ d(2)] step by auto
qed simp

lemma group_loop_effect:
  assumes "doc_ok doc" "distinct (map fst rs)" "group_loop ow rs doc = Inr doc'"
    "\<And>a p k x. material doc a p k x \<Longrightarrow> k \<notin> fst ` set rs"
  shows "doc_ok doc' \<and> ad_Format doc' = ad_Format doc \<and>
    (\<forall>a p k x. material doc' a p k x \<longleftrightarrow>
       material doc a p k x \<or> (live rs k = Some x \<and> \<lparr>ow_Account = a, ow_Provider = p\<rparr> \<in> set (ow k))) \<and>
    (\<forall>k. live rs k \<noteq> None \<longrightarrow> ow k \<noteq> [])"
  using assms
proof (induction rs arbitrary: doc)
  case Nil
  then show ?case by (simp add: live_def)
next
  case (Cons e rs)
  obtain ref r where e: "e = (ref, r)" by (cases e)
  have fresh: "map_of rs ref = None" using Cons.prems(2) e by (simp add: map_of_eq_None_iff)
  have live: "live (e # rs) k = (if k = ref then (if vr_Revoked r then None else Some r) else live rs k)"
    "live rs ref = None" for k
    using fresh by (simp_all add: live_def e)
  show ?case
  proof (cases "vr_Revoked r")
    case True
    then have "group_loop ow rs doc = Inr doc'" using Cons.prems(3) e by simp
    from Cons.IH [OF Cons.prems(1) _ this] Cons.prems(2,4) True live show ?thesis by auto
  next
    case False
    then obtain d where d: "add_owners ref r (ow ref) doc = Inr d" "group_loop ow rs d = Inr doc'" and ne: "ow ref \<noteq> []"
      using Cons.prems(3) e by (auto simp: result_bind_Inr_iff split: if_splits)
    have eff: "doc_ok d \<and> ad_Format d = ad_Format doc \<and> (\<forall>a p k x. material d a p k x \<longleftrightarrow>
        material doc a p k x \<or> (k = ref \<and> x = r \<and> \<lparr>ow_Account = a, ow_Provider = p\<rparr> \<in> set (ow ref)))"
      by (rule add_owners_effect [OF Cons.prems(1) d(1)]) (use Cons.prems(4) e in auto)
    have "k \<notin> fst ` set rs" if "material d a p k x" for a p k x
      using that eff Cons.prems(2) Cons.prems(4) [of a p k x] e by auto
    from Cons.IH [OF _ _ d(2) this] eff Cons.prems(2) e
    have ih: "doc_ok doc'" "ad_Format doc' = ad_Format d"
      "\<forall>a p k x. material doc' a p k x \<longleftrightarrow>
         material d a p k x \<or> (live rs k = Some x \<and> \<lparr>ow_Account = a, ow_Provider = p\<rparr> \<in> set (ow k))"
      "\<forall>k. live rs k \<noteq> None \<longrightarrow> ow k \<noteq> []" by simp_all
    have "material doc' a p k x \<longleftrightarrow> material doc a p k x \<or>
        (live (e # rs) k = Some x \<and> \<lparr>ow_Account = a, ow_Provider = p\<rparr> \<in> set (ow k))" for a p k x
      using ih(3) eff live False by auto
    with ih eff live ne False show ?thesis by simp
  qed
qed

lemma load_materials_effect:
  assumes "distinct (map fst ms)" "distinct (map fst recs)" "\<And>k r. map_of recs k = Some r \<Longrightarrow> M k = Some r"
    "\<And>k r. map_of ms k = Some r \<Longrightarrow> M k = Some r"
  shows "\<exists>recs' ow'. load_materials owner ms (recs, ow) = Inr (recs', ow') \<and> distinct (map fst recs') \<and>
    (\<forall>k r. map_of recs' k = Some r \<longleftrightarrow> map_of recs k = Some r \<or> map_of ms k = Some r) \<and>
    (\<forall>k. set (ow' k) = set (ow k) \<union> (if map_of ms k = None then {} else {owner}))"
  using assms
proof (induction ms arbitrary: recs ow)
  case (Cons e ms)
  obtain ref r where e: "e = (ref, r)" by (cases e)
  have M: "M ref = Some r" using Cons.prems(4) [of ref r] e by simp
  then have noconf: "\<not> (case map_of recs ref of None \<Rightarrow> False | Some old \<Rightarrow> old \<noteq> r)"
    using Cons.prems(3) by (auto split: option.splits)
  have fresh: "map_of ms ref = None" using Cons.prems(1) e by (simp add: map_of_eq_None_iff)
  let ?recs = "AList.update ref r recs" and ?ow = "ow(ref := ow ref @ [owner])"
  have ms: "M k = Some x" if "map_of ms k = Some x" for k x
    using Cons.prems(4) [of k x] that fresh e by (cases "k = ref") auto
  have recs: "M k = Some x" if "map_of ?recs k = Some x" for k x
    using Cons.prems(3) [of k x] that M by (auto split: if_splits)
  have d: "distinct (map fst ms)" "distinct (map fst ?recs)" using Cons.prems(1,2) e by (simp_all add: distinct_update)
  obtain recs' ow' where ih: "load_materials owner ms (?recs, ?ow) = Inr (recs', ow')" "distinct (map fst recs')"
    "\<forall>k r. map_of recs' k = Some r \<longleftrightarrow> map_of ?recs k = Some r \<or> map_of ms k = Some r"
    "\<forall>k. set (ow' k) = set (?ow k) \<union> (if map_of ms k = None then {} else {owner})"
    using Cons.IH [OF d recs ms, where ow = ?ow] by blast
  have old: "map_of recs ref = Some x \<Longrightarrow> x = r" for x using Cons.prems(3) M by fastforce
  have "map_of recs' k = Some x \<longleftrightarrow> map_of recs k = Some x \<or> map_of (e # ms) k = Some x" for k x
    using ih(3) old fresh e by auto
  moreover have "set (ow' k) = set (ow k) \<union> (if map_of (e # ms) k = None then {} else {owner})" for k
    using ih(4) fresh e by auto
  ultimately show ?case using ih(1,2) noconf e by simp
qed simp

lemma load_accounts_effect:
  assumes "\<forall>(a, b) \<in> set as. distinct (map fst (ab_Materials b))" "distinct (map fst recs)"
    "\<And>k r. map_of recs k = Some r \<Longrightarrow> M k = Some r"
    "\<forall>(a, b) \<in> set as. \<forall>k r. map_of (ab_Materials b) k = Some r \<longrightarrow> M k = Some r"
  shows "\<exists>recs' ow'. load_accounts as (recs, ow) = Inr (recs', ow') \<and> distinct (map fst recs') \<and>
    (\<forall>k r. map_of recs' k = Some r \<longleftrightarrow> map_of recs k = Some r \<or> (\<exists>(a, b) \<in> set as. map_of (ab_Materials b) k = Some r)) \<and>
    (\<forall>k. set (ow' k) = set (ow k) \<union>
       {\<lparr>ow_Account = a, ow_Provider = ab_Provider b\<rparr> | a b. (a, b) \<in> set as \<and> map_of (ab_Materials b) k \<noteq> None})"
  using assms
proof (induction as arbitrary: recs ow)
  case (Cons e as)
  obtain a b where e: "e = (a, b)" by (cases e)
  let ?o = "\<lparr>ow_Account = a, ow_Provider = ab_Provider b\<rparr>"
  have dm: "distinct (map fst (ab_Materials b))" using Cons.prems(1) e by simp
  have mb: "map_of (ab_Materials b) k = Some r \<Longrightarrow> M k = Some r" for k r using Cons.prems(4) e by simp
  obtain recs1 ow1 where one: "load_materials ?o (ab_Materials b) (recs, ow) = Inr (recs1, ow1)"
    "distinct (map fst recs1)"
    "\<forall>k r. map_of recs1 k = Some r \<longleftrightarrow> map_of recs k = Some r \<or> map_of (ab_Materials b) k = Some r"
    "\<forall>k. set (ow1 k) = set (ow k) \<union> (if map_of (ab_Materials b) k = None then {} else {?o})"
    using load_materials_effect [OF dm Cons.prems(2), where M = M and owner = ?o and ow = ow, OF Cons.prems(3) mb] by blast
  have p1: "\<forall>(a, b) \<in> set as. distinct (map fst (ab_Materials b))" using Cons.prems(1) by simp
  have p3: "M k = Some r" if "map_of recs1 k = Some r" for k r
    using one(3) that Cons.prems(3) mb by blast
  have p4: "\<forall>(a, b) \<in> set as. \<forall>k r. map_of (ab_Materials b) k = Some r \<longrightarrow> M k = Some r"
    using Cons.prems(4) by simp
  obtain recs' ow' where rest: "load_accounts as (recs1, ow1) = Inr (recs', ow')" "distinct (map fst recs')"
    "\<forall>k r. map_of recs' k = Some r \<longleftrightarrow> map_of recs1 k = Some r \<or> (\<exists>(a, b) \<in> set as. map_of (ab_Materials b) k = Some r)"
    "\<forall>k. set (ow' k) = set (ow1 k) \<union>
       {\<lparr>ow_Account = a, ow_Provider = ab_Provider b\<rparr> | a b. (a, b) \<in> set as \<and> map_of (ab_Materials b) k \<noteq> None}"
    using Cons.IH [where recs = recs1 and ow = ow1, OF p1 one(2) p3 p4] by blast
  have "load_accounts (e # as) (recs, ow) = Inr (recs', ow')" using one(1) rest(1) e by simp
  moreover have "map_of recs' k = Some r \<longleftrightarrow>
      map_of recs k = Some r \<or> (\<exists>(a, b) \<in> set (e # as). map_of (ab_Materials b) k = Some r)" for k r
    using one(3) rest(3) e by simp
  moreover have "set (ow' k) = set (ow k) \<union>
      {\<lparr>ow_Account = a, ow_Provider = ab_Provider b\<rparr> | a b. (a, b) \<in> set (e # as) \<and> map_of (ab_Materials b) k \<noteq> None}" for k
    using one(4) rest(4) e by auto
  ultimately show ?case using rest(2) by blast
qed simp

text \<open>Reading the document of a vault gives back its live records with their owners.\<close>

lemma group_and_load:
  assumes "distinct (map fst m)" "groupAccountRecords m ow = Inr doc"
  shows "ad_Format doc = 1 \<and> (\<exists>recs ow'. load_accounts (ad_Accounts doc) ([], \<lambda>k. []) = Inr (recs, ow') \<and>
    distinct (map fst recs) \<and> map_of recs = live m \<and> (\<forall>k. live m k \<noteq> None \<longrightarrow> set (ow' k) = set (ow k)))"
proof -
  let ?d0 = "\<lparr>ad_Format = 1, ad_Accounts = []\<rparr>"
  have d0: "doc_ok ?d0" "\<not> material ?d0 a p k x" for a p k x by (simp_all add: doc_ok_def material_def)
  have g: "doc_ok doc" "ad_Format doc = 1"
    "\<forall>a p k x. material doc a p k x \<longleftrightarrow> live m k = Some x \<and> \<lparr>ow_Account = a, ow_Provider = p\<rparr> \<in> set (ow k)"
    "\<forall>k. live m k \<noteq> None \<longrightarrow> ow k \<noteq> []"
    using group_loop_effect [OF d0(1) assms(1) assms(2) [unfolded groupAccountRecords_def]] d0(2) by auto
  have mem: "(\<exists>a b. (a, b) \<in> set (ad_Accounts doc) \<and> ab_Provider b = p \<and> map_of (ab_Materials b) k = Some x \<and> a = a') \<longleftrightarrow>
      material doc a' p k x" for a' p k x
    using g(1) by (auto simp: material_def doc_ok_def)
  have dist: "\<forall>(a, b) \<in> set (ad_Accounts doc). distinct (map fst (ab_Materials b))"
    using g(1) by (auto simp: doc_ok_def)
  have from_m: "live m k = Some r" if "(a, b) \<in> set (ad_Accounts doc)" "map_of (ab_Materials b) k = Some r" for a b k r
    using g(3) mem that by blast
  have all_from: "\<forall>(a, b) \<in> set (ad_Accounts doc). \<forall>k r. map_of (ab_Materials b) k = Some r \<longrightarrow> live m k = Some r"
    using from_m by blast
  have "\<exists>recs ow'. load_accounts (ad_Accounts doc) ([], \<lambda>k. []) = Inr (recs, ow') \<and> distinct (map fst recs) \<and>
    (\<forall>k r. map_of recs k = Some r \<longleftrightarrow> (\<exists>(a, b) \<in> set (ad_Accounts doc). map_of (ab_Materials b) k = Some r)) \<and>
    (\<forall>k. set (ow' k) = {\<lparr>ow_Account = a, ow_Provider = ab_Provider b\<rparr> | a b.
       (a, b) \<in> set (ad_Accounts doc) \<and> map_of (ab_Materials b) k \<noteq> None})"
    using load_accounts_effect [OF dist _ _ all_from, of "[]" "\<lambda>k. []"] by simp
  then obtain recs ow' where l: "load_accounts (ad_Accounts doc) ([], \<lambda>k. []) = Inr (recs, ow')" "distinct (map fst recs)"
    "\<forall>k r. map_of recs k = Some r \<longleftrightarrow> (\<exists>(a, b) \<in> set (ad_Accounts doc). map_of (ab_Materials b) k = Some r)"
    "\<forall>k. set (ow' k) = {\<lparr>ow_Account = a, ow_Provider = ab_Provider b\<rparr> | a b.
       (a, b) \<in> set (ad_Accounts doc) \<and> map_of (ab_Materials b) k \<noteq> None}"
    by (elim exE conjE)
  have "map_of recs k = Some r \<longleftrightarrow> live m k = Some r" for k r
  proof
    assume "live m k = Some r"
    moreover obtain o' where "o' \<in> set (ow k)" using g(4) calculation by (metis list.set_intros(1) neq_Nil_conv option.distinct(1))
    ultimately have "material doc (ow_Account o') (ow_Provider o') k r" using g(3) by (cases o') simp
    then show "map_of recs k = Some r" using l(3) mem by blast
  next
    assume "map_of recs k = Some r"
    then show "live m k = Some r" using l(3) from_m by blast
  qed
  then have "map_of recs = live m" by (metis (no_types) ext option.exhaust)
  moreover have "set (ow' k) = set (ow k)" if lv: "live m k = Some r" for k r
  proof -
    have "o' \<in> set (ow' k) \<longleftrightarrow> o' \<in> set (ow k)" for o'
    proof -
      have "o' \<in> set (ow' k) \<longleftrightarrow> (\<exists>x. material doc (ow_Account o') (ow_Provider o') k x)"
        using l(4) mem by (cases o') (auto, metis option.exhaust, metis option.distinct(1))
      then show ?thesis using g(3) lv by (cases o') auto
    qed
    then show ?thesis by blast
  qed
  ultimately show ?thesis using g(2) l(1,2) by auto
qed

subsection \<open>Memory and file\<close>

text \<open>
  What the vault needs of the code it calls: what was encoded decodes to itself (a map is given by one
  listing of it), what was protected can be unprotected, and protection adds at most a megabyte.
\<close>

definition codec_round_trip :: "vault_codec \<Rightarrow> bool" where
  "codec_round_trip C \<longleftrightarrow>
     (\<forall>m b. vj_Marshal C m = Inr b \<longrightarrow> vj_Unmarshal C b = Some m) \<and>
     (\<forall>d b. vj_MarshalDoc C d = Inr b \<longrightarrow> vj_UnmarshalDoc C b = Some d) \<and>
     (\<forall>p b. vc_protect C p = Inr b \<longrightarrow> vc_unprotect C b = Inr p \<and> length b \<le> length p + 2 ^ 20)"




definition encodable :: "vault_codec \<Rightarrow> records \<Rightarrow> bool" where
  "encodable C m \<longleftrightarrow> codec_round_trip C \<and> distinct (map fst m)"


lemma accounts_decode_encode:
  assumes "encodable C m" "vault_encode C (Some ow) m = Inr b"
  shows "\<exists>recs ow'. accounts_decode C b = Inr (recs, ow') \<and> map_of recs = live m \<and>
    (\<forall>k. live m k \<noteq> None \<longrightarrow> set (ow' k) = set (ow k))"
proof -
  obtain doc where doc: "groupAccountRecords m ow = Inr doc"
    using assms(2) by (auto simp: vault_encode_def result_bind_Inr_iff)
  obtain plain where p: "vj_MarshalDoc C doc = Inr plain" "length plain \<le> 8 * 2 ^ 20" "vc_protect C plain = Inr b"
    using assms(2) doc by (auto simp: vault_encode_def split: sum.splits if_splits)
  have "vc_unprotect C b = Inr plain" "vj_UnmarshalDoc C plain = Some doc" "length b \<le> 16 * 2 ^ 20"
    using assms(1) p by (fastforce simp: encodable_def codec_round_trip_def)+
  moreover have "distinct (map fst m)" using assms(1) by (simp add: encodable_def)
  ultimately show ?thesis using group_and_load [OF _ doc] unfolding accounts_decode_def by auto
qed








subsection \<open>Migration\<close>

lemma kept_records_spec:
  "kept_records recs refs = Inr m \<Longrightarrow>
   (\<forall>k \<in> set refs. live recs k \<noteq> None) \<and> (\<forall>k. map_of m k = (if k \<in> set refs then map_of recs k else None))"
proof (induction refs arbitrary: m)
  case (Cons ref refs)
  then show ?case
    by (auto simp: result_bind_Inr_iff live_def split: option.splits if_splits)
qed simp

lemma same_map_eq:
  assumes "same_map m m'"
  shows "map_of m = map_of m'"
proof
  fix k
  show "map_of m k = map_of m' k"
  proof (cases "k \<in> set (map fst m @ map fst m')")
    case True
    then show ?thesis using assms by (simp only: same_map_def list_all_iff)
  next
    case False
    then have "map_of m k = None" "map_of m' k = None" by (simp_all add: map_of_eq_None_iff)
    then show ?thesis by simp
  qed
qed

lemma verify_and_archive_cases:
  assumes "verify_and_archive C path legacy stamp sys kept tr = (res, trace)" "tr \<noteq> []"
    "\<forall>f \<in> set tr. f legacy = fs legacy"
  shows "case res of
      Inl e \<Rightarrow> \<forall>f \<in> set trace. f legacy = fs legacy
    | Inr (s, backup) \<Rightarrow> map_of (va_records s) = map_of kept \<and>
        (if fs legacy = None then backup = '''' \<and> hd trace legacy = None
         else hd trace legacy = None \<and> hd trace backup = fs legacy)"
proof (cases "read_accounts C path (mi_read_again sys) (hd tr)")
  case (Inl e)
  then show ?thesis using assms(1,3) by (auto simp: verify_and_archive_def)
next
  case (Inr v)
  have hd: "hd tr legacy = fs legacy" using assms(2,3) by simp
  show ?thesis
  proof (cases "same_map (va_records v) kept \<and> (fs legacy = None \<or> mi_stat sys \<and> mi_archive sys)")
    case False
    then show ?thesis using assms(1,3) Inr hd
      by (auto simp: verify_and_archive_def Let_def split: if_splits option.splits)
  next
    case True
    then show ?thesis using assms(1) Inr hd same_map_eq [of "va_records v" kept]
      by (auto simp: verify_and_archive_def Let_def split: option.splits)
  qed
qed

lemma migrate_cases:
  assumes "migrate C path legacy stamp sys os fs s pairs = (res, trace)" "path \<noteq> legacy"
    "io_CreateTemp os \<noteq> Some path" "io_CreateTemp os \<noteq> Some legacy"
  shows "case res of
      Inl e \<Rightarrow> \<forall>f \<in> set trace. f legacy = fs legacy
    | Inr (v, backup) \<Rightarrow> (\<forall>k \<in> fst ` set pairs. live (va_records s) k \<noteq> None) \<and>
        (\<forall>k. map_of (va_records v) k = (if k \<in> fst ` set pairs then map_of (va_records s) k else None)) \<and>
        (if fs legacy = None then backup = '''' \<and> hd trace legacy = None
         else hd trace legacy = None \<and> hd trace backup = fs legacy)"
proof (cases "kept_records (va_records s) (remdups (map fst pairs))")
  case (Inl e)
  then show ?thesis using assms(1) by (auto simp: migrate_def)
next
  case (Inr kept)
  let ?t = "s\<lparr>va_path := path, va_accountOwners := Some (owners_of pairs)\<rparr>"
  obtain err s' tr where sv: "vault_save C kept os fs ?t = (err, s', tr)" by (cases "vault_save C kept os fs ?t") auto
  then obtain m where p: "persist (replace_file vault_errors True path) (vault_encode C (Some (owners_of pairs))) os fs
      (va_records s) kept = (err, m, tr)"
    by (auto simp: vault_save_def split: prod.splits)
  have tr: "\<forall>f \<in> set tr. f legacy = fs legacy"
    using vault_file.persist_frame [OF p _ assms(4)] assms(2) by simp
  have ne: "tr \<noteq> []" using vault_save_effect [OF _ sv] assms(3) by simp
  show ?thesis
  proof (cases err)
    case (Some e)
    then show ?thesis using assms(1) Inr sv tr by (auto simp: migrate_def)
  next
    case None
    then have "verify_and_archive C path legacy stamp sys kept tr = (res, trace)"
      using assms(1) Inr sv by (simp add: migrate_def)
    note v = verify_and_archive_cases [where fs = fs, OF this ne tr]
    show ?thesis
    proof (cases res)
      case (Inl e)
      then show ?thesis using v by simp
    next
      case (Inr r)
      then show ?thesis using v kept_records_spec [OF \<open>kept_records _ _ = Inr kept\<close>] by (cases r) simp
    qed
  qed
qed

text \<open>C34. The migration to the document of accounts loses no material. When it fails, at whatever point, the
  older vault file is untouched in every state of the file system. When it succeeds, the new vault has
  exactly the records that the configuration binds to accounts, unchanged, and the whole older file is
  still there under its archive name.\<close>

theorem migration_loses_nothing:
  assumes "fs path = None" and "path \<noteq> legacy" and "io_CreateTemp os \<noteq> Some path" and "io_CreateTemp os \<noteq> Some legacy"
    and "OpenProviderAccounts C path legacy stamp c sys os fs = (res, trace)"
  shows "case res of
      Inl e \<Rightarrow> \<forall>f \<in> set trace. f legacy = fs legacy
    | Inr (s, backup) \<Rightarrow> \<exists>old pairs. vault_open C legacy (mi_read_legacy sys) fs = Inr old \<and> migration_owners c = Inr pairs \<and>
        (\<forall>k \<in> fst ` set pairs. live (va_records old) k \<noteq> None) \<and>
        (\<forall>k. map_of (va_records s) k = (if k \<in> fst ` set pairs then map_of (va_records old) k else None)) \<and>
        (if fs legacy = None then backup = '''' \<and> hd trace legacy = None
         else hd trace legacy = None \<and> hd trace backup = fs legacy)"
proof (cases "vault_open C legacy (mi_read_legacy sys) fs")
  case (Inl e)
  then show ?thesis using assms(1,5) by (auto simp: OpenProviderAccounts_def)
next
  case (Inr old)
  show ?thesis
  proof (cases "migration_owners c")
    case (Inl e)
    then show ?thesis using assms(1,5) Inr by (auto simp: OpenProviderAccounts_def)
  next
    case pairs: (Inr pairs)
    have "migrate C path legacy stamp sys os fs old pairs = (res, trace)"
      using assms(1,5) Inr pairs by (simp add: OpenProviderAccounts_def)
    note m = migrate_cases [OF this assms(2-4)]
    show ?thesis
    proof (cases res)
      case (Inl e)
      then show ?thesis using m by simp
    next
      case res: (Inr r)
      obtain v backup where "r = (v, backup)" by (cases r)
      then show ?thesis using m res Inr pairs by simp
    qed
  qed
qed

subsection \<open>Deletions and restarts\<close>

text \<open>
  The document holds no tombstones, so a reference that was deleted is unknown again once the file is
  read: the promise of \<open>Delete\<close> that a deleted reference is not reused ends with the process.
\<close>

lemma deletion_forgotten_on_reopen:
  assumes "codec_round_trip C" "vault_ok s" "va_accountOwners s = Some ow"
    "vault_Delete C ref now os fs s = (None, s1, trace)" "io_CreateTemp os \<noteq> Some (va_path s)"
  shows "\<exists>s2. read_accounts C (va_path s) True (hd trace) = Inr s2 \<and> map_of (va_records s2) ref = None"
proof -
  obtain old where del: "va_records s1 = AList.update ref (tombstone ref (rec_Version old) now) (va_records s)"
    using Delete_success [OF assms(4,5)] by blast
  have "writes C s fs s1 (hd trace)" "va_accountOwners s1 = Some ow"
    using Delete_step [OF assms(4,5)] assms(3) by simp_all
  then obtain b where b: "vault_encode C (Some ow) (va_records s1) = Inr b" "hd trace (va_path s) = Some b"
    by (auto simp: writes_def changes_to_def)
  have "vault_ok s1" using vault_step_ok vault_step.delete [OF assms(4,5)] assms(2) by blast
  then have "encodable C (va_records s1)" using assms(1) by (simp add: encodable_def vault_ok_def)
  then obtain recs ow' where "accounts_decode C b = Inr (recs, ow')" "map_of recs = live (va_records s1)"
    using accounts_decode_encode [OF _ b(1)] by blast
  moreover have "live (va_records s1) ref = None" by (simp add: live_def del tombstone_def)
  ultimately show ?thesis using b(2) by (simp add: read_accounts_def account_store_def)
qed

subsection \<open>Witnesses\<close>

definition sample_document :: accountDocument where
  "sample_document = \<lparr>ad_Format = 1, ad_Accounts =
     [(''acc'', \<lparr>ab_Provider = ''p'', ab_Materials = [(''cred://k'', sample_secret)]\<rparr>)]\<rparr>"

definition sample_account_codec :: vault_codec where
  "sample_account_codec = sample_vault_codec\<lparr>vj_Marshal := (\<lambda>m. Inl ''unsupported''),
     vj_MarshalDoc := (\<lambda>d. if d = sample_document then Inr ''full'' else if d = \<lparr>ad_Format = 1, ad_Accounts = []\<rparr> then Inr ''none''
       else Inl ''unsupported''),
     vj_UnmarshalDoc := (\<lambda>b. if b = ''full'' then Some sample_document
       else if b = ''none'' then Some \<lparr>ad_Format = 1, ad_Accounts = []\<rparr> else None)\<rparr>"






definition sample_migration :: migration_io where
  "sample_migration = \<lparr>mi_read = True, mi_read_legacy = True, mi_read_again = True, mi_stat = True, mi_archive = True\<rparr>"

text \<open>A vault without accounts: the old file is archived and the new document is empty.\<close>

theorem migration_loses_nothing_witness:
  "\<exists>s trace. OpenProviderAccounts (sample_account_codec\<lparr>vj_Unmarshal := (\<lambda>b. Some [])\<rparr>) ''n'' ''o'' ''1'' zero_Config
      sample_migration sample_io (Map.empty(''o'' \<mapsto> ''x'')) = (Inr (s, ''o.legacy-backup-1''), trace) \<and>
    hd trace ''o'' = None \<and> hd trace ''o.legacy-backup-1'' = Some ''x''"
proof -
  let ?C = "sample_account_codec\<lparr>vj_Unmarshal := (\<lambda>b. Some [])\<rparr>" and ?fs = "Map.empty(''o'' \<mapsto> ''x'')"
  have enc: "vault_encode ?C (Some ow) [] = Inr ''none''" for ow
    by (simp add: vault_encode_def groupAccountRecords_def sample_account_codec_def sample_vault_codec_def sample_document_def)
  have dec: "accounts_decode ?C ''none'' = Inr ([], \<lambda>k. [])"
    by (simp add: accounts_decode_def sample_account_codec_def sample_vault_codec_def)
  have op: "vault_open ?C ''o'' (mi_read_legacy sample_migration) ?fs = Inr \<lparr>va_accountOwners = None,
      va_refreshes = (\<lambda>i. False), va_refreshBackoff = (\<lambda>i. 0), va_path = ''o'', va_records = [], va_lastUsed = Map.empty\<rparr>"
    by (simp add: vault_open_def vault_decode_def sample_migration_def sample_account_codec_def sample_vault_codec_def)
  have mo: "migration_owners zero_Config = Inr []"
    by (simp add: migration_owners_def account_refs_def source_refs_def zero_Config_def)
  have "\<exists>s trace. OpenProviderAccounts ?C ''n'' ''o'' ''1'' zero_Config sample_migration sample_io ?fs
      = (Inr (s, ''o.legacy-backup-1''), trace)"
    unfolding OpenProviderAccounts_def op mo
    by (simp add: migrate_def vault_save_def persist_def enc replace_file_def sample_io_def verify_and_archive_def
        read_accounts_def dec account_store_def same_map_def sample_migration_def Let_def)
  then obtain s trace where r: "OpenProviderAccounts ?C ''n'' ''o'' ''1'' zero_Config sample_migration sample_io ?fs
      = (Inr (s, ''o.legacy-backup-1''), trace)" by blast
  have "?fs ''n'' = None" "''n'' \<noteq> ''o''" "io_CreateTemp sample_io \<noteq> Some ''n''" "io_CreateTemp sample_io \<noteq> Some ''o''"
    by (simp_all add: sample_io_def)
  from migration_loses_nothing [OF this r] r show ?thesis by auto
qed

end
