(* ===== verification/Envelope.thy ===== *)
theory Envelope
  imports Vault Sha256
begin

section \<open>The sealed envelope of the vault\<close>

text \<open>
  \<open>internal/credentials/key_envelope.go\<close>: how the bytes of a vault are protected outside Windows. The key
  is in the key ring of the operating system under a random public identifier; the identifier and
  the format are in the header, which is authenticated with the ciphertext.

  The cipher (AES-GCM with a random nonce) is a parameter: \<open>ae_Seal\<close> takes the key, the randomness, the
  plain text and the authenticated data, \<open>ae_Open\<close> inverts it. A key has 32 bytes, so constructing the
  cipher cannot fail. The key ring is a map that reading and storing may fail to reach; the random bytes are
  inputs.
\<close>

record aead =
  ae_Seal :: "string \<Rightarrow> string \<Rightarrow> string \<Rightarrow> string \<Rightarrow> string"
  ae_Open :: "string \<Rightarrow> string \<Rightarrow> string \<Rightarrow> string option"

record seal_io =
  si_id :: "string option"
  si_key :: "string option"
  si_put :: bool
  si_get :: bool
  si_nonce :: string

type_synonym keyring = "string \<Rightarrow> string option"

definition envelopeMagic :: string where
  "envelopeMagic = ''COTK1''"

definition keyIDSize :: nat where
  "keyIDSize = 16"

definition hex_EncodeToString :: "string \<Rightarrow> string" where
  "hex_EncodeToString s = concat (map (\<lambda>c. [hex_digit (of_char c div 16), hex_digit (of_char c mod 16)]) s)"

definition get_key :: "bool \<Rightarrow> keyring \<Rightarrow> string \<Rightarrow> string option" where
  "get_key reachable ring kid =
     (if \<not> reachable then None
      else (case ring (hex_EncodeToString kid) of
              None \<Rightarrow> None | Some key \<Rightarrow> if length key \<noteq> 32 then None else Some key))"

definition envelope_key :: "seal_io \<Rightarrow> keyring \<Rightarrow> string option \<Rightarrow> (string \<times> string \<times> keyring) result" where
  "envelope_key sys ring kid =
     (case kid of
        None \<Rightarrow>
          (case si_id sys of
             None \<Rightarrow> Inl ''cannot generate vault identifier''
           | Some i \<Rightarrow>
               (case si_key sys of
                  None \<Rightarrow> Inl ''cannot generate vault key''
                | Some key \<Rightarrow> if \<not> si_put sys then Inl ''cannot store vault key in OS keychain''
                              else Inr (i, key, ring(hex_EncodeToString i \<mapsto> key))))
      | Some i \<Rightarrow>
          (case get_key (si_get sys) ring i of
             None \<Rightarrow> Inl ''cannot read vault key from OS keychain''
           | Some key \<Rightarrow> Inr (i, key, ring)))"

definition envelope_seal :: "aead \<Rightarrow> seal_io \<Rightarrow> string \<Rightarrow> keyring \<times> string option \<Rightarrow> string result \<times> keyring \<times> string option" where
  "envelope_seal A sys plain st =
     (case st of (ring, kid) \<Rightarrow>
        (case envelope_key sys ring kid of
           Inl e \<Rightarrow> (Inl e, ring, kid)
         | Inr (i, key, ring') \<Rightarrow>
             (let header = envelopeMagic @ i
              in (Inr (header @ ae_Seal A key (si_nonce sys) plain header), ring', Some i))))"

definition envelope_unseal :: "aead \<Rightarrow> bool \<Rightarrow> string \<Rightarrow> keyring \<times> string option \<Rightarrow> string result \<times> keyring \<times> string option" where
  "envelope_unseal A reachable data st =
     (let headerSize = length envelopeMagic + keyIDSize in
      if length data < headerSize + 28 \<or> take (length envelopeMagic) data \<noteq> envelopeMagic
      then (Inl ''unsupported credential vault format'', st)
      else (let i = take keyIDSize (drop (length envelopeMagic) data) in
            case get_key reachable (fst st) i of
              None \<Rightarrow> (Inl ''cannot read vault key from OS keychain'', st)
            | Some key \<Rightarrow>
                (case ae_Open A key (drop headerSize data) (take headerSize data) of
                   None \<Rightarrow> (Inl ''cannot authenticate credential vault'', st)
                 | Some plain \<Rightarrow> (Inr plain, fst st, Some i))))"

text \<open>What is known of the cipher: opening inverts sealing, and sealing adds nonce and tag, 28 bytes.\<close>

definition aead_ok :: "aead \<Rightarrow> bool" where
  "aead_ok A \<longleftrightarrow> (\<forall>key nonce plain ad.
     ae_Open A key (ae_Seal A key nonce plain ad) ad = Some plain \<and> length (ae_Seal A key nonce plain ad) = length plain + 28)"

definition random_ok :: "seal_io \<Rightarrow> bool" where
  "random_ok sys \<longleftrightarrow> (\<forall>i. si_id sys = Some i \<longrightarrow> length i = keyIDSize) \<and> (\<forall>k. si_key sys = Some k \<longrightarrow> length k = 32)"

text \<open>
  What \<open>codec_round_trip\<close> asks of the protection: whatever was sealed is unsealed by any later process that
  reaches the same key ring, and sealing adds 49 bytes.
\<close>

lemma envelope_round_trip:
  assumes "aead_ok A" "random_ok sys" "\<And>i. kid = Some i \<Longrightarrow> length i = keyIDSize"
    "envelope_seal A sys plain (ring, kid) = (Inr b, ring', kid')"
  shows "fst (envelope_unseal A True b (ring', any)) = Inr plain \<and> length b = length plain + 49"
proof -
  obtain i key where k: "envelope_key sys ring kid = Inr (i, key, ring')"
    and b: "b = (envelopeMagic @ i) @ ae_Seal A key (si_nonce sys) plain (envelopeMagic @ i)"
    using assms(4) by (auto simp: envelope_seal_def Let_def split: sum.splits)
  have i: "length i = 16" and g: "get_key True ring' i = Some key"
    using k assms(2,3)
    by (auto simp: envelope_key_def get_key_def random_ok_def keyIDSize_def split: option.splits if_splits)
  have a: "ae_Open A key (ae_Seal A key (si_nonce sys) plain (envelopeMagic @ i)) (envelopeMagic @ i) = Some plain"
    "length (ae_Seal A key (si_nonce sys) plain (envelopeMagic @ i)) = length plain + 28"
    using assms(1) by (simp_all add: aead_ok_def)
  have m: "length envelopeMagic = 5" by (simp add: envelopeMagic_def)
  have "take (length envelopeMagic + keyIDSize) b = envelopeMagic @ i"
    "drop (length envelopeMagic + keyIDSize) b = ae_Seal A key (si_nonce sys) plain (envelopeMagic @ i)"
    "take keyIDSize (drop (length envelopeMagic) b) = i" "take (length envelopeMagic) b = envelopeMagic"
    by (simp_all add: b i m keyIDSize_def)
  moreover have "length b = length plain + 49" by (simp add: b i m a(2))
  ultimately show ?thesis using g a(1) by (simp add: envelope_unseal_def Let_def m keyIDSize_def)
qed

end
