(* ===== verification/Evidence.thy ===== *)
theory Evidence
  imports FileStore
begin

section \<open>The evidence history\<close>

text \<open>
  \<open>internal/evidence/store.go\<close>: the bounded history of operational facts. Entries are numbered when they
  are appended, the last thousand are kept, and memory follows the file: the entries change only when
  the file was replaced.

  The encoder and the strict decoder of \<open>encoding/json\<close> (unknown fields refused, nothing behind the first
  value) are the fields of \<open>evidence_codec\<close>. Whether an existing file can be opened and its size read are
  inputs of \<open>evidence_Open\<close>.
\<close>

record Entry =
  en_Binding :: string
  en_Sequence :: u64
  en_Revision :: u64
  en_Kind :: string
  en_Resource :: string
  en_Model :: string
  en_Protocol :: string
  en_CheckedAt :: time
  en_Method :: string
  en_Status :: string
  en_UpstreamStatus :: int
  en_ProtocolComplete :: bool
  en_OutputObserved :: bool
  en_Count :: int

record evidence_store =
  es_path :: string
  es_entries :: "Entry list"

record evidence_codec =
  ej_Marshal :: "Entry list \<Rightarrow> string result"
  ej_Decode :: "string \<Rightarrow> Entry list option"

definition evidence_decode :: "evidence_codec \<Rightarrow> string \<Rightarrow> Entry list result" where
  "evidence_decode J b =
     (if length b > 2 * 2 ^ 20 then Inl ''evidence history exceeds size limit''
      else (case ej_Decode J b of
              None \<Rightarrow> Inl ''invalid evidence history''
            | Some es \<Rightarrow> if length es > 1000 then Inl ''invalid evidence history'' else Inr es))"

definition evidence_Open :: "evidence_codec \<Rightarrow> string \<Rightarrow> bool \<Rightarrow> bool \<Rightarrow> fs \<Rightarrow> evidence_store result" where
  "evidence_Open J path openable statable fs =
     (case fs path of
        None \<Rightarrow> Inr \<lparr>es_path = path, es_entries = []\<rparr>
      | Some b \<Rightarrow>
          if \<not> openable then Inl ''cannot open evidence history''
          else if \<not> statable then Inl ''evidence history exceeds size limit''
          else result_bind (evidence_decode J b) (\<lambda>es. Inr \<lparr>es_path = path, es_entries = es\<rparr>))"

definition evidence_List :: "evidence_store \<Rightarrow> Entry list" where
  "evidence_List s = es_entries s"

definition evidence_errors :: write_errors where
  "evidence_errors = \<lparr>we_Mkdir = ''cannot create evidence directory'',
     we_Temp = ''cannot create evidence transaction'',
     we_Write = ''cannot write evidence history'',
     we_Commit = ''cannot commit evidence history''\<rparr>"

definition evidence_encode :: "evidence_codec \<Rightarrow> Entry list \<Rightarrow> string result" where
  "evidence_encode J es =
     (case ej_Marshal J es of
        Inl e \<Rightarrow> Inl ''evidence history capacity exceeded''
      | Inr b \<Rightarrow> if length b > 2 * 2 ^ 20 then Inl ''evidence history capacity exceeded'' else Inr b)"

definition field_sizes_ok :: "Entry \<Rightarrow> bool" where
  "field_sizes_ok e \<longleftrightarrow>
     \<not> (length (en_Binding e) > 64 \<or> length (en_Resource e) > 512 \<or> length (en_Model e) > 512 \<or>
        length (en_Method e) > 128 \<or> length (en_Status e) > 128 \<or> length (en_Kind e) > 64)"

definition stamp :: "time \<Rightarrow> Entry list \<Rightarrow> Entry \<Rightarrow> Entry" where
  "stamp now es ent =
     (let e = ent\<lparr>en_Sequence := (if es = [] then 1 else en_Sequence (last es) + 1)\<rparr>
      in if en_CheckedAt e = 0 then e\<lparr>en_CheckedAt := now\<rparr> else e)"

definition Append :: "evidence_codec \<Rightarrow> time \<Rightarrow> Entry \<Rightarrow> io \<Rightarrow> fs \<Rightarrow> evidence_store
    \<Rightarrow> check \<times> evidence_store \<times> fs list" where
  "Append J now ent os fs s =
     (if \<not> field_sizes_ok ent then (Some ''invalid evidence field size'', s, [fs])
      else (case persist (replace_file evidence_errors True (es_path s)) (evidence_encode J) os fs
                (es_entries s) (keep_last 1000 (es_entries s @ [stamp now (es_entries s) ent])) of
              (err, es, trace) \<Rightarrow> (err, s\<lparr>es_entries := es\<rparr>, trace)))"

subsection \<open>Histories\<close>

text \<open>
  What a run of appends does: every append has its own time and its own failures. The run collects the
  entries that were accepted, as they were stored.
\<close>

fun append_run :: "evidence_codec \<Rightarrow> (time \<times> Entry \<times> io) list \<Rightarrow> fs \<Rightarrow> evidence_store
    \<Rightarrow> Entry list \<times> fs \<times> evidence_store" where
  "append_run J [] fs s = ([], fs, s)"
| "append_run J ((now, ent, os) # xs) fs s =
     (case Append J now ent os fs s of
        (err, s', trace) \<Rightarrow>
          (case append_run J xs (hd trace) s' of
             (accepted, fs', s'') \<Rightarrow>
               ((if err = None then stamp now (es_entries s) ent # accepted else accepted), fs', s'')))"

definition entries_numbered :: "Entry list \<Rightarrow> bool" where
  "entries_numbered es \<longleftrightarrow> (\<forall>i. Suc i < length es \<longrightarrow> en_Sequence (es ! Suc i) = en_Sequence (es ! i) + 1)"

definition evidence_round_trip :: "evidence_codec \<Rightarrow> bool" where
  "evidence_round_trip J \<longleftrightarrow> (\<forall>es b. ej_Marshal J es = Inr b \<longrightarrow> ej_Decode J b = Some es)"

interpretation evidence_file: file_replacement "replace_file evidence_errors True"
  by (rule replace_file_contract)

text \<open>An encoded history is read back: what the store needs of the codec, and the bound \<open>Open\<close> checks.\<close>

definition evidence_ok :: "evidence_codec \<Rightarrow> Entry list \<Rightarrow> bool" where
  "evidence_ok J es \<longleftrightarrow> length es \<le> 1000 \<and> (\<forall>b. ej_Marshal J es = Inr b \<longrightarrow> ej_Decode J b = Some es)"

interpretation evidence_disk: durable_store "replace_file evidence_errors True" "evidence_encode J"
  "evidence_decode J" "evidence_ok J" "(=)" for J
proof unfold_locales
  fix es b
  assume "evidence_ok J es" "evidence_encode J es = Inr b"
  then show "\<exists>es'. evidence_decode J b = Inr es' \<and> es' = es"
    by (auto simp: evidence_encode_def evidence_decode_def evidence_ok_def split: sum.splits if_splits)
qed

lemma stamp_sequence: "es \<noteq> [] \<Longrightarrow> en_Sequence (stamp now es e) = en_Sequence (last es) + 1"
  by (simp add: stamp_def Let_def)

lemma entries_numbered_snoc:
  assumes "entries_numbered es"
  shows "entries_numbered (es @ [stamp now es e])"
  unfolding entries_numbered_def
proof (intro allI impI)
  fix i
  assume "Suc i < length (es @ [stamp now es e])"
  then consider "Suc i < length es" | "Suc i = length es" by fastforce
  then show "en_Sequence ((es @ [stamp now es e]) ! Suc i) = en_Sequence ((es @ [stamp now es e]) ! i) + 1"
  proof cases
    case 1
    then show ?thesis using assms by (simp add: entries_numbered_def nth_append)
  next
    case 2
    then have "es \<noteq> []" "i = length es - 1" by auto
    with 2 show ?thesis by (simp add: nth_append stamp_sequence last_conv_nth)
  qed
qed

lemma entries_numbered_keep_last: "entries_numbered es \<Longrightarrow> entries_numbered (keep_last n es)"
  by (auto simp: entries_numbered_def keep_last_def)

lemma Append_effect:
  assumes "evidence_round_trip J" "io_CreateTemp os \<noteq> Some (es_path s)"
    "evidence_Open J (es_path s) True True fs = Inr s" "Append J now ent os fs s = (err, s', trace)"
  shows "es_path s' = es_path s \<and> evidence_Open J (es_path s) True True (hd trace) = Inr s' \<and>
    es_entries s' = (if err = None then keep_last 1000 (es_entries s @ [stamp now (es_entries s) ent])
                     else es_entries s)"
proof (cases "field_sizes_ok ent")
  case False
  then show ?thesis using assms by (auto simp: Append_def)
next
  case True
  let ?new = "keep_last 1000 (es_entries s @ [stamp now (es_entries s) ent])"
  obtain es where p: "persist (replace_file evidence_errors True (es_path s)) (evidence_encode J) os fs
      (es_entries s) ?new = (err, es, trace)" and s': "s' = s\<lparr>es_entries := es\<rparr>"
    using assms(4) True by (auto simp: Append_def split: prod.splits)
  have open_eq: "evidence_Open J (es_path s) True True f = Inr (s\<lparr>es_entries := m\<rparr>) \<longleftrightarrow>
      on_disk (evidence_decode J) [] (=) (es_path s) f m" for f m
    by (cases s) (auto simp: evidence_Open_def on_disk_def read_back_def result_bind_Inr_iff split: option.splits)
  have "on_disk (evidence_decode J) [] (=) (es_path s) fs (es_entries s)"
    using assms(3) open_eq [of fs "es_entries s"] by simp
  then have "on_disk (evidence_decode J) [] (=) (es_path s) (hd trace) es"
    using evidence_disk.persist_agrees [OF _ _ assms(2) p] assms(1)
    by (simp add: evidence_ok_def evidence_round_trip_def)
  with evidence_file.persist_states [OF assms(2) p] s' open_eq show ?thesis by (auto split: if_splits)
qed

text \<open>C39. The history on disk is the history in memory. Start from an opened store and append any
  sequence of entries, each with its own pattern of failing system calls. Opening the file again then
  gives exactly the entries of the running store: the last thousand of the initial and the accepted
  entries, in order, and their sequence numbers are consecutive if those on disk were.\<close>

theorem evidence_history_exact:
  assumes "evidence_round_trip J" and "evidence_Open J path True True fs = Inr s"
    and "\<forall>(now, e, os) \<in> set xs. io_CreateTemp os \<noteq> Some path"
    and "append_run J xs fs s = (accepted, fs', s')"
  shows "evidence_Open J path True True fs' = Inr s' \<and>
    evidence_List s' = keep_last 1000 (evidence_List s @ accepted) \<and>
    (entries_numbered (evidence_List s) \<longrightarrow> entries_numbered (evidence_List s'))"
  using assms(2-4)
proof (induction xs arbitrary: fs s accepted)
  case Nil
  then have "length (es_entries s) \<le> 1000"
    by (auto simp: evidence_Open_def evidence_decode_def result_bind_Inr_iff split: option.splits if_splits)
  with Nil show ?case by (simp add: evidence_List_def)
next
  case (Cons x xs)
  obtain now e os where x: "x = (now, e, os)" by (cases x)
  have path: "es_path s = path"
    using Cons.prems(1) by (auto simp: evidence_Open_def result_bind_Inr_iff split: option.splits if_splits)
  obtain err s1 trace where a: "Append J now e os fs s = (err, s1, trace)" by (cases "Append J now e os fs s")
  obtain acc where run: "append_run J xs (hd trace) s1 = (acc, fs', s')"
    and acc: "accepted = (if err = None then stamp now (es_entries s) e # acc else acc)"
    using Cons.prems(3) a x by (auto split: prod.splits)
  have "io_CreateTemp os \<noteq> Some (es_path s)" using Cons.prems(2) x path by auto
  note eff = Append_effect [OF assms(1) this _ a, unfolded path, OF Cons.prems(1)]
  have "\<forall>(now, e, os) \<in> set xs. io_CreateTemp os \<noteq> Some path" using Cons.prems(2) by simp
  from Cons.IH [OF _ this run] eff
  have ih: "evidence_Open J path True True fs' = Inr s' \<and> es_entries s' = keep_last 1000 (es_entries s1 @ acc) \<and>
      (entries_numbered (es_entries s1) \<longrightarrow> entries_numbered (es_entries s'))"
    unfolding evidence_List_def by blast
  have "entries_numbered (es_entries s) \<Longrightarrow> entries_numbered (es_entries s1)"
    using eff entries_numbered_keep_last [OF entries_numbered_snoc] by simp
  moreover have "es_entries s' = keep_last 1000 (es_entries s @ accepted)"
    using ih eff acc keep_last_keep_last [of 1000 "es_entries s @ [stamp now (es_entries s) e]" acc] by auto
  ultimately show ?case using ih unfolding evidence_List_def by metis
qed

definition sample_entry :: Entry where
  "sample_entry = \<lparr>en_Binding = '''', en_Sequence = 0, en_Revision = 7, en_Kind = ''validation'',
     en_Resource = ''s1'', en_Model = '''', en_Protocol = ''chat'', en_CheckedAt = 0, en_Method = ''probe'',
     en_Status = ''ok'', en_UpstreamStatus = 200, en_ProtocolComplete = True, en_OutputObserved = True,
     en_Count = 0\<rparr>"

definition sample_evidence :: evidence_codec where
  "sample_evidence = \<lparr>ej_Marshal = (\<lambda>es. if es = [stamp 5 [] sample_entry] then Inr ''e'' else Inl ''too large''),
     ej_Decode = (\<lambda>b. if b = ''e'' then Some [stamp 5 [] sample_entry] else None)\<rparr>"

text \<open>The first append fails to sync, the second one is stored, the third one does not fit.\<close>

definition sample_appends :: "(time \<times> Entry \<times> io) list" where
  "sample_appends = [(5, sample_entry, sample_io\<lparr>io_Sync := False\<rparr>), (5, sample_entry, sample_io),
     (6, sample_entry, sample_io)]"

theorem evidence_history_exact_witness:
  "\<exists>fs' s'. append_run sample_evidence sample_appends Map.empty \<lparr>es_path = ''e.evidence'', es_entries = []\<rparr>
      = ([stamp 5 [] sample_entry], fs', s') \<and>
    evidence_Open sample_evidence ''e.evidence'' True True fs' = Inr s' \<and>
    evidence_List s' = [stamp 5 [] sample_entry]"
proof -
  have sizes: "field_sizes_ok sample_entry" by (simp add: field_sizes_ok_def sample_entry_def)
  let ?s0 = "\<lparr>es_path = ''e.evidence'', es_entries = []\<rparr>" and ?es = "[stamp 5 [] sample_entry]"
  have a1: "\<exists>tr. Append sample_evidence 5 sample_entry (sample_io\<lparr>io_Sync := False\<rparr>) f ?s0
      = (Some ''cannot write evidence history'', ?s0, tr)" for f
    by (simp add: Append_def sizes persist_def evidence_encode_def sample_evidence_def replace_file_def
        sample_io_def evidence_errors_def Let_def)
  have a2: "\<exists>tr. Append sample_evidence 5 sample_entry sample_io f ?s0 = (None, ?s0\<lparr>es_entries := ?es\<rparr>, tr)" for f
    by (simp add: Append_def sizes persist_def evidence_encode_def sample_evidence_def replace_file_def
        sample_io_def Let_def)
  have a3: "\<exists>tr. Append sample_evidence 6 sample_entry sample_io f (?s0\<lparr>es_entries := ?es\<rparr>)
      = (Some ''evidence history capacity exceeded'', ?s0\<lparr>es_entries := ?es\<rparr>, tr)" for f
    by (simp add: Append_def sizes persist_def evidence_encode_def sample_evidence_def)
  obtain t1 where t1: "Append sample_evidence 5 sample_entry (sample_io\<lparr>io_Sync := False\<rparr>) Map.empty ?s0
      = (Some ''cannot write evidence history'', ?s0, t1)" using a1 by blast
  obtain t2 where t2: "Append sample_evidence 5 sample_entry sample_io (hd t1) ?s0
      = (None, ?s0\<lparr>es_entries := ?es\<rparr>, t2)" using a2 by blast
  obtain t3 where t3: "Append sample_evidence 6 sample_entry sample_io (hd t2) (?s0\<lparr>es_entries := ?es\<rparr>)
      = (Some ''evidence history capacity exceeded'', ?s0\<lparr>es_entries := ?es\<rparr>, t3)" using a3 by blast
  have "fst (append_run sample_evidence sample_appends Map.empty ?s0) = ?es"
    using t1 t2 t3 by (simp add: sample_appends_def)
  then obtain fs' s' where r: "append_run sample_evidence sample_appends Map.empty
      \<lparr>es_path = ''e.evidence'', es_entries = []\<rparr> = ([stamp 5 [] sample_entry], fs', s')"
    by (metis prod.collapse)
  have rt: "evidence_round_trip sample_evidence"
    by (simp add: evidence_round_trip_def sample_evidence_def)
  have op: "evidence_Open sample_evidence ''e.evidence'' True True Map.empty
      = Inr \<lparr>es_path = ''e.evidence'', es_entries = []\<rparr>"
    by (simp add: evidence_Open_def)
  have "\<forall>(now, e, os) \<in> set sample_appends. io_CreateTemp os \<noteq> Some ''e.evidence''"
    by (auto simp: sample_appends_def sample_io_def)
  from evidence_history_exact [OF rt op this r] r show ?thesis by (auto simp: evidence_List_def)
qed

end
