(* ===== verification/Control.thy ===== *)
theory Control
  imports Attempts ConfigProps Vault
begin

section \<open>The control plane: configurations put into service\<close>

text \<open>
  \<open>internal/api/control.go\<close> and what it calls to build a runtime: \<open>NewWithVault\<close> (\<open>credentials.go\<close>),
  \<open>NewWithCredentials\<close> (\<open>server.go\<close>), \<open>validateCredentialBindings\<close> (\<open>credential_binding.go\<close>) and
  \<open>withVerifiedAccountPolicy\<close> (\<open>account_material.go\<close>).

  Every accepted configuration becomes a generation: a server with its router, a number of requests
  that use it, and a flag that says it was replaced. Requests pin the generation they started on; the
  server of a replaced generation is closed when its last request is done. The generations are a list
  that only grows, so a pointer to a generation is its index, and the routers of the generations are
  those of the routing system with the same indices. The catalogue of providers and the proof strings of
  accounts are parameters: the catalogue is a table of data, and the proof is a digest of an encoding.
\<close>

subsection \<open>Building a server\<close>

record catalogue =
  cat_All :: "(string \<times> string) list"
  cat_MatchCredentials :: "string \<Rightarrow> string \<Rightarrow> string list"

definition credential_kind :: "Metadata list \<Rightarrow> string \<Rightarrow> Metadata option" where
  "credential_kind metadata ref = find (\<lambda>m. md_ID m = ref) (rev metadata)"

definition login_binding_check :: "catalogue \<Rightarrow> Metadata list \<Rightarrow> Account \<Rightarrow> check" where
  "login_binding_check K metadata a =
     (if account_LoginCredentialRef a = '''' then None
      else (case credential_kind metadata (account_LoginCredentialRef a) of
              None \<Rightarrow> Some (''account '' @ account_ID a @ '': login reference requires protected username_password material'')
            | Some m \<Rightarrow>
                if md_Kind m \<noteq> ''username_password''
                then Some (''account '' @ account_ID a @ '': login reference requires protected username_password material'')
                else (let adapter = (case map_of (rev (cat_All K)) (account_ProviderID a) of None \<Rightarrow> '''' | Some x \<Rightarrow> x);
                          d = Lookup adapter;
                          supported = (case d of None \<Rightarrow> False | Some d' \<Rightarrow> md_Kind m \<in> set (d_LoginMaterials d'));
                          matched = (account_ProviderID a \<in> set (cat_MatchCredentials K (md_Domain m) (md_Kind m)))
                      in fail_if (\<not> supported \<and> (d = None \<or> \<not> matched))
                           (''account '' @ account_ID a @ '': provider does not support this login material''))))"

definition account_binding_check :: "catalogue \<Rightarrow> Metadata list \<Rightarrow> Account \<Rightarrow> check" where
  "account_binding_check K metadata a = orelse_check (login_binding_check K metadata a)
     (if account_CredentialRef a = '''' then None
      else (case credential_kind metadata (account_CredentialRef a) of
              None \<Rightarrow> Some (''account '' @ account_ID a @ '': credential reference does not exist'')
            | Some m \<Rightarrow>
                if md_Kind m = ''username_password''
                then Some (''account '' @ account_ID a @ '': password material belongs in login_credential_ref, never credential_ref'')
                else (case map_of (rev (cat_All K)) (account_ProviderID a) of
                        None \<Rightarrow> None
                      | Some adapter \<Rightarrow>
                          fail_if (case Lookup adapter of
                                     None \<Rightarrow> True
                                   | Some d \<Rightarrow> \<not> account_CredentialTypeOverride a \<and> md_Kind m \<notin> set (d_InvokeCredentials d))
                            (''account '' @ account_ID a @ '': '' @ md_Kind m @ '' credential is incompatible with provider '' @
                             account_ProviderID a))))"

definition source_binding_check :: "Config \<Rightarrow> Metadata list \<Rightarrow> Source \<Rightarrow> check" where
  "source_binding_check c metadata s =
     (let account = find (\<lambda>a. account_ID a = source_AccountID s) (rev (cfg_Accounts c));
          (ref, override) = (if source_CredentialRef s \<noteq> '''' then (source_CredentialRef s, source_CredentialTypeOverride s)
             else (case account of None \<Rightarrow> ('''', False) | Some a \<Rightarrow> (account_CredentialRef a, account_CredentialTypeOverride a)))
      in if ref = '''' then None
         else (case credential_kind metadata ref of
                 None \<Rightarrow> Some (''source '' @ source_ID s @ '': credential reference does not exist'')
               | Some m \<Rightarrow>
                   if md_Kind m = ''username_password''
                   then Some (''source '' @ source_ID s @ '': login material cannot be used as an invocation credential'')
                   else fail_if (case Lookup (source_Adapter s) of
                                   None \<Rightarrow> True
                                 | Some d \<Rightarrow> \<not> override \<and> md_Kind m \<notin> set (d_InvokeCredentials d))
                          (''source '' @ source_ID s @ '': '' @ md_Kind m @ '' credential is incompatible with adapter '' @
                           source_Adapter s)))"

definition validateCredentialBindings :: "catalogue \<Rightarrow> Config \<Rightarrow> Metadata list \<Rightarrow> check" where
  "validateCredentialBindings K c metadata =
     orelse_check (first_error (map (account_binding_check K metadata) (cfg_Accounts c)))
       (first_error (map (source_binding_check c metadata) (cfg_Sources c)))"

text \<open>The configuration a server runs: every source carries the reference it inherits from its account.\<close>

definition bind_sources :: "Config \<Rightarrow> Config" where
  "bind_sources c = c\<lparr>cfg_Sources := map (\<lambda>s. s\<lparr>source_CredentialRef := SourceCredentialRef c s\<rparr>) (cfg_Sources c)\<rparr>"

definition NewWithCredentials :: "Config \<Rightarrow> Config result" where
  "NewWithCredentials c = (case Validate (bind_sources c) of Some e \<Rightarrow> Inl e | None \<Rightarrow> Inr (bind_sources c))"

definition NewWithVault :: "catalogue \<Rightarrow> time \<Rightarrow> vault \<Rightarrow> Config \<Rightarrow> Config result" where
  "NewWithVault K now v c =
     (case ValidateAccountOwners c v of
        Some e \<Rightarrow> Inl e
      | None \<Rightarrow> (case validateCredentialBindings K c (vault_List now v) of
                   Some e \<Rightarrow> Inl e
                 | None \<Rightarrow> NewWithCredentials c))"

definition credentialMetadata :: "time \<Rightarrow> vault \<Rightarrow> string \<Rightarrow> Metadata" where
  "credentialMetadata now v ref =
     (case find (\<lambda>m. md_ID m = ref) (vault_List now v) of None \<Rightarrow> zero_Metadata | Some m \<Rightarrow> m)"

definition lost_material :: "time \<Rightarrow> vault \<Rightarrow> string \<Rightarrow> bool" where
  "lost_material now v ref \<longleftrightarrow> ref \<noteq> '''' \<and>
     (md_ID (credentialMetadata now v ref) = '''' \<or> md_State (credentialMetadata now v ref) = ''expired'')"

definition verified_account :: "(Config \<Rightarrow> Account \<Rightarrow> string) \<Rightarrow> time \<Rightarrow> vault \<Rightarrow> Config \<Rightarrow> Account \<Rightarrow> Account" where
  "verified_account proof_of now v c a =
     (if account_VerificationState a = '''' then a
      else if account_VerificationState a \<noteq> ''verified'' \<or> account_VerificationBinding a \<noteq> proof_of c a \<or>
              lost_material now v (account_CredentialRef a) \<or> lost_material now v (account_LoginCredentialRef a)
      then a\<lparr>account_Enabled := False\<rparr> else a)"

definition withVerifiedAccountPolicy :: "(Config \<Rightarrow> Account \<Rightarrow> string) \<Rightarrow> time \<Rightarrow> vault \<Rightarrow> Config \<Rightarrow> Config" where
  "withVerifiedAccountPolicy proof_of now v c =
     c\<lparr>cfg_Accounts := map (verified_account proof_of now v c) (cfg_Accounts c)\<rparr>"

subsection \<open>Generations\<close>

record generation =
  gen_cfg :: Config
  gen_metrics :: addr
  gen_ingress :: addr
  gen_refs :: int
  gen_retired :: bool

record plane =
  pl_gens :: "generation list"
  pl_current :: nat
  pl_startup :: Config
  pl_closed :: bool
  pl_closes :: "nat list"
  pl_sys :: sys

text \<open>\<open>pl_closes\<close> is the log of the calls of \<open>Server.Close\<close>, the last one first.\<close>

definition start_generation :: "Config \<Rightarrow> nat \<Rightarrow> generation" where
  "start_generation c n = \<lparr>gen_cfg = c, gen_metrics = n, gen_ingress = n, gen_refs = 0, gen_retired = False\<rparr>"

definition NewControlPlane :: "catalogue \<Rightarrow> (Config \<Rightarrow> Account \<Rightarrow> string) \<Rightarrow> vault \<Rightarrow> Config \<Rightarrow> time \<Rightarrow> plane result" where
  "NewControlPlane K proof_of v desired now =
     result_bind (NewWithVault K now v (withVerifiedAccountPolicy proof_of now v desired)) (\<lambda>c.
       Inr \<lparr>pl_gens = [start_generation c 0], pl_current = 0, pl_startup = desired, pl_closed = False,
            pl_closes = [], pl_sys = init_sys c now\<rparr>)"

definition effective_config :: "Config \<Rightarrow> Config \<Rightarrow> Config" where
  "effective_config startup c = c\<lparr>cfg_Listen := cfg_Listen startup, cfg_APIKeyEnv := cfg_APIKeyEnv startup,
     cfg_AdminKeyEnv := cfg_AdminKeyEnv startup, cfg_Runtime := cfg_Runtime startup,
     cfg_Browser := cfg_Browser startup, cfg_Device := cfg_Device startup\<rparr>"

definition plane_prepare :: "catalogue \<Rightarrow> (Config \<Rightarrow> Account \<Rightarrow> string) \<Rightarrow> vault \<Rightarrow> time \<Rightarrow> plane \<Rightarrow> Config \<Rightarrow> Config result" where
  "plane_prepare K proof_of v now p desired =
     NewWithVault K now v (effective_config (pl_startup p) (withVerifiedAccountPolicy proof_of now v desired))"

definition close_server :: "nat \<Rightarrow> plane \<Rightarrow> plane" where
  "close_server g p = p\<lparr>pl_closes := g # pl_closes p\<rparr>"

text \<open>The commit closure of \<open>prepare\<close>. \<open>None\<close> is the panic of a failed adoption.\<close>

definition plane_commit :: "Config \<Rightarrow> time \<Rightarrow> plane \<Rightarrow> plane option" where
  "plane_commit c now p =
     (let old = pl_current p; o' = pl_gens p ! old;
          next = (start_generation c (length (pl_gens p)))\<lparr>gen_metrics := gen_metrics o', gen_ingress := gen_ingress o'\<rparr>
      in case Adopt c now (pl_sys p) of
           None \<Rightarrow> None
         | Some s \<Rightarrow>
             (let p' = p\<lparr>pl_gens := (pl_gens p)[old := o'\<lparr>gen_retired := True\<rparr>] @ [next],
                         pl_current := length (pl_gens p), pl_sys := tick now s\<rparr>
              in Some (if gen_refs o' = 0 then close_server old p' else p')))"

definition plane_acquire :: "plane \<Rightarrow> nat option \<times> plane" where
  "plane_acquire p =
     (if pl_closed p then (None, p)
      else (let g = pl_current p; x = pl_gens p ! g
            in (Some g, p\<lparr>pl_gens := (pl_gens p)[g := x\<lparr>gen_refs := gen_refs x + 1\<rparr>]\<rparr>)))"

definition plane_release :: "nat \<Rightarrow> plane \<Rightarrow> plane" where
  "plane_release g p =
     (let x = pl_gens p ! g; y = x\<lparr>gen_refs := gen_refs x - 1\<rparr>; p' = p\<lparr>pl_gens := (pl_gens p)[g := y]\<rparr>
      in if gen_retired y \<and> gen_refs y = 0 then close_server g p' else p')"

definition plane_Close :: "plane \<Rightarrow> plane" where
  "plane_Close p =
     (if pl_closed p then p
      else (let g = pl_current p; x = pl_gens p ! g;
                p' = p\<lparr>pl_closed := True, pl_gens := (pl_gens p)[g := x\<lparr>gen_retired := True\<rparr>]\<rparr>
            in if gen_refs x = 0 then close_server g p' else p'))"

text \<open>Which parts of a configuration take effect at the next start only, and the test of a mutation's origin.\<close>

definition restartFields :: "Config \<Rightarrow> Config \<Rightarrow> string list" where
  "restartFields active desired =
     (if cfg_Listen active \<noteq> cfg_Listen desired then [''listen''] else []) @
     (if cfg_Runtime active \<noteq> cfg_Runtime desired then [''runtime''] else []) @
     (if cfg_Browser active \<noteq> cfg_Browser desired then [''browser''] else []) @
     (if cfg_Device active \<noteq> cfg_Device desired then [''device''] else [])"

definition sameOrigin :: "bool \<Rightarrow> string \<Rightarrow> string \<Rightarrow> bool" where
  "sameOrigin tls host origin =
     (origin = '''' \<or> origin = (if tls then ''https'' else ''http'') @ ''://'' @ host)"

subsection \<open>The machine\<close>

text \<open>
  The state is the plane and the list of the generations that requests have pinned. A request takes a
  generation once and gives it back once. Administrative changes hold the lock \<open>changes\<close> and a generation
  they acquired under it, so the plane is open when they commit. A long operation takes the lock
  only to commit, possibly after \<open>Close\<close>, but then its version check has passed: no other commit
  happened since it acquired its generation, which is the current one. Between these steps
  the routing system moves without a hot update.
\<close>

inductive plane_step :: "catalogue \<Rightarrow> plane \<times> nat list \<Rightarrow> plane \<times> nat list \<Rightarrow> bool" for K where
  acquire: "plane_acquire p = (Some g, p') \<Longrightarrow> plane_step K (p, pins) (p', g # pins)"
| release: "g \<in> set pins \<Longrightarrow> plane_step K (p, pins) (plane_release g p, remove1 g pins)"
| publish: "plane_prepare K proof_of v now p desired = Inr c \<Longrightarrow> sys_now (pl_sys p) \<le> now \<Longrightarrow>
    \<not> pl_closed p \<or> pl_current p \<in> set pins \<Longrightarrow> plane_commit c now p = Some p' \<Longrightarrow> plane_step K (p, pins) (p', pins)"
| close: "plane_step K (p, pins) (plane_Close p, pins)"
| traffic: "step (pl_sys p) s \<Longrightarrow> length (sys_routers s) = length (sys_routers (pl_sys p)) \<Longrightarrow>
    cap_current (sys_cap s) = cap_current (sys_cap (pl_sys p)) \<Longrightarrow> plane_step K (p, pins) (p\<lparr>pl_sys := s\<rparr>, pins)"

definition plane_reach :: "catalogue \<Rightarrow> plane \<times> nat list \<Rightarrow> bool" where
  "plane_reach K x \<longleftrightarrow> (\<exists>proof_of v desired now p. 0 \<le> now \<and> NewControlPlane K proof_of v desired now = Inr p \<and>
     (plane_step K)\<^sup>*\<^sup>* (p, []) x)"

subsection \<open>The invariant\<close>

definition restart_part :: "Config \<Rightarrow> string \<times> string \<times> string \<times> Runtime \<times> Browser \<times> Device" where
  "restart_part c = (cfg_Listen c, cfg_APIKeyEnv c, cfg_AdminKeyEnv c, cfg_Runtime c, cfg_Browser c, cfg_Device c)"

definition gens_ok :: "Config \<Rightarrow> generation list \<Rightarrow> nat list \<Rightarrow> bool" where
  "gens_ok startup gens pins \<longleftrightarrow>
     (\<forall>i < length gens. gen_refs (gens ! i) = int (count_list pins i) \<and> gen_metrics (gens ! i) = 0 \<and>
        gen_ingress (gens ! i) = 0 \<and> restart_part (gen_cfg (gens ! i)) = restart_part startup) \<and>
     (\<forall>g \<in> set pins. g < length gens)"

definition serving_ok :: "plane \<Rightarrow> bool" where
  "serving_ok p \<longleftrightarrow>
     reachable (pl_sys p) \<and> length (pl_gens p) = length (sys_routers (pl_sys p)) \<and>
     pl_current p = cap_current (sys_cap (pl_sys p)) \<and> pl_current p < length (pl_gens p) \<and>
     (\<forall>i < length (pl_gens p). gen_cfg (pl_gens p ! i) = r_cfg (sys_routers (pl_sys p) ! i))"

definition closes_ok :: "plane \<Rightarrow> bool" where
  "closes_ok p \<longleftrightarrow>
     distinct (pl_closes p) \<and>
     (\<forall>i. i \<in> set (pl_closes p) \<longleftrightarrow> i < length (pl_gens p) \<and> gen_retired (pl_gens p ! i) \<and> gen_refs (pl_gens p ! i) = 0) \<and>
     (\<forall>i < length (pl_gens p). i \<noteq> pl_current p \<longrightarrow> gen_retired (pl_gens p ! i)) \<and>
     (\<not> pl_closed p \<longrightarrow> \<not> gen_retired (pl_gens p ! pl_current p))"

definition plane_ok :: "plane \<times> nat list \<Rightarrow> bool" where
  "plane_ok x \<longleftrightarrow> (case x of (p, pins) \<Rightarrow> gens_ok (pl_startup p) (pl_gens p) pins \<and> serving_ok p \<and> closes_ok p)"

lemma restart_part_simps [simp]:
  "restart_part (bind_sources c) = restart_part c"
  "restart_part (withVerifiedAccountPolicy proof_of now v c) = restart_part c"
  "restart_part (effective_config startup c) = restart_part startup"
  by (simp_all add: restart_part_def bind_sources_def withVerifiedAccountPolicy_def effective_config_def)

text \<open>Nothing that \<open>restartFields\<close> reports takes effect before a restart.\<close>

lemma effective_keeps_restart_fields: "restartFields startup (effective_config startup c) = []"
  by (simp add: restartFields_def effective_config_def)

lemma NewWithVault_Inr:
  "NewWithVault K now v c = Inr c' \<Longrightarrow> Validate c' = None \<and> restart_part c' = restart_part c"
  by (auto simp: NewWithVault_def NewWithCredentials_def split: option.splits)

lemma start_ok:
  assumes "NewControlPlane K proof_of v desired now = Inr p" "0 \<le> now"
  shows "plane_ok (p, [])"
proof -
  obtain c where c: "NewWithVault K now v (withVerifiedAccountPolicy proof_of now v desired) = Inr c"
    and p: "p = \<lparr>pl_gens = [start_generation c 0], pl_current = 0, pl_startup = desired, pl_closed = False,
            pl_closes = [], pl_sys = init_sys c now\<rparr>"
    using assms(1) by (auto simp: NewControlPlane_def result_bind_Inr_iff)
  note nv = NewWithVault_Inr [OF c]
  have "reachable (init_sys c now)"
    by (rule reachable.init [OF validated_cfg_wf [OF nv [THEN conjunct1]] assms(2)])
  moreover have "length (sys_routers (init_sys c now)) = 1 \<and> cap_current (sys_cap (init_sys c now)) = 0 \<and>
      r_cfg (sys_routers (init_sys c now) ! 0) = c"
    by (auto simp: init_sys_def New_def Let_def split: prod.splits)
  ultimately show ?thesis
    using nv by (auto simp: plane_ok_def gens_ok_def serving_ok_def closes_ok_def p start_generation_def)
qed

text \<open>Committing always succeeds, and adds one router and one generation.\<close>

lemma commit_effect:
  assumes "serving_ok p" "Validate c = None" "sys_now (pl_sys p) \<le> now"
  shows "\<exists>s p'. Adopt c now (pl_sys p) = Some s \<and> plane_commit c now p = Some p' \<and> serving_ok p' \<and>
    pl_sys p' = tick now s \<and> pl_current p' = length (pl_gens p) \<and> pl_startup p' = pl_startup p \<and> pl_closed p' = pl_closed p \<and>
    pl_gens p' = (pl_gens p)[pl_current p := (pl_gens p ! pl_current p)\<lparr>gen_retired := True\<rparr>] @
      [\<lparr>gen_cfg = c, gen_metrics = gen_metrics (pl_gens p ! pl_current p),
        gen_ingress = gen_ingress (pl_gens p ! pl_current p), gen_refs = 0, gen_retired = False\<rparr>] \<and>
    pl_closes p' = (if gen_refs (pl_gens p ! pl_current p) = 0 then [pl_current p] else []) @ pl_closes p"
proof -
  let ?s = "pl_sys p"
  have r: "reachable ?s" using assms(1) by (simp add: serving_ok_def)
  have so: "sound ?s" by (rule acct.always [OF r])
  have wf: "cfg_wf c" by (rule validated_cfg_wf [OF assms(2)])
  obtain s where s: "Adopt c now ?s = Some s" using sound_Adopt [OF so wf assms(3)] by blast
  have st: "step ?s (tick now s)" by (rule step.adopt [OF wf assms(3) s])
  have sig: "length (sys_routers (signal g now t)) = length (sys_routers t)" for g t
    using routers_eq_signal [OF routers_eq_refl, of t g now] by (simp add: routers_eq_def)
  have len: "length (sys_routers s) = Suc (length (sys_routers ?s))" "cap_current (sys_cap s) = length (sys_routers ?s)"
    using s by (auto simp: Adopt_def Let_def sig split: prod.splits option.splits)
  have old: "r_cfg (sys_routers s ! i) = r_cfg (sys_routers ?s ! i)" if "i < length (sys_routers ?s)" for i
    using step_keeps [OF r st] that by (simp add: keeps_def)
  have new: "r_cfg (sys_routers s ! length (sys_routers ?s)) = c"
    using Adopt_cfg [OF so wf s] by (simp add: current_router_def len(2))
  obtain p' where p': "plane_commit c now p = Some p'" using s by (simp add: plane_commit_def Let_def)
  have eff: "pl_sys p' = tick now s \<and> pl_current p' = length (pl_gens p) \<and> pl_startup p' = pl_startup p \<and> pl_closed p' = pl_closed p \<and>
    pl_gens p' = (pl_gens p)[pl_current p := (pl_gens p ! pl_current p)\<lparr>gen_retired := True\<rparr>] @
      [\<lparr>gen_cfg = c, gen_metrics = gen_metrics (pl_gens p ! pl_current p),
        gen_ingress = gen_ingress (pl_gens p ! pl_current p), gen_refs = 0, gen_retired = False\<rparr>] \<and>
    pl_closes p' = (if gen_refs (pl_gens p ! pl_current p) = 0 then [pl_current p] else []) @ pl_closes p"
    using p' s by (auto simp: plane_commit_def Let_def close_server_def start_generation_def)
  have "gen_cfg (pl_gens p' ! i) = r_cfg (sys_routers s ! i)" if "i < Suc (length (sys_routers ?s))" for i
    using assms(1) that old new eff
    by (cases "i < length (sys_routers ?s)") (auto simp: serving_ok_def nth_append nth_list_update less_Suc_eq)
  then have "serving_ok p'"
    using eff len reachable.step [OF r st] assms(1) by (simp add: serving_ok_def)
  with s p' eff show ?thesis by blast
qed

lemma acquire_ok:
  assumes "plane_ok (p, pins)" "plane_acquire p = (Some g, p')"
  shows "plane_ok (p', g # pins)"
proof -
  have g: "g = pl_current p" "\<not> pl_closed p"
    and p': "p' = p\<lparr>pl_gens := (pl_gens p)[g := (pl_gens p ! g)\<lparr>gen_refs := gen_refs (pl_gens p ! g) + 1\<rparr>]\<rparr>"
    using assms(2) by (auto simp: plane_acquire_def Let_def split: if_splits)
  have "g < length (pl_gens p)" using assms(1) g(1) by (simp add: plane_ok_def serving_ok_def)
  moreover have "\<not> gen_retired (pl_gens p ! g)" using assms(1) g by (simp add: plane_ok_def closes_ok_def)
  ultimately show ?thesis
    using assms(1) unfolding plane_ok_def gens_ok_def serving_ok_def closes_ok_def p'
    by (auto simp: nth_list_update)
qed

lemma count_list_remove1:
  "count_list (remove1 g xs) i = (if i = g \<and> g \<in> set xs then count_list xs i - 1 else count_list xs i)"
  by (induction xs) auto

lemma count_list_pos: "x \<in> set xs \<Longrightarrow> 0 < count_list xs x"
  using count_list_0_iff [of xs x] by auto

lemma release_ok:
  assumes "plane_ok (p, pins)" "g \<in> set pins"
  shows "plane_ok (plane_release g p, remove1 g pins)"
proof -
  let ?x = "pl_gens p ! g" and ?y = "(pl_gens p ! g)\<lparr>gen_refs := gen_refs (pl_gens p ! g) - 1\<rparr>"
  have g: "g < length (pl_gens p)" using assms by (auto simp: plane_ok_def gens_ok_def)
  have refs: "gen_refs ?x = int (count_list pins g)" "0 < count_list pins g"
    using assms g count_list_pos by (auto simp: plane_ok_def gens_ok_def)
  have not_closed: "g \<notin> set (pl_closes p)" using assms(1) refs by (auto simp: plane_ok_def closes_ok_def)
  have gens: "gens_ok (pl_startup p) ((pl_gens p)[g := ?y]) (remove1 g pins)"
    using assms g refs by (auto simp: plane_ok_def gens_ok_def nth_list_update count_list_remove1 dest: notin_set_remove1
        intro: set_remove1_subset [THEN subsetD])
  have serv: "serving_ok (p\<lparr>pl_gens := (pl_gens p)[g := ?y], pl_closes := cs\<rparr>)" for cs
    using assms(1) g by (auto simp: plane_ok_def serving_ok_def nth_list_update)
  have "closes_ok (p\<lparr>pl_gens := (pl_gens p)[g := ?y], pl_closes :=
      (if gen_retired ?x \<and> gen_refs ?x - 1 = 0 then g # pl_closes p else pl_closes p)\<rparr>)"
    using assms(1) g not_closed by (auto simp: plane_ok_def closes_ok_def nth_list_update)
  moreover have "plane_release g p = p\<lparr>pl_gens := (pl_gens p)[g := ?y], pl_closes :=
      (if gen_retired ?x \<and> gen_refs ?x - 1 = 0 then g # pl_closes p else pl_closes p)\<rparr>"
    by (cases p) (simp add: plane_release_def Let_def close_server_def)
  ultimately show ?thesis using gens serv by (simp only: plane_ok_def prod.case) simp
qed

lemma publish_ok:
  assumes "plane_ok (p, pins)" "Validate c = None" "restart_part c = restart_part (pl_startup p)"
    "sys_now (pl_sys p) \<le> now" "\<not> pl_closed p \<or> pl_current p \<in> set pins" "plane_commit c now p = Some p'"
  shows "plane_ok (p', pins)"
proof -
  let ?cur = "pl_current p" and ?x = "pl_gens p ! pl_current p"
  have so: "serving_ok p" and cl: "closes_ok p" and ge: "gens_ok (pl_startup p) (pl_gens p) pins"
    using assms(1) by (simp_all add: plane_ok_def)
  have cur: "?cur < length (pl_gens p)" using so by (simp add: serving_ok_def)
  have eff: "serving_ok p'" "pl_current p' = length (pl_gens p)" "pl_startup p' = pl_startup p"
    "pl_gens p' = (pl_gens p)[?cur := ?x\<lparr>gen_retired := True\<rparr>] @ [\<lparr>gen_cfg = c, gen_metrics = gen_metrics ?x,
        gen_ingress = gen_ingress ?x, gen_refs = 0, gen_retired = False\<rparr>]"
    "pl_closes p' = (if gen_refs ?x = 0 then [?cur] else []) @ pl_closes p" "pl_closed p' = pl_closed p"
    using commit_effect [OF so assms(2,4)] assms(6) by auto
  have fresh: "count_list pins (length (pl_gens p)) = 0"
    using ge by (auto simp: gens_ok_def count_list_0_iff)
  have "gens_ok (pl_startup p') (pl_gens p') pins"
    using ge cur assms(3) fresh
    by (auto simp: gens_ok_def eff(3,4) nth_append nth_list_update less_Suc_eq)
  moreover have once: "gen_refs ?x = 0 \<Longrightarrow> ?cur \<notin> set (pl_closes p)"
    using assms(5) cl ge cur count_list_pos by (fastforce simp: closes_ok_def gens_ok_def)
  have "closes_ok p'"
    using cl cur once
    by (auto simp: closes_ok_def eff(2,4,5,6) nth_append nth_list_update less_Suc_eq split: if_splits)
  ultimately show ?thesis using eff(1) by (simp add: plane_ok_def)
qed

lemma close_ok:
  assumes "plane_ok (p, pins)"
  shows "plane_ok (plane_Close p, pins)"
proof (cases "pl_closed p")
  case False
  let ?cur = "pl_current p" and ?x = "pl_gens p ! pl_current p"
  have cur: "?cur < length (pl_gens p)" using assms by (simp add: plane_ok_def serving_ok_def)
  have nr: "\<not> gen_retired ?x" using assms False by (simp add: plane_ok_def closes_ok_def)
  let ?q = "\<lambda>cs. p\<lparr>pl_closed := True, pl_gens := (pl_gens p)[?cur := ?x\<lparr>gen_retired := True\<rparr>], pl_closes := cs\<rparr>"
  have gens: "gens_ok (pl_startup p) ((pl_gens p)[?cur := ?x\<lparr>gen_retired := True\<rparr>]) pins"
    using assms cur by (auto simp: plane_ok_def gens_ok_def nth_list_update)
  have serv: "serving_ok (?q cs)" for cs using assms cur by (auto simp: plane_ok_def serving_ok_def nth_list_update)
  have "closes_ok (?q (if gen_refs ?x = 0 then ?cur # pl_closes p else pl_closes p))"
    using assms cur nr by (auto simp: plane_ok_def closes_ok_def nth_list_update)
  moreover have "plane_Close p = ?q (if gen_refs ?x = 0 then ?cur # pl_closes p else pl_closes p)"
    using False by (cases p) (simp add: plane_Close_def Let_def close_server_def)
  ultimately show ?thesis using gens serv by (simp only: plane_ok_def prod.case) simp
qed (use assms in \<open>simp add: plane_Close_def\<close>)

lemma plane_step_ok:
  assumes "plane_step K x y" "plane_ok x"
  shows "plane_ok y"
  using assms(1)
proof cases
  case (acquire p g p' pins)
  then show ?thesis using acquire_ok assms(2) by simp
next
  case (release g pins p)
  then show ?thesis using release_ok assms(2) by simp
next
  case (publish proof_of v now p desired c pins p')
  have "Validate c = None \<and> restart_part c = restart_part (pl_startup p)"
    using NewWithVault_Inr [OF publish(3) [unfolded plane_prepare_def]] by simp
  then show ?thesis using publish_ok [OF _ _ _ publish(4,5,6)] assms(2) publish(1,2) by simp
next
  case (close p pins)
  then show ?thesis using close_ok assms(2) by simp
next
  case (traffic p s pins)
  have r: "reachable (pl_sys p)" using assms(2) traffic(1) by (simp add: plane_ok_def serving_ok_def)
  have "r_cfg (sys_routers s ! i) = r_cfg (sys_routers (pl_sys p) ! i)" if "i < length (sys_routers (pl_sys p))" for i
    using step_keeps [OF r traffic(3)] that by (simp add: keeps_def)
  then show ?thesis
    using assms(2) traffic reachable.step [OF r traffic(3)]
    by (auto simp: plane_ok_def serving_ok_def closes_ok_def)
qed

lemma plane_reach_ok: "plane_reach K x \<Longrightarrow> plane_ok x"
proof -
  assume "plane_reach K x"
  then obtain proof_of v desired now p where s: "0 \<le> now" "NewControlPlane K proof_of v desired now = Inr p"
    and r: "(plane_step K)\<^sup>*\<^sup>* (p, []) x" by (auto simp: plane_reach_def)
  from r show ?thesis
    by (induction rule: rtranclp_induct) (use start_ok [OF s(2,1)] plane_step_ok in blast)+
qed

subsection \<open>Properties\<close>



text \<open>C36. A configuration that can be prepared can be put into service, and running requests do not notice:
  the commit never panics, requests keep their generation with its configuration and its router, their
  leases are untouched, the new generation shares the counters and the admission of the old one, and
  everything that needs a restart keeps the value the process was started with.\<close>

theorem publish_keeps_requests:
  assumes "plane_reach K (p, pins)" and "plane_prepare K proof_of v now p desired = Inr c" and "sys_now (pl_sys p) \<le> now"
  shows "\<exists>p'. plane_commit c now p = Some p' \<and> Validate c = None \<and>
    gen_cfg (pl_gens p' ! pl_current p') = c \<and> r_cfg (current_router (pl_sys p')) = c \<and>
    gen_metrics (pl_gens p' ! pl_current p') = gen_metrics (pl_gens p ! pl_current p) \<and>
    gen_ingress (pl_gens p' ! pl_current p') = gen_ingress (pl_gens p ! pl_current p) \<and>
    (\<forall>g \<in> set pins. gen_refs (pl_gens p' ! g) = gen_refs (pl_gens p ! g) \<and>
       gen_cfg (pl_gens p' ! g) = gen_cfg (pl_gens p ! g) \<and>
       r_cfg (sys_routers (pl_sys p') ! g) = gen_cfg (pl_gens p ! g)) \<and>
    sys_leases (pl_sys p') = sys_leases (pl_sys p) \<and> restart_part c = restart_part (pl_startup p)"
proof -
  have ok: "plane_ok (p, pins)" by (rule plane_reach_ok [OF assms(1)])
  then have so: "serving_ok p" and ge: "gens_ok (pl_startup p) (pl_gens p) pins" by (simp_all add: plane_ok_def)
  have c: "Validate c = None" "restart_part c = restart_part (pl_startup p)"
    using NewWithVault_Inr [OF assms(2) [unfolded plane_prepare_def]] by simp_all
  obtain s p' where s: "Adopt c now (pl_sys p) = Some s" "plane_commit c now p = Some p'" "serving_ok p'"
      "pl_sys p' = tick now s" "pl_current p' = length (pl_gens p)"
      "pl_gens p' = (pl_gens p)[pl_current p := (pl_gens p ! pl_current p)\<lparr>gen_retired := True\<rparr>] @
        [\<lparr>gen_cfg = c, gen_metrics = gen_metrics (pl_gens p ! pl_current p),
          gen_ingress = gen_ingress (pl_gens p ! pl_current p), gen_refs = 0, gen_retired = False\<rparr>]"
    using commit_effect [OF so c(1) assms(3)] by blast
  have "sys_leases s = sys_leases (pl_sys p)"
    using s(1) by (auto simp: Adopt_def Let_def split: prod.splits option.splits)
  moreover have "gen_refs (pl_gens p' ! g) = gen_refs (pl_gens p ! g) \<and> gen_cfg (pl_gens p' ! g) = gen_cfg (pl_gens p ! g) \<and>
      r_cfg (sys_routers (pl_sys p') ! g) = gen_cfg (pl_gens p ! g)" if "g \<in> set pins" for g
  proof -
    have g: "g < length (pl_gens p)" using that ge by (simp add: gens_ok_def)
    then have "gen_refs (pl_gens p' ! g) = gen_refs (pl_gens p ! g) \<and> gen_cfg (pl_gens p' ! g) = gen_cfg (pl_gens p ! g)"
      by (cases "g = pl_current p") (auto simp: s(6) nth_append)
    with s(3) g show ?thesis by (auto simp: serving_ok_def s(6))
  qed
  moreover have "r_cfg (current_router (pl_sys p')) = gen_cfg (pl_gens p' ! pl_current p')"
    using s(3) by (simp add: serving_ok_def current_router_def)
  moreover have "pl_gens p' ! pl_current p' = \<lparr>gen_cfg = c, gen_metrics = gen_metrics (pl_gens p ! pl_current p),
      gen_ingress = gen_ingress (pl_gens p ! pl_current p), gen_refs = 0, gen_retired = False\<rparr>"
    by (simp add: s(5,6) nth_append)
  ultimately show ?thesis using s(2,4) c by (intro exI [of _ p']) simp
qed

subsection \<open>Witnesses\<close>

definition sample_catalogue :: catalogue where
  "sample_catalogue = \<lparr>cat_All = [], cat_MatchCredentials = (\<lambda>d k. [])\<rparr>"

definition empty_vault :: vault where
  "empty_vault = \<lparr>va_accountOwners = None, va_refreshes = (\<lambda>i. False), va_refreshBackoff = (\<lambda>i. 0), va_path = ''v'',
     va_records = [], va_lastUsed = Map.empty\<rparr>"

definition sample_plane :: plane where
  "sample_plane = \<lparr>pl_gens = [start_generation Default 0], pl_current = 0, pl_startup = Default, pl_closed = False,
     pl_closes = [], pl_sys = init_sys Default 1\<rparr>"

lemma sample_prepared: "NewWithVault sample_catalogue now empty_vault Default = Inr Default"
proof -
  have "cfg_Accounts Default = []" "cfg_Sources Default = []" by (simp_all add: Default_def)
  moreover from this have "bind_sources Default = Default" by (simp add: bind_sources_def)
  ultimately show ?thesis
    by (simp add: NewWithVault_def NewWithCredentials_def ValidateAccountOwners_def empty_vault_def
        validateCredentialBindings_def orelse_check_def Default_validates)
qed

lemma sample_policy: "withVerifiedAccountPolicy proof_of now v Default = Default"
  by (simp add: withVerifiedAccountPolicy_def Default_def)

lemma sample_plane_reach: "plane_reach sample_catalogue (sample_plane, [])"
proof -
  have "NewControlPlane sample_catalogue (\<lambda>c a. '''') empty_vault Default 1 = Inr sample_plane"
    by (simp add: NewControlPlane_def sample_policy sample_prepared sample_plane_def)
  then show ?thesis unfolding plane_reach_def by (metis rtranclp.rtrancl_refl zero_le_one)
qed

lemma sample_pinned_reach: "plane_reach sample_catalogue (snd (plane_acquire sample_plane), [0])"
proof -
  have "plane_acquire sample_plane = (Some 0, snd (plane_acquire sample_plane))"
    by (simp add: plane_acquire_def sample_plane_def Let_def)
  from plane_step.acquire [OF this] sample_plane_reach show ?thesis
    unfolding plane_reach_def by (metis rtranclp.rtrancl_into_rtrancl)
qed


theorem publish_keeps_requests_witness:
  "\<exists>p'. plane_commit Default 2 (snd (plane_acquire sample_plane)) = Some p' \<and>
     gen_refs (pl_gens p' ! 0) = 1 \<and> gen_cfg (pl_gens p' ! pl_current p') = Default"
proof -
  let ?p = "snd (plane_acquire sample_plane)"
  have p: "pl_startup ?p = Default" "gen_refs (pl_gens ?p ! 0) = 1" "pl_sys ?p = init_sys Default 1"
    by (simp_all add: plane_acquire_def sample_plane_def start_generation_def Let_def)
  have "effective_config Default Default = Default" by (simp add: effective_config_def)
  then have "plane_prepare sample_catalogue (\<lambda>c a. '''') empty_vault 2 ?p Default = Inr Default"
    by (simp add: plane_prepare_def sample_policy sample_prepared p(1))
  moreover have "sys_now (pl_sys ?p) \<le> 2" by (simp add: p(3) init_sys_def split: prod.split)
  ultimately show ?thesis using publish_keeps_requests [OF sample_pinned_reach] p(2) by fastforce
qed

end
