(* ===== verification/Jobs.thy ===== *)
theory Jobs
  imports Evidence Control
begin

section \<open>Management jobs\<close>

text \<open>
  \<open>internal/api/jobs.go\<close> and the reservation in \<open>ControlPlane.ServeHTTP\<close> (\<open>control.go\<close>): long administrative
  operations run as jobs or directly, at most four at a time, never two on the same account, browser
  profile, credential or device, with a bounded history.

  A job is a pointer in the code. Identifiers are random texts, so the model finds a job by its
  identifier; that a new one is unused is a guard of the step that accepts a job. The map of
  reserved resources is a list without duplicates, since the code only adds absent keys. JSON decoding of
  inputs and results is an argument of the functions that use it.
\<close>

subsection \<open>Versions and resources of operations\<close>

record operationVersion =
  ov_revision :: u64
  ov_vault :: string

definition operation_version :: "(Metadata list \<Rightarrow> string) \<Rightarrow> u64 \<Rightarrow> time \<Rightarrow> vault \<Rightarrow> operationVersion" where
  "operation_version marshal revision now v =
     \<lparr>ov_revision = revision,
      ov_vault = sha256_hex (marshal (map (\<lambda>m. m\<lparr>md_LastUsedAt := None, md_State := ''''\<rparr>) (vault_List now v)))\<rparr>"

text \<open>
  The commit closure of \<open>operationRequest\<close>: under the lock \<open>changes\<close> the function runs only if the
  request is alive and nothing changed since the operation was accepted; on success the version after
  it is remembered.
\<close>

definition commit_operation :: "operationVersion \<Rightarrow> bool \<Rightarrow> ('w \<Rightarrow> operationVersion) \<Rightarrow> ('w \<Rightarrow> check \<times> 'w) \<Rightarrow> 'w
    \<Rightarrow> check \<times> operationVersion option \<times> 'w" where
  "commit_operation version alive version_of fn w =
     (if \<not> alive \<or> version \<noteq> version_of w
      then (Some ''operation is stale; retry with current configuration'', None, w)
      else (case fn w of
              (Some e, w') \<Rightarrow> (Some e, None, w')
            | (None, w') \<Rightarrow> (None, Some (version_of w'), w')))"

definition appendOperationEvidence :: "evidence_codec \<Rightarrow> operationVersion option \<Rightarrow> bool \<Rightarrow> operationVersion \<Rightarrow> time \<Rightarrow> Entry \<Rightarrow> io \<Rightarrow> fs
    \<Rightarrow> evidence_store \<Rightarrow> check \<times> evidence_store \<times> fs list" where
  "appendOperationEvidence J accepted alive current now ent os fs s =
     (case accepted of
        None \<Rightarrow> (Some ''operation evidence is stale'', s, [fs])
      | Some version \<Rightarrow>
          if \<not> alive \<or> version \<noteq> current then (Some ''operation evidence is stale'', s, [fs])
          else Append J now (ent\<lparr>en_Revision := ov_revision version\<rparr>) os fs s)"

definition trim_slashes :: "string \<Rightarrow> string" where
  "trim_slashes path = rev (dropWhile (\<lambda>c. c = CHR ''/'') (rev (dropWhile (\<lambda>c. c = CHR ''/'') path)))"

definition managementOperation :: "string \<Rightarrow> bool" where
  "managementOperation path =
     (let parts = Split (CHR ''/'') (trim_slashes path);
          listed = path \<in> set [''/admin/device/check'', ''/admin/discovery/accounts'', ''/admin/browser_profiles/status'',
            ''/admin/browser_profiles/discover'', ''/admin/browser_profiles/setup-login'', ''/admin/credentials/import-browser''] in
      if length parts = 4 \<and> parts ! 0 = ''admin''
      then (if parts ! 1 = ''sources'' then parts ! 3 \<in> set [''validate'', ''discover'']
            else if parts ! 1 = ''accounts''
            then parts ! 3 \<in> set [''verify-login'', ''fill-login'', ''verify'', ''validate'', ''check-login'', ''login'', ''acquire-session'']
            else if parts ! 1 = ''providers'' then parts ! 3 = ''validate''
            else if parts ! 1 = ''credentials'' then parts ! 3 \<in> set [''check'', ''refresh'']
            else listed)
      else listed)"

text \<open>
  How the field \<open>profile\<close> of the body decodes: as a string, or as an object with an identifier; \<open>None\<close>
  where decoding fails.
\<close>

record body_profile =
  bp_string :: "string option"
  bp_object :: "string option"

definition account_resource :: "Config \<Rightarrow> string \<Rightarrow> string" where
  "account_resource c account =
     (case find (\<lambda>a. account_ID a = account \<and> account_BrowserProfileID a \<noteq> '''') (cfg_Accounts c) of
        Some a \<Rightarrow> ''profile:'' @ account_BrowserProfileID a
      | None \<Rightarrow> ''account:'' @ account)"

definition source_resource :: "Config \<Rightarrow> string \<Rightarrow> string \<Rightarrow> string \<Rightarrow> string" where
  "source_resource c path source account =
     (let found = find (\<lambda>s. source_ID s = source) (cfg_Sources c);
          account' = (case found of None \<Rightarrow> account | Some s \<Rightarrow> source_AccountID s) in
      if (case found of None \<Rightarrow> False | Some s \<Rightarrow> source_Adapter s = ''app-device'') then ''device''
      else if account' \<noteq> '''' then account_resource c account'
      else if source \<noteq> '''' then ''source:'' @ source
      else path)"

definition operationResource :: "Config \<Rightarrow> string \<Rightarrow> body_profile option \<Rightarrow> string" where
  "operationResource c path body =
     (let named = (if path = ''/admin/credentials/import-browser'' \<or> path = ''/admin/browser_profiles/setup-login''
                   then (case body of
                           None \<Rightarrow> ''''
                         | Some b \<Rightarrow>
                             (case bp_string b of
                                Some i \<Rightarrow> if i \<noteq> '''' then i else (case bp_object b of None \<Rightarrow> '''' | Some j \<Rightarrow> j)
                              | None \<Rightarrow> (case bp_object b of None \<Rightarrow> '''' | Some j \<Rightarrow> j)))
                   else '''');
          parts = Split (CHR ''/'') (trim_slashes path) in
      if named \<noteq> '''' then ''profile:'' @ named
      else if length parts \<noteq> 4 then path
      else if parts ! 1 = ''credentials'' then ''credential:'' @ parts ! 2
      else if parts ! 1 = ''sources'' then source_resource c path (parts ! 2) ''''
      else if parts ! 1 = ''accounts'' then source_resource c path '''' (parts ! 2)
      else if parts ! 1 = ''providers''
      then (let source = (case find (\<lambda>s. source_Provider s = parts ! 2) (cfg_Sources c) of None \<Rightarrow> '''' | Some s \<Rightarrow> source_ID s);
                account = (if source = ''''
                           then (case find (\<lambda>a. account_ProviderID a = parts ! 2) (cfg_Accounts c) of
                                   None \<Rightarrow> '''' | Some a \<Rightarrow> account_ID a) else '''')
            in source_resource c path source account)
      else source_resource c path '''' '''')"

subsection \<open>Jobs\<close>

record managementJobEvent =
  je_Sequence :: nat
  je_Stage :: string
  je_At :: time

record managementJob =
  jb_ID :: string
  jb_Path :: string
  jb_State :: string
  jb_Revision :: u64
  jb_CreatedAt :: time
  jb_FinishedAt :: time
  jb_Status :: int
  jb_Result :: "string option"
  jb_Events :: "managementJobEvent list"
  jb_Stage :: string
  jb_cancel :: bool
  jb_resource :: string

record managementJobs =
  mj_items :: "managementJob list"
  mj_closed :: bool
  mj_resources :: "string list"
  mj_cancelled :: "string list"

text \<open>\<open>jb_cancel\<close> says whether the cancel function is set; \<open>mj_cancelled\<close> is the log of its calls by others.\<close>

definition jobs_close :: "managementJobs \<Rightarrow> managementJobs" where
  "jobs_close J = J\<lparr>mj_closed := True, mj_cancelled := map jb_ID (filter jb_cancel (mj_items J)) @ mj_cancelled J\<rparr>"

definition new_job :: "string \<Rightarrow> string \<Rightarrow> u64 \<Rightarrow> time \<Rightarrow> string \<Rightarrow> managementJob" where
  "new_job jid path revision now resource =
     \<lparr>jb_ID = jid, jb_Path = path, jb_State = ''running'', jb_Revision = revision, jb_CreatedAt = now, jb_FinishedAt = 0,
      jb_Status = 0, jb_Result = None, jb_Events = [\<lparr>je_Sequence = 1, je_Stage = ''accepted'', je_At = now\<rparr>],
      jb_Stage = ''accepted'', jb_cancel = True, jb_resource = resource\<rparr>"

fun evict_first :: "managementJob list \<Rightarrow> managementJob list" where
  "evict_first [] = []"
| "evict_first (j # js) = (if jb_State j \<noteq> ''running'' then js else j # evict_first js)"

definition admit_job :: "managementJob \<Rightarrow> managementJobs \<Rightarrow> (int \<times> string) + managementJobs" where
  "admit_job job J =
     (if jb_resource job \<in> set (mj_resources J) then Inl (409, ''resource already has a running management operation'')
      else if mj_closed J \<or> length (mj_resources J) \<ge> 4 then Inl (503, ''management job capacity exhausted'')
      else Inr (J\<lparr>mj_resources := jb_resource job # mj_resources J,
                  mj_items := (if length (mj_items J) \<ge> 128 then evict_first (mj_items J) else mj_items J) @ [job]\<rparr>))"

datatype job_reply = Refused int string | Accepted string | Listed "managementJob list" | Shown managementJob | CancelRequested

definition jobs_post :: "(string \<times> body_profile option) option \<Rightarrow> Config \<Rightarrow> operationVersion \<Rightarrow> string \<Rightarrow> time \<Rightarrow> managementJobs
    \<Rightarrow> job_reply \<times> managementJobs" where
  "jobs_post input c version jid now J =
     (case input of
        None \<Rightarrow> (Refused 400 ''unsupported management operation'', J)
      | Some (path, body) \<Rightarrow>
          if \<not> managementOperation path then (Refused 400 ''unsupported management operation'', J)
          else (case admit_job (new_job jid path (ov_revision version) now (operationResource c path body)) J of
                  Inl (status, msg) \<Rightarrow> (Refused status msg, J)
                | Inr J' \<Rightarrow> (Accepted jid, J')))"

definition jobsAdmin :: "string \<Rightarrow> string \<Rightarrow> (string \<times> body_profile option) option \<Rightarrow> Config \<Rightarrow> operationVersion \<Rightarrow> string \<Rightarrow> time
    \<Rightarrow> managementJobs \<Rightarrow> job_reply \<times> managementJobs" where
  "jobsAdmin path meth input c version jid now J =
     (if path = ''/admin/jobs'' \<and> meth = ''POST'' then jobs_post input c version jid now J
      else if path = ''/admin/jobs'' \<and> meth = ''GET'' then (Listed (mj_items J), J)
      else (case find (\<lambda>j. jb_ID j = TrimPrefix path ''/admin/jobs/'') (mj_items J) of
              None \<Rightarrow> (Refused 404 ''unknown management job'', J)
            | Some j \<Rightarrow>
                if meth = ''GET'' then (Shown j, J)
                else if meth = ''DELETE''
                then (CancelRequested, if jb_cancel j then J\<lparr>mj_cancelled := jb_ID j # mj_cancelled J\<rparr> else J)
                else (Refused 405 ''method not allowed'', J)))"

text \<open>The reservation of an operation that is called directly.\<close>

definition reserve_direct :: "string \<Rightarrow> managementJobs \<Rightarrow> managementJobs option" where
  "reserve_direct resource J =
     (if mj_closed J \<or> resource \<in> set (mj_resources J) \<or> length (mj_resources J) \<ge> 4 then None
      else Some (J\<lparr>mj_resources := resource # mj_resources J\<rparr>))"

definition release_direct :: "string \<Rightarrow> managementJobs \<Rightarrow> managementJobs" where
  "release_direct resource J = J\<lparr>mj_resources := removeAll resource (mj_resources J)\<rparr>"

subsection \<open>Running a job\<close>

record jobResponse =
  jr_status :: int
  jr_body :: string
  jr_overflow :: bool

definition jr_WriteHeader :: "int \<Rightarrow> jobResponse \<Rightarrow> jobResponse" where
  "jr_WriteHeader status r = (if jr_status r = 0 then r\<lparr>jr_status := status\<rparr> else r)"

definition jr_Write :: "string \<Rightarrow> jobResponse \<Rightarrow> (nat \<times> bool) \<times> jobResponse" where
  "jr_Write b r =
     (let r1 = (if jr_status r = 0 then r\<lparr>jr_status := 200\<rparr> else r) in
      if length (jr_body r1) + length b > 2 ^ 20 then ((0, False), r1\<lparr>jr_overflow := True\<rparr>)
      else ((length b, True), r1\<lparr>jr_body := jr_body r1 @ b\<rparr>))"

definition update_job :: "string \<Rightarrow> (managementJob \<Rightarrow> managementJob) \<Rightarrow> managementJobs \<Rightarrow> managementJobs" where
  "update_job jid f J = J\<lparr>mj_items := map (\<lambda>j. if jb_ID j = jid then f j else j) (mj_items J)\<rparr>"

definition add_event :: "string \<Rightarrow> time \<Rightarrow> managementJob \<Rightarrow> managementJob" where
  "add_event stage now j =
     j\<lparr>jb_Events := jb_Events j @ [\<lparr>je_Sequence = length (jb_Events j) + 1, je_Stage = stage, je_At = now\<rparr>]\<rparr>"

definition job_progress :: "string \<Rightarrow> time \<Rightarrow> managementJob \<Rightarrow> managementJob" where
  "job_progress stage now j =
     (let j' = j\<lparr>jb_Stage := stage\<rparr> in if length (jb_Events j') < 15 then add_event stage now j' else j')"

datatype ctx_err = CtxDeadlineExceeded | CtxCanceled

text \<open>
  What the deferred function sees: whether the handler panicked, its response, the error of the context,
  the version the operation committed, the version it was accepted with and the current one, the decoded
  identifier and version of a refreshed credential, the listing of the vault, and whether the body is
  valid JSON.
\<close>

record job_outcome =
  jo_panicked :: bool
  jo_response :: jobResponse
  jo_ctx :: "ctx_err option"
  jo_committed :: "operationVersion option"
  jo_accepted :: operationVersion
  jo_current :: operationVersion
  jo_refreshed :: "(string \<times> u64) option"
  jo_metadata :: "Metadata list"
  jo_valid :: bool

definition outcome_committed :: "job_outcome \<Rightarrow> bool" where
  "outcome_committed ou \<longleftrightarrow> jo_committed ou \<noteq> None \<and> jr_status (jo_response ou) < 400"

definition outcome_version :: "job_outcome \<Rightarrow> operationVersion" where
  "outcome_version ou = (if outcome_committed ou then the (jo_committed ou) else jo_accepted ou)"

definition own_refresh :: "string \<Rightarrow> job_outcome \<Rightarrow> bool" where
  "own_refresh path ou \<longleftrightarrow>
     ((HasPrefix path ''/admin/credentials/'' \<and> HasSuffix path ''/refresh'') \<or> path = ''/admin/credentials/import-browser'') \<and>
     jr_status (jo_response ou) = 200 \<and> ov_revision (jo_current ou) = ov_revision (outcome_version ou) \<and>
     (case jo_refreshed ou of
        None \<Rightarrow> False
      | Some (i, n) \<Rightarrow> list_ex (\<lambda>m. md_ID m = i \<and> md_Version m = n) (jo_metadata ou))"

definition final_state :: "string \<Rightarrow> job_outcome \<Rightarrow> string" where
  "final_state path ou =
     (if jo_panicked ou \<or> jr_overflow (jo_response ou) then ''failed''
      else if jo_ctx ou = Some CtxDeadlineExceeded \<and> \<not> outcome_committed ou then ''timed_out''
      else if jo_ctx ou \<noteq> None \<and> \<not> outcome_committed ou then ''canceled''
      else if jo_current ou \<noteq> outcome_version ou \<and> \<not> own_refresh path ou then ''stale''
      else if jr_status (jo_response ou) \<ge> 400 then ''failed'' else ''completed'')"

definition finish_job :: "job_outcome \<Rightarrow> time \<Rightarrow> managementJob \<Rightarrow> managementJob" where
  "finish_job ou now j =
     (let st = final_state (jb_Path j) ou; broken = (jo_panicked ou \<or> jr_overflow (jo_response ou));
          result = (if (st = ''completed'' \<or> (st = ''failed'' \<and> \<not> broken)) \<and> jo_valid ou
                    then Some (jr_body (jo_response ou)) else jb_Result j);
          j' = j\<lparr>jb_Status := (if broken then 500 else jr_status (jo_response ou)), jb_State := st, jb_Result := result,
                 jb_FinishedAt := now, jb_Stage := st\<rparr>
      in (add_event st now j')\<lparr>jb_cancel := False\<rparr>)"

definition complete_job :: "managementJob \<Rightarrow> job_outcome \<Rightarrow> time \<Rightarrow> managementJobs \<Rightarrow> managementJobs" where
  "complete_job job ou now J =
     update_job (jb_ID job) (finish_job ou now) (J\<lparr>mj_resources := removeAll (jb_resource job) (mj_resources J)\<rparr>)"

subsection \<open>The machine\<close>

text \<open>The state is the jobs and the resources of the operations that run directly.\<close>

inductive jobs_step :: "managementJobs \<times> string list \<Rightarrow> managementJobs \<times> string list \<Rightarrow> bool" where
  request: "jobsAdmin path meth input c version jid now J = (reply, J') \<Longrightarrow> jid \<notin> jb_ID ` set (mj_items J) \<Longrightarrow>
    jobs_step (J, ds) (J', ds)"
| progress: "job \<in> set (mj_items J) \<Longrightarrow> jb_State job = ''running'' \<Longrightarrow>
    jobs_step (J, ds) (update_job (jb_ID job) (job_progress stage now) J, ds)"
| complete: "job \<in> set (mj_items J) \<Longrightarrow> jb_State job = ''running'' \<Longrightarrow> jobs_step (J, ds) (complete_job job ou now J, ds)"
| direct: "reserve_direct resource J = Some J' \<Longrightarrow> jobs_step (J, ds) (J', resource # ds)"
| direct_done: "resource \<in> set ds \<Longrightarrow> jobs_step (J, ds) (release_direct resource J, remove1 resource ds)"
| close: "jobs_step (J, ds) (jobs_close J, ds)"

definition no_jobs :: managementJobs where
  "no_jobs = \<lparr>mj_items = [], mj_closed = False, mj_resources = [], mj_cancelled = []\<rparr>"

definition jobs_reach :: "managementJobs \<times> string list \<Rightarrow> bool" where
  "jobs_reach x \<longleftrightarrow> jobs_step\<^sup>*\<^sup>* (no_jobs, []) x"

subsection \<open>The invariant\<close>

definition is_running :: "managementJob \<Rightarrow> bool" where
  "is_running j \<longleftrightarrow> jb_State j = ''running''"

definition running :: "managementJobs \<Rightarrow> managementJob list" where
  "running J = filter is_running (mj_items J)"

definition job_ok :: "managementJob \<Rightarrow> bool" where
  "job_ok j \<longleftrightarrow>
     jb_Events j \<noteq> [] \<and> map je_Sequence (jb_Events j) = [1..<Suc (length (jb_Events j))] \<and>
     (if is_running j then length (jb_Events j) \<le> 15 \<and> jb_cancel j
      else length (jb_Events j) \<le> 16 \<and> \<not> jb_cancel j \<and>
        jb_State j \<in> {''completed'', ''failed'', ''timed_out'', ''canceled'', ''stale''} \<and> jb_Stage j = jb_State j \<and>
        je_Stage (last (jb_Events j)) = jb_State j \<and> je_At (last (jb_Events j)) = jb_FinishedAt j)"

definition reserved_ok :: "string list \<Rightarrow> managementJob list \<Rightarrow> string list \<Rightarrow> bool" where
  "reserved_ok resources js ds \<longleftrightarrow> distinct resources \<and> length resources \<le> 4 \<and>
     distinct (map jb_resource js @ ds) \<and> set resources = set (map jb_resource js @ ds)"

definition jobs_ok :: "managementJobs \<times> string list \<Rightarrow> bool" where
  "jobs_ok x \<longleftrightarrow> (case x of (J, ds) \<Rightarrow>
     distinct (map jb_ID (mj_items J)) \<and> length (mj_items J) \<le> 128 \<and>
     (\<forall>j \<in> set (mj_items J). job_ok j) \<and> reserved_ok (mj_resources J) (running J) ds)"

lemma reserved_length: "reserved_ok resources js ds \<Longrightarrow> length js + length ds = length resources"
proof -
  assume ok: "reserved_ok resources js ds"
  have "length resources = card (set resources)" using ok distinct_card unfolding reserved_ok_def by metis
  also have "\<dots> = card (set (map jb_resource js @ ds))" using ok by (simp only: reserved_ok_def)
  also have "\<dots> = length (map jb_resource js @ ds)" using ok distinct_card unfolding reserved_ok_def by blast
  finally show ?thesis by simp
qed

lemma reserved_remove:
  assumes "reserved_ok resources js ds" "distinct (map jb_ID js)" "job \<in> set js"
  shows "reserved_ok (removeAll (jb_resource job) resources) (filter (\<lambda>j. jb_ID j \<noteq> jb_ID job) js) ds"
proof -
  have inj: "inj_on jb_resource (set js)" "inj_on jb_ID (set js)"
    using assms(1,2) by (auto simp: reserved_ok_def distinct_map)
  have other: "j \<in> set js \<Longrightarrow> jb_ID j \<noteq> jb_ID job \<longleftrightarrow> jb_resource j \<noteq> jb_resource job" for j
    using inj assms(3) by (metis inj_onD)
  then have f: "filter (\<lambda>j. jb_ID j \<noteq> jb_ID job) js = filter (\<lambda>j. jb_resource j \<noteq> jb_resource job) js"
    by (rule filter_cong [OF refl])
  have "jb_resource job \<notin> set ds" using assms(1,3) by (auto simp: reserved_ok_def)
  then show ?thesis
    using assms(1) unfolding f reserved_ok_def
    by (auto simp: distinct_map_filter distinct_removeAll le_trans [OF length_removeAll_less_eq])
qed

lemma final_state_cases: "final_state path ou \<in> {''completed'', ''failed'', ''timed_out'', ''canceled'', ''stale''}"
  by (simp add: final_state_def)

lemma final_state_not_running: "final_state path ou \<noteq> ''running''"
  using final_state_cases [of path ou] by auto

lemma add_event_numbers:
  "map je_Sequence (jb_Events j) = [1..<Suc (length (jb_Events j))] \<Longrightarrow>
   map je_Sequence (jb_Events (add_event stage now j)) = [1..<Suc (length (jb_Events (add_event stage now j)))]"
  by (simp add: add_event_def)

lemma job_progress_ok:
  assumes "job_ok j" "is_running j"
  shows "job_ok (job_progress stage now j) \<and> is_running (job_progress stage now j)"
  using assms add_event_numbers [of "j\<lparr>jb_Stage := stage\<rparr>" stage now]
  by (auto simp: job_ok_def job_progress_def Let_def is_running_def) (simp_all add: add_event_def)

lemma finish_job_ok:
  assumes "job_ok j" "is_running j"
  shows "job_ok (finish_job ou now j) \<and> \<not> is_running (finish_job ou now j)"
  using assms final_state_cases [of "jb_Path j" ou] final_state_not_running [of "jb_Path j" ou]
  by (simp add: job_ok_def finish_job_def Let_def is_running_def add_event_def)

lemma job_frame [simp]:
  "jb_ID (job_progress stage now j) = jb_ID j" "jb_resource (job_progress stage now j) = jb_resource j"
  "jb_ID (finish_job ou now j) = jb_ID j" "jb_resource (finish_job ou now j) = jb_resource j"
  by (simp_all add: job_progress_def finish_job_def add_event_def Let_def)

lemma evict_first_set: "set (evict_first js) \<subseteq> set js" "filter is_running (evict_first js) = filter is_running js"
  by (induction js) (auto simp: is_running_def)

lemma evict_first_distinct: "distinct (map jb_ID js) \<Longrightarrow> distinct (map jb_ID (evict_first js))"
proof (induction js)
  case (Cons j js)
  then show ?case using evict_first_set(1) [of js] by auto
qed simp

lemma evict_first_length: "\<not> (\<forall>j \<in> set js. is_running j) \<Longrightarrow> length (evict_first js) = length js - 1"
proof (induction js)
  case (Cons j js)
  then show ?case by (cases js) (auto simp: is_running_def)
qed simp

lemma running_update:
  assumes "\<And>j. j \<in> set (mj_items J) \<Longrightarrow> jb_ID j = jid \<Longrightarrow> is_running (f j) = is_running j \<and> jb_resource (f j) = jb_resource j"
  shows "map jb_resource (running (update_job jid f J)) = map jb_resource (running J)"
proof -
  have "map jb_resource (filter is_running (map (\<lambda>j. if jb_ID j = jid then f j else j) js)) = map jb_resource (filter is_running js)"
    if "set js \<subseteq> set (mj_items J)" for js
    using that assms by (induction js) auto
  then show ?thesis by (simp add: running_def update_job_def)
qed

lemma running_finish:
  assumes "\<And>j. \<not> is_running (f j)"
  shows "running (update_job jid f J) = filter (\<lambda>j. jb_ID j \<noteq> jid) (running J)"
proof -
  have "filter is_running (map (\<lambda>j. if jb_ID j = jid then f j else j) js) =
      filter (\<lambda>j. jb_ID j \<noteq> jid) (filter is_running js)" for js
    using assms by (induction js) auto
  then show ?thesis by (simp add: running_def update_job_def)
qed

lemma update_job_IDs: "(\<And>j. jb_ID (f j) = jb_ID j) \<Longrightarrow> map jb_ID (mj_items (update_job jid f J)) = map jb_ID (mj_items J)"
  by (simp add: update_job_def comp_def)

lemma admit_ok:
  assumes "jobs_ok (J, ds)" "admit_job job J = Inr J'" "jb_ID job \<notin> jb_ID ` set (mj_items J)" "job_ok job" "is_running job"
  shows "jobs_ok (J', ds)"
proof -
  let ?kept = "if length (mj_items J) \<ge> 128 then evict_first (mj_items J) else mj_items J"
  have fresh: "jb_resource job \<notin> set (mj_resources J)" "length (mj_resources J) < 4"
    and J': "J' = J\<lparr>mj_resources := jb_resource job # mj_resources J, mj_items := ?kept @ [job]\<rparr>"
    using assms(2) by (auto simp: admit_job_def split: if_splits)
  have ok: "distinct (map jb_ID (mj_items J))" "length (mj_items J) \<le> 128" "\<forall>j \<in> set (mj_items J). job_ok j"
    "reserved_ok (mj_resources J) (running J) ds"
    using assms(1) by (simp_all add: jobs_ok_def)
  have few: "length (running J) \<le> 4" using reserved_length [OF ok(4)] fresh(2) by simp
  have "\<not> (\<forall>j \<in> set (mj_items J). is_running j)" if "length (mj_items J) \<ge> 128"
  proof
    assume "\<forall>j \<in> set (mj_items J). is_running j"
    then have "running J = mj_items J" by (simp add: running_def)
    with few that show False by simp
  qed
  then have len: "length ?kept \<le> 127" using evict_first_length [of "mj_items J"] ok(2) by auto
  have run: "running J' = running J @ [job]" using assms(5) by (simp add: J' running_def evict_first_set(2))
  have res: "reserved_ok (mj_resources J') (running J') ds"
    using ok(4) fresh unfolding run by (auto simp: J' reserved_ok_def)
  have "distinct (map jb_ID (?kept @ [job]))"
    using ok(1) assms(3) evict_first_distinct [OF ok(1)] evict_first_set(1) [of "mj_items J"] by auto
  moreover have "\<forall>j \<in> set (?kept @ [job]). job_ok j" using ok(3) assms(4) evict_first_set(1) [of "mj_items J"] by auto
  ultimately show ?thesis using res len by (simp add: jobs_ok_def J')
qed

lemma new_job_ok: "job_ok (new_job jid path revision now resource) \<and> is_running (new_job jid path revision now resource)"
  by (simp add: job_ok_def new_job_def is_running_def)

lemma request_cases:
  assumes "jobsAdmin path meth input c version jid now J = (reply, J')"
  shows "J' = J \<or> (\<exists>k. J' = J\<lparr>mj_cancelled := k\<rparr>) \<or>
    (\<exists>p r. admit_job (new_job jid p (ov_revision version) now r) J = Inr J')"
  using assms by (auto simp: jobsAdmin_def jobs_post_def split: if_splits option.splits sum.splits prod.splits)

lemma progress_ok:
  assumes "jobs_ok (J, ds)" "job \<in> set (mj_items J)" "is_running job"
  shows "jobs_ok (update_job (jb_ID job) (job_progress stage now) J, ds)"
proof -
  let ?J = "update_job (jb_ID job) (job_progress stage now) J"
  have d: "distinct (map jb_ID (mj_items J))" "\<forall>j \<in> set (mj_items J). job_ok j"
    "reserved_ok (mj_resources J) (running J) ds" "length (mj_items J) \<le> 128"
    using assms(1) by (simp_all add: jobs_ok_def)
  have only: "j \<in> set (mj_items J) \<Longrightarrow> jb_ID j = jb_ID job \<Longrightarrow> j = job" for j
    using d(1) assms(2) by (metis distinct_map inj_onD)
  have "map jb_resource (running ?J) = map jb_resource (running J)"
    by (rule running_update) (use only assms(2,3) d(2) job_progress_ok [of job stage now] in auto)
  then have "reserved_ok (mj_resources ?J) (running ?J) ds" using d(3) by (simp add: reserved_ok_def update_job_def)
  moreover have "\<forall>j \<in> set (mj_items ?J). job_ok j"
    using d(2) only assms(3) job_progress_ok [of job stage now] assms(2) by (auto simp: update_job_def)
  moreover have "length (mj_items ?J) \<le> 128" using d(4) by (simp add: update_job_def)
  ultimately show ?thesis using d(1) by (simp add: jobs_ok_def update_job_IDs)
qed

lemma complete_ok:
  assumes "jobs_ok (J, ds)" "job \<in> set (mj_items J)" "is_running job"
  shows "jobs_ok (complete_job job ou now J, ds)"
proof -
  let ?J = "complete_job job ou now J"
  have d: "distinct (map jb_ID (mj_items J))" "\<forall>j \<in> set (mj_items J). job_ok j"
    "reserved_ok (mj_resources J) (running J) ds" "length (mj_items J) \<le> 128"
    using assms(1) by (simp_all add: jobs_ok_def)
  have only: "j \<in> set (mj_items J) \<Longrightarrow> jb_ID j = jb_ID job \<Longrightarrow> j = job" for j
    using d(1) assms(2) by (metis distinct_map inj_onD)
  have nr: "\<not> is_running (finish_job ou now j)" for j
    using final_state_not_running by (simp add: is_running_def finish_job_def add_event_def Let_def)
  have "running ?J = filter (\<lambda>j. jb_ID j \<noteq> jb_ID job) (running J)"
    using running_finish [OF nr, where jid = "jb_ID job" and J = "J\<lparr>mj_resources := removeAll (jb_resource job) (mj_resources J)\<rparr>"]
    by (simp add: complete_job_def running_def)
  moreover have "distinct (map jb_ID (running J))" using d(1) by (simp add: running_def distinct_map_filter)
  moreover have "job \<in> set (running J)" using assms(2,3) by (simp add: running_def)
  ultimately have "reserved_ok (mj_resources ?J) (running ?J) ds"
    using reserved_remove [OF d(3)] by (simp add: complete_job_def update_job_def)
  moreover have "\<forall>j \<in> set (mj_items ?J). job_ok j"
    using d(2) only assms(3) finish_job_ok [of job ou now] assms(2) by (auto simp: complete_job_def update_job_def)
  moreover have "map jb_ID (mj_items ?J) = map jb_ID (mj_items J)"
    by (simp add: complete_job_def update_job_IDs)
  moreover have "length (mj_items ?J) \<le> 128" using d(4) by (simp add: complete_job_def update_job_def)
  ultimately show ?thesis using d(1) by (simp add: jobs_ok_def)
qed

lemma jobs_step_ok:
  assumes "jobs_step x y" "jobs_ok x"
  shows "jobs_ok y"
  using assms(1)
proof cases
  case (request path meth input c version jid now J reply J' ds)
  have ok: "jobs_ok (J, ds)" using assms(2) request(1) by simp
  have "jobs_ok (J', ds)"
    using request_cases [OF request(3)]
  proof (elim disjE exE)
    fix p r
    assume "admit_job (new_job jid p (ov_revision version) now r) J = Inr J'"
    from admit_ok [OF ok this] new_job_ok request(4) show ?thesis by (simp add: new_job_def)
  qed (use ok in \<open>auto simp: jobs_ok_def running_def\<close>)
  then show ?thesis by (simp add: request(2))
next
  case (progress job J ds stage now)
  then show ?thesis using progress_ok assms(2) by (simp add: is_running_def)
next
  case (complete job J ds ou now)
  then show ?thesis using complete_ok assms(2) by (simp add: is_running_def)
next
  case (direct resource J J' ds)
  then have "reserved_ok (mj_resources J) (running J) ds" "resource \<notin> set (mj_resources J)" "length (mj_resources J) < 4"
    using assms(2) by (auto simp: jobs_ok_def reserve_direct_def split: if_splits)
  then have "reserved_ok (resource # mj_resources J) (running J) (resource # ds)" by (auto simp: reserved_ok_def)
  moreover have "J' = J\<lparr>mj_resources := resource # mj_resources J\<rparr>"
    using direct(3) by (auto simp: reserve_direct_def split: if_splits)
  ultimately show ?thesis using assms(2) direct(1,2) by (simp add: jobs_ok_def running_def)
next
  case (direct_done resource ds J)
  then have "reserved_ok (mj_resources J) (running J) ds" using assms(2) by (simp add: jobs_ok_def)
  then have "reserved_ok (removeAll resource (mj_resources J)) (running J) (remove1 resource ds)"
    using direct_done(3) by (auto simp: reserved_ok_def distinct_removeAll set_remove1_eq le_trans [OF length_removeAll_less_eq])
  with direct_done assms(2) show ?thesis by (simp add: jobs_ok_def release_direct_def running_def)
next
  case (close J ds)
  then show ?thesis using assms(2) by (simp add: jobs_ok_def jobs_close_def running_def)
qed

lemma jobs_reach_ok: "jobs_reach x \<Longrightarrow> jobs_ok x"
  unfolding jobs_reach_def
  by (induction rule: rtranclp_induct)
    (use jobs_step_ok in \<open>auto simp: jobs_ok_def no_jobs_def reserved_ok_def running_def\<close>)

subsection \<open>Properties\<close>

lemma job_ok_events:
  assumes "job_ok j"
  shows "map je_Sequence (jb_Events j) = [1..<Suc (length (jb_Events j))]" "length (jb_Events j) \<le> 16"
    "jb_State j \<noteq> ''running'' \<Longrightarrow> jb_Events j \<noteq> [] \<and> je_Stage (last (jb_Events j)) = jb_State j"
proof -
  show "map je_Sequence (jb_Events j) = [1..<Suc (length (jb_Events j))]" using assms unfolding job_ok_def by blast
  have "length (jb_Events j) \<le> 15 \<or> length (jb_Events j) \<le> 16" using assms unfolding job_ok_def by metis
  then show "length (jb_Events j) \<le> 16" by linarith
  show "jb_Events j \<noteq> [] \<and> je_Stage (last (jb_Events j)) = jb_State j" if "jb_State j \<noteq> ''running''"
    using assms that unfolding job_ok_def is_running_def by (simp only: if_False simp_thms)
qed

text \<open>C37. Long operations are exclusive and bounded. In every reachable state at most four operations run, as
  jobs or directly; no two of them hold the same resource; the history has at most 128 jobs with
  distinct identifiers; and the events of every job are numbered from one without gaps, at most sixteen,
  the last one of a finished job being its final state.\<close>

theorem jobs_exclusive:
  assumes "jobs_reach (J, ds)"
  shows "length (running J) + length ds \<le> 4 \<and> distinct (map jb_resource (running J) @ ds) \<and>
    length (mj_items J) \<le> 128 \<and> distinct (map jb_ID (mj_items J)) \<and>
    (\<forall>j \<in> set (mj_items J). map je_Sequence (jb_Events j) = [1..<Suc (length (jb_Events j))] \<and>
       length (jb_Events j) \<le> 16 \<and>
       (jb_State j \<noteq> ''running'' \<longrightarrow> jb_Events j \<noteq> [] \<and> je_Stage (last (jb_Events j)) = jb_State j))"
proof -
  have ok: "jobs_ok (J, ds)" by (rule jobs_reach_ok [OF assms])
  then have r: "reserved_ok (mj_resources J) (running J) ds" by (simp add: jobs_ok_def)
  have "\<forall>j \<in> set (mj_items J). job_ok j" using ok by (simp add: jobs_ok_def)
  then have "\<forall>j \<in> set (mj_items J). map je_Sequence (jb_Events j) = [1..<Suc (length (jb_Events j))] \<and>
       length (jb_Events j) \<le> 16 \<and>
       (jb_State j \<noteq> ''running'' \<longrightarrow> jb_Events j \<noteq> [] \<and> je_Stage (last (jb_Events j)) = jb_State j)"
    using job_ok_events by blast
  moreover have "length (running J) + length ds \<le> 4" using reserved_length [OF r] r by (simp add: reserved_ok_def)
  ultimately show ?thesis using ok r unfolding jobs_ok_def reserved_ok_def prod.case by blast
qed

definition continues :: "managementJob \<Rightarrow> managementJob \<Rightarrow> bool" where
  "continues j j' \<longleftrightarrow> jb_ID j' = jb_ID j \<and> jb_Path j' = jb_Path j \<and> jb_Revision j' = jb_Revision j \<and>
     jb_CreatedAt j' = jb_CreatedAt j \<and> jb_resource j' = jb_resource j \<and> (\<exists>es. jb_Events j' = jb_Events j @ es)"

lemma continues_steps [simp]:
  "continues j j" "continues j (job_progress stage now j)" "continues j (finish_job ou now j)"
  by (simp_all add: continues_def job_progress_def finish_job_def add_event_def Let_def)

lemma evict_first_mem: "j \<in> set js \<Longrightarrow> is_running j \<Longrightarrow> j \<in> set (evict_first js)"
  by (induction js) (auto simp: is_running_def)

lemma update_job_step:
  assumes "distinct (map jb_ID (mj_items J))" "job \<in> set (mj_items J)" "is_running job" "j \<in> set (mj_items J)"
    "\<And>j. continues j (f j)"
  shows "if is_running j then \<exists>j' \<in> set (mj_items (update_job (jb_ID job) f J)). continues j j'
    else j \<in> set (mj_items (update_job (jb_ID job) f J))"
proof (cases "jb_ID j = jb_ID job")
  case True
  then have "j = job" using assms(1,2,4) by (metis distinct_map inj_onD)
  with assms show ?thesis by (force simp: update_job_def)
next
  case False
  then have "j \<in> set (mj_items (update_job (jb_ID job) f J))" using assms(4) by (force simp: update_job_def)
  then show ?thesis using continues_steps(1) by (auto intro: bexI [of _ j])
qed

text \<open>C38. A job is never lost and ends once. In one step of any reachable state, a running job stays in the
  history with its identity, its resource and all its events, until it is finished by its own completion;
  a finished job is never changed, and it leaves the history only when the history is full.\<close>

theorem job_lifecycle:
  assumes "jobs_reach (J, ds)" and "jobs_step (J, ds) (J', ds')" and "j \<in> set (mj_items J)"
  shows "if is_running j then \<exists>j' \<in> set (mj_items J'). continues j j'
    else j \<in> set (mj_items J') \<or> length (mj_items J) = 128"
proof -
  have ok: "distinct (map jb_ID (mj_items J))" "length (mj_items J) \<le> 128"
    using jobs_reach_ok [OF assms(1)] by (simp_all add: jobs_ok_def)
  have same: ?thesis if "mj_items J' = mj_items J"
    using assms(3) that continues_steps(1) by (auto intro: bexI [of _ j])
  show ?thesis
    using assms(2)
  proof cases
    case (request path meth input c version jid now reply)
    from request_cases [OF request(2)] show ?thesis
    proof (elim disjE exE)
      fix p r
      assume "admit_job (new_job jid p (ov_revision version) now r) J = Inr J'"
      then have "mj_items J' = (if length (mj_items J) \<ge> 128 then evict_first (mj_items J) else mj_items J) @
          [new_job jid p (ov_revision version) now r]"
        by (auto simp: admit_job_def split: if_splits)
      with assms(3) evict_first_mem [OF assms(3)] ok(2) continues_steps(1) show ?thesis by (auto intro: bexI [of _ j])
    qed (use same in auto)
  next
    case (progress job stage now)
    then show ?thesis
      using update_job_step [OF ok(1) _ _ assms(3) continues_steps(2)] by (auto simp: is_running_def split: if_splits)
  next
    case (complete job ou now)
    let ?J = "J\<lparr>mj_resources := removeAll (jb_resource job) (mj_resources J)\<rparr>"
    have "if is_running j then \<exists>j' \<in> set (mj_items J'). continues j j' else j \<in> set (mj_items J')"
      using update_job_step [of ?J job j "finish_job ou now"] complete ok(1) assms(3) continues_steps(3)
      by (simp add: complete_job_def is_running_def)
    then show ?thesis by (auto split: if_splits)
  next
    case (direct resource)
    then show ?thesis by (intro same) (auto simp: reserve_direct_def split: if_splits)
  next
    case (direct_done resource)
    then show ?thesis by (intro same) (simp add: release_direct_def)
  next
    case close
    then show ?thesis by (intro same) (simp add: jobs_close_def)
  qed
qed

subsection \<open>Witnesses\<close>

definition sample_path :: string where
  "sample_path = ''/admin/credentials/k/check''"

definition sample_job :: managementJob where
  "sample_job = new_job ''j1'' sample_path 7 3 ''credential:k''"

definition sample_jobs :: managementJobs where
  "sample_jobs = no_jobs\<lparr>mj_resources := [''credential:k''], mj_items := [sample_job]\<rparr>"

lemma sample_jobs_step:
  "jobs_step (no_jobs, []) (sample_jobs, [])"
proof -
  have m: "managementOperation sample_path" by code_simp
  have r: "operationResource zero_Config sample_path None = ''credential:k''" by code_simp
  have "jobsAdmin ''/admin/jobs'' ''POST'' (Some (sample_path, None)) zero_Config \<lparr>ov_revision = 7, ov_vault = ''''\<rparr> ''j1'' 3 no_jobs
      = (Accepted ''j1'', sample_jobs)"
    by (simp add: jobsAdmin_def jobs_post_def m r admit_job_def no_jobs_def sample_jobs_def sample_job_def) (simp add: new_job_def)
  then show ?thesis by (rule jobs_step.request) (simp add: no_jobs_def)
qed

lemma sample_jobs_reach: "jobs_reach (sample_jobs, [])"
  using sample_jobs_step by (simp add: jobs_reach_def)

theorem jobs_exclusive_witness:
  "length (running sample_jobs) = 1 \<and> length (mj_items sample_jobs) \<le> 128"
  using jobs_exclusive [OF sample_jobs_reach]
  by (simp add: running_def is_running_def sample_jobs_def sample_job_def new_job_def)

theorem job_lifecycle_witness:
  "\<exists>j' \<in> set (mj_items (jobs_close sample_jobs)). continues sample_job j'"
proof -
  have "sample_job \<in> set (mj_items sample_jobs)" "is_running sample_job"
    by (simp_all add: sample_jobs_def is_running_def sample_job_def new_job_def)
  with job_lifecycle [OF sample_jobs_reach jobs_step.close] show ?thesis by simp
qed

end
