(* ===== verification/Sessions.thy ===== *)
theory Sessions
  imports FileStore
begin

section \<open>Conversations of the ChatGPT web driver\<close>

text \<open>
  \<open>internal/chatgptweb/session.go\<close> and \<open>internal/session/session.go\<close>: the bounded map of conversations, its
  lookup with expiry and \<open>previous_response_id\<close>, the administrative actions, and its file.

  The map is an association list, since the code ranges over it. The file is replaced by
  \<open>replace_file\<close>; unlike the other stores a failing \<open>Chmod\<close> is ignored, and the errors of the system are
  passed on (\<open>oserr\<close> is their text). The result of ranging over the map in \<open>get\<close> and \<open>Sessions\<close> is that of the
  listing at hand; the theorems hold for every listing.
\<close>

record Session =
  se_Expires :: time
  se_Created :: time
  se_ID :: string
  se_Source :: string
  se_Account :: string
  se_Conversation :: string
  se_LastNode :: string
  se_ResponseID :: string
  se_Model :: string
  se_Protocol :: string
  se_HistoryHash :: string
  se_HistoryCount :: int
  se_Dirty :: bool
  se_Updated :: time

record SessionMetadata =
  sm_ID :: string
  sm_Source :: string
  sm_Conversation :: string
  sm_Model :: string
  sm_Protocol :: string
  sm_Created :: time
  sm_Updated :: time
  sm_Expired :: bool
  sm_Dirty :: bool

type_synonym sessions = "(string \<times> Session) list"

record sessionStore =
  ss_cfg :: Browser
  ss_items :: sessions
  ss_loadErr :: check

record session_codec =
  sj_Marshal :: "sessions \<Rightarrow> string result"
  sj_Unmarshal :: "string \<Rightarrow> sessions option"


definition newStore :: "session_codec \<Rightarrow> Browser \<Rightarrow> bool \<Rightarrow> fs \<Rightarrow> sessionStore" where
  "newStore J c readable fs =
     (let s = \<lparr>ss_cfg = c, ss_items = [], ss_loadErr = None\<rparr> in
      case fs (browser_StateFile c) of
        None \<Rightarrow> s
      | Some b \<Rightarrow>
          if \<not> readable then s\<lparr>ss_loadErr := Some ''cannot read browser session state''\<rparr>
          else if length b > 4 * 2 ^ 20 then s\<lparr>ss_loadErr := Some ''browser session state too large''\<rparr>
          else (case sj_Unmarshal J b of
                  None \<Rightarrow> s\<lparr>ss_loadErr := Some ''invalid browser session state''\<rparr>
                | Some m \<Rightarrow> s\<lparr>ss_items := m\<rparr>))"

definition sessionExpired :: "time \<Rightarrow> Session \<Rightarrow> int \<Rightarrow> bool" where
  "sessionExpired now v ttl \<longleftrightarrow>
     (se_Expires v \<noteq> 0 \<and> \<not> now < se_Expires v) \<or> now - se_Updated v > wrap64 (ttl * Second)"



definition session_errors :: "string \<Rightarrow> write_errors" where
  "session_errors oserr = \<lparr>we_Mkdir = ''cannot create session state directory'', we_Temp = oserr, we_Write = oserr,
     we_Commit = oserr\<rparr>"

definition session_save :: "session_codec \<Rightarrow> string \<Rightarrow> io \<Rightarrow> fs \<Rightarrow> sessionStore \<Rightarrow> check \<times> fs list" where
  "session_save J oserr os fs s =
     (if \<not> io_MkdirAll os then (Some ''cannot create session state directory'', [fs])
      else (case sj_Marshal J (ss_items s) of
              Inl e \<Rightarrow> (Some e, [fs])
            | Inr b \<Rightarrow> replace_file (session_errors oserr) False (browser_StateFile (ss_cfg s)) b os fs))"

definition stamped :: "time \<Rightarrow> Session option \<Rightarrow> Session \<Rightarrow> Session" where
  "stamped now previous v =
     (let u = v\<lparr>se_Updated := now\<rparr> in
      case previous of
        Some p \<Rightarrow> u\<lparr>se_Created := se_Created p\<rparr>
      | None \<Rightarrow> if se_Created u = 0 then u\<lparr>se_Created := now\<rparr> else u)"

definition session_put :: "session_codec \<Rightarrow> string \<Rightarrow> Session \<Rightarrow> time \<Rightarrow> io \<Rightarrow> fs \<Rightarrow> sessionStore
    \<Rightarrow> check \<times> sessionStore \<times> fs list" where
  "session_put J oserr v now os fs s =
     (case ss_loadErr s of
        Some e \<Rightarrow> (Some e, s, [fs])
      | None \<Rightarrow>
          (let previous = map_of (ss_items s) (se_ID v) in
           if previous = None \<and> int (length (ss_items s)) \<ge> browser_MaxSessions (ss_cfg s)
           then (Some ''browser session capacity exhausted; wait for TTL expiry'', s, [fs])
           else (let s1 = s\<lparr>ss_items := AList.update (se_ID v) (stamped now previous v) (ss_items s)\<rparr> in
                 case session_save J oserr os fs s1 of
                   (None, trace) \<Rightarrow> (None, s1, trace)
                 | (Some e, trace) \<Rightarrow>
                     (Some e, s1\<lparr>ss_items := (case previous of
                        Some p \<Rightarrow> AList.update (se_ID v) p (ss_items s1)
                      | None \<Rightarrow> AList.delete (se_ID v) (ss_items s1))\<rparr>, trace))))"

definition Sessions :: "string \<Rightarrow> time \<Rightarrow> sessionStore \<Rightarrow> SessionMetadata list result" where
  "Sessions source now s =
     (case ss_loadErr s of
        Some e \<Rightarrow> Inl e
      | None \<Rightarrow> Inr (sort_key (\<lambda>m. - sm_Updated m)
          (map (\<lambda>(k, v). \<lparr>sm_ID = se_ID v, sm_Source = se_Source v, sm_Conversation = se_Conversation v, sm_Model = se_Model v,
                sm_Protocol = se_Protocol v, sm_Created = se_Created v, sm_Updated = se_Updated v,
                sm_Expired = sessionExpired now v (browser_SessionTTLSeconds (ss_cfg s)), sm_Dirty = se_Dirty v\<rparr>)
            (filter (\<lambda>(k, v). se_Source v = source) (ss_items s)))))"

definition ReadSessions :: "session_codec \<Rightarrow> Browser \<Rightarrow> string \<Rightarrow> bool \<Rightarrow> fs \<Rightarrow> time \<Rightarrow> SessionMetadata list result" where
  "ReadSessions J c source readable fs now = Sessions source now (newStore J c readable fs)"


subsection \<open>Runs\<close>


interpretation session_file: file_replacement "replace_file (session_errors oserr) False" for oserr
  by (rule replace_file_contract)

lemma session_save_effect:
  assumes "session_save J oserr os fs s = (err, trace)" "io_CreateTemp os \<noteq> Some (browser_StateFile (ss_cfg s))"
  shows "trace \<noteq> [] \<and>
    (if err = None then \<exists>b. sj_Marshal J (ss_items s) = Inr b \<and> hd trace (browser_StateFile (ss_cfg s)) = Some b
     else hd trace (browser_StateFile (ss_cfg s)) = fs (browser_StateFile (ss_cfg s)))"
proof (cases "io_MkdirAll os")
  case False
  then show ?thesis using assms(1) by (auto simp: session_save_def)
next
  case True
  show ?thesis
  proof (cases "sj_Marshal J (ss_items s)")
    case (Inl e)
    then show ?thesis using assms(1) True by (auto simp: session_save_def)
  next
    case (Inr b)
    then have "replace_file (session_errors oserr) False (browser_StateFile (ss_cfg s)) b os fs = (err, trace)"
      using assms(1) True by (simp add: session_save_def)
    from session_file.write_states [OF assms(2) this] Inr show ?thesis by simp
  qed
qed

text \<open>
  A step either only drops expired sessions from memory, or saves a new listing, or fails and restores the
  sessions as a map, though perhaps in another order.
\<close>

definition restored :: "sessionStore \<Rightarrow> fs \<Rightarrow> sessionStore \<Rightarrow> fs \<Rightarrow> bool" where
  "restored s fs s' fs' \<longleftrightarrow> map_of (ss_items s') = map_of (ss_items s) \<and>
     fs' (browser_StateFile (ss_cfg s)) = fs (browser_StateFile (ss_cfg s))"

definition saved :: "session_codec \<Rightarrow> sessionStore \<Rightarrow> fs \<Rightarrow> bool" where
  "saved J s' fs' \<longleftrightarrow> (\<exists>b. sj_Marshal J (ss_items s') = Inr b \<and> fs' (browser_StateFile (ss_cfg s')) = Some b)"

lemma update_length: "length (AList.update k v m) = (if map_of m k = None then Suc (length m) else length m)"
  by (induction m) auto

lemma session_put_effect:
  assumes "session_put J oserr v now os fs s = (err, s', trace)" "io_CreateTemp os \<noteq> Some (browser_StateFile (ss_cfg s))"
    "distinct (map fst (ss_items s))"
  shows "ss_cfg s' = ss_cfg s \<and> ss_loadErr s' = ss_loadErr s \<and> distinct (map fst (ss_items s')) \<and>
    (if err = None
     then saved J s' (hd trace) \<and> int (length (ss_items s')) \<le> max (int (length (ss_items s))) (browser_MaxSessions (ss_cfg s)) \<and>
       ss_items s' = AList.update (se_ID v) (stamped now (map_of (ss_items s) (se_ID v)) v) (ss_items s)
     else restored s fs s' (hd trace))"
proof (cases "ss_loadErr s \<noteq> None \<or> map_of (ss_items s) (se_ID v) = None \<and> int (length (ss_items s)) \<ge> browser_MaxSessions (ss_cfg s)")
  case True
  then have "err \<noteq> None \<and> s' = s \<and> trace = [fs]"
    using assms(1) by (cases "ss_loadErr s") (simp_all add: session_put_def Let_def, blast+)
  then show ?thesis using assms(3) by (auto simp: restored_def)
next
  case False
  let ?m = "AList.update (se_ID v) (stamped now (map_of (ss_items s) (se_ID v)) v) (ss_items s)"
  let ?s1 = "s\<lparr>ss_items := ?m\<rparr>"
  obtain e tr where sv: "session_save J oserr os fs ?s1 = (e, tr)" by fastforce
  have sz: "int (length ?m) \<le> max (int (length (ss_items s))) (browser_MaxSessions (ss_cfg s))"
    using False by (auto simp: update_length)
  have eff: "if e = None then saved J ?s1 (hd tr)
      else hd tr (browser_StateFile (ss_cfg s)) = fs (browser_StateFile (ss_cfg s))"
    using session_save_effect [OF sv] assms(2) by (auto simp: saved_def)
  show ?thesis
  proof (cases e)
    case None
    then show ?thesis using assms(1,3) False sv eff sz by (auto simp: session_put_def Let_def distinct_update)
  next
    case (Some x)
    then show ?thesis using assms(1,3) False sv eff
      by (auto simp: session_put_def Let_def restored_def distinct_update distinct_delete fun_eq_iff split: option.splits)
  qed
qed


subsection \<open>Restarts\<close>














text \<open>
  The limit is needed: a listing that encodes to more than four megabytes is saved, and the next start
  refuses the whole file.
\<close>

lemma oversized_state_is_lost:
  assumes "session_put J oserr v now os fs s = (None, s', trace)" "io_CreateTemp os \<noteq> Some (browser_StateFile (ss_cfg s))"
    "distinct (map fst (ss_items s))" "\<And>b. sj_Marshal J (ss_items s') = Inr b \<Longrightarrow> length b > 4 * 2 ^ 20"
  shows "ss_loadErr (newStore J (ss_cfg s) True (hd trace)) = Some ''browser session state too large''"
proof -
  have "saved J s' (hd trace)" "ss_cfg s' = ss_cfg s" using session_put_effect [OF assms(1-3)] by simp_all
  then obtain b where "hd trace (browser_StateFile (ss_cfg s)) = Some b" "length b > 4 * 2 ^ 20"
    using assms(4) by (auto simp: saved_def)
  then show ?thesis by (simp add: newStore_def)
qed

subsection \<open>A witness\<close>




end
