(* ===== verification/Spec2Isabelle.thy ===== *)
theory Spec2Isabelle
  imports RouterQueue Scoring RouterStatus RouterEvents RouterPolicy ConfigProps ConfigService RequestProps
    Attempts Generate VaultAccounts Envelope Jobs Sessions
begin

text \<open>
  \<^bold>\<open>A verification library for the token gateway.\<close>

  The program is a gateway for language-model services. A request arrives at \<open>internal/api/server.go\<close>,
  its body is inspected (\<open>internal/protocol/request.go\<close>), the router chooses a source and hands out a
  lease (\<open>internal/routing\<close>), the request is sent upstream with the model name rewritten, perhaps to
  another source after a refusal (\<open>internal/api/attempts.go\<close>), and the answer is streamed back event by
  event (\<open>internal/api/stream.go\<close>, \<open>internal/protocol/sse.go\<close>, \<open>execution.go\<close>). The configuration
  (\<open>internal/config\<close>) is validated against the provider registry (\<open>internal/providerdef\<close>), versioned by
  the configuration service, and replaced while requests are in flight.

  \<^bold>\<open>Foundations.\<close> \<open>Prelude\<close> has the shared lemmas and the conventions: a \<open>uint64\<close> is a \<open>64 word\<close>, an
  \<open>int\<close> an \<open>int\<close> with \<open>wrap64\<close> where it can overflow, a time a number of nanoseconds. \<open>Float64\<close> has the
  IEEE numbers the scores use, \<open>Sha256\<close> the digest of affinity hashing, \<open>GoStrings\<close>, \<open>GoNet\<close> and \<open>GoJson\<close>
  what the code uses of \<open>strings\<close>, \<open>bytes\<close>, \<open>strconv\<close>, \<open>net\<close>, \<open>net/url\<close> and \<open>encoding/json\<close>.

  \<^bold>\<open>Router.\<close> \<open>Config\<close>, \<open>ExecutionResult\<close>, \<open>Router\<close>, \<open>Choose\<close> and \<open>Dispatch\<close> are the data and the
  operations: compilation of a configuration, eligibility, the scan for the best candidate, \<open>Acquire\<close>,
  \<open>Release\<close>, \<open>RecordExecution\<close>, \<open>FirstOutput\<close>, \<open>SetEnabled\<close> and \<open>Adopt\<close>, on an explicit store, since a
  hot update shares the counters of the old and the new router. \<open>RouterMachine\<close> is the transition system
  of all interleavings of these operations under the mutex, with the locale \<open>router_invariant\<close> that turns
  a preservation proof per operation into a fact about all reachable states. \<open>Accounting\<close>,
  \<open>Reconfigure\<close> and \<open>Linking\<close> prove its invariants: the counters count the leases, and a hot update
  keeps all routers and leases linked to the same counters. \<open>CapacityProps\<close>, \<open>RouterQueue\<close>,
  \<open>Scoring\<close> (over \<open>ChooseSpec\<close>), \<open>RouterStatus\<close>, \<open>RouterEvents\<close> and \<open>RouterPolicy\<close> hold the properties:
  limits across generations, the queue, optimal choice, faithful reports and simulation, the event
  log, and policy. \<open>Samples\<close> has the concrete states of the witnesses.

  \<^bold>\<open>Configuration.\<close> \<open>ProviderDef\<close> is the registry, \<open>ConfigValidate\<close> the validation with every error
  text; the loops over identifiers share the locale \<open>unique_loop\<close>. \<open>ConfigProps\<close> shows what a validated
  configuration guarantees, the well-formedness the router relies on included. \<open>ConfigService\<close> is the
  versioned update with prepare, atomic replacement of the journal under failing system calls, and
  commit or discard.

  \<^bold>\<open>Requests.\<close> \<open>RequestScan\<close> is the byte scanner with its indices, \<open>RequestProofs\<close> and \<open>InspectProofs\<close>
  relate it to the JSON grammar, \<open>RequestProps\<close> holds the properties: no index out of range, agreement
  with a JSON parser, and that rewriting changes only the model.

  \<^bold>\<open>Answers.\<close> \<open>SSE\<close> is the event reader over its buffer and the specification of events without one;
  \<open>Observer\<close> the completion observer, with the locale \<open>observer_relation\<close> for relations that every
  observation keeps; \<open>StreamResponse\<close> composes both with the lease and the client. \<open>Attempts\<close> is the
  failover loop as a step relation interleaved with all other router steps. \<open>Generate\<close> is the request
  handler as a log of effects on the shared counters, with all deferred functions.

  \<^bold>\<open>Stores.\<close> The evidence history (\<open>internal/evidence\<close>), the credential vault (\<open>internal/credentials\<close>) and
  the sessions of the web driver (\<open>internal/chatgptweb/session.go\<close>) live in memory and in one file each.
  \<open>FileStore\<close> is the replacement of a file by a sequence of system calls that may fail, with the locale
  \<open>file_replacement\<close> for its contract, interpreted on the write of every store, the configuration journal
  included, and the locale \<open>durable_store\<close> that extends it by a codec. \<open>Evidence\<close> shows that the history on
  disk is the history in memory. \<open>Vault\<close> has the records of \<open>store.go\<close>, \<open>oauth.go\<close>, \<open>external.go\<close>,
  \<open>accounts.go\<close> and \<open>token_import.go\<close> with their operations; \<open>ResolveContext\<close> and a token refresh are cut where the
  code releases its mutex. \<open>VaultProps\<close> is the step relation of all interleavings, with the facts that a
  deleted reference stays deleted and that a refresh never overwrites newer material. \<open>VaultAccounts\<close> has
  both file formats and the migration between them, and shows that the file follows the memory and that
  a migration loses nothing. \<open>Envelope\<close> is the sealed format of the vault file (\<open>key_envelope.go\<close>) with its
  round trip. \<open>Sessions\<close> shows that a restart changes nothing a client can see.

  \<^bold>\<open>Control plane.\<close> \<open>Control\<close> is the part of \<open>internal/api/control.go\<close>, \<open>credential_binding.go\<close> and
  \<open>account_material.go\<close> that turns a desired configuration and the vault into a runtime, publishes it,
  pins generations for requests and closes servers; it contains the routing system, so that publication
  is proved to succeed on every state the router can be in. \<open>Jobs\<close> is \<open>internal/api/jobs.go\<close>: long
  operations with their resources, progress, final state and history, as a step relation.

  \<^bold>\<open>Bounds and fuel.\<close> Loops recurse with a measure. The JSON parser and the trimming of white space take
  a fuel that the length of the input bounds, with lemmas that it is enough. The loops that read an
  upload are partial functions, whose result \<open>None\<close> stands for a loop that never returns; for chunked
  uploads that case is proved impossible. Float scores are exact IEEE operations, not reals.

  \<^bold>\<open>Inputs.\<close> Code outside the repository and the surroundings are arguments: clock readings, results of
  system calls, of reads and writes, of upstream calls, the printability table of \<open>unicode\<close>, random
  identifiers. The JSON codecs of the files are records of an encoder and a decoder; the theorems that
  reopen a file assume that the decoder reads back what the encoder wrote. Cipher and key ring of the
  envelope, the provider catalogue and the proof text of an account are arguments in the same way.

  \<^bold>\<open>Not modelled.\<close> The provider adapters and the upstream client (wire formats of external services), the
  browser and device drivers, the platform key rings, and the commands: they consist of I/O, generated or
  external formats. Of the administration API the endpoints that decode a request, call an operation
  modelled here and print its result are left out, and the verification of accounts against live services;
  of the credential store the process call of a password manager and the request of a token refresh,
  whose answers are inputs. Of \<open>server.go\<close> the closing of the server, the listing of models, the cleaning
  of error texts by a regular expression and the parsing of \<open>Retry-After\<close> dates are left out.
\<close>

end
